(* ===== verification/Prelude.thy ===== *)
theory Prelude
  imports Main "HOL-Library.Word" "HOL-Library.Monad_Syntax" "HOL-Library.Multiset"
begin

unbundle bit_operations_syntax

text \<open>
  Shared vocabulary of the development: the machine types of the simulator, the model of an
  aborting C run (\<open>assert\<close>, \<open>panic\<close>, \<open>fatal\<close>), preservation of an invariant by a partial state
  transformer, and the scan of a circular queue that the miss queue, the write-back queue and
  the router input buffers all use.
\<close>

section \<open>Machine types\<close>

text \<open>
  \<open>md_addr_t\<close> (mips.h) is a 32-bit unsigned word. \<open>tick_t\<close> and \<open>counter_t\<close> (host.h) are signed
  64-bit counters in the default build; no component relies on their wrap-around, so they are
  unbounded integers here.
\<close>

type_synonym md_addr_t = "32 word"
type_synonym tick_t = int
type_synonym counter_t = int

section \<open>Runs that abort\<close>

text \<open>
  A C function that may stop the simulator returns an \<open>option\<close>: \<open>None\<close> is the run that ended in
  \<open>assert\<close>, \<open>panic\<close> or \<open>fatal\<close>, \<open>Some s\<close> the state the function leaves.
\<close>

definition assertion :: "bool \<Rightarrow> unit option" where
  "assertion b = (if b then Some () else None)"

lemma assertion_simps [simp]:
  "assertion True = Some ()"
  "assertion False = None"
  "(assertion b = Some u) = b"
  "(assertion b = None) = (\<not> b)"
  by (auto simp: assertion_def)

lemma bind_assertion_Some [simp]:
  "(assertion b \<bind> f = Some s) = (b \<and> f () = Some s)"
  by (cases b) auto

section \<open>Preservation\<close>

text \<open>\<open>preserves P f\<close>: whenever \<open>f\<close> does not abort from a \<open>P\<close>-state, it ends in a \<open>P\<close>-state.\<close>

definition preserves :: "('s \<Rightarrow> bool) \<Rightarrow> ('s \<Rightarrow> 's option) \<Rightarrow> bool" where
  "preserves P f \<longleftrightarrow> (\<forall>s s'. P s \<longrightarrow> f s = Some s' \<longrightarrow> P s')"

named_theorems preserves_intros \<open>introduction rules for preserves\<close>

lemma preservesI:
  assumes "\<And>s s'. P s \<Longrightarrow> f s = Some s' \<Longrightarrow> P s'"
  shows "preserves P f"
  unfolding preserves_def using assms by blast

lemma preservesD: "preserves P f \<Longrightarrow> f s = Some s' \<Longrightarrow> P s \<Longrightarrow> P s'"
  unfolding preserves_def by blast

lemma preserves_Some [preserves_intros]: "preserves P Some"
  by (simp add: preserves_def)

lemma preserves_bind [preserves_intros]:
  assumes "preserves P f" and "preserves P g"
  shows "preserves P (\<lambda>s. f s \<bind> g)"
proof (rule preservesI)
  fix s s' assume "P s" and "f s \<bind> g = Some s'"
  then obtain t where "f s = Some t" "g t = Some s'" by (auto simp: bind_eq_Some_conv)
  with \<open>P s\<close> assms show "P s'" by (blast dest: preservesD)
qed

lemma preserves_if [preserves_intros]:
  assumes "preserves P f" and "preserves P g"
  shows "preserves P (\<lambda>s. if b s then f s else g s)"
  by (rule preservesI) (auto split: if_splits dest: preservesD [OF assms(1)] preservesD [OF assms(2)])

text \<open>Running a partial transformer over the indices of a loop.\<close>

fun fold_opt :: "('a \<Rightarrow> 's \<Rightarrow> 's option) \<Rightarrow> 'a list \<Rightarrow> 's \<Rightarrow> 's option" where
  "fold_opt f [] s = Some s"
| "fold_opt f (x # xs) s = (case f x s of None \<Rightarrow> None | Some s' \<Rightarrow> fold_opt f xs s')"

lemma fold_opt_append:
  "fold_opt f (xs @ ys) s = (case fold_opt f xs s of None \<Rightarrow> None | Some s' \<Rightarrow> fold_opt f ys s')"
  by (induction xs arbitrary: s) (auto split: option.splits)

lemma fold_opt_invariant:
  assumes "\<And>x s s'. x \<in> set xs \<Longrightarrow> P s \<Longrightarrow> f x s = Some s' \<Longrightarrow> P s'"
    and "P s" and "fold_opt f xs s = Some s'"
  shows "P s'"
  using assms
proof (induction xs arbitrary: s)
  case Nil
  then show ?case by simp
next
  case (Cons x xs)
  from Cons.prems(3) obtain t where t: "f x s = Some t" "fold_opt f xs t = Some s'"
    by (auto split: option.splits)
  have "P t" using Cons.prems(1) [of x s t] Cons.prems(2) t(1) by simp
  then show ?case using Cons.IH [of t] Cons.prems(1) t(2) by auto
qed

lemma preserves_fold_opt [preserves_intros]:
  assumes "\<And>x. preserves P (f x)"
  shows "preserves P (fold_opt f xs)"
proof (rule preservesI)
  fix s s' assume "P s" "fold_opt f xs s = Some s'"
  then show "P s'"
    by (rule fold_opt_invariant [rotated]) (rule preservesD [OF assms])
qed

section \<open>Runs that stay in a relation\<close>

text \<open>\<open>steps R s m\<close>: the run \<open>m\<close>, if it does not abort, ends in a state related to \<open>s\<close>; \<open>steps2\<close> is the same
  for a run that also returns a value. For a transitive \<open>R\<close> runs compose.\<close>

definition steps :: "('s \<Rightarrow> 's \<Rightarrow> bool) \<Rightarrow> 's \<Rightarrow> 's option \<Rightarrow> bool" where
  "steps R s m \<longleftrightarrow> (\<forall>s'. m = Some s' \<longrightarrow> R s s')"

definition steps2 :: "('s \<Rightarrow> 's \<Rightarrow> bool) \<Rightarrow> 's \<Rightarrow> ('b \<times> 's) option \<Rightarrow> bool" where
  "steps2 R s m \<longleftrightarrow> (\<forall>b s'. m = Some (b, s') \<longrightarrow> R s s')"

lemma stepsD: "steps R s m \<Longrightarrow> m = Some s' \<Longrightarrow> R s s'"
  by (simp add: steps_def)

lemma steps2D: "steps2 R s m \<Longrightarrow> m = Some (b, s') \<Longrightarrow> R s s'"
  by (auto simp: steps2_def)

lemma steps_simps [simp]:
  "steps R s None" "steps2 R s None"
  "steps R s (Some s') = R s s'" "steps2 R s (Some (x, s')) = R s s'"
  by (simp_all add: steps_def steps2_def)

lemma steps_assertion [simp]:
  "steps R s (assertion b \<bind> f) = (b \<longrightarrow> steps R s (f ()))"
  "steps2 R s (assertion b \<bind> g) = (b \<longrightarrow> steps2 R s (g ()))"
  by (cases b; simp)+

lemma steps_bind:
  assumes "transp R" and "steps R s m" and "\<And>s1. R s s1 \<Longrightarrow> steps R s1 (f s1)"
  shows "steps R s (m \<bind> f)"
proof (cases m)
  case (Some s1)
  with assms(2,3) have "R s s1" and "steps R s1 (f s1)" by simp_all
  with \<open>transp R\<close> Some show ?thesis unfolding steps_def by (simp, blast dest: transpD)
qed simp

lemma steps_bind2:
  assumes "transp R" and "steps2 R s m" and "\<And>b s1. R s s1 \<Longrightarrow> steps R s1 (f (b, s1))"
  shows "steps R s (m \<bind> f)"
proof (cases m)
  case (Some y)
  obtain b s1 where y: "y = (b, s1)" by (rule prod.exhaust)
  with Some assms(2,3) have "R s s1" and "steps R s1 (f (b, s1))" by simp_all
  with \<open>transp R\<close> Some y show ?thesis unfolding steps_def by (simp, blast dest: transpD)
qed simp

lemma steps2_bind:
  assumes "transp R" and "steps R s m" and "\<And>s1. R s s1 \<Longrightarrow> steps2 R s1 (f s1)"
  shows "steps2 R s (m \<bind> f)"
proof (cases m)
  case (Some s1)
  with assms(2,3) have "R s s1" and "steps2 R s1 (f s1)" by simp_all
  with \<open>transp R\<close> Some show ?thesis unfolding steps2_def by (simp, blast dest: transpD)
qed simp

lemma steps2_bind2:
  assumes "transp R" and "steps2 R s m" and "\<And>b s1. R s s1 \<Longrightarrow> steps2 R s1 (f (b, s1))"
  shows "steps2 R s (m \<bind> f)"
proof (cases m)
  case (Some y)
  obtain b s1 where y: "y = (b, s1)" by (rule prod.exhaust)
  with Some assms(2,3) have "R s s1" and "steps2 R s1 (f (b, s1))" by simp_all
  with \<open>transp R\<close> Some y show ?thesis unfolding steps2_def by (simp, blast dest: transpD)
qed simp

text \<open>A value that is read, or a state update in between.\<close>

lemma steps_read: "(\<And>x. m = Some x \<Longrightarrow> steps R s (f x)) \<Longrightarrow> steps R s (m \<bind> f)"
  by (cases m) auto

lemma steps2_read: "(\<And>x. m = Some x \<Longrightarrow> steps2 R s (f x)) \<Longrightarrow> steps2 R s (m \<bind> f)"
  by (cases m) auto

lemma steps_from: "transp R \<Longrightarrow> R s t \<Longrightarrow> steps R t m \<Longrightarrow> steps R s m"
  unfolding steps_def transp_def by blast

lemma steps2_from: "transp R \<Longrightarrow> R s t \<Longrightarrow> steps2 R t m \<Longrightarrow> steps2 R s m"
  unfolding steps2_def transp_def by blast

lemma steps_if:
  "(b \<Longrightarrow> steps R s x) \<Longrightarrow> (\<not> b \<Longrightarrow> steps R s y) \<Longrightarrow> steps R s (if b then x else y)"
  "(b \<Longrightarrow> steps2 R s u) \<Longrightarrow> (\<not> b \<Longrightarrow> steps2 R s v) \<Longrightarrow> steps2 R s (if b then u else v)"
  by simp_all

lemma steps_option:
  "(x = None \<Longrightarrow> steps R s m) \<Longrightarrow> (\<And>a. x = Some a \<Longrightarrow> steps R s (f a)) \<Longrightarrow>
   steps R s (case x of None \<Rightarrow> m | Some a \<Rightarrow> f a)"
  "(x = None \<Longrightarrow> steps2 R s m') \<Longrightarrow> (\<And>a. x = Some a \<Longrightarrow> steps2 R s (g a)) \<Longrightarrow>
   steps2 R s (case x of None \<Rightarrow> m' | Some a \<Rightarrow> g a)"
  by (cases x; simp)+

lemma steps_map: "transp R \<Longrightarrow> steps R s m \<Longrightarrow> (\<And>t. R s t \<Longrightarrow> R t (f t)) \<Longrightarrow> steps R s (map_option f m)"
  unfolding steps_def transp_def by (cases m) auto

lemma steps2_Pair: "steps R s m \<Longrightarrow> steps2 R s (map_option (Pair b) m)"
  unfolding steps_def steps2_def by (cases m) auto

lemma steps_snd: "steps2 R s m \<Longrightarrow> steps R s (map_option snd m)"
  unfolding steps_def steps2_def by (cases m) auto

lemma steps_fold:
  assumes "reflp R" and "transp R" and "\<And>x t. R s t \<Longrightarrow> x \<in> set xs \<Longrightarrow> steps R t (f x t)"
  shows "steps R s (fold_opt f xs s)"
proof -
  have "R s t \<Longrightarrow> set ys \<subseteq> set xs \<Longrightarrow> steps R t (fold_opt f ys t)" for ys t
  proof (induction ys arbitrary: t)
    case Nil
    then show ?case using assms(1) by (simp add: reflpD)
  next
    case (Cons y ys)
    then have y: "steps R t (f y t)" using assms(3) by simp
    show ?case
    proof (cases "f y t")
      case (Some u)
      then have "R t u" using y by (simp add: steps_def)
      then have "R s u" using Cons.prems(1) assms(2) by (blast dest: transpD)
      then have "steps R u (fold_opt f ys u)" using Cons by simp
      then show ?thesis using Some \<open>R t u\<close> steps_from [OF assms(2)] by simp
    qed simp
  qed
  then show ?thesis using assms(1) by (simp add: reflpD)
qed

section \<open>Circular scans\<close>

text \<open>
  \<^verbatim>\<open>
  i = start;
  do { if (p(i)) break; i = (i + 1) % n; } while (i != start);
  \<close>
  The loop looks at the \<open>n\<close> slots in ring order and stops at the first that satisfies \<open>p\<close>.
\<close>

definition ring_order :: "nat \<Rightarrow> nat \<Rightarrow> nat list" where
  "ring_order start n = map (\<lambda>k. (start + k) mod n) [0..<n]"

definition ring_scan :: "nat \<Rightarrow> nat \<Rightarrow> (nat \<Rightarrow> bool) \<Rightarrow> nat option" where
  "ring_scan start n p = find p (ring_order start n)"

lemma length_ring_order [simp]: "length (ring_order start n) = n"
  by (simp add: ring_order_def)

lemma set_ring_order: "set (ring_order start n) = {0..<n}"
proof (cases "n = 0")
  case False
  show ?thesis
  proof
    show "set (ring_order start n) \<subseteq> {0..<n}"
      using False by (auto simp: ring_order_def)
    show "{0..<n} \<subseteq> set (ring_order start n)"
    proof
      fix i assume "i \<in> {0..<n}"
      then have i: "i < n" by simp
      define k where "k = (i + (n - start mod n)) mod n"
      have "(start + k) mod n = (start mod n + (i + (n - start mod n))) mod n"
        by (simp add: k_def mod_simps)
      also have "start mod n + (i + (n - start mod n)) = i + n"
        using False mod_less_divisor [of n start] by linarith
      also have "(i + n) mod n = i mod n" by simp
      also have "i mod n = i" using i by simp
      finally have "(start + k) mod n = i" .
      moreover have "k < n" using False by (simp add: k_def)
      ultimately show "i \<in> set (ring_order start n)"
        by (force simp: ring_order_def)
    qed
  qed
qed (simp add: ring_order_def)

lemma ring_scan_Some: "ring_scan start n p = Some i \<Longrightarrow> i < n \<and> p i"
  using set_ring_order [of start n]
  by (auto simp: ring_scan_def find_Some_iff)

lemma ring_scan_None: "ring_scan start n p = None \<longleftrightarrow> (\<forall>i<n. \<not> p i)"
  by (auto simp: ring_scan_def find_None_iff set_ring_order)

lemma ring_scan_ex: "i < n \<Longrightarrow> p i \<Longrightarrow> \<exists>j. ring_scan start n p = Some j"
  using ring_scan_None [of start n p] by (cases "ring_scan start n p") auto

text \<open>Positions in ring order are different, and the scan stops at the first that satisfies \<open>p\<close>.\<close>

lemma ring_inject:
  assumes "(s + j) mod n = (s + k) mod (n::nat)" and "j < n" and "k < n"
  shows "j = k"
proof -
  have "j = k" if "j \<le> k" "(s + j) mod n = (s + k) mod n" "k < n" for j k
  proof -
    have "(s + k) mod n = (s + j) mod n" using that(2) by simp
    then have "n dvd (s + k) - (s + j)" using that(1) by (simp add: mod_eq_dvd_iff_nat)
    then have "n dvd k - j" by simp
    then show "j = k" using that(1,3) by (auto dest: dvd_imp_le)
  qed
  then show ?thesis using assms by (metis nat_le_linear)
qed

lemma ring_scan_first:
  assumes "k < n" and "p ((s + k) mod n)" and "\<And>j. j < k \<Longrightarrow> \<not> p ((s + j) mod n)"
  shows "ring_scan s n p = Some ((s + k) mod n)"
  unfolding ring_scan_def find_Some_iff
  by (rule exI [of _ k]) (use assms in \<open>auto simp: ring_order_def\<close>)

section \<open>Walks over sorted lists\<close>

text \<open>A walk that stops at the first element failing \<open>p\<close> sees every element that satisfies \<open>p\<close>
  when \<open>p\<close> is downward closed in the order of the list.\<close>

lemma sorted_wrt_takeWhile:
  assumes "sorted_wrt R q" and "\<And>a b. R a b \<Longrightarrow> p b \<Longrightarrow> p a"
  shows "takeWhile p q = filter p q" and "dropWhile p q = filter (\<lambda>e. \<not> p e) q"
proof -
  have "takeWhile p q = filter p q \<and> dropWhile p q = filter (\<lambda>e. \<not> p e) q"
    using assms(1)
  proof (induction q)
    case (Cons a q)
    show ?case
    proof (cases "p a")
      case True
      with Cons show ?thesis by simp
    next
      case False
      with Cons.prems assms(2) have "\<forall>x\<in>set q. \<not> p x" by auto
      then have "filter p q = []" "filter (\<lambda>e. \<not> p e) q = q"
        by (simp_all add: filter_empty_conv filter_id_conv)
      with False show ?thesis by simp
    qed
  qed simp
  then show "takeWhile p q = filter p q" and "dropWhile p q = filter (\<lambda>e. \<not> p e) q" by auto
qed

section \<open>Counting\<close>

text \<open>The number of slots below \<open>n\<close> that satisfy a predicate, and how one update changes it.\<close>

definition count_below :: "nat \<Rightarrow> (nat \<Rightarrow> bool) \<Rightarrow> nat" where
  "count_below n p = card {i. i < n \<and> p i}"

lemma count_below_le: "count_below n p \<le> n"
proof -
  have "card {i. i < n \<and> p i} \<le> card {..<n}" by (rule card_mono) auto
  then show ?thesis by (simp add: count_below_def)
qed

lemma count_below_cong: "(\<And>i. i < n \<Longrightarrow> p i = q i) \<Longrightarrow> count_below n p = count_below n q"
  unfolding count_below_def by (rule arg_cong [where f = card]) auto

lemma count_below_0 [simp]: "count_below 0 p = 0"
  by (simp add: count_below_def)

lemma count_below_Suc: "count_below (Suc n) p = count_below n p + (if p n then 1 else 0)"
proof -
  have "{i. i < Suc n \<and> p i} = {i. i < n \<and> p i} \<union> (if p n then {n} else {})"
    by (auto simp: less_Suc_eq)
  then show ?thesis by (simp add: count_below_def)
qed

lemma count_below_add:
  assumes "k < n" and "\<not> p k" and "q k" and "\<And>i. i < n \<Longrightarrow> i \<noteq> k \<Longrightarrow> q i = p i"
  shows "count_below n q = Suc (count_below n p)"
proof -
  have "{i. i < n \<and> q i} = insert k {i. i < n \<and> p i}" using assms by auto
  moreover have "k \<notin> {i. i < n \<and> p i}" using assms by simp
  ultimately show ?thesis by (simp add: count_below_def)
qed

lemma count_below_full: "count_below n p = n \<longleftrightarrow> (\<forall>i<n. p i)"
proof (induction n)
  case (Suc n)
  have "count_below n p \<le> n" by (rule count_below_le)
  with Suc show ?case by (auto simp: count_below_Suc less_Suc_eq split: if_splits)
qed simp

lemma count_below_less: "count_below n p < n \<Longrightarrow> \<exists>i<n. \<not> p i"
  using count_below_full [of n p] by auto

lemma count_below_zero: "count_below n p = 0 \<longleftrightarrow> (\<forall>i<n. \<not> p i)"
  by (auto simp: count_below_def)

end
