(* ===== verification/Bitmap.thy ===== *)
theory Bitmap
  imports Prelude
begin

unbundle bit_operations_syntax

text \<open>
  The bit-map macros of bitmap.h. A map is an array of 32-bit words; \<open>SZ\<close> is the number of words
  the macro walks over. The macros write \<open>BMAP[i]\<close> for \<open>i < SZ\<close> only, which the model keeps: words
  past \<open>SZ\<close> are left as they are.
\<close>

type_synonym bitmap = "32 word list"

section \<open>The macros\<close>

definition BITMAP_SIZE :: "nat \<Rightarrow> nat" where
  "BITMAP_SIZE bits = (bits + 31) div 32"

definition BITMAP_SET_MAP :: "bitmap \<Rightarrow> nat \<Rightarrow> bitmap" where
  "BITMAP_SET_MAP bm sz = replicate sz 0xffffffff @ drop sz bm"

definition BITMAP_CLEAR_MAP :: "bitmap \<Rightarrow> nat \<Rightarrow> bitmap" where
  "BITMAP_CLEAR_MAP bm sz = replicate sz 0 @ drop sz bm"

definition BITMAP_SET :: "bitmap \<Rightarrow> nat \<Rightarrow> bitmap" where
  "BITMAP_SET bm b = bm[b div 32 := (bm ! (b div 32)) OR push_bit (b mod 32) 1]"

definition BITMAP_CLEAR :: "bitmap \<Rightarrow> nat \<Rightarrow> bitmap" where
  "BITMAP_CLEAR bm b = bm[b div 32 := (bm ! (b div 32)) AND NOT (push_bit (b mod 32) 1)]"

definition BITMAP_COPY :: "bitmap \<Rightarrow> bitmap \<Rightarrow> nat \<Rightarrow> bitmap" where
  "BITMAP_COPY dest src sz = take sz src @ drop sz dest"

definition BITMAP_OP ::
  "(32 word \<Rightarrow> 32 word \<Rightarrow> 32 word) \<Rightarrow> bitmap \<Rightarrow> bitmap \<Rightarrow> bitmap \<Rightarrow> nat \<Rightarrow> bitmap" where
  "BITMAP_OP f b1 b2 b3 sz = map2 f (take sz b2) (take sz b3) @ drop sz b1"

definition BITMAP_IOR :: "bitmap \<Rightarrow> bitmap \<Rightarrow> bitmap \<Rightarrow> nat \<Rightarrow> bitmap" where
  "BITMAP_IOR = BITMAP_OP (\<lambda>x y. x OR y)"

definition BITMAP_XOR :: "bitmap \<Rightarrow> bitmap \<Rightarrow> bitmap \<Rightarrow> nat \<Rightarrow> bitmap" where
  "BITMAP_XOR = BITMAP_OP (\<lambda>x y. x XOR y)"

definition BITMAP_AND :: "bitmap \<Rightarrow> bitmap \<Rightarrow> bitmap \<Rightarrow> nat \<Rightarrow> bitmap" where
  "BITMAP_AND = BITMAP_OP (\<lambda>x y. x AND y)"

definition BITMAP_NOT :: "bitmap \<Rightarrow> bitmap \<Rightarrow> nat \<Rightarrow> bitmap" where
  "BITMAP_NOT b1 b2 sz = map (\<lambda>x. NOT x) (take sz b2) @ drop sz b1"

definition BITMAP_EMPTY_P :: "bitmap \<Rightarrow> nat \<Rightarrow> bool" where
  "BITMAP_EMPTY_P bm sz = (fold (\<lambda>w res. res OR w) (take sz bm) 0 = 0)"

definition BITMAP_DISJOINT_P :: "bitmap \<Rightarrow> bitmap \<Rightarrow> nat \<Rightarrow> bool" where
  "BITMAP_DISJOINT_P b1 b2 sz =
     (fold (\<lambda>w res. res OR w) (map2 (\<lambda>x y. x AND y) (take sz b1) (take sz b2)) 0 = 0)"

definition BITMAP_SET_P :: "bitmap \<Rightarrow> nat \<Rightarrow> bool" where
  "BITMAP_SET_P bm b = ((bm ! (b div 32)) AND push_bit (b mod 32) 1 \<noteq> 0)"

text \<open>
  \<open>BITMAP_COUNT_ONES\<close> shifts each word right 32 times and counts the shifts that lose a bit.
\<close>

fun count_ones_word :: "nat \<Rightarrow> 32 word \<Rightarrow> nat" where
  "count_ones_word 0 w = 0"
| "count_ones_word (Suc j) w =
     (let w' = drop_bit 1 w; new_val = push_bit 1 w'
      in (if w \<noteq> new_val then 1 else 0) + count_ones_word j w')"

definition BITMAP_COUNT_ONES :: "bitmap \<Rightarrow> nat \<Rightarrow> nat" where
  "BITMAP_COUNT_ONES bm sz = sum_list (map (count_ones_word 32) (take sz bm))"

section \<open>Bits of a map\<close>

definition bitmap_bit :: "bitmap \<Rightarrow> nat \<Rightarrow> bool" where
  "bitmap_bit bm b = bit (bm ! (b div 32)) (b mod 32)"

lemma and_push_bit_1_iff: "((w::32 word) AND push_bit n 1 \<noteq> 0) = bit w n"
proof
  assume "w AND push_bit n 1 \<noteq> 0"
  then have "\<exists>k. bit (w AND push_bit n 1) k" by (metis bit_eqI bit_0_eq bot_apply bot_bool_def)
  then show "bit w n"
    by (auto simp only: bit_and_iff bit_push_bit_iff bit_1_iff) (metis diff_is_0_eq le_antisym)
next
  assume b: "bit w n"
  then have "n < 32" using bit_imp_le_length [of w n] by simp
  with b have "bit (w AND push_bit n 1) n"
    by (auto simp only: bit_and_iff bit_push_bit_iff bit_1_iff) simp_all
  then show "w AND push_bit n 1 \<noteq> 0" by (metis bit_0_eq bot_apply bot_bool_def)
qed

lemma BITMAP_SET_P_bit: "BITMAP_SET_P bm b = bitmap_bit bm b"
  unfolding BITMAP_SET_P_def bitmap_bit_def by (rule and_push_bit_1_iff)

lemma same_bit_position: "(b div 32 = c div 32 \<and> b mod 32 = c mod 32) = (b = (c::nat))"
  by (metis div_mult_mod_eq)

lemma bitmap_bit_BITMAP_SET:
  assumes "b div 32 < length bm"
  shows "bitmap_bit (BITMAP_SET bm b) c = (bitmap_bit bm c \<or> c = b)"
  using assms same_bit_position [of b c]
  by (auto simp: BITMAP_SET_def bitmap_bit_def nth_list_update bit_simps)

lemma bitmap_bit_BITMAP_CLEAR:
  assumes "b div 32 < length bm"
  shows "bitmap_bit (BITMAP_CLEAR bm b) c = (bitmap_bit bm c \<and> c \<noteq> b)"
  using assms same_bit_position [of b c] bit_imp_le_length [of "bm ! (c div 32)" "c mod 32"]
  by (auto simp: BITMAP_CLEAR_def bitmap_bit_def nth_list_update bit_simps)

lemma fold_or_zero:
  "(fold (\<lambda>w res. res OR w) ws a = (0::32 word)) = (a = 0 \<and> (\<forall>w\<in>set ws. w = 0))"
proof (induction ws arbitrary: a)
  case (Cons w ws)
  then show ?case by (auto simp: or_eq_0_iff)
qed simp

lemma bitmap_word_zero:
  "(bm ! i = (0::32 word)) = (\<forall>b<32. \<not> bit (bm ! i) b)"
  by (auto simp: bit_eq_iff dest: bit_imp_le_length)

section \<open>Population count\<close>

lemma shift_loses_bit: "((w::32 word) \<noteq> push_bit 1 (drop_bit 1 w)) = bit w 0"
proof -
  have *: "bit (push_bit 1 (drop_bit 1 w)) k = (bit w k \<and> k \<noteq> 0)" for k
    by (auto simp only: bit_push_bit_iff bit_drop_bit_eq comp_def)
      (auto dest: bit_imp_le_length)
  show ?thesis
  proof
    assume "w \<noteq> push_bit 1 (drop_bit 1 w)"
    then obtain k where "bit w k \<noteq> bit (push_bit 1 (drop_bit 1 w)) k" by (metis bit_eqI)
    with * [of k] show "bit w 0" by metis
  next
    assume "bit w 0"
    then show "w \<noteq> push_bit 1 (drop_bit 1 w)" using * [of 0] by metis
  qed
qed

lemma count_ones_word_card: "count_ones_word j w = card {k. k < j \<and> bit w k}"
proof (induction j arbitrary: w)
  case (Suc j)
  have "{k. k < Suc j \<and> bit w k} =
        (if bit w 0 then {0} else {}) \<union> Suc ` {k. k < j \<and> bit w (Suc k)}"
    by (auto simp: image_iff less_Suc_eq_0_disj)
  moreover have "card (Suc ` {k. k < j \<and> bit w (Suc k)}) = card {k. k < j \<and> bit (drop_bit 1 w) k}"
    by (subst card_image) (auto simp: bit_simps)
  moreover have "card ((if bit w 0 then {0} else {}) \<union> Suc ` {k. k < j \<and> bit w (Suc k)}) =
     (if bit w 0 then 1 else 0) + card (Suc ` {k. k < j \<and> bit w (Suc k)})"
    by (auto simp: card_insert_if)
  ultimately show ?case
    using Suc.IH [of "drop_bit 1 w"]
    by (simp only: count_ones_word.simps Let_def shift_loses_bit)
qed simp

text \<open>Splitting a bit number below \<open>32 * sz\<close> into word and position.\<close>

lemma div_32_less: "b < 32 * sz \<Longrightarrow> b div 32 < (sz::nat)"
  by (simp add: less_mult_imp_div_less mult.commute)

lemma count_bits_Suc:
  "card {b. b < 32 * Suc n \<and> bitmap_bit bm b} =
   card {b. b < 32 * n \<and> bitmap_bit bm b} + count_ones_word 32 (bm ! n)"
proof -
  have eq: "{b. b < 32 * Suc n \<and> bitmap_bit bm b} =
        {b. b < 32 * n \<and> bitmap_bit bm b} \<union> (+) (32 * n) ` {k. k < 32 \<and> bit (bm ! n) k}"
    (is "?L = ?A \<union> ?B")
  proof (rule set_eqI)
    fix b
    show "b \<in> ?L \<longleftrightarrow> b \<in> ?A \<union> ?B"
    proof (cases "b < 32 * n")
      case False
      then obtain k where k: "b = 32 * n + k" by (metis le_iff_add not_less)
      have "k < 32 \<Longrightarrow> bitmap_bit bm b = bit (bm ! n) k"
        by (simp add: k bitmap_bit_def)
      then show ?thesis by (auto simp: k)
    qed auto
  qed
  have "card ?L = card ?A + card ?B"
    unfolding eq by (rule card_Un_disjoint) auto
  also have "card ?B = count_ones_word 32 (bm ! n)"
    by (simp add: card_image count_ones_word_card)
  finally show ?thesis .
qed

lemma count_bits:
  "n \<le> length bm \<Longrightarrow>
   sum_list (map (count_ones_word 32) (take n bm)) = card {b. b < 32 * n \<and> bitmap_bit bm b}"
proof (induction n)
  case (Suc n)
  then have "take (Suc n) bm = take n bm @ [bm ! n]" by (simp add: take_Suc_conv_app_nth)
  with Suc show ?case by (simp only: count_bits_Suc) simp
qed simp

section \<open>Correctness of the whole-map macros\<close>

lemma bitmap_bit_OP:
  assumes "sz \<le> length b2" "sz \<le> length b3" "b < 32 * sz"
  shows "bitmap_bit (BITMAP_OP f b1 b2 b3 sz) b =
         bit (f (b2 ! (b div 32)) (b3 ! (b div 32))) (b mod 32)"
  using assms div_32_less [OF assms(3)]
  by (simp add: BITMAP_OP_def bitmap_bit_def nth_append)

lemma bitmap_bit_IOR:
  "sz \<le> length b2 \<Longrightarrow> sz \<le> length b3 \<Longrightarrow> b < 32 * sz \<Longrightarrow>
   bitmap_bit (BITMAP_IOR b1 b2 b3 sz) b = (bitmap_bit b2 b \<or> bitmap_bit b3 b)"
  by (simp add: BITMAP_IOR_def bitmap_bit_OP bit_or_iff) (simp add: bitmap_bit_def)

lemma bitmap_bit_AND:
  "sz \<le> length b2 \<Longrightarrow> sz \<le> length b3 \<Longrightarrow> b < 32 * sz \<Longrightarrow>
   bitmap_bit (BITMAP_AND b1 b2 b3 sz) b = (bitmap_bit b2 b \<and> bitmap_bit b3 b)"
  by (simp add: BITMAP_AND_def bitmap_bit_OP bit_and_iff) (simp add: bitmap_bit_def)

lemma bitmap_bit_XOR:
  "sz \<le> length b2 \<Longrightarrow> sz \<le> length b3 \<Longrightarrow> b < 32 * sz \<Longrightarrow>
   bitmap_bit (BITMAP_XOR b1 b2 b3 sz) b = (bitmap_bit b2 b \<noteq> bitmap_bit b3 b)"
  by (simp add: BITMAP_XOR_def bitmap_bit_OP bit_xor_iff) (simp add: bitmap_bit_def)

lemma bitmap_bit_NOT:
  "sz \<le> length b2 \<Longrightarrow> b < 32 * sz \<Longrightarrow>
   bitmap_bit (BITMAP_NOT b1 b2 sz) b = (\<not> bitmap_bit b2 b)"
  using div_32_less [of b sz]
  by (simp add: BITMAP_NOT_def bitmap_bit_def nth_append bit_not_iff)

lemma all_words_zero:
  assumes "sz \<le> length bm"
  shows "(\<forall>w\<in>set (take sz bm). w = 0) = (\<forall>b<32 * sz. \<not> bitmap_bit bm b)"
proof
  assume *: "\<forall>w\<in>set (take sz bm). w = 0"
  show "\<forall>b<32 * sz. \<not> bitmap_bit bm b"
  proof (intro allI impI)
    fix b assume "b < 32 * sz"
    then have "b div 32 < sz" by (rule div_32_less)
    with assms have "bm ! (b div 32) \<in> set (take sz bm)"
      by (metis in_set_conv_nth length_take min.absorb2 nth_take)
    with * have "bm ! (b div 32) = 0" by blast
    then show "\<not> bitmap_bit bm b" by (simp add: bitmap_bit_def)
  qed
next
  assume *: "\<forall>b<32 * sz. \<not> bitmap_bit bm b"
  show "\<forall>w\<in>set (take sz bm). w = 0"
  proof
    fix w assume "w \<in> set (take sz bm)"
    then obtain i where i: "i < sz" "w = bm ! i" using assms by (auto simp: in_set_conv_nth)
    have "\<not> bit w k" if "k < 32" for k
      using * [rule_format, of "32 * i + k"] i that by (simp add: bitmap_bit_def)
    then show "w = 0" using i by (simp add: bitmap_word_zero)
  qed
qed

lemma BITMAP_EMPTY_P_iff:
  "sz \<le> length bm \<Longrightarrow> BITMAP_EMPTY_P bm sz = (\<forall>b<32 * sz. \<not> bitmap_bit bm b)"
  by (simp add: BITMAP_EMPTY_P_def fold_or_zero all_words_zero)

lemma BITMAP_DISJOINT_P_iff:
  assumes "sz \<le> length b1" "sz \<le> length b2"
  shows "BITMAP_DISJOINT_P b1 b2 sz = (\<forall>b<32 * sz. \<not> (bitmap_bit b1 b \<and> bitmap_bit b2 b))"
proof -
  let ?m = "BITMAP_AND b1 b1 b2 sz"
  have len: "sz \<le> length ?m" using assms by (simp add: BITMAP_AND_def BITMAP_OP_def)
  have "take sz ?m = map2 (\<lambda>x y. x AND y) (take sz b1) (take sz b2)"
    using assms by (simp add: BITMAP_AND_def BITMAP_OP_def)
  then have "BITMAP_DISJOINT_P b1 b2 sz = BITMAP_EMPTY_P ?m sz"
    by (simp add: BITMAP_DISJOINT_P_def BITMAP_EMPTY_P_def)
  also have "\<dots> = (\<forall>b<32 * sz. \<not> bitmap_bit ?m b)" by (rule BITMAP_EMPTY_P_iff [OF len])
  finally show ?thesis using assms by (simp add: bitmap_bit_AND)
qed

section \<open>Properties\<close>

text \<open>\<open>BITMAP_COUNT_ONES\<close>, which shifts every word right 32 times and counts the shifts that
  lose a bit, returns the number of set bits of the map.\<close>

theorem BITMAP_COUNT_ONES_card:
  assumes "sz \<le> length bm"
  shows "BITMAP_COUNT_ONES bm sz = card {b. b < 32 * sz \<and> bitmap_bit bm b}"
  using count_bits [OF assms] by (simp add: BITMAP_COUNT_ONES_def)

theorem BITMAP_COUNT_ONES_card_witness:
  "BITMAP_COUNT_ONES [5, 0x80000000] 2 = 3 \<and>
   card {b. b < 32 * 2 \<and> bitmap_bit [5, 0x80000000] b} = 3"
proof -
  have eval: "BITMAP_COUNT_ONES [5, 0x80000000] 2 = 3" by code_simp
  have len: "(2::nat) \<le> length [5::32 word, 0x80000000]" by simp
  show ?thesis using BITMAP_COUNT_ONES_card [OF len] eval by metis
qed

text \<open>On a bit inside the map, \<open>BITMAP_SET\<close> and \<open>BITMAP_CLEAR\<close> change that bit and no other, and
  \<open>BITMAP_SET_P\<close> reads back what was written.\<close>

theorem BITMAP_SET_CLEAR_one_bit:
  assumes "b div 32 < length bm"
  shows "BITMAP_SET_P (BITMAP_SET bm b) c = (BITMAP_SET_P bm c \<or> c = b) \<and>
    BITMAP_SET_P (BITMAP_CLEAR bm b) c = (BITMAP_SET_P bm c \<and> c \<noteq> b)"
  using assms by (simp add: BITMAP_SET_P_bit bitmap_bit_BITMAP_SET bitmap_bit_BITMAP_CLEAR)

theorem BITMAP_SET_CLEAR_one_bit_witness:
  "BITMAP_SET_P (BITMAP_SET [0, 0] 33) 33 \<and> \<not> BITMAP_SET_P (BITMAP_CLEAR [7, 7] 33) 33"
  using BITMAP_SET_CLEAR_one_bit [of 33 "[0, 0]" 33] BITMAP_SET_CLEAR_one_bit [of 33 "[7, 7]" 33]
  by simp

end
