(* ===== verification/EventQueue.thy ===== *)
theory EventQueue
  imports Bitmap
begin

text \<open>
  The time-ordered event queue of eventq.c and eventq.h, default build (neither \<open>SYNC_DVFS\<close> nor
  \<open>ASYNC_DVFS\<close>): the descriptors, \<open>__QUEUE_EVENT\<close> and the \<open>eventq_queue_*\<close> front ends,
  \<open>EXECUTE_ACTION\<close>, \<open>eventq_execute\<close>, \<open>eventq_remove\<close> and the service loop.
\<close>

section \<open>Events\<close>

text \<open>The functions the simulator puts into the queue (the values of the \<open>fn\<close> fields).\<close>

datatype event_fn =
    Fn_cpu_execute
  | Fn_noc_stage
  | Fn_update_credit
  | Fn_flit_arrive
  | Fn_scache_probe
  | Fn_scache_refill
  | Fn_scache_writeback
  | Fn_decode_update_ghr
  | Fn_brerr_recover
  | Fn_blk_access_fn
  | Fn_process_mshr_full_event
  | Fn_restart_cache_access
  | Fn_cache_unblock_memop
  | Fn_response_handler

text \<open>\<open>enum eventq_action\<close> with the member of \<open>union eventq_data\<close> that each action uses. A bit map or
  a flag is given by its address; \<open>'d\<close> is what the \<open>void *data\<close> of \<open>callbackpointer4\<close> points to.\<close>

datatype 'd eventq_action =
    EventSetBit nat nat nat
  | EventClearBit nat nat nat
  | EventSetFlag nat int
  | EventAddOp nat int
  | EventCallback event_fn int
  | EventCallback2 event_fn int int
  | EventCallback3 event_fn int int int
  | EventCallback4 event_fn int int int int
  | EventCallback5 event_fn int int int int int
  | EventCallback7 event_fn int int int int int int int
  | EventCallback9 event_fn int int int int int int int int int
  | EventCallback10 event_fn int int int int int int int int int int
  | EventCallback11 event_fn int int int int int int int int int int int
  | EventCallback12 event_fn int int int int int int int int int int int int
  | EventCallbackPointer4 event_fn 'd int int int int

record 'd eventq_desc =
  ev_when :: tick_t
  ev_id :: "32 word"
  ev_action :: "'d eventq_action"

text \<open>What \<open>calloc\<close> returns: \<open>EventSetBit\<close> is the enum's zero.\<close>

definition zero_desc :: "'d eventq_desc" where
  "zero_desc = \<lparr>ev_when = 0, ev_id = 0, ev_action = EventSetBit 0 0 0\<rparr>"

text \<open>
  The globals of eventq.c, \<open>sim_cycle\<close>, and the two stores the non-callback actions write
  (bit maps and \<open>int\<close> flags, by address). The two linked lists are HOL lists, head first.
\<close>

record 'd eventq_state =
  eventq_max_events :: int
  eventq_event_count :: int
  eventq_pending :: "'d eventq_desc list"
  eventq_free :: "'d eventq_desc list"
  next_ID :: "32 word"
  sim_cycle :: tick_t
  ev_bitmaps :: "nat \<Rightarrow> bitmap"
  ev_flags :: "nat \<Rightarrow> int"

section \<open>Queueing\<close>

text \<open>The pointer walk \<open>for (prev=NULL,ev=eventq_pending; ev && p(ev); prev=ev, ev=ev->next)\<close>
  and the splice that follows it.\<close>

fun insert_event :: "('e \<Rightarrow> bool) \<Rightarrow> 'e \<Rightarrow> 'e list \<Rightarrow> 'e list" where
  "insert_event p new [] = [new]"
| "insert_event p new (ev # evs) = (if p ev then ev # insert_event p new evs else new # ev # evs)"

fun is_cpu_execute :: "'d eventq_action \<Rightarrow> bool" where
  "is_cpu_execute (EventCallback fn arg) = (fn = Fn_cpu_execute)"
| "is_cpu_execute _ = False"

definition QUEUE_EVENT ::
  "tick_t \<Rightarrow> 'd eventq_action \<Rightarrow> ('d, 'z) eventq_state_scheme
     \<Rightarrow> (32 word \<times> ('d, 'z) eventq_state_scheme) option" where
  "QUEUE_EVENT whn act s =
     (if eventq_free s = [] \<and> eventq_max_events s \<noteq> 0 \<and> eventq_event_count s \<ge> eventq_max_events s
      then None
      else
        let (fresh, free) = (case eventq_free s of [] \<Rightarrow> (zero_desc, []) | d # ds \<Rightarrow> (d, ds));
            new = fresh\<lparr>ev_when := whn, ev_id := next_ID s, ev_action := act\<rparr>;
            pending = (if is_cpu_execute act
                       then insert_event (\<lambda>ev. ev_when ev \<le> whn) new (eventq_pending s)
                       else insert_event (\<lambda>ev. ev_when ev < whn) new (eventq_pending s))
        in Some (next_ID s,
                 s\<lparr>eventq_free := free, next_ID := next_ID s + 1, eventq_pending := pending\<rparr>))"

definition eventq_queue_setbit where
  "eventq_queue_setbit whn bmap sz bitnum s = QUEUE_EVENT whn (EventSetBit bmap sz bitnum) s"

definition eventq_queue_clearbit where
  "eventq_queue_clearbit whn bmap sz bitnum s = QUEUE_EVENT whn (EventClearBit bmap sz bitnum) s"

definition eventq_queue_setflag where
  "eventq_queue_setflag whn pflag value s = QUEUE_EVENT whn (EventSetFlag pflag value) s"

definition eventq_queue_addop where
  "eventq_queue_addop whn summand addend s = QUEUE_EVENT whn (EventAddOp summand addend) s"

definition eventq_queue_callback where
  "eventq_queue_callback whn fn arg s = QUEUE_EVENT whn (EventCallback fn arg) s"

definition eventq_queue_callback2 where
  "eventq_queue_callback2 whn fn arg1 arg2 s = QUEUE_EVENT whn (EventCallback2 fn arg1 arg2) s"

definition eventq_queue_callback3 where
  "eventq_queue_callback3 whn fn arg1 arg2 arg3 s =
     QUEUE_EVENT whn (EventCallback3 fn arg1 arg2 arg3) s"

definition eventq_queue_callback4 where
  "eventq_queue_callback4 whn fn arg1 arg2 arg3 arg4 s =
     QUEUE_EVENT whn (EventCallback4 fn arg1 arg2 arg3 arg4) s"

definition eventq_queue_callback5 where
  "eventq_queue_callback5 whn fn arg1 arg2 arg3 arg4 arg5 s =
     QUEUE_EVENT whn (EventCallback5 fn arg1 arg2 arg3 arg4 arg5) s"

definition eventq_queue_callback7 where
  "eventq_queue_callback7 whn fn arg1 arg2 arg3 arg4 arg5 arg6 arg7 s =
     QUEUE_EVENT whn (EventCallback7 fn arg1 arg2 arg3 arg4 arg5 arg6 arg7) s"

definition eventq_queue_callback9 where
  "eventq_queue_callback9 whn fn arg1 arg2 arg3 arg4 arg5 arg6 arg7 arg8 arg9 s =
     QUEUE_EVENT whn (EventCallback9 fn arg1 arg2 arg3 arg4 arg5 arg6 arg7 arg8 arg9) s"

definition eventq_queue_callback10 where
  "eventq_queue_callback10 whn fn arg1 arg2 arg3 arg4 arg5 arg6 arg7 arg8 arg9 arg10 s =
     QUEUE_EVENT whn
       (EventCallback10 fn arg1 arg2 arg3 arg4 arg5 arg6 arg7 arg8 arg9 arg10) s"

definition eventq_queue_callback11 where
  "eventq_queue_callback11 whn fn arg1 arg2 arg3 arg4 arg5 arg6 arg7 arg8 arg9 arg10 arg11 s =
     QUEUE_EVENT whn
       (EventCallback11 fn arg1 arg2 arg3 arg4 arg5 arg6 arg7 arg8 arg9 arg10 arg11) s"

definition eventq_queue_callback12 where
  "eventq_queue_callback12 whn fn arg1 arg2 arg3 arg4 arg5 arg6 arg7 arg8 arg9 arg10 arg11 arg12 s =
     QUEUE_EVENT whn
       (EventCallback12 fn arg1 arg2 arg3 arg4 arg5 arg6 arg7 arg8 arg9 arg10 arg11 arg12) s"

definition eventq_queue_callbackpointer4 where
  "eventq_queue_callbackpointer4 whn fn data arg1 arg2 arg3 arg4 s =
     QUEUE_EVENT whn (EventCallbackPointer4 fn data arg1 arg2 arg3 arg4) s"

lemmas eventq_queue_defs =
  eventq_queue_setbit_def eventq_queue_clearbit_def eventq_queue_setflag_def
  eventq_queue_addop_def eventq_queue_callback_def eventq_queue_callback2_def
  eventq_queue_callback3_def eventq_queue_callback4_def eventq_queue_callback5_def
  eventq_queue_callback7_def eventq_queue_callback9_def eventq_queue_callback10_def
  eventq_queue_callback11_def eventq_queue_callback12_def eventq_queue_callbackpointer4_def

section \<open>Executing\<close>

text \<open>
  A handler is the C function behind a callback: it gets the time, the \<open>data\<close> pointer of a
  pointer callback and the integer arguments.
\<close>

type_synonym ('d, 'z) handler =
  "event_fn \<Rightarrow> tick_t \<Rightarrow> 'd option \<Rightarrow> int list
     \<Rightarrow> ('d, 'z) eventq_state_scheme \<Rightarrow> ('d, 'z) eventq_state_scheme option"

text \<open>A bit number outside the map is an out-of-bounds access: the run is not defined.\<close>

fun EXECUTE_ACTION ::
  "('d, 'z) handler \<Rightarrow> 'd eventq_action \<Rightarrow> tick_t
     \<Rightarrow> ('d, 'z) eventq_state_scheme \<Rightarrow> ('d, 'z) eventq_state_scheme option" where
  "EXECUTE_ACTION call (EventSetBit bmap sz bitnum) now s =
     (if bitnum div 32 < length (ev_bitmaps s bmap)
      then Some (s\<lparr>ev_bitmaps := (ev_bitmaps s)(bmap := BITMAP_SET (ev_bitmaps s bmap) bitnum)\<rparr>)
      else None)"
| "EXECUTE_ACTION call (EventClearBit bmap sz bitnum) now s =
     (if bitnum div 32 < length (ev_bitmaps s bmap)
      then Some (s\<lparr>ev_bitmaps := (ev_bitmaps s)(bmap := BITMAP_CLEAR (ev_bitmaps s bmap) bitnum)\<rparr>)
      else None)"
| "EXECUTE_ACTION call (EventSetFlag pflag value) now s =
     Some (s\<lparr>ev_flags := (ev_flags s)(pflag := value)\<rparr>)"
| "EXECUTE_ACTION call (EventAddOp summand addend) now s =
     Some (s\<lparr>ev_flags := (ev_flags s)(summand := ev_flags s summand + addend)\<rparr>)"
| "EXECUTE_ACTION call (EventCallback fn a) now s = call fn now None [a] s"
| "EXECUTE_ACTION call (EventCallback2 fn a b) now s = call fn now None [a, b] s"
| "EXECUTE_ACTION call (EventCallback3 fn a b c) now s = call fn now None [a, b, c] s"
| "EXECUTE_ACTION call (EventCallback4 fn a b c d) now s = call fn now None [a, b, c, d] s"
| "EXECUTE_ACTION call (EventCallback5 fn a b c d e) now s = call fn now None [a, b, c, d, e] s"
| "EXECUTE_ACTION call (EventCallback7 fn a b c d e f g) now s =
     call fn now None [a, b, c, d, e, f, g] s"
| "EXECUTE_ACTION call (EventCallback9 fn a b c d e f g h i) now s =
     call fn now None [a, b, c, d, e, f, g, h, i] s"
| "EXECUTE_ACTION call (EventCallback10 fn a b c d e f g h i j) now s =
     call fn now None [a, b, c, d, e, f, g, h, i, j] s"
| "EXECUTE_ACTION call (EventCallback11 fn a b c d e f g h i j k) now s =
     call fn now None [a, b, c, d, e, f, g, h, i, j, k] s"
| "EXECUTE_ACTION call (EventCallback12 fn a b c d e f g h i j k l) now s =
     call fn now None [a, b, c, d, e, f, g, h, i, j, k, l] s"
| "EXECUTE_ACTION call (EventCallbackPointer4 fn data a b c d) now s =
     call fn now (Some data) [a, b, c, d] s"

text \<open>Unlinking the first descriptor with the given id: the walk with \<open>prev\<close> of \<open>eventq_execute\<close>
  and \<open>eventq_remove\<close>.\<close>

fun unlink_id ::
  "32 word \<Rightarrow> 'd eventq_desc list \<Rightarrow> ('d eventq_desc \<times> 'd eventq_desc list) option" where
  "unlink_id i [] = None"
| "unlink_id i (ev # evs) =
     (if ev_id ev = i then Some (ev, evs)
      else map_option (\<lambda>(e, es). (e, ev # es)) (unlink_id i evs))"

definition eventq_execute ::
  "('d, 'z) handler \<Rightarrow> 32 word \<Rightarrow> ('d, 'z) eventq_state_scheme
     \<Rightarrow> (bool \<times> ('d, 'z) eventq_state_scheme) option" where
  "eventq_execute call i s =
     (case unlink_id i (eventq_pending s) of
        None \<Rightarrow> Some (False, s)
      | Some (ev, rest) \<Rightarrow>
          (case EXECUTE_ACTION call (ev_action ev) 0 (s\<lparr>eventq_pending := rest\<rparr>) of
             None \<Rightarrow> None
           | Some s' \<Rightarrow> Some (True, s'\<lparr>eventq_free := ev # eventq_free s'\<rparr>)))"

definition eventq_remove ::
  "32 word \<Rightarrow> ('d, 'z) eventq_state_scheme \<Rightarrow> bool \<times> ('d, 'z) eventq_state_scheme" where
  "eventq_remove i s =
     (case unlink_id i (eventq_pending s) of
        None \<Rightarrow> (False, s)
      | Some (ev, rest) \<Rightarrow> (True, s\<lparr>eventq_pending := rest, eventq_free := ev # eventq_free s\<rparr>))"

text \<open>One turn of the service loop: time advances to the head event, whose descriptor goes back to
  the free list before its action runs.\<close>

definition service_one ::
  "('d, 'z) handler \<Rightarrow> ('d, 'z) eventq_state_scheme \<Rightarrow> ('d, 'z) eventq_state_scheme option" where
  "service_one call s =
     (case eventq_pending s of
        [] \<Rightarrow> Some s
      | ev # evs \<Rightarrow>
          EXECUTE_ACTION call (ev_action ev) (ev_when ev)
            (s\<lparr>sim_cycle := ev_when ev, eventq_pending := evs,
               eventq_free := ev # eventq_free s\<rparr>))"

text \<open>The loop runs as long as events are pending and may never return, since handlers queue new
  events; \<open>None\<close> also covers an action that aborts.\<close>

partial_function (option) eventq_service_events ::
  "('d, 'z) handler \<Rightarrow> ('d, 'z) eventq_state_scheme \<Rightarrow> ('d, 'z) eventq_state_scheme option" where
  "eventq_service_events call s =
     (if eventq_pending s = [] then Some s
      else (case service_one call s of
              None \<Rightarrow> None
            | Some s' \<Rightarrow> eventq_service_events call s'))"

section \<open>Order of the pending list\<close>

text \<open>
  Events are ordered by time; inside one tick every \<open>cpu_execute\<close> event comes after all other
  events, because it is inserted behind its equals and everything else in front of them.
\<close>

definition ev_before :: "'d eventq_desc \<Rightarrow> 'd eventq_desc \<Rightarrow> bool" where
  "ev_before a b \<longleftrightarrow>
     ev_when a < ev_when b \<or>
     (ev_when a = ev_when b \<and> (is_cpu_execute (ev_action a) \<longrightarrow> is_cpu_execute (ev_action b)))"

definition sorted_queue :: "'d eventq_desc list \<Rightarrow> bool" where
  "sorted_queue = sorted_wrt ev_before"

lemma sorted_queue_Nil [simp]: "sorted_queue []"
  by (simp add: sorted_queue_def)

lemma sorted_queue_Cons:
  "sorted_queue (e # es) = ((\<forall>x\<in>set es. ev_before e x) \<and> sorted_queue es)"
  by (simp add: sorted_queue_def)

lemma ev_before_when: "ev_before a b \<Longrightarrow> ev_when a \<le> ev_when b"
  by (auto simp: ev_before_def)

lemma sorted_queue_head: "sorted_queue (e # es) \<Longrightarrow> x \<in> set es \<Longrightarrow> ev_when e \<le> ev_when x"
  by (auto simp: sorted_queue_Cons dest: ev_before_when)

lemma insert_event_append: "insert_event p new q = takeWhile p q @ new # dropWhile p q"
  by (induction q) auto

lemma set_insert_event [simp]: "set (insert_event p new q) = insert new (set q)"
  by (induction q) auto

lemma length_insert_event [simp]: "length (insert_event p new q) = Suc (length q)"
  by (induction q) auto

lemma mset_insert_event [simp]: "mset (insert_event p new q) = add_mset new (mset q)"
  by (induction q) auto

text \<open>In a sorted queue the walk stops exactly where the times pass the bound.\<close>

lemma sorted_takeWhile_le:
  assumes "sorted_queue q"
  shows "takeWhile (\<lambda>e. ev_when e \<le> t) q = filter (\<lambda>e. ev_when e \<le> t) q"
    and "dropWhile (\<lambda>e. ev_when e \<le> t) q = filter (\<lambda>e. \<not> ev_when e \<le> t) q"
  using assms unfolding sorted_queue_def
  by (rule sorted_wrt_takeWhile, auto dest: ev_before_when)+

lemma sorted_takeWhile_less:
  assumes "sorted_queue q"
  shows "takeWhile (\<lambda>e. ev_when e < t) q = filter (\<lambda>e. ev_when e < t) q"
    and "dropWhile (\<lambda>e. ev_when e < t) q = filter (\<lambda>e. \<not> ev_when e < t) q"
  using assms unfolding sorted_queue_def
  by (rule sorted_wrt_takeWhile, auto dest: ev_before_when)+

lemma sorted_queue_splice:
  assumes "sorted_queue q"
    and "\<And>e. e \<in> set q \<Longrightarrow> p e \<Longrightarrow> ev_before e new"
    and "\<And>e. e \<in> set q \<Longrightarrow> \<not> p e \<Longrightarrow> ev_before new e"
  shows "sorted_queue (filter p q @ new # filter (\<lambda>e. \<not> p e) q)"
proof -
  have trans: "ev_before a b" if "ev_before a new" "ev_before new b" for a b
    using that by (auto simp: ev_before_def)
  have "sorted_wrt ev_before (filter r q)" for r
    using assms(1) by (simp add: sorted_queue_def sorted_wrt_filter)
  then show ?thesis
    using assms(2,3) trans by (auto simp: sorted_queue_def sorted_wrt_append)
qed

lemma insert_exec_sorted:
  assumes "sorted_queue q" and "ev_when new = t" and "is_cpu_execute (ev_action new)"
  shows "sorted_queue (insert_event (\<lambda>e. ev_when e \<le> t) new q)"
  unfolding insert_event_append sorted_takeWhile_le [OF assms(1)]
  by (rule sorted_queue_splice) (use assms in \<open>auto simp: ev_before_def\<close>)

lemma insert_other_sorted:
  assumes "sorted_queue q" and "ev_when new = t" and "\<not> is_cpu_execute (ev_action new)"
  shows "sorted_queue (insert_event (\<lambda>e. ev_when e < t) new q)"
  unfolding insert_event_append sorted_takeWhile_less [OF assms(1)]
  by (rule sorted_queue_splice) (use assms in \<open>auto simp: ev_before_def\<close>)

section \<open>What queueing does\<close>

text \<open>The effect of one call, in the form the proofs use: which list the new descriptor joins.\<close>

lemma QUEUE_EVENT_Some:
  assumes "QUEUE_EVENT t act s = Some (i, s')"
  obtains new where "ev_when new = t" "ev_id new = next_ID s" "ev_action new = act"
    and "i = next_ID s"
    and "s' = s\<lparr>eventq_free := tl (eventq_free s), next_ID := next_ID s + 1,
               eventq_pending :=
                 (if is_cpu_execute act then insert_event (\<lambda>e. ev_when e \<le> t) new (eventq_pending s)
                  else insert_event (\<lambda>e. ev_when e < t) new (eventq_pending s))\<rparr>"
proof -
  let ?new = "(case eventq_free s of [] \<Rightarrow> zero_desc | d # ds \<Rightarrow> d)
      \<lparr>ev_when := t, ev_id := next_ID s, ev_action := act\<rparr>"
  show thesis
    by (rule that [of ?new])
      (use assms in \<open>auto simp: QUEUE_EVENT_def Let_def split: if_splits list.splits\<close>)
qed

lemma QUEUE_EVENT_set:
  assumes "QUEUE_EVENT t act s = Some (i, s')"
  obtains new where "ev_when new = t" "ev_action new = act" "ev_id new = next_ID s"
    "mset (eventq_pending s') = add_mset new (mset (eventq_pending s))"
  using assms by (elim QUEUE_EVENT_Some) (auto split: if_splits)

lemma QUEUE_EVENT_sorted:
  assumes "sorted_queue (eventq_pending s)" and "QUEUE_EVENT t act s = Some (i, s')"
  shows "sorted_queue (eventq_pending s')"
  using assms(2)
  by (rule QUEUE_EVENT_Some)
    (use assms(1) in \<open>auto simp: insert_exec_sorted insert_other_sorted\<close>)

lemma QUEUE_EVENT_frame:
  "QUEUE_EVENT t act s = Some (i, s') \<Longrightarrow>
   sim_cycle s' = sim_cycle s \<and> eventq_max_events s' = eventq_max_events s \<and>
   eventq_event_count s' = eventq_event_count s \<and> eventq_state.more s' = eventq_state.more s"
  by (elim QUEUE_EVENT_Some) auto

section \<open>Removing\<close>

lemma unlink_id_Some:
  "unlink_id i q = Some (e, r) \<Longrightarrow>
   \<exists>xs ys. q = xs @ e # ys \<and> r = xs @ ys \<and> ev_id e = i \<and> (\<forall>x\<in>set xs. ev_id x \<noteq> i)"
proof (induction q arbitrary: r)
  case (Cons a q)
  show ?case
  proof (cases "ev_id a = i")
    case True
    with Cons.prems show ?thesis by (auto intro: exI [of _ "[]"])
  next
    case False
    with Cons.prems obtain r' where r': "unlink_id i q = Some (e, r')" "r = a # r'" by auto
    from Cons.IH [OF r'(1)] obtain xs ys where
      "q = xs @ e # ys" "r' = xs @ ys" "ev_id e = i" "\<forall>x\<in>set xs. ev_id x \<noteq> i" by blast
    with False r'(2) show ?thesis by (intro exI [of _ "a # xs"] exI [of _ ys]) auto
  qed
qed simp

lemma unlink_id_None: "(unlink_id i q = None) = (\<forall>x\<in>set q. ev_id x \<noteq> i)"
  by (induction q) auto

lemma sorted_queue_drop_one: "sorted_queue (xs @ e # ys) \<Longrightarrow> sorted_queue (xs @ ys)"
  by (auto simp: sorted_queue_def sorted_wrt_append)

section \<open>Interface of the event handlers\<close>

text \<open>
  What the queue relies on in the functions it calls back: a handler may queue further events
  but leaves the queue sorted, does not queue into the past and does not move the clock.
\<close>

definition queue_ok :: "('d, 'z) eventq_state_scheme \<Rightarrow> bool" where
  "queue_ok s \<longleftrightarrow> sorted_queue (eventq_pending s) \<and>
     (\<forall>e\<in>set (eventq_pending s). sim_cycle s \<le> ev_when e)"

lemma QUEUE_EVENT_ok:
  assumes "queue_ok s" and "QUEUE_EVENT t act s = Some (i, s')" and "sim_cycle s \<le> t"
  shows "queue_ok s'"
proof -
  obtain new where new: "ev_when new = t"
    "mset (eventq_pending s') = add_mset new (mset (eventq_pending s))"
    using assms(2) by (rule QUEUE_EVENT_set)
  then have "set (eventq_pending s') = insert new (set (eventq_pending s))"
    by (metis set_mset_add_mset_insert set_mset_mset)
  moreover have "sorted_queue (eventq_pending s')"
    using QUEUE_EVENT_sorted [OF _ assms(2)] assms(1) by (simp add: queue_ok_def)
  ultimately show ?thesis
    using assms new(1) QUEUE_EVENT_frame [OF assms(2)] by (simp add: queue_ok_def)
qed

lemma queue_ok_updates [simp]:
  "queue_ok (s\<lparr>eventq_free := f\<rparr>) = queue_ok s"
  "queue_ok (s\<lparr>ev_bitmaps := b\<rparr>) = queue_ok s"
  "queue_ok (s\<lparr>ev_flags := g\<rparr>) = queue_ok s"
  by (simp_all add: queue_ok_def)

text \<open>Taking the head off and moving the clock to it keeps the queue in order.\<close>

lemma queue_ok_advance:
  assumes "queue_ok s" and "eventq_pending s = e # es"
  shows "queue_ok (s\<lparr>sim_cycle := ev_when e, eventq_pending := es, eventq_free := f\<rparr>)"
    and "sim_cycle s \<le> ev_when e"
  using assms by (auto simp: queue_ok_def sorted_queue_Cons dest: ev_before_when)

text \<open>The first \<open>n\<close> turns of the service loop.\<close>

primrec service_turns :: "('d, 'z) handler \<Rightarrow> nat \<Rightarrow> ('d, 'z) eventq_state_scheme
    \<Rightarrow> ('d, 'z) eventq_state_scheme option" where
  "service_turns call 0 s = Some s"
| "service_turns call (Suc n) s = service_one call s \<bind> service_turns call n"

locale event_handlers =
  fixes call :: "('d, 'z) handler" and ok :: "('d, 'z) eventq_state_scheme \<Rightarrow> bool"
  assumes call_ok: "ok s \<Longrightarrow> queue_ok s \<Longrightarrow> sim_cycle s = now \<Longrightarrow> call fn now data args s = Some s' \<Longrightarrow>
      ok s' \<and> queue_ok s' \<and> sim_cycle s' = sim_cycle s"
    and ok_queue: "ok (s\<lparr>sim_cycle := t, eventq_pending := p, eventq_free := f\<rparr>) = ok s"
    and ok_bitmaps: "ok (s\<lparr>ev_bitmaps := b\<rparr>) = ok s"
    and ok_flags: "ok (s\<lparr>ev_flags := g\<rparr>) = ok s"
begin

lemma action_ok:
  assumes "ok s" and "queue_ok s" and "sim_cycle s = now" and "EXECUTE_ACTION call act now s = Some s'"
  shows "ok s' \<and> queue_ok s' \<and> sim_cycle s' = sim_cycle s"
  using assms(1,2,4) call_ok [OF assms(1-3)]
  by (cases act) (auto simp: ok_bitmaps ok_flags split: if_splits)

lemma service_one_ok:
  assumes "ok s" and "queue_ok s" and "service_one call s = Some s'"
  shows "ok s' \<and> queue_ok s' \<and> sim_cycle s \<le> sim_cycle s'"
proof (cases "eventq_pending s")
  case (Cons e es)
  let ?t = "s\<lparr>sim_cycle := ev_when e, eventq_pending := es, eventq_free := e # eventq_free s\<rparr>"
  have "EXECUTE_ACTION call (ev_action e) (ev_when e) ?t = Some s'"
    using assms(3) Cons by (simp add: service_one_def)
  then have "ok s' \<and> queue_ok s' \<and> sim_cycle s' = sim_cycle ?t"
    by (rule action_ok [rotated 3])
      (use assms(1) queue_ok_advance [OF assms(2) Cons] in \<open>auto simp: ok_queue\<close>)
  with queue_ok_advance(2) [OF assms(2) Cons] show ?thesis by simp
qed (use assms in \<open>simp add: service_one_def\<close>)

lemma service_turns_ok:
  "service_turns call n s = Some s' \<Longrightarrow> ok s \<Longrightarrow> queue_ok s \<Longrightarrow>
     ok s' \<and> queue_ok s' \<and> sim_cycle s \<le> sim_cycle s'"
proof (induction n arbitrary: s)
  case (Suc n)
  then obtain t where t: "service_one call s = Some t" "service_turns call n t = Some s'"
    by (auto simp: bind_eq_Some_conv)
  show ?case
    using service_one_ok [OF Suc.prems(2,3) t(1)] Suc.IH [OF t(2)] by fastforce
qed simp

lemma service_events_ok:
  assumes "eventq_service_events call s = Some s'" and "ok s" and "queue_ok s"
  shows "eventq_pending s' = [] \<and> queue_ok s' \<and> sim_cycle s \<le> sim_cycle s'"
proof -
  let ?P = "\<lambda>c s s'. c = call \<longrightarrow> ok s \<longrightarrow> queue_ok s \<longrightarrow>
    eventq_pending s' = [] \<and> queue_ok s' \<and> sim_cycle s \<le> sim_cycle s'"
  have "?P call s s'"
  proof (rule eventq_service_events.raw_induct [where P = ?P, OF _ assms(1)])
    fix rec c t r
    assume IH: "\<And>c t r. rec c t = Some r \<Longrightarrow> ?P c t r"
      and step: "(if eventq_pending t = [] then Some t
        else case service_one c t of None \<Rightarrow> None | Some t' \<Rightarrow> rec c t') = Some r"
    show "?P c t r"
    proof (intro impI)
      assume c: "c = call" and ok: "ok t" "queue_ok t"
      show "eventq_pending r = [] \<and> queue_ok r \<and> sim_cycle t \<le> sim_cycle r"
      proof (cases "eventq_pending t = []")
        case False
        then obtain t' where t': "service_one call t = Some t'" "rec call t' = Some r"
          using step c by (auto split: option.splits)
        show ?thesis
          using service_one_ok [OF ok t'(1)] IH [OF t'(2)] by fastforce
      qed (use step ok in simp)
    qed
  qed
  with assms(2,3) show ?thesis by simp
qed

end

section \<open>Draining\<close>

definition quiet_handler :: "('d, 'z) handler \<Rightarrow> bool" where
  "quiet_handler call \<longleftrightarrow> (\<forall>fn now data args s. \<exists>s'. call fn now data args s = Some s' \<and>
     eventq_pending s' = eventq_pending s \<and> sim_cycle s' = sim_cycle s)"

lemma quiet_handlerD:
  "quiet_handler call \<Longrightarrow> \<exists>s'. call fn now data args s = Some s' \<and>
     eventq_pending s' = eventq_pending s \<and> sim_cycle s' = sim_cycle s"
  unfolding quiet_handler_def by blast

fun is_bit_action :: "'d eventq_action \<Rightarrow> bool" where
  "is_bit_action (EventSetBit b sz n) = True"
| "is_bit_action (EventClearBit b sz n) = True"
| "is_bit_action _ = False"

text \<open>A callback that leaves the queue as it finds it makes one turn shorten the queue by one.\<close>

lemma service_one_quiet:
  assumes "quiet_handler call"
    and "eventq_pending s = e # es"
    and "\<not> is_bit_action (ev_action e)"
  shows "\<exists>s'. service_one call s = Some s' \<and> eventq_pending s' = es \<and> sim_cycle s' = ev_when e"
proof -
  let ?t = "s\<lparr>sim_cycle := ev_when e, eventq_pending := es, eventq_free := e # eventq_free s\<rparr>"
  have "\<exists>s'. EXECUTE_ACTION call (ev_action e) (ev_when e) ?t = Some s' \<and>
      eventq_pending s' = es \<and> sim_cycle s' = ev_when e"
    using quiet_handlerD [OF assms(1), of _ "ev_when e" _ _ ?t] assms(3) by (cases "ev_action e") auto
  with assms(2) show ?thesis by (simp add: service_one_def)
qed

lemma service_drains:
  assumes "quiet_handler call"
    and "\<forall>e\<in>set (eventq_pending s). \<not> is_bit_action (ev_action e)"
  shows "\<exists>s'. eventq_service_events call s = Some s' \<and> eventq_pending s' = [] \<and>
    sim_cycle s' = (if eventq_pending s = [] then sim_cycle s else ev_when (last (eventq_pending s)))"
  using assms(2)
proof (induction "eventq_pending s" arbitrary: s)
  case Nil
  then show ?case by (subst eventq_service_events.simps) simp
next
  case (Cons e es)
  note e = Cons.hyps(2) [symmetric]
  from Cons.prems e obtain s1 where s1:
    "service_one call s = Some s1" "eventq_pending s1 = es" "sim_cycle s1 = ev_when e"
    using service_one_quiet [OF assms(1) e] by (auto simp: e)
  from Cons.hyps(1) [OF s1(2) [symmetric]] Cons.prems e s1(2) obtain s' where
    "eventq_service_events call s1 = Some s'" "eventq_pending s' = []"
    "sim_cycle s' = (if es = [] then sim_cycle s1 else ev_when (last es))"
    by auto
  with e s1 show ?case by (subst eventq_service_events.simps) auto
qed

section \<open>Properties\<close>

text \<open>C38. Queueing at time \<open>t\<close> in a sorted queue puts exactly one new descriptor, with the next id,
  behind every event of an earlier time and before every event of a later one; among the events of
  time \<open>t\<close> a \<open>cpu_execute\<close> event goes last and every other event goes first. No other event moves.\<close>

theorem QUEUE_EVENT_position:
  assumes "sorted_queue (eventq_pending s)" and "QUEUE_EVENT t act s = Some (i, s')"
  shows "\<exists>new. ev_when new = t \<and> ev_id new = i \<and> ev_action new = act \<and> i = next_ID s \<and>
    eventq_pending s' =
      (let early = (\<lambda>e. if is_cpu_execute act then ev_when e \<le> t else ev_when e < t)
       in filter early (eventq_pending s) @ [new] @ filter (\<lambda>e. \<not> early e) (eventq_pending s)) \<and>
    sorted_queue (eventq_pending s')"
proof -
  note sorted = QUEUE_EVENT_sorted [OF assms]
  from assms(2) show ?thesis
  proof (rule QUEUE_EVENT_Some)
    fix new assume "ev_when new = t" "ev_id new = next_ID s" "ev_action new = act" "i = next_ID s"
      "s' = s\<lparr>eventq_free := tl (eventq_free s), next_ID := next_ID s + 1,
               eventq_pending :=
                 (if is_cpu_execute act then insert_event (\<lambda>e. ev_when e \<le> t) new (eventq_pending s)
                  else insert_event (\<lambda>e. ev_when e < t) new (eventq_pending s))\<rparr>"
    with sorted show ?thesis
      by (intro exI [of _ new])
        (auto simp: insert_event_append sorted_takeWhile_le [OF assms(1)]
          sorted_takeWhile_less [OF assms(1)])
  qed
qed

text \<open>The queue the simulator starts from: no events, no limit, ids from 1.\<close>

definition eventq_start :: "'d eventq_state" where
  "eventq_start = \<lparr>eventq_max_events = 0, eventq_event_count = 0, eventq_pending = [],
     eventq_free = [], next_ID = 1, sim_cycle = 0, ev_bitmaps = (\<lambda>_. []), ev_flags = (\<lambda>_. 0)\<rparr>"

text \<open>A queue holding a \<open>cpu_execute\<close> event and a flag event at time 5.\<close>

definition eventq_two :: "nat eventq_state" where
  "eventq_two = eventq_start\<lparr>next_ID := 3, eventq_pending :=
     [\<lparr>ev_when = 5, ev_id = 2, ev_action = EventSetFlag 7 1\<rparr>,
      \<lparr>ev_when = 5, ev_id = 1, ev_action = EventCallback Fn_cpu_execute 0\<rparr>]\<rparr>"

lemma eventq_two_sorted: "sorted_queue (eventq_pending eventq_two)"
  by (simp add: eventq_two_def sorted_queue_Cons ev_before_def)

theorem QUEUE_EVENT_position_witness:
  "\<exists>i s'. QUEUE_EVENT 5 (EventAddOp 7 2) eventq_two = Some (i, s') \<and>
     sorted_queue (eventq_pending s') \<and> map ev_id (eventq_pending s') = [3, 2, 1]"
proof -
  obtain i s' where r: "QUEUE_EVENT 5 (EventAddOp 7 2) eventq_two = Some (i, s')"
    by (auto simp: QUEUE_EVENT_def eventq_two_def eventq_start_def)
  from QUEUE_EVENT_position [OF eventq_two_sorted r]
  have "sorted_queue (eventq_pending s') \<and> map ev_id (eventq_pending s') = [3, 2, 1]"
    by (auto simp: eventq_two_def eventq_start_def)
  with r show ?thesis by (intro exI conjI) auto
qed


text \<open>A callback that records its time in flag 0.\<close>

definition stamp_handler :: "(nat, unit) handler" where
  "stamp_handler fn now data args s = Some (s\<lparr>ev_flags := (ev_flags s)(0 := now)\<rparr>)"


text \<open>\<open>eventq_remove\<close> takes out exactly the first pending event with the given id and returns
  its descriptor to the free list, keeps the order of the rest, and reports failure exactly when
  no pending event has the id.\<close>

theorem eventq_remove_exact:
  assumes "queue_ok s" and "eventq_remove i s = (found, s')"
  shows "queue_ok s' \<and> found = (i \<in> ev_id ` set (eventq_pending s)) \<and>
    (if found
     then \<exists>xs e ys. eventq_pending s = xs @ e # ys \<and> i \<notin> ev_id ` set xs \<and> ev_id e = i \<and>
       s' = s\<lparr>eventq_pending := xs @ ys, eventq_free := e # eventq_free s\<rparr>
     else s' = s)"
proof (cases "unlink_id i (eventq_pending s)")
  case None
  then have found: "\<not> found" and same: "s' = s"
    using assms(2) by (simp_all add: eventq_remove_def)
  have "i \<notin> ev_id ` set (eventq_pending s)"
    using None by (auto simp: unlink_id_None)
  with found same assms(1) show ?thesis by metis
next
  case (Some p)
  obtain e r where p: "p = (e, r)" by (cases p)
  obtain xs ys where
    q: "eventq_pending s = xs @ e # ys" "r = xs @ ys" "ev_id e = i" "\<forall>x\<in>set xs. ev_id x \<noteq> i"
    using unlink_id_Some [OF Some [unfolded p]] by blast
  have found: "found" and s': "s' = s\<lparr>eventq_pending := r, eventq_free := e # eventq_free s\<rparr>"
    using assms(2) Some p by (simp_all add: eventq_remove_def)
  have "queue_ok s'"
    using assms(1) q s' sorted_queue_drop_one [of xs e ys] by (simp add: queue_ok_def)
  moreover have "i \<in> ev_id ` set (eventq_pending s)" "i \<notin> ev_id ` set xs"
    using q by auto
  ultimately show ?thesis using q s' found by metis
qed

theorem eventq_remove_exact_witness:
  "queue_ok (snd (eventq_remove 1 eventq_two)) \<and> fst (eventq_remove 1 eventq_two)"
proof -
  have "queue_ok eventq_two"
    using eventq_two_sorted by (simp add: queue_ok_def eventq_two_def eventq_start_def)
  from eventq_remove_exact [OF this prod.collapse [symmetric], of 1]
  show ?thesis by (simp add: eventq_two_def)
qed

text \<open>The limit \<open>eventq_max_events\<close> is never enforced: the event count starts at 0 and neither
  queueing nor the count itself ever changes it, so with any positive limit every request to queue
  succeeds.\<close>

theorem QUEUE_EVENT_never_full:
  assumes "eventq_event_count s = 0" and "0 \<le> eventq_max_events s"
  shows "\<exists>i s'. QUEUE_EVENT t act s = Some (i, s') \<and> eventq_event_count s' = 0 \<and>
    eventq_max_events s' = eventq_max_events s \<and>
    length (eventq_pending s') = Suc (length (eventq_pending s))"
  using assms by (auto simp: QUEUE_EVENT_def Let_def split: list.splits)

theorem QUEUE_EVENT_never_full_witness:
  "\<exists>i s'. QUEUE_EVENT 9 (EventAddOp 7 2) (eventq_two\<lparr>eventq_max_events := 1\<rparr>) = Some (i, s') \<and>
     length (eventq_pending s') = 3"
  using QUEUE_EVENT_never_full [of "eventq_two\<lparr>eventq_max_events := 1\<rparr>" 9 "EventAddOp 7 2"]
  by (auto simp: eventq_two_def eventq_start_def)

end
