(* ===== verification/Memory.thy ===== *)
theory Memory
  imports Prelude
begin

unbundle bit_operations_syntax

text \<open>
  The flat target memory of memory.c and memory.h: an inverted page table of buckets with
  move-to-front, pages allocated at the first write, byte accesses through \<open>mem_access\<close>, and the
  block routines \<open>mem_strcpy\<close>, \<open>mem_bcopy\<close>, \<open>mem_bcopy4\<close>, \<open>mem_bzero\<close> that go through a
  caller-supplied accessor. \<open>None\<close> is a host access outside an object (a NULL page pointer or a host
  buffer that is too short). Host memory is taken to be unlimited.
\<close>

section \<open>Page table\<close>

datatype md_fault_type =
    md_fault_none | md_fault_access | md_fault_alignment | md_fault_overflow | md_fault_div0
  | md_fault_break | md_fault_unimpl | md_fault_internal

datatype mem_cmd = Read | Write

text \<open>A page pointer is the number of the page in allocation order; \<open>host_pages\<close> are the host's
  page blocks.\<close>

record mem_pte_t =
  pte_tag :: "32 word"
  pte_page :: nat

record mem_t =
  ptab :: "nat \<Rightarrow> mem_pte_t list"
  page_count :: counter_t
  ptab_misses :: counter_t
  ptab_accesses :: counter_t
  host_pages :: "8 word list list"

definition MD_PAGE_SIZE :: nat where "MD_PAGE_SIZE = 4096"

definition MEM_PTAB_SET :: "md_addr_t \<Rightarrow> nat" where
  "MEM_PTAB_SET addr = unat (drop_bit 12 addr AND 0x7FFF)"

definition MEM_PTAB_TAG :: "md_addr_t \<Rightarrow> 32 word" where
  "MEM_PTAB_TAG addr = drop_bit 27 addr"

definition MEM_PTE_ADDR :: "mem_pte_t \<Rightarrow> nat \<Rightarrow> md_addr_t" where
  "MEM_PTE_ADDR pte idx = push_bit 27 (pte_tag pte) OR push_bit 12 (of_nat idx)"

definition MEM_OFFSET :: "md_addr_t \<Rightarrow> nat" where
  "MEM_OFFSET addr = unat (addr AND 0xFFF)"

text \<open>The bucket walk of \<open>mem_translate\<close>: the entry with the tag and the bucket without it.\<close>

fun pte_unlink :: "32 word \<Rightarrow> mem_pte_t list \<Rightarrow> (mem_pte_t \<times> mem_pte_t list) option" where
  "pte_unlink t [] = None"
| "pte_unlink t (p # ps) =
     (if pte_tag p = t then Some (p, ps)
      else map_option (\<lambda>(q, qs). (q, p # qs)) (pte_unlink t ps))"

definition mem_translate :: "mem_t \<Rightarrow> md_addr_t \<Rightarrow> nat option \<times> mem_t" where
  "mem_translate mem addr =
     (let mem = mem\<lparr>ptab_misses := ptab_misses mem + 1, ptab_accesses := ptab_accesses mem + 1\<rparr>;
          set = MEM_PTAB_SET addr
      in case pte_unlink (MEM_PTAB_TAG addr) (ptab mem set) of
           None \<Rightarrow> (None, mem)
         | Some (pte, rest) \<Rightarrow>
             (Some (pte_page pte), mem\<lparr>ptab := (ptab mem)(set := pte # rest)\<rparr>))"

definition mem_newpage :: "mem_t \<Rightarrow> md_addr_t \<Rightarrow> mem_t" where
  "mem_newpage mem addr =
     (let page = length (host_pages mem);
          pte = \<lparr>pte_tag = MEM_PTAB_TAG addr, pte_page = page\<rparr>;
          set = MEM_PTAB_SET addr
      in mem\<lparr>ptab := (ptab mem)(set := pte # ptab mem set),
             page_count := page_count mem + 1,
             host_pages := host_pages mem @ [replicate MD_PAGE_SIZE 0]\<rparr>)"

definition MEM_PAGE :: "mem_t \<Rightarrow> md_addr_t \<Rightarrow> nat option \<times> mem_t" where
  "MEM_PAGE mem addr =
     (case ptab mem (MEM_PTAB_SET addr) of
        pte # rest \<Rightarrow>
          if pte_tag pte = MEM_PTAB_TAG addr
          then (Some (pte_page pte), mem\<lparr>ptab_accesses := ptab_accesses mem + 1\<rparr>)
          else mem_translate mem addr
      | [] \<Rightarrow> mem_translate mem addr)"

definition MEM_TICKLE :: "mem_t \<Rightarrow> md_addr_t \<Rightarrow> mem_t" where
  "MEM_TICKLE mem addr =
     (case MEM_PAGE mem addr of
        (None, mem) \<Rightarrow> mem_newpage mem addr
      | (Some page, mem) \<Rightarrow> mem)"

text \<open>\<open>MEM_READ\<close> and \<open>MEM_WRITE\<close> at type \<open>byte_t\<close>, the only type \<open>mem_access\<close> uses. Both expand
  \<open>MEM_PAGE\<close> a second time for the access itself.\<close>

definition MEM_READ_BYTE :: "mem_t \<Rightarrow> md_addr_t \<Rightarrow> (8 word \<times> mem_t) option" where
  "MEM_READ_BYTE mem addr =
     (case MEM_PAGE mem addr of
        (None, mem) \<Rightarrow> Some (0, mem)
      | (Some _, mem) \<Rightarrow>
          (case MEM_PAGE mem addr of
             (None, mem) \<Rightarrow> None
           | (Some page, mem) \<Rightarrow> Some (host_pages mem ! page ! MEM_OFFSET addr, mem)))"

definition MEM_WRITE_BYTE :: "mem_t \<Rightarrow> md_addr_t \<Rightarrow> 8 word \<Rightarrow> mem_t option" where
  "MEM_WRITE_BYTE mem addr val =
     (case MEM_PAGE (MEM_TICKLE mem addr) addr of
        (None, mem) \<Rightarrow> None
      | (Some page, mem) \<Rightarrow>
          Some (mem\<lparr>host_pages := (host_pages mem)
                     [page := (host_pages mem ! page)[MEM_OFFSET addr := val]]\<rparr>))"

definition ss_mem_init :: "mem_t \<Rightarrow> mem_t" where
  "ss_mem_init mem =
     mem\<lparr>ptab := (\<lambda>i. if i < 32 * 1024 then [] else ptab mem i),
         page_count := 0, ptab_misses := 0, ptab_accesses := 0\<rparr>"

text \<open>The zeroed block \<open>mem_create\<close> allocates.\<close>

definition mem_create :: mem_t where
  "mem_create = \<lparr>ptab = (\<lambda>_. []), page_count = 0, ptab_misses = 0, ptab_accesses = 0,
     host_pages = []\<rparr>"

section \<open>Access\<close>

fun read_loop :: "nat \<Rightarrow> mem_t \<Rightarrow> md_addr_t \<Rightarrow> (8 word list \<times> mem_t) option" where
  "read_loop 0 mem addr = Some ([], mem)"
| "read_loop (Suc n) mem addr =
     do { (b, mem) \<leftarrow> MEM_READ_BYTE mem addr;
          (bs, mem) \<leftarrow> read_loop n mem (addr + 1);
          Some (b # bs, mem) }"

fun write_loop :: "8 word list \<Rightarrow> mem_t \<Rightarrow> md_addr_t \<Rightarrow> mem_t option" where
  "write_loop [] mem addr = Some mem"
| "write_loop (b # bs) mem addr =
     do { mem \<leftarrow> MEM_WRITE_BYTE mem addr b;
          write_loop bs mem (addr + 1) }"

text \<open>\<open>p\<close> is the host memory from \<open>vp\<close> to the end of its object.\<close>

type_synonym mem_access_fn =
  "mem_t \<Rightarrow> mem_cmd \<Rightarrow> md_addr_t \<Rightarrow> 8 word list \<Rightarrow> int
     \<Rightarrow> (md_fault_type \<times> 8 word list \<times> mem_t) option"

definition mem_access :: mem_access_fn where
  "mem_access mem cmd addr p nbytes =
     (if (nbytes AND (nbytes - 1)) \<noteq> 0 \<or> nbytes > int MD_PAGE_SIZE
      then Some (md_fault_access, p, mem)
      else if addr AND word_of_int (nbytes - 1) \<noteq> 0
      then Some (md_fault_alignment, p, mem)
      else if int (length p) < nbytes then None
      else case cmd of
        Read \<Rightarrow>
          do { (bs, mem) \<leftarrow> read_loop (nat nbytes) mem addr;
               Some (md_fault_none, bs @ drop (nat nbytes) p, mem) }
      | Write \<Rightarrow>
          do { mem \<leftarrow> write_loop (take (nat nbytes) p) mem addr;
               Some (md_fault_none, p, mem) })"

section \<open>Block routines\<close>

text \<open>The two loops of \<open>mem_strcpy\<close>. Reading a string runs until a zero byte is found, and never
  returns when there is none; the host buffer \<open>s\<close> is what the loop has stored so far.\<close>

partial_function (option) strcpy_read ::
  "mem_access_fn \<Rightarrow> mem_t \<Rightarrow> md_addr_t \<Rightarrow> 8 word list
     \<Rightarrow> (md_fault_type \<times> 8 word list \<times> mem_t) option" where
  "strcpy_read mem_fn mem addr s =
     (case mem_fn mem Read addr [0] 1 of
        None \<Rightarrow> None
      | Some (fault, p, mem) \<Rightarrow>
          if fault \<noteq> md_fault_none then Some (fault, s, mem)
          else if hd p = 0 then Some (md_fault_none, s @ [hd p], mem)
          else strcpy_read mem_fn mem (addr + 1) (s @ [hd p]))"

fun strcpy_write ::
  "mem_access_fn \<Rightarrow> mem_t \<Rightarrow> md_addr_t \<Rightarrow> 8 word list \<Rightarrow> (md_fault_type \<times> mem_t) option" where
  "strcpy_write mem_fn mem addr [] = None"
| "strcpy_write mem_fn mem addr (c # s) =
     (case mem_fn mem Write addr [c] 1 of
        None \<Rightarrow> None
      | Some (fault, p, mem) \<Rightarrow>
          if fault \<noteq> md_fault_none then Some (fault, mem)
          else if c = 0 then Some (md_fault_none, mem)
          else strcpy_write mem_fn mem (addr + 1) s)"

definition mem_strcpy ::
  "mem_access_fn \<Rightarrow> mem_t \<Rightarrow> mem_cmd \<Rightarrow> md_addr_t \<Rightarrow> 8 word list
     \<Rightarrow> (md_fault_type \<times> 8 word list \<times> mem_t) option" where
  "mem_strcpy mem_fn mem cmd addr s =
     (case cmd of
        Read \<Rightarrow> strcpy_read mem_fn mem addr []
      | Write \<Rightarrow> map_option (\<lambda>(fault, mem). (fault, s, mem)) (strcpy_write mem_fn mem addr s))"

text \<open>The loop of \<open>mem_bcopy\<close>, of \<open>mem_bcopy4\<close> (unit 4) and, over a zero buffer, of \<open>mem_bzero\<close>:
  \<open>k\<close> transfers of \<open>u\<close> bytes each, \<open>p\<close> the rest of the host buffer.\<close>

fun copy_loop ::
  "nat \<Rightarrow> mem_access_fn \<Rightarrow> nat \<Rightarrow> mem_t \<Rightarrow> mem_cmd \<Rightarrow> md_addr_t \<Rightarrow> 8 word list
     \<Rightarrow> (md_fault_type \<times> 8 word list \<times> mem_t) option" where
  "copy_loop u mem_fn 0 mem cmd addr p = Some (md_fault_none, p, mem)"
| "copy_loop u mem_fn (Suc k) mem cmd addr p =
     (if length p < u then None else
      case mem_fn mem cmd addr p (int u) of
        None \<Rightarrow> None
      | Some (fault, p, mem) \<Rightarrow>
          if fault \<noteq> md_fault_none then Some (fault, p, mem)
          else map_option (\<lambda>(fault, q, mem). (fault, take u p @ q, mem))
                 (copy_loop u mem_fn k mem cmd (addr + of_nat u) (drop u p)))"

definition mem_bcopy where
  "mem_bcopy mem_fn mem cmd addr vp nbytes = copy_loop 1 mem_fn (nat nbytes) mem cmd addr vp"

definition mem_bcopy4 where
  "mem_bcopy4 mem_fn mem cmd addr vp nbytes =
     copy_loop 4 mem_fn (nat (nbytes div 4)) mem cmd addr vp"

fun bzero_loop ::
  "mem_access_fn \<Rightarrow> nat \<Rightarrow> mem_t \<Rightarrow> md_addr_t \<Rightarrow> (md_fault_type \<times> mem_t) option" where
  "bzero_loop mem_fn 0 mem addr = Some (md_fault_none, mem)"
| "bzero_loop mem_fn (Suc k) mem addr =
     (case mem_fn mem Write addr [0] 1 of
        None \<Rightarrow> None
      | Some (fault, p, mem) \<Rightarrow>
          if fault \<noteq> md_fault_none then Some (fault, mem)
          else bzero_loop mem_fn k mem (addr + 1))"

definition mem_bzero where
  "mem_bzero mem_fn mem addr nbytes = bzero_loop mem_fn (nat nbytes) mem addr"

text \<open>\<open>ss_mem_dump\<close>: the lines it prints are the output list. \<open>sizeof(word_t)\<close> is 4 and its type is
  unsigned, so the masks are 32-bit.\<close>

fun dump_loop ::
  "nat \<Rightarrow> mem_t \<Rightarrow> md_addr_t \<Rightarrow> (md_fault_type \<times> (md_addr_t \<times> 8 word list) list \<times> mem_t) option" where
  "dump_loop 0 mem addr = Some (md_fault_none, [], mem)"
| "dump_loop (Suc k) mem addr =
     (case mem_access mem Read addr [0, 0, 0, 0] 4 of
        None \<Rightarrow> None
      | Some (fault, data, mem) \<Rightarrow>
          if fault \<noteq> md_fault_none then Some (fault, [], mem)
          else map_option (\<lambda>(fault, out, mem). (fault, (addr, data) # out, mem))
                 (dump_loop k mem (addr + 4)))"

definition ss_mem_dump ::
  "mem_t \<Rightarrow> md_addr_t \<Rightarrow> int \<Rightarrow> (md_fault_type \<times> (md_addr_t \<times> 8 word list) list \<times> mem_t) option" where
  "ss_mem_dump mem addr len =
     (let addr = addr AND NOT 4;
          len = sint ((word_of_int len + 3 :: 32 word) AND NOT 4)
      in dump_loop (nat len) mem addr)"

section \<open>Address fields\<close>

lemma MEM_OFFSET_less: "MEM_OFFSET a < 4096"
proof -
  have "a AND 0xFFF \<le> (0xFFF :: 32 word)" by (rule word_and_le1)
  then have "unat (a AND 0xFFF) \<le> unat (0xFFF :: 32 word)" by (simp only: word_le_nat_alt)
  then show ?thesis by (simp add: MEM_OFFSET_def)
qed

lemma bit_mask_numeral:
  "bit (0xFFF :: 32 word) n = (n < 12)" "bit (0x7FFF :: 32 word) n = (n < 15)"
proof -
  have "(0xFFF :: 32 word) = mask 12" "(0x7FFF :: 32 word) = mask 15"
    by (simp_all add: mask_eq_decr_exp)
  then show "bit (0xFFF :: 32 word) n = (n < 12)" "bit (0x7FFF :: 32 word) n = (n < 15)"
    by (simp_all only: bit_mask_iff) auto
qed

text \<open>Set, tag and offset together determine the address.\<close>

lemma MEM_fields_inject:
  assumes "MEM_PTAB_SET a = MEM_PTAB_SET b" "MEM_PTAB_TAG a = MEM_PTAB_TAG b"
    and "MEM_OFFSET a = MEM_OFFSET b"
  shows "a = b"
proof (rule bit_word_eqI)
  fix n assume "n < LENGTH(32)"
  then have n: "n < 32" by simp
  have off: "a AND 0xFFF = b AND 0xFFF"
    using assms(3) by (simp only: MEM_OFFSET_def word_unat_eq_iff)
  have st: "drop_bit 12 a AND 0x7FFF = drop_bit 12 b AND 0x7FFF"
    using assms(1) by (simp only: MEM_PTAB_SET_def word_unat_eq_iff)
  have tg: "drop_bit 27 a = drop_bit 27 b"
    using assms(2) by (simp add: MEM_PTAB_TAG_def)
  consider "n < 12" | "12 \<le> n" "n < 27" | "27 \<le> n" by linarith
  then show "bit a n = bit b n"
  proof cases
    case 1
    then show ?thesis
      using arg_cong [OF off, of "\<lambda>w. bit w n"] by (simp only: bit_and_iff bit_mask_numeral) simp
  next
    case 2
    then show ?thesis
      using arg_cong [OF st, of "\<lambda>w. bit w (n - 12)"]
      by (simp only: bit_and_iff bit_mask_numeral bit_drop_bit_eq comp_def) auto
  next
    case 3
    then show ?thesis
      using arg_cong [OF tg, of "\<lambda>w. bit w (n - 27)"]
      by (simp only: bit_drop_bit_eq comp_def) simp
  qed
qed

section \<open>Buckets\<close>

lemma pte_unlink_Some:
  "pte_unlink t ps = Some (p, qs) \<Longrightarrow> pte_tag p = t \<and> mset ps = add_mset p (mset qs)"
  by (induction ps arbitrary: qs) (auto split: if_splits)

lemma pte_unlink_None: "(pte_unlink t ps = None) = (t \<notin> pte_tag ` set ps)"
  by (induction ps) auto

text \<open>The translations of a bucket; moving the entry found to the front changes none of them.\<close>

definition bucket_map :: "mem_pte_t list \<Rightarrow> 32 word \<Rightarrow> nat option" where
  "bucket_map ps = map_of (map (\<lambda>p. (pte_tag p, pte_page p)) ps)"

lemma bucket_map_simps [simp]:
  "bucket_map [] = Map.empty"
  "bucket_map (p # ps) = (bucket_map ps)(pte_tag p \<mapsto> pte_page p)"
  by (simp_all add: bucket_map_def)

lemma pte_unlink_bucket_map:
  "pte_unlink t ps = Some (p, qs) \<Longrightarrow> bucket_map ps = (bucket_map qs)(pte_tag p \<mapsto> pte_page p)"
proof (induction ps arbitrary: qs)
  case (Cons a ps)
  show ?case
  proof (cases "pte_tag a = t")
    case False
    with Cons.prems obtain qs' where q: "pte_unlink t ps = Some (p, qs')" "qs = a # qs'" by auto
    with Cons.IH [OF q(1)] pte_unlink_Some [OF q(1)] False show ?thesis by (auto simp: fun_eq_iff)
  qed (use Cons.prems in auto)
qed simp

lemma pte_unlink_page:
  "bucket_map ps t = map_option (\<lambda>(p, _). pte_page p) (pte_unlink t ps)"
  by (induction ps) (auto simp: option.map_comp comp_def case_prod_beta)

lemma bucket_map_entry: "bucket_map ps t = Some g \<Longrightarrow> \<exists>p\<in>set ps. pte_tag p = t \<and> pte_page p = g"
  by (induction ps) (auto split: if_splits)

section \<open>The memory as a map from addresses to bytes\<close>

definition page_lookup :: "mem_t \<Rightarrow> md_addr_t \<Rightarrow> nat option" where
  "page_lookup m a = bucket_map (ptab m (MEM_PTAB_SET a)) (MEM_PTAB_TAG a)"

definition mem_byte :: "mem_t \<Rightarrow> md_addr_t \<Rightarrow> 8 word" where
  "mem_byte m a = (case page_lookup m a of None \<Rightarrow> 0 | Some g \<Rightarrow> host_pages m ! g ! MEM_OFFSET a)"

text \<open>The table is well formed: one entry per tag in a bucket, every entry has a page block of full
  size, and no page block belongs to two entries.\<close>

definition mem_ok :: "mem_t \<Rightarrow> bool" where
  "mem_ok m \<longleftrightarrow>
     (\<forall>s. distinct (map pte_tag (ptab m s))) \<and>
     (\<forall>s. \<forall>p\<in>set (ptab m s). pte_page p < length (host_pages m)) \<and>
     (\<forall>s t. \<forall>p\<in>set (ptab m s). \<forall>q\<in>set (ptab m t). pte_page p = pte_page q \<longrightarrow> s = t \<and> p = q) \<and>
     (\<forall>g\<in>set (host_pages m). length g = MD_PAGE_SIZE)"

lemma page_lookup_entry:
  "page_lookup m a = Some g \<Longrightarrow>
   \<exists>p\<in>set (ptab m (MEM_PTAB_SET a)). pte_page p = g \<and> pte_tag p = MEM_PTAB_TAG a"
  unfolding page_lookup_def by (drule bucket_map_entry) blast

lemma page_lookup_inject:
  assumes "mem_ok m" "page_lookup m a = Some g" "page_lookup m b = Some g"
  shows "MEM_PTAB_SET a = MEM_PTAB_SET b \<and> MEM_PTAB_TAG a = MEM_PTAB_TAG b"
  using page_lookup_entry [OF assms(2)] page_lookup_entry [OF assms(3)] assms(1)
  unfolding mem_ok_def by metis

lemma page_lookup_bound:
  assumes "mem_ok m" "page_lookup m a = Some g"
  shows "g < length (host_pages m)" "length (host_pages m ! g) = 4096"
  using page_lookup_entry [OF assms(2)] assms(1) unfolding mem_ok_def MD_PAGE_SIZE_def
  by (metis, metis nth_mem)

lemma mem_ok_counters [simp]:
  "mem_ok (m\<lparr>ptab_misses := x\<rparr>) = mem_ok m" "mem_ok (m\<lparr>ptab_accesses := x\<rparr>) = mem_ok m"
  "mem_ok (m\<lparr>page_count := x\<rparr>) = mem_ok m"
  by (simp_all add: mem_ok_def)

lemma page_lookup_counters [simp]:
  "page_lookup (m\<lparr>ptab_misses := x\<rparr>) = page_lookup m"
  "page_lookup (m\<lparr>ptab_accesses := x\<rparr>) = page_lookup m"
  "page_lookup (m\<lparr>page_count := x\<rparr>) = page_lookup m"
  "page_lookup (m\<lparr>host_pages := h\<rparr>) = page_lookup m"
  by (simp_all add: page_lookup_def fun_eq_iff)

lemma mem_ok_bucket:
  assumes "mem_ok m" and "mset ps = mset (ptab m s)"
  shows "mem_ok (m\<lparr>ptab := (ptab m)(s := ps)\<rparr>)"
proof -
  have set: "set ps = set (ptab m s)" using assms(2) by (rule mset_eq_setD)
  have "distinct (map pte_tag ps) = distinct (map pte_tag (ptab m s))"
    by (rule mset_eq_imp_distinct_iff) (simp add: assms(2))
  moreover have "set (((ptab m)(s := ps)) t) = set (ptab m t)" for t using set by simp
  ultimately show ?thesis
    using assms(1) unfolding mem_ok_def by simp
qed

lemma mem_translate_spec:
  assumes "mem_ok m" and "mem_translate m a = (r, m')"
  shows "r = page_lookup m a \<and> mem_ok m' \<and> page_lookup m' = page_lookup m \<and>
    host_pages m' = host_pages m"
proof (cases "pte_unlink (MEM_PTAB_TAG a) (ptab m (MEM_PTAB_SET a))")
  case None
  then show ?thesis
    using assms by (auto simp: mem_translate_def page_lookup_def Let_def pte_unlink_page)
next
  case (Some x)
  then obtain p qs where u: "pte_unlink (MEM_PTAB_TAG a) (ptab m (MEM_PTAB_SET a)) = Some (p, qs)"
    by (cases x) auto
  let ?m = "m\<lparr>ptab := (ptab m)(MEM_PTAB_SET a := p # qs)\<rparr>"
  have r: "r = page_lookup m a" and m': "m' = ?m\<lparr>ptab_misses := ptab_misses m + 1,
      ptab_accesses := ptab_accesses m + 1\<rparr>"
    using assms(2) u by (auto simp: mem_translate_def page_lookup_def Let_def pte_unlink_page)
  have "page_lookup ?m b = page_lookup m b" for b
    using pte_unlink_bucket_map [OF u] by (simp add: page_lookup_def)
  moreover have "mem_ok ?m"
    by (rule mem_ok_bucket [OF assms(1)]) (use pte_unlink_Some [OF u] in simp)
  ultimately show ?thesis using r m' by (simp add: fun_eq_iff)
qed

lemma MEM_PAGE_spec:
  assumes "mem_ok m" and "MEM_PAGE m a = (r, m')"
  shows "r = page_lookup m a \<and> mem_ok m' \<and> page_lookup m' = page_lookup m \<and>
    host_pages m' = host_pages m"
proof (cases "\<exists>p ps. ptab m (MEM_PTAB_SET a) = p # ps \<and> pte_tag p = MEM_PTAB_TAG a")
  case True
  then show ?thesis using assms by (auto simp: MEM_PAGE_def page_lookup_def)
next
  case False
  then have "MEM_PAGE m a = mem_translate m a" by (auto simp: MEM_PAGE_def split: list.splits)
  with assms(2) have "mem_translate m a = (r, m')" by simp
  with assms(1) show ?thesis by (rule mem_translate_spec)
qed

lemma mem_newpage_spec:
  assumes "mem_ok m" and "page_lookup m a = None" and "m' = mem_newpage m a"
  shows "mem_ok m'" and "host_pages m' = host_pages m @ [replicate 4096 0]"
    and "page_lookup m' b =
      (if MEM_PTAB_SET b = MEM_PTAB_SET a \<and> MEM_PTAB_TAG b = MEM_PTAB_TAG a
       then Some (length (host_pages m)) else page_lookup m b)"
proof -
  let ?s = "MEM_PTAB_SET a"
  have fresh: "MEM_PTAB_TAG a \<notin> pte_tag ` set (ptab m ?s)"
    using assms(2) by (auto simp: page_lookup_def pte_unlink_page pte_unlink_None)
  have old: "p \<in> set (ptab m s) \<Longrightarrow> pte_page p < length (host_pages m)" for p s
    using assms(1) by (auto simp: mem_ok_def)
  then have old': "\<And>p s. p \<in> set (ptab m s) \<Longrightarrow> length (host_pages m) \<noteq> pte_page p"
    by (metis less_irrefl)
  have bound: "\<And>s p. p \<in> set (ptab m s) \<Longrightarrow> pte_page p < Suc (length (host_pages m))"
    using old by (simp add: less_Suc_eq)
  show "mem_ok m'"
    unfolding mem_ok_def assms(3) mem_newpage_def Let_def
  proof (intro conjI allI ballI impI, goal_cases)
    case (1 s)
    then show ?case using assms(1) fresh by (auto simp: mem_ok_def)
  next
    case (2 s p)
    then show ?case using bound by (auto split: if_splits)
  next
    case (3 s t p q)
    then show ?case
      using assms(1) old' old' [symmetric] unfolding mem_ok_def by (auto split: if_splits)
  next
    case (4 s t p q)
    then show ?case
      using assms(1) old' old' [symmetric] unfolding mem_ok_def by (auto split: if_splits)
  next
    case (5 g)
    then show ?case using assms(1) by (auto simp: mem_ok_def)
  qed
  show "host_pages m' = host_pages m @ [replicate 4096 0]"
    by (simp add: assms(3) mem_newpage_def Let_def MD_PAGE_SIZE_def)
  show "page_lookup m' b =
      (if MEM_PTAB_SET b = MEM_PTAB_SET a \<and> MEM_PTAB_TAG b = MEM_PTAB_TAG a
       then Some (length (host_pages m)) else page_lookup m b)"
    by (auto simp: assms(3) mem_newpage_def page_lookup_def Let_def)
qed

section \<open>Bytes read and written\<close>

lemma mem_byte_cong:
  "page_lookup m' = page_lookup m \<Longrightarrow> host_pages m' = host_pages m \<Longrightarrow> mem_byte m' = mem_byte m"
  by (rule ext) (simp add: mem_byte_def split: option.split)

lemma MEM_READ_BYTE_spec:
  assumes "mem_ok m"
  shows "\<exists>m'. MEM_READ_BYTE m a = Some (mem_byte m a, m') \<and> mem_ok m' \<and> mem_byte m' = mem_byte m"
proof -
  obtain r m1 where 1: "MEM_PAGE m a = (r, m1)" by (cases "MEM_PAGE m a")
  from MEM_PAGE_spec [OF assms 1] have m1: "r = page_lookup m a" "mem_ok m1"
    "page_lookup m1 = page_lookup m" "host_pages m1 = host_pages m" by auto
  obtain r2 m2 where 2: "MEM_PAGE m1 a = (r2, m2)" by (cases "MEM_PAGE m1 a")
  from MEM_PAGE_spec [OF m1(2) 2] m1 have m2: "r2 = page_lookup m a" "mem_ok m2"
    "page_lookup m2 = page_lookup m" "host_pages m2 = host_pages m" by auto
  show ?thesis
  proof (cases "page_lookup m a")
    case None
    then have "MEM_READ_BYTE m a = Some (mem_byte m a, m1)"
      using 1 m1(1) by (simp add: MEM_READ_BYTE_def mem_byte_def)
    then show ?thesis using m1 mem_byte_cong by blast
  next
    case (Some g)
    then have "MEM_READ_BYTE m a = Some (mem_byte m a, m2)"
      using 1 2 m1(1) m2(1,4) by (simp add: MEM_READ_BYTE_def mem_byte_def)
    then show ?thesis using m2 mem_byte_cong by blast
  qed
qed

text \<open>The page is there after the tickle, and only its own bytes can be affected by a write.\<close>

lemma MEM_TICKLE_spec:
  assumes "mem_ok m"
  shows "mem_ok (MEM_TICKLE m a) \<and> page_lookup (MEM_TICKLE m a) a \<noteq> None \<and>
    mem_byte (MEM_TICKLE m a) = mem_byte m"
proof -
  obtain r m1 where 1: "MEM_PAGE m a = (r, m1)" by (cases "MEM_PAGE m a")
  from MEM_PAGE_spec [OF assms 1] have m1: "r = page_lookup m a" "mem_ok m1"
    "page_lookup m1 = page_lookup m" "host_pages m1 = host_pages m" by auto
  show ?thesis
  proof (cases "page_lookup m a")
    case None
    then have t: "MEM_TICKLE m a = mem_newpage m1 a" using 1 m1(1) by (simp add: MEM_TICKLE_def)
    from None m1 have none: "page_lookup m1 a = None" by simp
    note new = mem_newpage_spec [OF m1(2) none t]
    have "mem_byte (MEM_TICKLE m a) b = mem_byte m b" for b
    proof (cases "MEM_PTAB_SET b = MEM_PTAB_SET a \<and> MEM_PTAB_TAG b = MEM_PTAB_TAG a")
      case True
      then have "page_lookup m b = None" using None by (simp add: page_lookup_def)
      then show ?thesis
        using True new(3) [of b] MEM_OFFSET_less [of b] by (simp add: mem_byte_def new(2) nth_append)
    next
      case False
      then have "page_lookup (MEM_TICKLE m a) b = page_lookup m b" using new(3) [of b] m1(3) by auto
      then show ?thesis
        using page_lookup_bound(1) [OF assms, of b]
        by (auto simp: mem_byte_def new(2) m1 nth_append split: option.split)
    qed
    then show ?thesis using new(1,3) by auto
  next
    case (Some g)
    then have "MEM_TICKLE m a = m1" using 1 m1(1) by (simp add: MEM_TICKLE_def)
    then show ?thesis using Some m1 mem_byte_cong [of m1 m] by auto
  qed
qed

lemma page_update_byte:
  assumes ok: "mem_ok m" and g: "page_lookup m a = Some g"
    and m': "m' = m\<lparr>host_pages := (host_pages m)[g := (host_pages m ! g)[MEM_OFFSET a := v]]\<rparr>"
  shows "mem_ok m' \<and> mem_byte m' = (mem_byte m)(a := v)"
proof
  note b = page_lookup_bound [OF ok g]
  have "length h = MD_PAGE_SIZE" if "h \<in> set (host_pages m')" for h
  proof -
    have "h = (host_pages m ! g)[MEM_OFFSET a := v] \<or> h \<in> set (host_pages m)"
      using that m' by (auto dest: set_update_subset_insert [THEN subsetD])
    then show ?thesis using ok b(2) by (auto simp: mem_ok_def MD_PAGE_SIZE_def)
  qed
  with ok show "mem_ok m'" unfolding mem_ok_def m' by simp
  have "mem_byte m' x = ((mem_byte m)(a := v)) x" for x
  proof (cases "page_lookup m x = Some g")
    case True
    note inj = page_lookup_inject [OF ok g True]
    show ?thesis
    proof (cases "MEM_OFFSET x = MEM_OFFSET a")
      case off: True
      then have "x = a" using inj MEM_fields_inject [of x a] by simp
      then show ?thesis using True b MEM_OFFSET_less [of a] by (simp add: mem_byte_def m')
    next
      case False
      then have "x \<noteq> a" by blast
      then show ?thesis using True False b by (simp add: mem_byte_def m')
    qed
  next
    case False
    then have "x \<noteq> a" using g by auto
    then show ?thesis using False by (auto simp: mem_byte_def m' split: option.split)
  qed
  then show "mem_byte m' = (mem_byte m)(a := v)" by (rule ext)
qed

lemma MEM_WRITE_BYTE_spec:
  assumes "mem_ok m"
  shows "\<exists>m'. MEM_WRITE_BYTE m a v = Some m' \<and> mem_ok m' \<and> mem_byte m' = (mem_byte m)(a := v)"
proof -
  let ?t = "MEM_TICKLE m a"
  obtain r m1 where 1: "MEM_PAGE ?t a = (r, m1)" by (cases "MEM_PAGE ?t a")
  note t = MEM_TICKLE_spec [OF assms, of a]
  from t MEM_PAGE_spec [OF _ 1] have m1: "r = page_lookup ?t a" "mem_ok m1"
    "page_lookup m1 = page_lookup ?t" "host_pages m1 = host_pages ?t" by auto
  from t m1(1,3) obtain g where g: "r = Some g" "page_lookup m1 a = Some g" by auto
  have "mem_byte m1 = mem_byte m" using mem_byte_cong [OF m1(3,4)] t by simp
  with page_update_byte [OF m1(2) g(2) refl, of v] show ?thesis
    using 1 g(1) by (simp add: MEM_WRITE_BYTE_def)
qed

section \<open>The access loops\<close>

text \<open>The bytes at \<open>n\<close> consecutive addresses, and the map after writing a list of bytes.\<close>

definition bytes_at :: "(md_addr_t \<Rightarrow> 8 word) \<Rightarrow> md_addr_t \<Rightarrow> nat \<Rightarrow> 8 word list" where
  "bytes_at f a n = map (\<lambda>i. f (a + of_nat i)) [0..<n]"

fun put_bytes :: "8 word list \<Rightarrow> md_addr_t \<Rightarrow> (md_addr_t \<Rightarrow> 8 word) \<Rightarrow> md_addr_t \<Rightarrow> 8 word" where
  "put_bytes [] a f = f"
| "put_bytes (b # bs) a f = put_bytes bs (a + 1) (f(a := b))"

lemma bytes_at_0 [simp]: "bytes_at f a 0 = []"
  by (simp add: bytes_at_def)

lemma length_bytes_at [simp]: "length (bytes_at f a n) = n"
  by (simp add: bytes_at_def)

lemma bytes_at_Suc: "bytes_at f a (Suc n) = f a # bytes_at f (a + 1) n"
  by (simp add: bytes_at_def map_upt_Suc algebra_simps del: upt_Suc)

lemma read_loop_spec:
  "mem_ok m \<Longrightarrow> \<exists>m'. read_loop n m a = Some (bytes_at (mem_byte m) a n, m') \<and> mem_ok m' \<and>
     mem_byte m' = mem_byte m"
proof (induction n arbitrary: m a)
  case (Suc n)
  from MEM_READ_BYTE_spec [OF Suc.prems] obtain m1 where
    1: "MEM_READ_BYTE m a = Some (mem_byte m a, m1)" "mem_ok m1" "mem_byte m1 = mem_byte m" by blast
  from Suc.IH [OF 1(2), of "a + 1"] obtain m2 where
    "read_loop n m1 (a + 1) = Some (bytes_at (mem_byte m1) (a + 1) n, m2)" "mem_ok m2"
    "mem_byte m2 = mem_byte m1" by blast
  with 1 show ?case by (simp add: bytes_at_Suc)
qed simp

lemma write_loop_spec:
  "mem_ok m \<Longrightarrow> \<exists>m'. write_loop bs m a = Some m' \<and> mem_ok m' \<and>
     mem_byte m' = put_bytes bs a (mem_byte m)"
proof (induction bs arbitrary: m a)
  case (Cons b bs)
  from MEM_WRITE_BYTE_spec [OF Cons.prems] obtain m1 where
    1: "MEM_WRITE_BYTE m a b = Some m1" "mem_ok m1" "mem_byte m1 = (mem_byte m)(a := b)" by blast
  have put: "put_bytes (b # bs) a (mem_byte m) = put_bytes bs (a + 1) (mem_byte m1)"
    by (simp only: put_bytes.simps 1(3))
  have run: "write_loop (b # bs) m a = write_loop bs m1 (a + 1)"
    by (simp add: 1(1))
  from Cons.IH [OF 1(2), of "a + 1"] show ?case by (simp only: put run)
qed simp

lemma put_bytes_other:
  "(\<And>i. i < length bs \<Longrightarrow> x \<noteq> a + of_nat i) \<Longrightarrow> put_bytes bs a f x = f x"
proof (induction bs arbitrary: a f)
  case (Cons b bs)
  have "x \<noteq> a" using Cons.prems [of 0] by simp
  moreover have "x \<noteq> a + 1 + of_nat i" if "i < length bs" for i
    using Cons.prems [of "Suc i"] that by (simp add: algebra_simps)
  ultimately show ?case using Cons.IH [of "a + 1"] by simp
qed simp

text \<open>Fewer than \<open>2 ^ 32\<close> consecutive addresses are different.\<close>

lemma of_nat_word_nonzero: "0 < k \<Longrightarrow> k < 2 ^ 32 \<Longrightarrow> (of_nat k :: 32 word) \<noteq> 0"
proof
  assume k: "0 < k" "k < 2 ^ 32" and z: "(of_nat k :: 32 word) = 0"
  have "unat (of_nat k :: 32 word) = k mod 2 ^ LENGTH(32)" by (rule unat_of_nat)
  also have "\<dots> = k" by (rule mod_less) (use k(2) in simp)
  finally have "unat (of_nat k :: 32 word) = k" .
  with z have "k = 0" by (simp only: unat_0)
  with k(1) show False by simp
qed

lemma put_bytes_nth:
  assumes "\<And>k. 0 < k \<Longrightarrow> k < length bs \<Longrightarrow> (of_nat k :: 32 word) \<noteq> 0" and "i < length bs"
  shows "put_bytes bs a f (a + of_nat i) = bs ! i"
  using assms
proof (induction bs arbitrary: a f i)
  case (Cons b bs)
  show ?case
  proof (cases i)
    case 0
    have "a \<noteq> a + 1 + of_nat k" if "k < length bs" for k
      using Cons.prems(1) [of "Suc k"] that by (simp add: add.assoc)
    then have "put_bytes bs (a + 1) (f(a := b)) a = (f(a := b)) a" by (rule put_bytes_other)
    then show ?thesis using 0 by simp
  next
    case (Suc k)
    have "put_bytes bs (a + 1) (f(a := b)) (a + 1 + of_nat k) = bs ! k"
      using Cons.prems Suc by (intro Cons.IH) simp_all
    then show ?thesis using Suc by (simp add: algebra_simps)
  qed
qed simp

lemma put_bytes_at:
  assumes "length bs \<le> 2 ^ 32" and "i < length bs"
  shows "put_bytes bs a f (a + of_nat i) = bs ! i"
  by (rule put_bytes_nth) (use assms of_nat_word_nonzero less_le_trans in blast)+

lemma bytes_at_put_bytes:
  assumes "length bs \<le> 2 ^ 32"
  shows "bytes_at (put_bytes bs a f) a (length bs) = bs"
  by (rule nth_equalityI) (simp_all only: bytes_at_def put_bytes_at [OF assms] length_map length_upt
      diff_zero nth_map nth_upt add_0)

lemma put_bytes_append:
  "put_bytes (xs @ ys) a f = put_bytes ys (a + of_nat (length xs)) (put_bytes xs a f)"
  by (induction xs arbitrary: a f) (simp_all add: algebra_simps)

section \<open>What an accessor promises\<close>

text \<open>The block routines work with any accessor that, on single bytes and on aligned words, reads
  and writes the bytes of the map that its memory stands for.\<close>

locale byte_accessor =
  fixes mem_fn :: mem_access_fn
    and ok :: "mem_t \<Rightarrow> bool"
    and bytes :: "mem_t \<Rightarrow> md_addr_t \<Rightarrow> 8 word"
  assumes read_byte: "ok m \<Longrightarrow> p \<noteq> [] \<Longrightarrow>
      \<exists>m'. mem_fn m Read a p 1 = Some (md_fault_none, bytes m a # tl p, m') \<and> ok m' \<and> bytes m' = bytes m"
    and write_byte: "ok m \<Longrightarrow> p \<noteq> [] \<Longrightarrow>
      \<exists>m'. mem_fn m Write a p 1 = Some (md_fault_none, p, m') \<and> ok m' \<and>
        bytes m' = (bytes m)(a := hd p)"
begin

lemma bcopy_write:
  assumes "ok m" and "k \<le> length p"
  shows "\<exists>m'. copy_loop 1 mem_fn k m Write a p = Some (md_fault_none, p, m') \<and> ok m' \<and>
    bytes m' = put_bytes (take k p) a (bytes m)"
  using assms
proof (induction k arbitrary: m a p)
  case (Suc k)
  then obtain b q where p: "p = b # q" by (cases p) auto
  obtain m1 where 1: "mem_fn m Write a p 1 = Some (md_fault_none, p, m1)" "ok m1"
    "bytes m1 = (bytes m)(a := hd p)" using write_byte [OF Suc.prems(1), of p a] p by blast
  have put: "put_bytes (take (Suc k) p) a (bytes m) = put_bytes (take k q) (a + 1) (bytes m1)"
    by (simp only: p take_Suc_Cons put_bytes.simps 1(3) list.sel)
  from Suc.IH [OF 1(2), of q "a + 1"] Suc.prems p obtain m2 where
    "copy_loop 1 mem_fn k m1 Write (a + 1) q = Some (md_fault_none, q, m2)" "ok m2"
    "bytes m2 = put_bytes (take k q) (a + 1) (bytes m1)" by auto
  then show ?case unfolding put using 1(1) by (simp add: p)
qed simp

lemma bcopy_read:
  assumes "ok m" and "k \<le> length p"
  shows "\<exists>m'. copy_loop 1 mem_fn k m Read a p =
      Some (md_fault_none, bytes_at (bytes m) a k @ drop k p, m') \<and> ok m' \<and> bytes m' = bytes m"
  using assms
proof (induction k arbitrary: m a p)
  case (Suc k)
  then obtain b q where p: "p = b # q" by (cases p) auto
  obtain m1 where 1: "mem_fn m Read a p 1 = Some (md_fault_none, bytes m a # q, m1)" "ok m1"
    "bytes m1 = bytes m" using read_byte [OF Suc.prems(1), of p a] p by auto
  from Suc.IH [OF 1(2), of q "a + 1"] Suc.prems p obtain m2 where
    "copy_loop 1 mem_fn k m1 Read (a + 1) q =
       Some (md_fault_none, bytes_at (bytes m) (a + 1) k @ drop k q, m2)" "ok m2"
    "bytes m2 = bytes m" by (auto simp: 1(3))
  then show ?case using 1(1) by (simp add: p bytes_at_Suc)
qed simp

lemma bzero_zeroes:
  assumes "ok m"
  shows "\<exists>m'. bzero_loop mem_fn k m a = Some (md_fault_none, m') \<and> ok m' \<and>
    bytes m' = put_bytes (replicate k 0) a (bytes m)"
  using assms
proof (induction k arbitrary: m a)
  case (Suc k)
  obtain m1 where 1: "mem_fn m Write a [0] 1 = Some (md_fault_none, [0], m1)" "ok m1"
    "bytes m1 = (bytes m)(a := 0)" using write_byte [OF Suc.prems, of "[0]" a] by auto
  have put: "put_bytes (replicate (Suc k) 0) a (bytes m) = put_bytes (replicate k 0) (a + 1) (bytes m1)"
    by (simp only: replicate_Suc put_bytes.simps 1(3))
  from Suc.IH [OF 1(2), of "a + 1"] show ?case unfolding put using 1(1) by simp
qed simp

text \<open>A string is the bytes up to and including the first zero.\<close>

lemma strcpy_write_string:
  assumes "ok m" and "0 \<notin> set s"
  shows "\<exists>m'. strcpy_write mem_fn m a (s @ 0 # t) = Some (md_fault_none, m') \<and> ok m' \<and>
    bytes m' = put_bytes (s @ [0]) a (bytes m)"
  using assms
proof (induction s arbitrary: m a)
  case Nil
  then show ?case using write_byte [OF Nil(1), of "[0]" a] by (auto simp: fun_upd_def)
next
  case (Cons c s)
  obtain m1 where 1: "mem_fn m Write a [c] 1 = Some (md_fault_none, [c], m1)" "ok m1"
    "bytes m1 = (bytes m)(a := c)" using write_byte [OF Cons.prems(1), of "[c]" a] by auto
  have put: "put_bytes ((c # s) @ [0]) a (bytes m) = put_bytes (s @ [0]) (a + 1) (bytes m1)"
    by (simp only: append_Cons put_bytes.simps 1(3))
  from Cons.IH [OF 1(2), of "a + 1"] Cons.prems(2) show ?case unfolding put using 1(1) by simp
qed

lemma strcpy_read_string:
  assumes "ok m" and "bytes_at (bytes m) a (Suc (length s)) = s @ [0]" and "0 \<notin> set s"
  shows "\<exists>m'. strcpy_read mem_fn m a acc = Some (md_fault_none, acc @ s @ [0], m') \<and> ok m' \<and>
    bytes m' = bytes m"
  using assms
proof (induction s arbitrary: m a acc)
  case Nil
  then show ?case
    using read_byte [OF Nil(1), of "[0]" a]
    by (subst strcpy_read.simps) (auto simp: bytes_at_Suc)
next
  case (Cons c s)
  from Cons.prems(2) have c: "bytes m a = c" "bytes_at (bytes m) (a + 1) (Suc (length s)) = s @ [0]"
    by (auto simp: bytes_at_Suc)
  obtain m1 where 1: "mem_fn m Read a [0] 1 = Some (md_fault_none, [c], m1)" "ok m1"
    "bytes m1 = bytes m" using read_byte [OF Cons.prems(1), of "[0]" a] c by auto
  from Cons.IH [OF 1(2), of "a + 1" "acc @ [c]"] c(2) Cons.prems(3) 1 show ?case
    by (subst strcpy_read.simps) auto
qed

end

section \<open>\<open>mem_access\<close> keeps that promise\<close>

lemma mem_access_Read:
  assumes "mem_ok m" "(n AND (n - 1)) = 0" "n \<le> 4096" "a AND word_of_int (n - 1) = 0"
    and "n \<le> int (length p)"
  shows "\<exists>m'. mem_access m Read a p n =
      Some (md_fault_none, bytes_at (mem_byte m) a (nat n) @ drop (nat n) p, m') \<and>
    mem_ok m' \<and> mem_byte m' = mem_byte m"
  using read_loop_spec [OF assms(1), of "nat n" a] assms(2-5)
  by (auto simp: mem_access_def MD_PAGE_SIZE_def)

lemma mem_access_Write:
  assumes "mem_ok m" "(n AND (n - 1)) = 0" "n \<le> 4096" "a AND word_of_int (n - 1) = 0"
    and "n \<le> int (length p)"
  shows "\<exists>m'. mem_access m Write a p n = Some (md_fault_none, p, m') \<and> mem_ok m' \<and>
    mem_byte m' = put_bytes (take (nat n) p) a (mem_byte m)"
  using write_loop_spec [OF assms(1), of "take (nat n) p" a] assms(2-5)
  by (auto simp: mem_access_def MD_PAGE_SIZE_def)

lemma one_byte_aligned: "(1::int) AND (1 - 1) = 0" "(a :: 32 word) AND word_of_int (1 - 1) = 0"
  by simp_all

interpretation flat: byte_accessor mem_access mem_ok mem_byte
proof
  fix m a and p :: "8 word list"
  assume m: "mem_ok m" and p: "p \<noteq> []"
  then obtain b q where q: "p = b # q" by (cases p) auto
  show "\<exists>m'. mem_access m Read a p 1 = Some (md_fault_none, mem_byte m a # tl p, m') \<and>
      mem_ok m' \<and> mem_byte m' = mem_byte m"
    using mem_access_Read [OF m one_byte_aligned(1) _ one_byte_aligned(2), of p a] q
    by (simp add: bytes_at_def)
  have put: "put_bytes (take (nat 1) p) a (mem_byte m) = (mem_byte m)(a := hd p)"
    by (simp add: q)
  show "\<exists>m'. mem_access m Write a p 1 = Some (md_fault_none, p, m') \<and> mem_ok m' \<and>
      mem_byte m' = (mem_byte m)(a := hd p)"
    using mem_access_Write [OF m one_byte_aligned(1) _ one_byte_aligned(2), of p a] q
    unfolding put by simp
qed

section \<open>Invariant of every access\<close>

lemma mem_access_ok:
  assumes "mem_ok m" and "mem_access m cmd a p n = Some (fault, q, m')"
  shows "mem_ok m'" and "length q = length p"
    and "cmd = Read \<Longrightarrow> mem_byte m' = mem_byte m" and "fault \<noteq> md_fault_none \<Longrightarrow> m' = m \<and> q = p"
  using assms read_loop_spec [OF assms(1), of "nat n" a]
    write_loop_spec [OF assms(1), of "take (nat n) p" a]
  by (auto simp: mem_access_def split: if_splits mem_cmd.splits)

lemma mem_access_defined:
  assumes "mem_ok m" and "n \<le> int (length p)"
  shows "mem_access m cmd a p n \<noteq> None"
  using assms read_loop_spec [OF assms(1), of "nat n" a]
    write_loop_spec [OF assms(1), of "take (nat n) p" a]
  by (auto simp: mem_access_def split: mem_cmd.splits)

lemma mem_ok_create: "mem_ok mem_create"
  by (simp add: mem_ok_def mem_create_def)

lemma mem_byte_create: "mem_byte mem_create a = 0"
  by (simp add: mem_byte_def mem_create_def page_lookup_def)

section \<open>Dumping\<close>

lemma aligned4_iff: "((a :: 32 word) AND 3 = 0) = (take_bit 2 a = 0)"
proof -
  have "(3 :: 32 word) = mask 2" by (simp add: mask_eq_decr_exp)
  then show ?thesis by (simp only: take_bit_eq_mask)
qed

lemma aligned4_next: "(a :: 32 word) AND 3 = 0 \<Longrightarrow> (a + 4) AND 3 = 0"
proof -
  have "take_bit 2 (b + 4) = take_bit 2 b" for b :: "32 word"
    by transfer (simp add: take_bit_eq_mod mod_add_cong mod_mod_cancel)
  then show "a AND 3 = 0 \<Longrightarrow> (a + 4) AND 3 = 0" by (simp only: aligned4_iff)
qed

lemma dump_loop_lines:
  "mem_ok m \<Longrightarrow> a AND 3 = 0 \<Longrightarrow>
   \<exists>m'. dump_loop k m a = Some (md_fault_none,
     map (\<lambda>i. (a + 4 * of_nat i, bytes_at (mem_byte m) (a + 4 * of_nat i) 4)) [0..<k], m') \<and> mem_ok m'"
proof (induction k arbitrary: m a)
  case (Suc k)
  have al: "(4::int) AND (4 - 1) = 0" "a AND word_of_int (4 - 1) = 0" using Suc.prems(2) by simp_all
  obtain m1 where 1: "mem_access m Read a [0, 0, 0, 0] 4 =
      Some (md_fault_none, bytes_at (mem_byte m) a 4, m1)" "mem_ok m1" "mem_byte m1 = mem_byte m"
    using mem_access_Read [OF Suc.prems(1) al(1) _ al(2), of "[0, 0, 0, 0]"] by auto
  from Suc.IH [OF 1(2) aligned4_next [OF Suc.prems(2)]] 1(1) show ?case
    by (auto simp: 1(3) map_upt_Suc algebra_simps simp del: upt_Suc)
qed simp

section \<open>Properties\<close>

text \<open>C39. An aligned power-of-two write of at most a page succeeds on every well-formed memory, changes
  exactly the \<open>n\<close> addressed bytes, and the same read afterwards returns what was written, whichever
  pages had to be allocated and however the buckets were reordered.\<close>

theorem mem_access_write_read:
  assumes "mem_ok m" and "n AND (n - 1) = 0" and "n \<le> 4096" and "a AND word_of_int (n - 1) = 0"
    and "n \<le> int (length p)" and "n \<le> int (length q)"
  shows "\<exists>m1 m2. mem_access m Write a p n = Some (md_fault_none, p, m1) \<and>
    mem_access m1 Read a q n = Some (md_fault_none, take (nat n) p @ drop (nat n) q, m2) \<and>
    (\<forall>x. (\<forall>i<nat n. x \<noteq> a + of_nat i) \<longrightarrow> mem_byte m2 x = mem_byte m x) \<and> mem_ok m2"
proof -
  from mem_access_Write [OF assms(1-5)] obtain m1 where
    1: "mem_access m Write a p n = Some (md_fault_none, p, m1)" "mem_ok m1"
    "mem_byte m1 = put_bytes (take (nat n) p) a (mem_byte m)" by blast
  from mem_access_Read [OF 1(2) assms(2-4) assms(6)] obtain m2 where
    2: "mem_access m1 Read a q n =
        Some (md_fault_none, bytes_at (mem_byte m1) a (nat n) @ drop (nat n) q, m2)" "mem_ok m2"
    "mem_byte m2 = mem_byte m1" by blast
  have len: "length (take (nat n) p) = nat n" using assms(5) by simp
  have "nat n \<le> 2 ^ 32" using assms(3) by simp
  then have "bytes_at (mem_byte m1) a (nat n) = take (nat n) p"
    using bytes_at_put_bytes [of "take (nat n) p" a "mem_byte m"] by (simp only: 1(3) len)
  moreover have "mem_byte m2 x = mem_byte m x" if "\<forall>i<nat n. x \<noteq> a + of_nat i" for x
    unfolding 2(3) 1(3) by (rule put_bytes_other) (use that len in simp)
  ultimately show ?thesis using 1(1) 2(1,2) by auto
qed

theorem mem_access_write_read_witness:
  "\<exists>m1 m2. mem_access mem_create Write 0x1000 [1, 2, 3, 4] 4 = Some (md_fault_none, [1, 2, 3, 4], m1) \<and>
    mem_access m1 Read 0x1000 [0, 0, 0, 0] 4 = Some (md_fault_none, [1, 2, 3, 4], m2)"
  using mem_access_write_read [OF mem_ok_create, of 4 "0x1000" "[1, 2, 3, 4]" "[0, 0, 0, 0]"]
  by auto

text \<open>\<open>mem_access\<close> faults exactly on a size that is no power of two or exceeds a page (access fault)
  and on an address that is not a multiple of the size (alignment fault), and then touches neither the
  memory nor the host buffer; with a long enough buffer it never follows a NULL page pointer.\<close>

theorem mem_access_faults:
  assumes "mem_ok m" and "n \<le> int (length p)"
  shows "\<exists>fault q m'. mem_access m cmd a p n = Some (fault, q, m') \<and> mem_ok m' \<and>
    fault = (if n AND (n - 1) \<noteq> 0 \<or> n > 4096 then md_fault_access
             else if a AND word_of_int (n - 1) \<noteq> 0 then md_fault_alignment else md_fault_none) \<and>
    (fault \<noteq> md_fault_none \<longrightarrow> q = p \<and> m' = m)"
proof -
  obtain fault q m' where r: "mem_access m cmd a p n = Some (fault, q, m')"
    using mem_access_defined [OF assms] by (metis not_None_eq prod_cases3)
  then have "fault = (if n AND (n - 1) \<noteq> 0 \<or> n > 4096 then md_fault_access
             else if a AND word_of_int (n - 1) \<noteq> 0 then md_fault_alignment else md_fault_none)"
    by (auto simp: mem_access_def MD_PAGE_SIZE_def bind_eq_Some_conv split: if_splits mem_cmd.splits)
  with r mem_access_ok [OF assms(1) r] show ?thesis by blast
qed

theorem mem_access_faults_witness:
  "\<exists>q m'. mem_access mem_create Read 2 [0, 0, 0, 0] 4 = Some (md_fault_alignment, q, m')"
  using mem_access_faults [OF mem_ok_create, of 4 "[0, 0, 0, 0]" Read 2] by auto

text \<open>Writing a string with \<open>mem_strcpy\<close> returns after its terminating zero, and reading it back from
  the same address returns (in particular, stops) with the same string, wherever it crosses pages or
  wraps round the address space.\<close>

theorem mem_strcpy_roundtrip:
  assumes "mem_ok m" and "0 \<notin> set s" and "length s < 2 ^ 32"
  shows "\<exists>m1 m2. mem_strcpy mem_access m Write a (s @ 0 # t) = Some (md_fault_none, s @ 0 # t, m1) \<and>
    mem_strcpy mem_access m1 Read a u = Some (md_fault_none, s @ [0], m2) \<and> mem_ok m2"
proof -
  from flat.strcpy_write_string [OF assms(1,2), of a t] obtain m1 where
    1: "strcpy_write mem_access m a (s @ 0 # t) = Some (md_fault_none, m1)" "mem_ok m1"
    "mem_byte m1 = put_bytes (s @ [0]) a (mem_byte m)" by blast
  have "length (s @ [0]) \<le> 2 ^ 32" using assms(3) by simp
  from bytes_at_put_bytes [OF this, of a "mem_byte m"]
  have "bytes_at (mem_byte m1) a (Suc (length s)) = s @ [0]" by (simp add: 1(3))
  from flat.strcpy_read_string [OF 1(2) this assms(2), of "[]"] 1(1) show ?thesis
    by (auto simp: mem_strcpy_def)
qed

theorem mem_strcpy_roundtrip_witness:
  "\<exists>m1 m2. mem_strcpy mem_access mem_create Write 0xFFFFFFFF [104, 105, 0, 7] =
      Some (md_fault_none, [104, 105, 0, 7], m1) \<and>
    mem_strcpy mem_access m1 Read 0xFFFFFFFF [] = Some (md_fault_none, [104, 105, 0], m2)"
  using mem_strcpy_roundtrip [OF mem_ok_create, of "[104, 105]" "0xFFFFFFFF" "[7]" "[]"] by auto

text \<open>\<open>mem_bcopy\<close> out to the target and back returns the copied bytes, and \<open>mem_bzero\<close> over the
  same range makes every one of them read as zero.\<close>

theorem mem_bcopy_roundtrip_bzero:
  assumes "mem_ok m" and "n \<le> length p" and "n \<le> length q" and "n \<le> 2 ^ 32"
  shows "\<exists>m1 m2 m3 m4.
    mem_bcopy mem_access m Write a p (int n) = Some (md_fault_none, p, m1) \<and>
    mem_bcopy mem_access m1 Read a q (int n) = Some (md_fault_none, take n p @ drop n q, m2) \<and>
    mem_bzero mem_access m2 a (int n) = Some (md_fault_none, m3) \<and>
    mem_bcopy mem_access m3 Read a q (int n) = Some (md_fault_none, replicate n 0 @ drop n q, m4)"
proof -
  from flat.bcopy_write [OF assms(1,2), of a] obtain m1 where
    1: "copy_loop 1 mem_access n m Write a p = Some (md_fault_none, p, m1)" "mem_ok m1"
    "mem_byte m1 = put_bytes (take n p) a (mem_byte m)" by blast
  from flat.bcopy_read [OF 1(2) assms(3), of a] obtain m2 where
    2: "copy_loop 1 mem_access n m1 Read a q =
        Some (md_fault_none, bytes_at (mem_byte m1) a n @ drop n q, m2)" "mem_ok m2" by blast
  from flat.bzero_zeroes [OF 2(2), of n a] obtain m3 where
    3: "bzero_loop mem_access n m2 a = Some (md_fault_none, m3)" "mem_ok m3"
    "mem_byte m3 = put_bytes (replicate n 0) a (mem_byte m2)" by blast
  from flat.bcopy_read [OF 3(2) assms(3), of a] obtain m4 where
    4: "copy_loop 1 mem_access n m3 Read a q =
        Some (md_fault_none, bytes_at (mem_byte m3) a n @ drop n q, m4)" by blast
  have "length (take n p) = n" using assms(2) by simp
  with assms(4) have "bytes_at (mem_byte m1) a n = take n p"
    using bytes_at_put_bytes [of "take n p" a] by (simp only: 1(3))
  moreover from assms(4) have "bytes_at (mem_byte m3) a n = replicate n 0"
    using bytes_at_put_bytes [of "replicate n 0" a] by (simp only: 3(3) length_replicate)
  ultimately show ?thesis
    using 1(1) 2(1) 3(1) 4 by (auto simp: mem_bcopy_def mem_bzero_def)
qed

theorem mem_bcopy_roundtrip_bzero_witness:
  "\<exists>m1. mem_bcopy mem_access mem_create Write 0xFFE [9, 8, 7] (int 3) = Some (md_fault_none, [9, 8, 7], m1)"
  using mem_bcopy_roundtrip_bzero [OF mem_ok_create, of 3 "[9, 8, 7]" "[0, 0, 0]" "0xFFE"] by auto

text \<open>\<open>ss_mem_dump\<close> of \<open>len\<close> bytes clears bit 2 of the address and of \<open>len + 3\<close> and then prints
  that many words: from address 4, 8 bytes print as the 11 words from address 0.\<close>

theorem ss_mem_dump_lines:
  assumes "mem_ok m" and "a AND 3 = 0"
  shows "\<exists>out m'. ss_mem_dump m a len = Some (md_fault_none, out, m') \<and>
    length out = nat (sint ((word_of_int len + 3 :: 32 word) AND NOT 4)) \<and>
    map fst out = map (\<lambda>i. (a AND NOT 4) + 4 * of_nat i) [0..<length out]"
proof -
  have "(a AND NOT 4) AND 3 = (a AND 3) AND NOT 4" by (simp only: and.assoc and.commute and.left_commute)
  then have "(a AND NOT 4) AND 3 = 0" using assms(2) by simp
  from dump_loop_lines [OF assms(1) this] show ?thesis
    by (fastforce simp: ss_mem_dump_def Let_def comp_def)
qed

theorem ss_mem_dump_lines_witness:
  "\<exists>out m'. ss_mem_dump mem_create 4 8 = Some (md_fault_none, out, m') \<and> length out = 11 \<and>
     fst (hd out) = 0"
proof -
  have al: "(4 :: 32 word) AND 3 = 0" and len: "nat (sint ((word_of_int 8 + 3 :: 32 word) AND NOT 4)) = 11"
    and base: "(4 :: 32 word) AND NOT 4 = 0" by simp_all
  from ss_mem_dump_lines [OF mem_ok_create al, of 8] obtain out m' where
    r: "ss_mem_dump mem_create 4 8 = Some (md_fault_none, out, m')" "length out = 11"
    "map fst out = map (\<lambda>i. 4 * of_nat i) [0..<11]" unfolding len base by auto
  then have "fst (out ! 0) = 0" using arg_cong [OF r(3), of hd] by (cases out) (auto simp: upt_rec)
  with r show ?thesis by (metis hd_conv_nth list.size(3) zero_neq_numeral)
qed

end
