(* ===== verification/Insts.thy ===== *)
theory Insts
  imports Memory
begin

unbundle bit_operations_syntax

text \<open>
  The data of the pipeline of a core: operation codes with their flags (mips.def, mips.h), the branch
  predictor (bpred.h), the instruction descriptor, the links between instructions, and the front-end and
  reorder state of \<open>struct godson2_cpu\<close> (godson2_cpu.h). A pointer to a descriptor is a number, a pointer
  that may be NULL an option. Registers hold 32-bit patterns; the double \<open>d[k]\<close> of the register union is
  the pair of words \<open>l[2k]\<close> and \<open>l[2k+1]\<close>. The queue sizes are globals of the program that do not change;
  they are kept with the core.
\<close>

section \<open>Operation codes\<close>

text \<open>The functional unit classes, and the operation codes of mips.def: memory and control operations and the
  second halves of split operations as they are, integer and floating-point arithmetic in two types of their
  own. \<open>OP_NA\<close> is the code of a word that is no instruction.\<close>

datatype md_fu_class =
    FUClass_NA | IntALU | IntMULT | IntDIV | FloatADD | FloatCMP | FloatCVT | FloatMULT | FloatDIV
  | FloatSQRT | RdPort | WrPort | IntBR | FpBR

datatype int_op =
    ADDI | ADDIU | SLTI | SLTIU | ANDI | ORI | XORI | LUI | SLL | SLLV | SRL | SRLV | SRA | SRAV
  | SYSCALL | BREAK | MFHI | MTHI | MFLO | MTLO | MULT | MULTU | DIV | DIVU
  | ADD | ADDU | SUB | SUBU | OP_AND | OP_OR | OP_XOR | OP_NOR | SLT | SLTU

datatype fp_fmt = Single | Double | Word

datatype fp_op =
    FADD | FSUB | FMUL | FDIV | FSQRT | FABS | FMOV | FNEG | ROUND_W | TRUNC_W | CEIL_W | FLOOR_W
  | CVT_S | CVT_D | CVT_W | C_EQ | C_LT | C_LE

datatype md_opcode =
    SB | LB | LBU | SH | LH | LHU | SW | SC | LL | LW | LWC1 | SWC1 | SWL | LWL | LWR | SWR | LDC1 | SDC1
  | MTC1 | MFC1 | DMTC1 | DMFC1 | CTC1 | CFC1
  | JUMP | JAL | JR | JALR | BEQ | BNE | BLEZ | BGTZ | BEQL | BNEL | BLEZL | BGTZL
  | BLTZ | BGEZ | BLTZL | BGEZL | BLTZAL | BGEZAL | BLTZALL | BGEZALL | BC1F | BC1T | BC1FL | BC1TL
  | SPLITMUL | SPLITDIV | IntOp int_op | FpOp fp_op fp_fmt | OP_NA

definition F_MEM :: "md_opcode \<Rightarrow> bool" where
  "F_MEM op \<longleftrightarrow> op \<in> {SB, LB, LBU, SH, LH, LHU, SW, SC, LL, LW, LWC1, SWC1, SWL, LWL, LWR, SWR, LDC1, SDC1,
     MTC1, MFC1, DMTC1, DMFC1, CTC1, CFC1}"

definition F_UNCOND :: "md_opcode \<Rightarrow> bool" where
  "F_UNCOND op \<longleftrightarrow> op \<in> {JUMP, JAL, JR, JALR}"

definition F_CTRL_LIKELY :: "md_opcode \<Rightarrow> bool" where
  "F_CTRL_LIKELY op \<longleftrightarrow> op \<in> {BEQL, BNEL, BLEZL, BGTZL, BLTZL, BGEZL, BLTZALL, BGEZALL, BC1FL, BC1TL}"

definition F_COND :: "md_opcode \<Rightarrow> bool" where
  "F_COND op \<longleftrightarrow> F_CTRL_LIKELY op \<or>
     op \<in> {BEQ, BNE, BLEZ, BGTZ, BLTZ, BGEZ, BLTZAL, BGEZAL, BC1F, BC1T}"

definition F_CTRL :: "md_opcode \<Rightarrow> bool" where
  "F_CTRL op \<longleftrightarrow> F_UNCOND op \<or> F_COND op"

definition F_TRAP :: "md_opcode \<Rightarrow> bool" where
  "F_TRAP op \<longleftrightarrow> op \<in> {IntOp SYSCALL, IntOp BREAK}"

definition F_ICOMP :: "md_opcode \<Rightarrow> bool" where
  "F_ICOMP op \<longleftrightarrow> op \<in> {SPLITMUL, SPLITDIV} \<or> (case op of IntOp i \<Rightarrow> i \<notin> {SYSCALL, BREAK} | _ \<Rightarrow> False)"

definition F_FCOMP :: "md_opcode \<Rightarrow> bool" where
  "F_FCOMP op \<longleftrightarrow> (case op of FpOp _ _ \<Rightarrow> True | _ \<Rightarrow> False)"

definition F_STORE :: "md_opcode \<Rightarrow> bool" where
  "F_STORE op \<longleftrightarrow> op \<in> {SB, SH, SW, SWC1, SDC1, SWL, SWR, SC}"

definition F_DIRJMP :: "md_opcode \<Rightarrow> bool" where
  "F_DIRJMP op \<longleftrightarrow> op \<in> {JUMP, JAL} \<or> F_COND op"

definition MD_IS_CALL :: "md_opcode \<Rightarrow> bool" where
  "MD_IS_CALL op \<longleftrightarrow> op \<in> {JAL, JALR}"

definition MD_IS_INDIR :: "md_opcode \<Rightarrow> bool" where
  "MD_IS_INDIR op \<longleftrightarrow> op \<in> {JR, JALR}"

text \<open>The class of functional unit an operation needs (\<open>FUClass_NA\<close> is 0).\<close>

definition int_fu :: "int_op \<Rightarrow> md_fu_class" where
  "int_fu i = (if i \<in> {MULT, MULTU} then IntMULT else if i \<in> {DIV, DIVU} then IntDIV
     else if i \<in> {SYSCALL, BREAK} then IntBR else IntALU)"

definition fp_fu :: "fp_op \<Rightarrow> md_fu_class" where
  "fp_fu f = (if f \<in> {FADD, FSUB, FABS, FMOV, FNEG} then FloatADD else if f = FMUL then FloatMULT
     else if f = FDIV then FloatDIV else if f = FSQRT then FloatSQRT
     else if f \<in> {C_EQ, C_LT, C_LE} then FloatCMP else FloatCVT)"

definition MD_OP_FUCLASS :: "md_opcode \<Rightarrow> md_fu_class" where
  "MD_OP_FUCLASS op =
     (case op of IntOp i \<Rightarrow> int_fu i | FpOp f _ \<Rightarrow> fp_fu f | OP_NA \<Rightarrow> FUClass_NA
      | SPLITMUL \<Rightarrow> IntMULT | SPLITDIV \<Rightarrow> IntDIV
      | _ \<Rightarrow> if F_CTRL op then if op \<in> {BC1F, BC1T, BC1FL, BC1TL} then FpBR else IntBR
             else if F_STORE op then WrPort else RdPort)"

text \<open>The names of the result registers of multiplication among the dependences.\<close>

definition DHI :: nat where "DHI = 64"
definition DLO :: nat where "DLO = 65"

section \<open>Branch predictor\<close>

datatype bpred_class = BPredComb | BPred2Level | BPred2bit | BPredTaken | BPredNotTaken

record bpred_btb_ent_t =
  btb_addr :: md_addr_t
  btb_op :: md_opcode
  btb_target :: md_addr_t
  btb_prev :: "nat option"
  btb_next :: "nat option"

text \<open>A direction predictor: the table of the bimodal variant or the fields of the two-level one.\<close>

record bpred_dir_t =
  dir_class :: bpred_class
  bimod_size :: "32 word"
  bimod_table :: "8 word list"
  l1size :: "32 word"
  l2size :: "32 word"
  shift_width :: "32 word"
  shift_mask :: "32 word"
  xor_flag :: "32 word"
  shiftregs :: "32 word list"
  l2table :: "8 word list"

record bpred_stats_t =
  addr_hits :: counter_t
  dir_hits :: counter_t
  used_ras :: counter_t
  used_bimod :: counter_t
  used_2lev :: counter_t
  jr_hits :: counter_t
  jr_seen :: counter_t
  jr_non_ras_hits :: counter_t
  jr_non_ras_seen :: counter_t
  bp_misses :: counter_t
  lookups :: counter_t
  retstack_pops :: counter_t
  retstack_pushes :: counter_t
  ras_hits :: counter_t

record bpred_t =
  bp_class :: bpred_class
  bimod :: "bpred_dir_t option"
  twolev :: "bpred_dir_t option"
  meta :: "bpred_dir_t option"
  btb_sets :: "32 word"
  btb_assoc :: "32 word"
  btb_data :: "bpred_btb_ent_t list"
  ras_size :: int
  ras_tos :: int
  ras_stack :: "bpred_btb_ent_t list"
  bp_stats :: bpred_stats_t
  bp_backup :: bpred_stats_t

text \<open>A pointer to a counter names the predictor it is in and the index in that predictor's table.\<close>

datatype dir_table = InBimod | InTwolev | InMeta

record bpred_update_t =
  pdir1 :: "(dir_table \<times> nat) option"
  pdir2 :: "(dir_table \<times> nat) option"
  pmeta :: "(dir_table \<times> nat) option"
  dir_st :: "8 word"
  dir_ras :: bool
  dir_bimod :: bool
  dir_twolev :: bool
  dir_meta :: bool
  recovery_shiftregs :: "32 word list"

section \<open>Instructions\<close>

record RS_link =
  link_rs :: nat
  link_tag :: "32 word"
  link_when :: tick_t
  link_seq :: nat
  link_opnum :: nat

record saved_value =
  save_t :: nat
  save_n :: nat
  save_addr :: md_addr_t
  save_l :: "32 word"
  save_f :: "32 word"
  save_d :: "32 word \<times> 32 word"

text \<open>What only the front end reads of a descriptor: the predicted and the actual next address and the numbers
  of the input registers. The same fields of the C structure, grouped.\<close>

record inst_front =
  rs_pred_PC :: md_addr_t
  rs_NPC :: md_addr_t
  rs_in1 :: nat
  rs_in2 :: nat
  rs_in3 :: nat

record inst_descript =
  rs_op :: md_opcode
  rs_addr :: md_addr_t
  rs_tag :: "32 word"
  rs_lsqid :: nat
  rs_completed :: bool
  rs_fu_master :: nat
  rs_fu_class :: md_fu_class
  rs_seq :: nat
  rs_IR :: "32 word"
  rs_PC :: md_addr_t
  rs_btarget :: md_addr_t
  rs_recover_PC :: md_addr_t
  rs_br_taken :: bool
  rs_pred_taken :: bool
  rs_mis_predict :: bool
  rs_bht_op :: bool
  rs_jr_op :: bool
  rs_bd :: bool
  rs_trap :: bool
  rs_dir_update :: bpred_update_t
  rs_stack_recover_idx :: int
  rs_spec_level :: nat
  rs_temp_save :: "saved_value list"
  rs_onames :: "nat \<Rightarrow> nat"
  rs_odep_list :: "nat \<Rightarrow> RS_link list"
  rs_idep_ready :: "nat \<Rightarrow> bool"
  rs_roqid :: nat
  rs_brqid :: nat
  rs_out1 :: nat
  rs_out2 :: nat
  rs_div_delay :: int
  rs_used_int_reg :: int
  rs_used_fp_reg :: int
  rs_mapped :: bool
  rs_all_ready :: bool
  rs_queued :: bool
  rs_next_issue :: bool
  rs_issued :: bool
  rs_in_intq :: bool
  rs_brcompleted :: bool
  rs_front :: inst_front

section \<open>Pipeline\<close>

record md_ctrl_t =
  hi :: "32 word"
  lo :: "32 word"
  fcc :: "32 word"

record spec_mem_ent =
  ent_addr :: md_addr_t
  ent_level :: nat
  ent_data :: "8 word list"

text \<open>The fields of a core that only the fetch and decode stages use.\<close>

record front_end =
  target_PC :: md_addr_t
  correct_PC :: md_addr_t
  spec_recover_PC :: md_addr_t
  is_annulled :: bool
  draining :: bool
  inst_seq :: nat
  fetch_width :: int
  fetch_speed :: int
  decode_width :: int
  decode_speed :: int

record pipeline =
  fetch_num :: int
  fetch_head :: nat
  fetch_tail :: nat
  fetch_data :: "nat \<Rightarrow> nat"
  fetch_reg_PC :: md_addr_t
  decode_num :: int
  decode_head :: nat
  decode_tail :: nat
  decode_data :: "nat \<Rightarrow> nat"
  spec_level :: nat
  entering_spec :: bool
  need_to_correct_pc :: bool
  last_is_branch :: bool
  is_jump :: bool
  regs_R :: "nat \<Rightarrow> 32 word"
  regs_F :: "nat \<Rightarrow> 32 word"
  regs_C :: md_ctrl_t
  spec_regs_R :: "nat \<Rightarrow> nat \<Rightarrow> 32 word"
  spec_regs_F :: "nat \<Rightarrow> nat \<Rightarrow> 32 word"
  spec_regs_C :: "nat \<Rightarrow> md_ctrl_t"
  store_htable :: "nat \<Rightarrow> spec_mem_ent list"
  bucket_free_list :: "spec_mem_ent list"
  target_mem :: mem_t
  ld_text_base :: md_addr_t
  ld_text_size :: "32 word"
  ld_data_base :: md_addr_t
  ld_stack_base :: md_addr_t
  create_vector :: "nat \<Rightarrow> nat \<Rightarrow> (nat \<times> nat) option"
  ghr_valid :: bool
  ghr_predict :: bool
  pred :: bpred_t
  roq_num :: int
  roq_head :: nat
  roq_tail :: nat
  roq :: "nat \<Rightarrow> nat option"
  brq_num :: int
  brq_head :: nat
  brq_tail :: nat
  brq :: "nat \<Rightarrow> nat option"
  int_rename_reg_num :: int
  fp_rename_reg_num :: int
  int_issue_num :: int
  fp_issue_num :: int
  ready_queue :: "nat \<Rightarrow> RS_link list"
  next_issue_item :: "nat \<Rightarrow> RS_link option"
  fu_busy :: "nat \<times> md_fu_class \<Rightarrow> bool"
  fu_alloc_stamp :: "nat \<Rightarrow> 32 word"
  pred_perfect :: bool
  sim_has_bypass :: bool
  map_width :: int
  commit_width :: int
  int_issue_ifq_size :: int
  fp_issue_ifq_size :: int
  int_rename_reg_size :: int
  fp_rename_reg_size :: int
  fetch_ifq_size :: nat
  decode_ifq_size :: nat
  roq_ifq_size :: nat
  brq_ifq_size :: nat
  front :: front_end

section \<open>Blank values\<close>

text \<open>A core without a program, for concrete examples.\<close>

definition blank_pred :: bpred_t where
  "blank_pred = \<lparr>bp_class = BPredNotTaken, bimod = None, twolev = None, meta = None, btb_sets = 0, btb_assoc = 0,
     btb_data = [], ras_size = 0, ras_tos = 0, ras_stack = [],
     bp_stats = \<lparr>addr_hits = 0, dir_hits = 0, used_ras = 0, used_bimod = 0, used_2lev = 0, jr_hits = 0,
       jr_seen = 0, jr_non_ras_hits = 0, jr_non_ras_seen = 0, bp_misses = 0, lookups = 0, retstack_pops = 0,
       retstack_pushes = 0, ras_hits = 0\<rparr>,
     bp_backup = \<lparr>addr_hits = 0, dir_hits = 0, used_ras = 0, used_bimod = 0, used_2lev = 0, jr_hits = 0,
       jr_seen = 0, jr_non_ras_hits = 0, jr_non_ras_seen = 0, bp_misses = 0, lookups = 0, retstack_pops = 0,
       retstack_pushes = 0, ras_hits = 0\<rparr>\<rparr>"

definition blank_inst :: inst_descript where
  "blank_inst = \<lparr>rs_op = LW, rs_addr = 0, rs_tag = 0, rs_lsqid = 0, rs_completed = False, rs_fu_master = 0, rs_fu_class = RdPort, rs_seq = 0, rs_IR = 0,
     rs_PC = 0, rs_btarget = 0, rs_recover_PC = 0, rs_br_taken = False, rs_pred_taken = False,
     rs_mis_predict = False, rs_bht_op = False, rs_jr_op = False, rs_bd = False, rs_trap = False,
     rs_dir_update = \<lparr>pdir1 = None, pdir2 = None, pmeta = None, dir_st = 0, dir_ras = False,
       dir_bimod = False, dir_twolev = False, dir_meta = False, recovery_shiftregs = [0]\<rparr>,
     rs_stack_recover_idx = 0, rs_spec_level = 0, rs_temp_save = [], rs_onames = (\<lambda>_. 0),
     rs_odep_list = (\<lambda>_. []), rs_idep_ready = (\<lambda>_. False), rs_roqid = 0, rs_brqid = 0,
     rs_out1 = 0, rs_out2 = 0, rs_div_delay = 0, rs_used_int_reg = 0,
     rs_used_fp_reg = 0, rs_mapped = False, rs_all_ready = False, rs_queued = False,
     rs_next_issue = False, rs_issued = False, rs_in_intq = False, rs_brcompleted = False,
     rs_front = \<lparr>rs_pred_PC = 0, rs_NPC = 0, rs_in1 = 0, rs_in2 = 0, rs_in3 = 0\<rparr>\<rparr>"

definition blank_pipe :: pipeline where
  "blank_pipe = \<lparr>fetch_num = 0, fetch_head = 0, fetch_tail = 0, fetch_data = (\<lambda>_. 0), fetch_reg_PC = 0,
     decode_num = 0, decode_head = 0, decode_tail = 0, decode_data = (\<lambda>_. 0), spec_level = 0,
     entering_spec = False, need_to_correct_pc = False, last_is_branch = False, is_jump = False,
     regs_R = (\<lambda>_. 0), regs_F = (\<lambda>_. 0), regs_C = \<lparr>hi = 0, lo = 0, fcc = 0\<rparr>,
     spec_regs_R = (\<lambda>_ _. 0), spec_regs_F = (\<lambda>_ _. 0), spec_regs_C = (\<lambda>_. \<lparr>hi = 0, lo = 0, fcc = 0\<rparr>),
     store_htable = (\<lambda>_. []), bucket_free_list = [], target_mem = mem_create,
     ld_text_base = 0x400000, ld_text_size = 0x10000, ld_data_base = 0x10000000, ld_stack_base = 0x7FFFC000,
     create_vector = (\<lambda>_ _. None), ghr_valid = False, ghr_predict = False, pred = blank_pred,
     roq_num = 0, roq_head = 0, roq_tail = 0, roq = (\<lambda>_. None),
     brq_num = 0, brq_head = 0, brq_tail = 0, brq = (\<lambda>_. None),
     int_rename_reg_num = 0, fp_rename_reg_num = 0, int_issue_num = 0, fp_issue_num = 0,
     ready_queue = (\<lambda>_. []), next_issue_item = (\<lambda>_. None), fu_busy = (\<lambda>_. False), fu_alloc_stamp = (\<lambda>_. 0),
     pred_perfect = False, sim_has_bypass = True, map_width = 4, commit_width = 4, int_issue_ifq_size = 16, fp_issue_ifq_size = 16,
     int_rename_reg_size = 32, fp_rename_reg_size = 32,
     fetch_ifq_size = 8, decode_ifq_size = 4, roq_ifq_size = 32, brq_ifq_size = 8,
     front = \<lparr>target_PC = 0, correct_PC = 0, spec_recover_PC = 0, is_annulled = False, draining = False,
       inst_seq = 0, fetch_width = 4, fetch_speed = 1, decode_width = 4, decode_speed = 1\<rparr>\<rparr>"

end
