(* ===== verification/Cpu.thy ===== *)
theory Cpu
  imports EventQueue Insts
begin

unbundle bit_operations_syntax

text \<open>
  The state of the simulated multi-core: cache, miss queue, write-back queue, refill packet, memory
  queue, router and per-core records (cache.h, godson2_cpu.h, noc.h), the globals that hold them, and
  the address macros. Indices and identifiers are natural numbers, and an index that may be \<open>-1\<close> is an
  option; counts that the code may drive below zero are integers. Flags that only take 0 and 1 are
  booleans. A block pointer is the pair of set and way of the block it points to.
\<close>

section \<open>Constants\<close>

text \<open>Cache line states and block status bits (cache.h).\<close>

abbreviation (input) UNTOUCHED :: int where "UNTOUCHED \<equiv> 0"
abbreviation (input) INVALID :: int where "INVALID \<equiv> 1"
abbreviation (input) SHARED :: int where "SHARED \<equiv> 2"
abbreviation (input) EXCLUSIVE :: int where "EXCLUSIVE \<equiv> 3"
abbreviation (input) DIRTY :: int where "DIRTY \<equiv> 4"
abbreviation (input) DIRTY_INVALID :: int where "DIRTY_INVALID \<equiv> 5"
abbreviation (input) MODIFIED :: int where "MODIFIED \<equiv> 7"
abbreviation (input) MODIFIED_ABOVE :: int where "MODIFIED_ABOVE \<equiv> 8"
abbreviation (input) CACHE_BLK_VALID :: int where "CACHE_BLK_VALID \<equiv> 1"
abbreviation (input) CACHE_BLK_DIRTY :: int where "CACHE_BLK_DIRTY \<equiv> 2"

text \<open>Request and response types (cache.h).\<close>

abbreviation (input) NO_REQ :: int where "NO_REQ \<equiv> 0"
abbreviation (input) READ_SHD :: int where "READ_SHD \<equiv> 1"
abbreviation (input) READ_EX :: int where "READ_EX \<equiv> 2"
abbreviation (input) UPGRADE :: int where "UPGRADE \<equiv> 3"
abbreviation (input) WRITEBACK :: int where "WRITEBACK \<equiv> 4"
abbreviation (input) ELIMINATE :: int where "ELIMINATE \<equiv> 5"
abbreviation (input) INTERVENTION_SHD :: int where "INTERVENTION_SHD \<equiv> 6"
abbreviation (input) INTERVENTION_EXC :: int where "INTERVENTION_EXC \<equiv> 7"
abbreviation (input) INVALIDATE :: int where "INVALIDATE \<equiv> 8"
abbreviation (input) ACK :: int where "ACK \<equiv> 9"
abbreviation (input) ACK_DATA :: int where "ACK_DATA \<equiv> 10"
abbreviation (input) NACK :: int where "NACK \<equiv> 11"

text \<open>Miss queue states (godson2_cpu.h).\<close>

abbreviation (input) MQ_EMPTY :: nat where "MQ_EMPTY \<equiv> 0"
abbreviation (input) MQ_L1_MISS :: nat where "MQ_L1_MISS \<equiv> 1"
abbreviation (input) MQ_READ_L2 :: nat where "MQ_READ_L2 \<equiv> 2"
abbreviation (input) MQ_MODIFY_L1 :: nat where "MQ_MODIFY_L1 \<equiv> 3"
abbreviation (input) MQ_REPLACE_L1 :: nat where "MQ_REPLACE_L1 \<equiv> 4"
abbreviation (input) MQ_EXTRDY :: nat where "MQ_EXTRDY \<equiv> 5"
abbreviation (input) MQ_REFILL_L1 :: nat where "MQ_REFILL_L1 \<equiv> 6"
abbreviation (input) MQ_L2_MISS :: nat where "MQ_L2_MISS \<equiv> 7"
abbreviation (input) MQ_MEMREF :: nat where "MQ_MEMREF \<equiv> 8"
abbreviation (input) MQ_REFILL_L2 :: nat where "MQ_REFILL_L2 \<equiv> 9"
abbreviation (input) MQ_DELAY1 :: nat where "MQ_DELAY1 \<equiv> 10"
abbreviation (input) MQ_DELAY2 :: nat where "MQ_DELAY2 \<equiv> 11"
abbreviation (input) MQ_DELAY3 :: nat where "MQ_DELAY3 \<equiv> 12"
abbreviation (input) MQ_STATE_NUM :: nat where "MQ_STATE_NUM \<equiv> 13"

text \<open>Load-store queue states (godson2_cpu.h).\<close>

abbreviation (input) LSQ_EMPTY :: nat where "LSQ_EMPTY \<equiv> 0"
abbreviation (input) LSQ_ENTER :: nat where "LSQ_ENTER \<equiv> 1"
abbreviation (input) LSQ_ISSUE :: nat where "LSQ_ISSUE \<equiv> 2"
abbreviation (input) LSQ_DCACHE :: nat where "LSQ_DCACHE \<equiv> 3"
abbreviation (input) LSQ_DTAGCMP :: nat where "LSQ_DTAGCMP \<equiv> 4"
abbreviation (input) LSQ_READCACHE :: nat where "LSQ_READCACHE \<equiv> 5"
abbreviation (input) LSQ_WRITEBACK :: nat where "LSQ_WRITEBACK \<equiv> 6"
abbreviation (input) LSQ_COMMIT :: nat where "LSQ_COMMIT \<equiv> 7"
abbreviation (input) LSQ_DELAY1 :: nat where "LSQ_DELAY1 \<equiv> 8"

text \<open>Channel types and directions (noc.h).\<close>

abbreviation (input) REQ :: nat where "REQ \<equiv> 0"
abbreviation (input) INVN :: nat where "INVN \<equiv> 1"
abbreviation (input) WTBK :: nat where "WTBK \<equiv> 2"
abbreviation (input) RESP :: nat where "RESP \<equiv> 3"
abbreviation (input) NUM_TYPES :: nat where "NUM_TYPES \<equiv> 4"
abbreviation (input) HOME :: nat where "HOME \<equiv> 0"
abbreviation (input) UP :: nat where "UP \<equiv> 1"
abbreviation (input) DOWN :: nat where "DOWN \<equiv> 2"
abbreviation (input) LEFT :: nat where "LEFT \<equiv> 3"
abbreviation (input) RIGHT :: nat where "RIGHT \<equiv> 4"
abbreviation (input) NUM_DIRECTIONS :: nat where "NUM_DIRECTIONS \<equiv> 5"
abbreviation (input) NOUGHT :: nat where "NOUGHT \<equiv> 6"

text \<open>Reasons of a fetch stall (cache.h), \<open>REFILL_FREE_LIST_SIZE\<close> (godson2_cpu.h) and the delays of
  cache2mem.c and noc.c.\<close>

abbreviation (input) REFILL_STALL :: int where "REFILL_STALL \<equiv> 32"
abbreviation (input) BRANCH_STALL :: int where "BRANCH_STALL \<equiv> 2"
abbreviation (input) CACHE_STALL :: int where "CACHE_STALL \<equiv> 1"
abbreviation (input) TLB_STALL :: int where "TLB_STALL \<equiv> 4"
definition REFILL_FREE_LIST_SIZE :: nat where "REFILL_FREE_LIST_SIZE = 32"
definition L2_probe_delay :: int where "L2_probe_delay = 4"
definition L2_write_delay :: int where "L2_write_delay = 4"
definition fifo_delay :: int where "fifo_delay = 2"
definition wire_delay :: int where "wire_delay = 1"

section \<open>Caches\<close>

datatype cache_policy = LRU | Random | FIFO | LRF
datatype cache_trans = VIVT | PIVT | VIPT | PIPT | NONE

type_synonym blk_ptr = "nat \<times> nat"

record cache_blk =
  blk_tag :: md_addr_t
  blk_set :: md_addr_t
  data_directory :: "nat \<Rightarrow> bool"
  inst_directory :: "nat \<Rightarrow> bool"
  sb_valid :: int
  sb_dirty :: int
  blk_status :: int
  blk_dirty :: bool

text \<open>\<open>way_list\<close> is the doubly linked list from \<open>way_head\<close> to \<open>way_tail\<close> and \<open>set_hash\<close> the bucket
  chains of the hash table, both as lists of way numbers (see theory \<open>WayList\<close>).\<close>

record cache_set =
  way_list :: "nat list"
  set_hash :: "nat \<Rightarrow> nat list"
  blks :: "nat \<Rightarrow> cache_blk"

record cache =
  assoc :: int
  set_shift :: nat
  set_mask :: md_addr_t
  tag_shift :: nat
  tagset_mask :: md_addr_t
  subblock_ratio :: nat
  hsize :: nat
  last_tagset :: md_addr_t
  replace_paddr :: md_addr_t
  replace_status :: int
  refill_set :: md_addr_t
  refill_way :: int
  refill_bitmap :: int
  refill_blk :: "blk_ptr option"
  refill_new_status :: int
  sets :: "nat \<Rightarrow> cache_set"

definition CACHE_TAG :: "cache \<Rightarrow> md_addr_t \<Rightarrow> md_addr_t" where
  "CACHE_TAG cp addr = drop_bit (tag_shift cp) addr"

definition CACHE_SET :: "cache \<Rightarrow> md_addr_t \<Rightarrow> md_addr_t" where
  "CACHE_SET cp addr = drop_bit (set_shift cp) addr AND set_mask cp"

definition CACHE_MK_BADDR :: "cache \<Rightarrow> md_addr_t \<Rightarrow> md_addr_t \<Rightarrow> md_addr_t" where
  "CACHE_MK_BADDR cp tag st = push_bit (tag_shift cp) tag OR push_bit (set_shift cp) st"

definition CACHE_GET_SB_BIT :: "nat \<Rightarrow> 32 word \<Rightarrow> 32 word" where
  "CACHE_GET_SB_BIT sb vector = vector AND push_bit sb 1"

section \<open>Queues of a core\<close>

record lsq_entry =
  lsq_rs :: "nat option"
  lsq_state :: nat
  lsq_tag :: "32 word"
  lsq_op :: md_opcode
  op_load :: bool
  op_store :: bool
  lsq_addr :: md_addr_t
  lsq_paddr :: md_addr_t
  lsq_blk :: "blk_ptr option"
  lsq_req :: int
  lsq_ex :: bool
  lsq_set :: int
  byterdy :: "8 word"
  bytemask :: "8 word"
  lsq_fetching :: bool
  loadspec :: bool

record miss_queue =
  mq_state :: nat
  mq_set :: int
  mq_paddr :: md_addr_t
  mq_inst :: bool
  memcnt :: int
  cachecnt :: int
  mq_cpuid :: nat
  mq_req :: int
  mq_ack :: int
  mq_cache_status :: int
  mq_qid :: nat
  mq_data_directory :: "nat \<Rightarrow> bool"
  mq_inst_directory :: "nat \<Rightarrow> bool"
  data_intervention_sent :: "nat \<Rightarrow> bool"
  inst_intervention_sent :: "nat \<Rightarrow> bool"
  data_ack_received :: "nat \<Rightarrow> bool"
  inst_ack_received :: "nat \<Rightarrow> bool"
  intervention_type :: int
  L2_changed_blk :: "blk_ptr option"
  L2_replace_blk :: "blk_ptr option"
  L2_replace_paddr :: md_addr_t
  L2_replace_way :: int
  wait_for_reissue :: bool
  wait_for_response :: int
  invn_match_i1 :: "nat option"
  invn_match_i2 :: "nat option"
  read_local_l2 :: bool
  modify_l1 :: bool
  wtbkq_checked :: bool
  conflict_checked :: bool
  memread_sent :: bool
  memwrite_sent :: bool
  scache_refilled :: bool
  lsconten :: bool

record writeback_queue =
  wq_valid :: bool
  wq_cache_status :: int
  wq_paddr :: md_addr_t
  wq_cpuid :: nat
  wq_req :: int
  wq_inst :: bool
  wq_intervention :: bool

record refill_packet =
  rf_replace :: bool
  rf_intervention :: bool
  rf_set :: int
  rf_paddr :: md_addr_t
  rf_cnt :: int
  rf_req :: int
  rf_missqid :: nat
  rf_ack :: int
  rf_cache_status :: int
  rf_blk :: "blk_ptr option"

record memory_queue =
  mem_read :: bool
  mem_qid :: nat
  mem_count :: int

datatype icache_state = IREP_EMPTY | IREP_MISS | IREP_REFILL

record ireplace_buf =
  irep_state :: icache_state
  irep_set :: int
  irep_way :: int
  irep_bitmap :: "nat \<Rightarrow> bool"
  irep_paddr :: md_addr_t

section \<open>Router\<close>

record inputbuffer =
  source_channel :: nat
  pk_index :: nat
  time_stamp :: tick_t
  dest_x :: nat
  dest_y :: nat
  pk_req :: int
  pk_cache_status :: int
  pk_qid :: nat
  pk_cpuid :: nat
  pk_inst :: bool
  pk_paddr :: md_addr_t

text \<open>The buffers \<open>ingress[type][direction]\<close> hold \<open>router_ifq_size\<close> packet pointers; \<open>None\<close> is a free
  slot. A packet is reachable from one slot, so it is held by value.\<close>

record router_t =
  ingress :: "nat \<Rightarrow> nat \<Rightarrow> nat \<Rightarrow> inputbuffer option"
  ingress_head :: "nat \<Rightarrow> nat \<Rightarrow> nat"
  ingress_num :: "nat \<Rightarrow> nat \<Rightarrow> int"
  egress_credit :: "nat \<Rightarrow> nat \<Rightarrow> int"
  egress_last_grant :: "nat \<Rightarrow> nat \<Rightarrow> nat"
  egress_grant :: "nat \<Rightarrow> nat \<Rightarrow> inputbuffer option"
  priority :: "nat \<Rightarrow> nat"
  home_x :: nat
  home_y :: nat

section \<open>A core and the system\<close>

text \<open>Statistics counters, by name and by the part that counts; the arrays of noc.h take their indices.\<close>

datatype cache_counter =
    L1_accesses | L1_hits | L1_misses | L1_stores | L1_upgrade_requests
  | L1_exclusive_to_modified_changes | L1_read_exclusive_requests | L1_read_shared_requests
  | L1_writebacks | L1_external_intervention_shareds | L1_external_intervention_exclusives
  | L1_external_invalidations | L2_hits | L2_misses | cache_dl2_wtbk_access | cache_dl2_fetch_access
  | cache_dl2_refill_access

datatype queue_counter =
    missq_access | wtbkq_access | memq_access | replace_access | icache_refill_access
  | dcache_refill_access | icache_read_low_level_count | dcache_read_low_level_count | noc_read_count
  | noc_write_count | memq_read_count | memq_write_count | memq_busy_count

datatype lsq_counter =
    sim_load_store_contention | l1dmiss_dist nat | sim_load_mispec_rep | sim_load_mispec_inv
  | sim_loadcnt | sim_loadmisscnt | sim_storecnt | sim_storemisscnt | sim_loadfwdcnt
  | sim_storefwdcnt | sim_ldwtbkdelaycnt

datatype noc_counter =
    input_buffer_write_access nat nat | input_buffer_read_access nat nat | crossbar_access nat
  | pack_sent nat | pack_latency nat

datatype issue_counter =
    fix_map_access | fp_map_access | lsq_map_access | sim_map_insn | fix_issue_access | fp_issue_access
  | fix_add_access | fix_br_access | fix_mem_access | fix_mult_access | fix_div_access
  | fp_add_access | fp_br_access | fp_cmp_access | fp_cvt_access | fp_mult_access | fp_div_access
  | fu_inst_num nat | sim_issue_insn

datatype retire_counter =
    sim_writeback_insn | fix_wb_access | fp_wb_access | lsq_wb_access | sim_brbus_count | sim_bht_count
  | sim_jr_count | sim_brerr_count | sim_bhterr_count | sim_jrerr_count | commit_access
  | lsq_commit_access | fp_commit_access | fix_commit_access | sim_missspec_load | sim_commit_insn
  | sim_meas_insn | sim_detail_insn | sim_pop_insn | sim_num_branches

datatype fetch_counter =
    sim_fetch_insn | icache_fetch_access | bht_fetch_access | btb_fetch_access | decode_access
  | sim_decode_insn | sim_total_insn | sim_total_branches | sim_total_refs | sim_num_refs
  | sim_total_loads | sim_num_loads | sim_meas_cycle

datatype counter =
    OfCache cache_counter | OfQueue queue_counter | OfLsq lsq_counter | OfNoc noc_counter
  | OfIssue issue_counter | OfRetire retire_counter | OfFetch fetch_counter

record godson2_cpu =
  cpuid :: nat
  period :: tick_t
  counters :: "counter \<Rightarrow> counter_t"
  router :: router_t
  missq :: "nat \<Rightarrow> miss_queue"
  missq_num :: int
  lasti :: "nat \<Rightarrow> nat"
  wtbkq :: "nat \<Rightarrow> writeback_queue"
  wtbkq_replacei :: nat
  wtbkq_num :: int
  wtbkq_lasti :: nat
  extinvnq :: "nat \<Rightarrow> miss_queue"
  refill_free_list :: "refill_packet list"
  lsq_refill :: "refill_packet option"
  refilltag :: bool
  refilli :: nat
  refill_delay :: int
  memq_head :: "memory_queue list"
  memq_free_list :: "memory_queue list"
  memq_num :: int
  lsq :: "nat \<Rightarrow> lsq_entry"
  lsq_missi :: "nat option"
  lsq_head1 :: nat
  lsq_head :: nat
  lsq_tail :: nat
  lsq_num :: int
  lsq_issuei :: "nat option"
  lsq_dcachei :: "nat option"
  lsq_dtagcmpi :: "nat option"
  lsq_wtbki :: "nat option"
  lsq_dcache_refill :: "refill_packet option"
  lsq_dtagcmp_refill :: "refill_packet option"
  replace_delay :: int
  insts :: "nat \<Rightarrow> inst_descript"
  fetch_inst_free :: "nat list"
  event_queue :: "RS_link list"
  rslink_free :: nat
  res_busy :: "nat \<Rightarrow> int"
  pipe :: pipeline
  last_non_spec_rs :: "nat option"
  sdbbp :: bool
  active :: bool
  irepbuf :: ireplace_buf
  istall :: int
  icache :: cache
  dcache :: cache
  cache_dl2 :: cache

record sys = "inputbuffer eventq_state" +
  cpus :: "nat \<Rightarrow> godson2_cpu"
  total_cpus :: nat
  mesh_width :: nat
  mesh_height :: nat
  missq_ifq_size :: nat
  wtbkq_ifq_size :: nat
  extinvnq_ifq_size :: nat
  memq_ifq_size :: nat
  router_ifq_size :: nat
  mem_read_first_delay :: int
  mem_read_interval_delay :: int
  mem_write_delay :: int
  is_splash :: bool
  lsq_ifq_size :: nat
  perfect_cache :: bool
  alloc_stamp :: "32 word"

section \<open>Addresses\<close>

text \<open>\<open>log_base2\<close> panics on anything but a positive power of two.\<close>

fun log2_loop :: "nat \<Rightarrow> nat" where
  "log2_loop n = (if n div 2 = 0 then 0 else Suc (log2_loop (n div 2)))"

declare log2_loop.simps [simp del]

definition log_base2 :: "nat \<Rightarrow> nat option" where
  "log_base2 n = (if n = 0 \<or> int n AND (int n - 1) \<noteq> 0 then None else Some (log2_loop n))"

definition BLOCK_MATCH :: "md_addr_t \<Rightarrow> md_addr_t \<Rightarrow> bool" where
  "BLOCK_MATCH a b \<longleftrightarrow> a AND NOT 0x1F = b AND NOT 0x1F"

definition VALID_PADDR :: "md_addr_t \<Rightarrow> bool" where
  "VALID_PADDR paddr \<longleftrightarrow> paddr < 0x80000000"

definition PADDR_OWNER :: "nat \<Rightarrow> md_addr_t \<Rightarrow> nat option" where
  "PADDR_OWNER n paddr =
     map_option (\<lambda>k. unat (drop_bit (31 - k) paddr AND of_nat (n - 1))) (log_base2 n)"

definition NEW_THREAD_TOTAL_SIZE :: "nat \<Rightarrow> md_addr_t" where
  "NEW_THREAD_TOTAL_SIZE n = 0x80000000 div of_nat n"

section \<open>Update of one core\<close>

definition upd_cpu :: "nat \<Rightarrow> (godson2_cpu \<Rightarrow> godson2_cpu) \<Rightarrow> 'z sys_scheme \<Rightarrow> 'z sys_scheme" where
  "upd_cpu c f s = s\<lparr>cpus := (cpus s)(c := f (cpus s c))\<rparr>"

definition upd_mq :: "nat \<Rightarrow> (miss_queue \<Rightarrow> miss_queue) \<Rightarrow> godson2_cpu \<Rightarrow> godson2_cpu" where
  "upd_mq i f st = st\<lparr>missq := (missq st)(i := f (missq st i))\<rparr>"

definition upd_wq :: "nat \<Rightarrow> (writeback_queue \<Rightarrow> writeback_queue) \<Rightarrow> godson2_cpu \<Rightarrow> godson2_cpu" where
  "upd_wq i f st = st\<lparr>wtbkq := (wtbkq st)(i := f (wtbkq st i))\<rparr>"

definition bump :: "counter \<Rightarrow> godson2_cpu \<Rightarrow> godson2_cpu" where
  "bump k st = st\<lparr>counters := (counters st)(k := counters st k + 1)\<rparr>"

definition add_credit :: "nat \<Rightarrow> nat \<Rightarrow> int \<Rightarrow> godson2_cpu \<Rightarrow> godson2_cpu" where
  "add_credit type dir n st = st\<lparr>router := (router st)\<lparr>egress_credit :=
     (egress_credit (router st))(type := (egress_credit (router st) type)
       (dir := egress_credit (router st) type dir + n))\<rparr>\<rparr>"

definition credit :: "nat \<Rightarrow> nat \<Rightarrow> godson2_cpu \<Rightarrow> int" where
  "credit type dir st = egress_credit (router st) type dir"

text \<open>Blocks through a block pointer.\<close>

definition get_blk :: "cache \<Rightarrow> blk_ptr \<Rightarrow> cache_blk" where
  "get_blk cp p = blks (sets cp (fst p)) (snd p)"

definition upd_blk :: "blk_ptr \<Rightarrow> (cache_blk \<Rightarrow> cache_blk) \<Rightarrow> cache \<Rightarrow> cache" where
  "upd_blk p f cp = cp\<lparr>sets := (sets cp)(fst p := (sets cp (fst p))
     \<lparr>blks := (blks (sets cp (fst p)))(snd p := f (get_blk cp p))\<rparr>)\<rparr>"

lemma cpus_upd_cpu [simp]: "cpus (upd_cpu c f s) = (cpus s)(c := f (cpus s c))"
  by (simp add: upd_cpu_def)

lemma upd_cpu_globals [simp]:
  "total_cpus (upd_cpu c f s) = total_cpus s"
  "mesh_width (upd_cpu c f s) = mesh_width s"
  "mesh_height (upd_cpu c f s) = mesh_height s"
  "missq_ifq_size (upd_cpu c f s) = missq_ifq_size s"
  "wtbkq_ifq_size (upd_cpu c f s) = wtbkq_ifq_size s"
  "router_ifq_size (upd_cpu c f s) = router_ifq_size s"
  "memq_ifq_size (upd_cpu c f s) = memq_ifq_size s"
  "eventq_pending (upd_cpu c f s) = eventq_pending s"
  "sim_cycle (upd_cpu c f s) = sim_cycle s"
  by (simp_all add: upd_cpu_def)

lemma get_upd_blk [simp]:
  "get_blk (upd_blk p f cp) q = (if q = p then f (get_blk cp p) else get_blk cp q)"
  by (cases p; cases q) (simp add: get_blk_def upd_blk_def)

lemma upd_blk_frame [simp]:
  "tag_shift (upd_blk p f cp) = tag_shift cp" "set_shift (upd_blk p f cp) = set_shift cp"
  "set_mask (upd_blk p f cp) = set_mask cp" "assoc (upd_blk p f cp) = assoc cp"
  "way_list (sets (upd_blk p f cp) n) = way_list (sets cp n)"
  "refill_set (upd_blk p f cp) = refill_set cp" "refill_way (upd_blk p f cp) = refill_way cp"
  by (simp_all add: upd_blk_def)

section \<open>Ownership of physical addresses\<close>

lemma log2_loop_power: "log2_loop (2 ^ k) = k"
proof (induction k)
  case 0
  then show ?case by (subst log2_loop.simps) simp
next
  case (Suc k)
  then show ?case by (subst log2_loop.simps) simp
qed

lemma power_and_pred: "int (2 ^ k) AND (int (2 ^ k) - 1) = 0"
proof -
  have "int (2 ^ k) - 1 = mask k" by (simp add: mask_eq_exp_minus_1)
  then have "int (2 ^ k) AND (int (2 ^ k) - 1) = take_bit k (2 ^ k)"
    by (simp add: take_bit_eq_mask)
  then show ?thesis by simp
qed

lemma log_base2_power: "log_base2 (2 ^ k) = Some k"
  using power_and_pred [of k] by (simp add: log_base2_def log2_loop_power)

end
