(* ===== verification/MissQueue.thy ===== *)
theory MissQueue
  imports Cpu
begin

text \<open>
  The queues between the L1 caches and the rest of the memory hierarchy (cache2mem.c): the free
  lists of refill packets and memory requests, the memory queue and its timing (\<open>memq_enter\<close>,
  \<open>check_memq\<close>), state changes of miss queue entries, the searches for free entries, and entering
  the write-back queue.
\<close>

section \<open>Free lists\<close>

text \<open>The packets come from \<open>malloc\<close>, so their first contents are whatever \<open>junk\<close> holds.\<close>

definition refill_init_free_list :: "(nat \<Rightarrow> refill_packet) \<Rightarrow> godson2_cpu \<Rightarrow> godson2_cpu" where
  "refill_init_free_list junk st =
     st\<lparr>refill_free_list := rev (map junk [0..<REFILL_FREE_LIST_SIZE])\<rparr>"

definition refill_get_from_free_list :: "godson2_cpu \<Rightarrow> (refill_packet \<times> godson2_cpu) option" where
  "refill_get_from_free_list st =
     (case refill_free_list st of
        [] \<Rightarrow> None
      | p # ps \<Rightarrow> Some (p, st\<lparr>refill_free_list := ps\<rparr>))"

definition refill_return_to_free_list :: "refill_packet \<Rightarrow> godson2_cpu \<Rightarrow> godson2_cpu" where
  "refill_return_to_free_list p st = st\<lparr>refill_free_list := p # refill_free_list st\<rparr>"

definition zero_memq :: memory_queue where
  "zero_memq = \<lparr>mem_read = True, mem_qid = 0, mem_count = 0\<rparr>"

definition memq_init_free_list :: "nat \<Rightarrow> godson2_cpu \<Rightarrow> godson2_cpu" where
  "memq_init_free_list n st = st\<lparr>memq_free_list := replicate n zero_memq\<rparr>"

definition memq_get_from_free_list :: "godson2_cpu \<Rightarrow> (memory_queue \<times> godson2_cpu) option" where
  "memq_get_from_free_list st =
     (case memq_free_list st of
        [] \<Rightarrow> None
      | p # ps \<Rightarrow> Some (p, st\<lparr>memq_free_list := ps, memq_num := memq_num st + 1\<rparr>))"

definition memq_return_to_free_list :: "memory_queue \<Rightarrow> godson2_cpu \<Rightarrow> godson2_cpu" where
  "memq_return_to_free_list p st =
     st\<lparr>memq_free_list := p # memq_free_list st, memq_num := memq_num st - 1\<rparr>"

text \<open>\<open>memq_enter\<close> returns whether the request was taken; \<open>n\<close> is \<open>memq_ifq_size\<close>.\<close>

definition memq_enter :: "nat \<Rightarrow> bool \<Rightarrow> nat \<Rightarrow> godson2_cpu \<Rightarrow> (bool \<times> godson2_cpu) option" where
  "memq_enter n read index st =
     (if memq_num st \<ge> int n then Some (False, st)
      else case memq_get_from_free_list st of
        None \<Rightarrow> None
      | Some (tmp, st) \<Rightarrow>
          Some (True, bump (OfQueue memq_access)
            (st\<lparr>memq_head := tmp\<lparr>mem_read := read, mem_qid := index, mem_count := 0\<rparr> # memq_head st\<rparr>)))"

section \<open>Memory timing\<close>

text \<open>The loop of \<open>check_memq\<close> over the old list; requests that stay are pushed back one by one, so
  the list is reversed every cycle. \<open>f\<close>, \<open>d\<close> and \<open>w\<close> are the three delays.\<close>

fun check_memq_loop :: "int \<Rightarrow> int \<Rightarrow> int \<Rightarrow> memory_queue list \<Rightarrow> godson2_cpu \<Rightarrow> godson2_cpu" where
  "check_memq_loop f d w [] st = st"
| "check_memq_loop f d w (tmp # rest) st =
     (let tmp = tmp\<lparr>mem_count := mem_count tmp + 1\<rparr>;
          q = mem_qid tmp
      in if mem_read tmp
         then if mem_count tmp \<ge> f + memcnt (missq st q) * d
              then let st = upd_mq q (\<lambda>m. m\<lparr>memcnt := memcnt m + 1\<rparr>) st
                   in if memcnt (missq st q) = 4
                      then check_memq_loop f d w rest (memq_return_to_free_list tmp st)
                      else check_memq_loop f d w rest (st\<lparr>memq_head := tmp # memq_head st\<rparr>)
              else check_memq_loop f d w rest (st\<lparr>memq_head := tmp # memq_head st\<rparr>)
         else if mem_count tmp = w
              then check_memq_loop f d w rest (memq_return_to_free_list tmp st)
              else check_memq_loop f d w rest (st\<lparr>memq_head := tmp # memq_head st\<rparr>))"

definition check_memq :: "int \<Rightarrow> int \<Rightarrow> int \<Rightarrow> godson2_cpu \<Rightarrow> godson2_cpu" where
  "check_memq f d w st =
     (if memq_num st = 0 then st
      else let st = bump (OfQueue memq_busy_count) st
           in check_memq_loop f d w (memq_head st) (st\<lparr>memq_head := []\<rparr>))"

section \<open>Miss queue entries\<close>

text \<open>The entry after \<open>memset\<close> to zero.\<close>

definition zero_mq :: miss_queue where
  "zero_mq = \<lparr>mq_state = MQ_EMPTY, mq_set = 0, mq_paddr = 0, mq_inst = False, memcnt = 0,
     cachecnt = 0, mq_cpuid = 0, mq_req = 0, mq_ack = 0, mq_cache_status = 0, mq_qid = 0,
     mq_data_directory = (\<lambda>_. False), mq_inst_directory = (\<lambda>_. False),
     data_intervention_sent = (\<lambda>_. False), inst_intervention_sent = (\<lambda>_. False),
     data_ack_received = (\<lambda>_. False), inst_ack_received = (\<lambda>_. False), intervention_type = 0,
     L2_changed_blk = None, L2_replace_blk = None, L2_replace_paddr = 0, L2_replace_way = 0,
     wait_for_reissue = False, wait_for_response = 0, invn_match_i1 = Some 0,
     invn_match_i2 = Some 0, read_local_l2 = False, modify_l1 = False, wtbkq_checked = False,
     conflict_checked = False, memread_sent = False, memwrite_sent = False,
     scache_refilled = False, lsconten = False\<rparr>"

definition take_home_credit :: "godson2_cpu \<Rightarrow> godson2_cpu option" where
  "take_home_credit st =
     (let st = add_credit INVN HOME (- 1) (add_credit REQ HOME (- 1) st)
      in if credit REQ HOME st \<ge> 0 \<and> credit INVN HOME st \<ge> 0 then Some st else None)"

definition missq_change_state :: "nat \<Rightarrow> nat \<Rightarrow> godson2_cpu \<Rightarrow> godson2_cpu option" where
  "missq_change_state qid new_state st =
     do { st \<leftarrow> (if mq_state (missq st qid) = MQ_EMPTY then take_home_credit st else Some st);
          let st = (if new_state = MQ_EMPTY then upd_mq qid (\<lambda>_. zero_mq) st else st);
          let st = st\<lparr>lasti := (lasti st)(mq_state (missq st qid) := qid)\<rparr>;
          Some (upd_mq qid (\<lambda>m. m\<lparr>mq_state := new_state\<rparr>) st) }"

definition find_missq_empty_entry :: "nat \<Rightarrow> godson2_cpu \<Rightarrow> nat option" where
  "find_missq_empty_entry n st =
     ring_scan ((lasti st MQ_EMPTY + 1) mod n) n (\<lambda>i. mq_state (missq st i) = MQ_EMPTY)"

definition find_missq_two_empty_entry :: "nat \<Rightarrow> godson2_cpu \<Rightarrow> nat option" where
  "find_missq_two_empty_entry n st =
     (if missq_num st < int n - 1 then find_missq_empty_entry n st else None)"

definition find_extinvnq_empty_entry :: "nat \<Rightarrow> godson2_cpu \<Rightarrow> nat option" where
  "find_extinvnq_empty_entry n st = find (\<lambda>i. mq_state (extinvnq st i) = MQ_EMPTY) [0..<n]"

definition find_wtbkq_empty_entry :: "nat \<Rightarrow> godson2_cpu \<Rightarrow> nat option" where
  "find_wtbkq_empty_entry n st = find (\<lambda>i. \<not> wq_valid (wtbkq st i)) [0..<n]"

text \<open>\<open>n\<close> is \<open>wtbkq_ifq_size\<close>. The loop looks at every slot once, from \<open>wtbkq_replacei\<close> on; when all
  are valid the assertion after it fails.\<close>

definition wtbkq_enter ::
  "nat \<Rightarrow> nat \<Rightarrow> int \<Rightarrow> md_addr_t \<Rightarrow> bool \<Rightarrow> int \<Rightarrow> bool \<Rightarrow> godson2_cpu \<Rightarrow> godson2_cpu option" where
  "wtbkq_enter n request_cpuid req paddr inst cache_status intervention st =
     (case ring_scan (wtbkq_replacei st) n (\<lambda>i. \<not> wq_valid (wtbkq st i)) of
        None \<Rightarrow> None
      | Some i \<Rightarrow>
          Some (bump (OfQueue wtbkq_access)
            ((upd_wq i (\<lambda>_. \<lparr>wq_valid = True, wq_cache_status = cache_status, wq_paddr = paddr,
                wq_cpuid = request_cpuid, wq_req = req, wq_inst = inst,
                wq_intervention = intervention\<rparr>) st)\<lparr>wtbkq_replacei := (i + 1) mod n\<rparr>)))"

definition zero_wq :: writeback_queue where
  "zero_wq = \<lparr>wq_valid = False, wq_cache_status = 0, wq_paddr = 0, wq_cpuid = 0, wq_req = 0,
     wq_inst = False, wq_intervention = False\<rparr>"

definition cache2mem_init ::
  "(nat \<Rightarrow> refill_packet) \<Rightarrow> nat \<Rightarrow> godson2_cpu \<Rightarrow> godson2_cpu" where
  "cache2mem_init junk memq_size st =
     (memq_init_free_list memq_size
       ((refill_init_free_list junk
          (st\<lparr>missq := (\<lambda>_. zero_mq), wtbkq := (\<lambda>_. zero_wq), extinvnq := (\<lambda>_. zero_mq)\<rparr>))
        \<lparr>missq_num := 0, wtbkq_num := 0,
         lasti := (\<lambda>i. if i < MQ_STATE_NUM then 0 else lasti st i), wtbkq_lasti := 0\<rparr>))
      \<lparr>wtbkq_replacei := 0, memq_num := 0, memq_head := []\<rparr>"

section \<open>A concrete machine\<close>

text \<open>
  Zeroed records and a small machine for the examples: caches of four sets of two 32-byte lines, one
  line of each set in a chosen state, and cores at the positions of a mesh two cores wide.
\<close>

definition blank_blk :: cache_blk where
  "blank_blk = \<lparr>blk_tag = 0, blk_set = 0, data_directory = (\<lambda>_. False), inst_directory = (\<lambda>_. False),
     sb_valid = 0, sb_dirty = 0, blk_status = INVALID, blk_dirty = False\<rparr>"

definition small_cache :: "int \<Rightarrow> cache" where
  "small_cache status = \<lparr>assoc = 2, set_shift = 5, set_mask = 3, tag_shift = 7, tagset_mask = 0xFFFFFFE0,
     subblock_ratio = 1, hsize = 0, last_tagset = 0, replace_paddr = 0, replace_status = 0,
     refill_set = 1, refill_way = 0, refill_bitmap = 0, refill_blk = None, refill_new_status = 0,
     sets = (\<lambda>_. \<lparr>way_list = [1, 0], set_hash = (\<lambda>_. []), blks = (\<lambda>w. blank_blk\<lparr>blk_status :=
       if w = 0 then status else INVALID\<rparr>)\<rparr>)\<rparr>"

definition blank_router :: router_t where
  "blank_router = \<lparr>ingress = (\<lambda>_ _ _. None), ingress_head = (\<lambda>_ _. 0), ingress_num = (\<lambda>_ _. 0),
     egress_credit = (\<lambda>_ _. 0), egress_last_grant = (\<lambda>_ _. 0), egress_grant = (\<lambda>_ _. None),
     priority = (\<lambda>_. 0),
     home_x = 0, home_y = 0\<rparr>"

definition zero_lsq :: lsq_entry where
  "zero_lsq = \<lparr>lsq_rs = None, lsq_state = LSQ_EMPTY, lsq_tag = 0, lsq_op = IntOp ADDU, op_load = False,
     op_store = False, lsq_addr = 0, lsq_paddr = 0, lsq_blk = None, lsq_req = 0, lsq_ex = False, lsq_set = 0,
     byterdy = 0, bytemask = 0, lsq_fetching = False, loadspec = False\<rparr>"

definition blank_cpu :: "int \<Rightarrow> nat \<Rightarrow> godson2_cpu" where
  "blank_cpu status c = \<lparr>cpuid = c, period = 1, counters = (\<lambda>_. 0), router = blank_router,
     missq = (\<lambda>_. zero_mq), missq_num = 0, lasti = (\<lambda>_. 0), wtbkq = (\<lambda>_. zero_wq),
     wtbkq_replacei = 0, wtbkq_num = 0, wtbkq_lasti = 0, extinvnq = (\<lambda>_. zero_mq),
     refill_free_list = [], lsq_refill = None, refilltag = False, refilli = 0, refill_delay = 0,
     memq_head = [], memq_free_list = [], memq_num = 0,
     lsq = (\<lambda>_. zero_lsq), lsq_missi = None, lsq_head1 = 0, lsq_head = 0, lsq_tail = 0, lsq_num = 0,
     lsq_issuei = None, lsq_dcachei = None, lsq_dtagcmpi = None, lsq_wtbki = None,
     lsq_dcache_refill = None, lsq_dtagcmp_refill = None, replace_delay = 0,
     insts = (\<lambda>_. blank_inst),
     fetch_inst_free = [], event_queue = [], rslink_free = 4, res_busy = (\<lambda>_. 0), pipe = blank_pipe,
     last_non_spec_rs = None, sdbbp = False, active = False,
     irepbuf = \<lparr>irep_state = IREP_EMPTY, irep_set = 0, irep_way = 0, irep_bitmap = (\<lambda>_. False),
       irep_paddr = 0\<rparr>,
     istall = 0, icache = small_cache status, dcache = small_cache status,
     cache_dl2 = small_cache status\<rparr>"

definition blank_packet :: refill_packet where
  "blank_packet = \<lparr>rf_replace = False, rf_intervention = False, rf_set = 0, rf_paddr = 0, rf_cnt = 0,
     rf_req = 0, rf_missqid = 0, rf_ack = 0, rf_cache_status = 0, rf_blk = None\<rparr>"

definition blank_sys :: "int \<Rightarrow> sys" where
  "blank_sys status = eventq_state.extend eventq_start
     (sys.fields (\<lambda>c. cache2mem_init (\<lambda>_. blank_packet) 1 (blank_cpu status c)) 4 2 2 8 8 2 1 8 10 2 5 False 8 False 0)"

lemma blank_sys_simps [simp]:
  "cpus (blank_sys x) = (\<lambda>c. cache2mem_init (\<lambda>_. blank_packet) 1 (blank_cpu x c))"
  "total_cpus (blank_sys x) = 4" "mesh_width (blank_sys x) = 2" "mesh_height (blank_sys x) = 2"
  "missq_ifq_size (blank_sys x) = 8" "wtbkq_ifq_size (blank_sys x) = 8"
  "router_ifq_size (blank_sys x) = 8" "memq_ifq_size (blank_sys x) = 1"
  "eventq_pending (blank_sys x) = []" "eventq_free (blank_sys x) = []" "sim_cycle (blank_sys x) = 0"
  "eventq_max_events (blank_sys x) = 0" "\<not> is_splash (blank_sys x)" "lsq_ifq_size (blank_sys x) = 8"
  "\<not> perfect_cache (blank_sys x)"
  by (simp_all add: blank_sys_def eventq_state.defs sys.defs eventq_start_def)

section \<open>Frame of the updates\<close>

lemma upd_mq_frame [simp]:
  "missq (upd_mq i f st) = (missq st)(i := f (missq st i))"
  "router (upd_mq i f st) = router st" "missq_num (upd_mq i f st) = missq_num st"
  "wtbkq_num (upd_mq i f st) = wtbkq_num st" "wtbkq (upd_mq i f st) = wtbkq st"
  "memq_head (upd_mq i f st) = memq_head st" "memq_num (upd_mq i f st) = memq_num st"
  "memq_free_list (upd_mq i f st) = memq_free_list st" "lasti (upd_mq i f st) = lasti st"
  "cache_dl2 (upd_mq i f st) = cache_dl2 st" "dcache (upd_mq i f st) = dcache st"
  "icache (upd_mq i f st) = icache st" "cpuid (upd_mq i f st) = cpuid st"
  by (simp_all add: upd_mq_def)

lemma bump_frame [simp]:
  "missq (bump k st) = missq st" "router (bump k st) = router st"
  "missq_num (bump k st) = missq_num st" "wtbkq_num (bump k st) = wtbkq_num st"
  "wtbkq (bump k st) = wtbkq st" "memq_head (bump k st) = memq_head st"
  "memq_num (bump k st) = memq_num st" "memq_free_list (bump k st) = memq_free_list st"
  "cache_dl2 (bump k st) = cache_dl2 st" "dcache (bump k st) = dcache st"
  "icache (bump k st) = icache st" "cpuid (bump k st) = cpuid st" "lasti (bump k st) = lasti st"
  by (simp_all add: bump_def)

lemma add_credit_frame [simp]:
  "missq (add_credit t d n st) = missq st" "missq_num (add_credit t d n st) = missq_num st"
  "wtbkq_num (add_credit t d n st) = wtbkq_num st" "wtbkq (add_credit t d n st) = wtbkq st"
  "home_x (router (add_credit t d n st)) = home_x (router st)"
  "home_y (router (add_credit t d n st)) = home_y (router st)"
  "cache_dl2 (add_credit t d n st) = cache_dl2 st" "cpuid (add_credit t d n st) = cpuid st"
  by (simp_all add: add_credit_def)

lemma credit_add_credit [simp]:
  "credit t' d' (add_credit t d n st) = credit t' d' st + (if t' = t \<and> d' = d then n else 0)"
  by (simp add: credit_def add_credit_def)

lemma credit_upd_mq [simp]: "credit t d (upd_mq i f st) = credit t d st"
  by (simp add: credit_def)

lemma credit_bump [simp]: "credit t d (bump k st) = credit t d st"
  by (simp add: credit_def)

lemma credit_lasti [simp]: "credit t d (st\<lparr>lasti := l\<rparr>) = credit t d st"
  by (simp add: credit_def)

lemma zero_mq_state [simp]: "mq_state zero_mq = MQ_EMPTY"
  by (simp add: zero_mq_def)

section \<open>State changes of an entry\<close>

text \<open>The entry ends in the new state, no other entry changes, and a credit is taken from the request
  and the intervention channel exactly when the entry was empty.\<close>

lemma take_home_credit_Some:
  "take_home_credit st = Some st' \<longleftrightarrow>
   1 \<le> credit REQ HOME st \<and> 1 \<le> credit INVN HOME st \<and>
   st' = add_credit INVN HOME (- 1) (add_credit REQ HOME (- 1) st)"
  by (auto simp: take_home_credit_def Let_def)

lemma missq_change_state_Some:
  assumes "missq_change_state qid new st = Some st'"
  shows "missq st' = (missq st)
      (qid := (if new = MQ_EMPTY then zero_mq else missq st qid)\<lparr>mq_state := new\<rparr>)"
    and "credit t d st' = credit t d st -
      (if mq_state (missq st qid) = MQ_EMPTY \<and> t \<le> INVN \<and> d = HOME then 1 else 0)"
    and "missq_num st' = missq_num st" and "wtbkq_num st' = wtbkq_num st"
    and "home_x (router st') = home_x (router st)" and "home_y (router st') = home_y (router st)"
    and "wtbkq st' = wtbkq st" and "cache_dl2 st' = cache_dl2 st" and "cpuid st' = cpuid st"
  using assms
proof -
  have "\<exists>st0. missq st0 = missq st \<and> missq_num st0 = missq_num st \<and> wtbkq_num st0 = wtbkq_num st \<and>
      wtbkq st0 = wtbkq st \<and> cache_dl2 st0 = cache_dl2 st \<and> cpuid st0 = cpuid st \<and>
      home_x (router st0) = home_x (router st) \<and> home_y (router st0) = home_y (router st) \<and>
      (\<forall>t d. credit t d st0 = credit t d st -
        (if mq_state (missq st qid) = MQ_EMPTY \<and> t \<le> INVN \<and> d = HOME then 1 else 0)) \<and>
      st' = upd_mq qid (\<lambda>m. m\<lparr>mq_state := new\<rparr>)
        ((if new = MQ_EMPTY then upd_mq qid (\<lambda>_. zero_mq) st0 else st0)
         \<lparr>lasti := (lasti st0)(mq_state
            (missq (if new = MQ_EMPTY then upd_mq qid (\<lambda>_. zero_mq) st0 else st0) qid) := qid)\<rparr>)"
  proof (cases "mq_state (missq st qid) = MQ_EMPTY")
    case True
    let ?st0 = "add_credit INVN HOME (- 1) (add_credit REQ HOME (- 1) st)"
    have "take_home_credit st = Some ?st0"
      using assms True by (auto simp: missq_change_state_def take_home_credit_Some bind_eq_Some_conv)
    then show ?thesis
      using assms True
      by (intro exI [of _ ?st0]) (auto simp: missq_change_state_def Let_def le_Suc_eq)
  next
    case False
    then show ?thesis
      using assms by (intro exI [of _ st]) (auto simp: missq_change_state_def Let_def)
  qed
  then show
    "missq st' = (missq st)
      (qid := (if new = MQ_EMPTY then zero_mq else missq st qid)\<lparr>mq_state := new\<rparr>)"
    and "credit t d st' = credit t d st -
      (if mq_state (missq st qid) = MQ_EMPTY \<and> t \<le> INVN \<and> d = HOME then 1 else 0)"
    and "missq_num st' = missq_num st" and "wtbkq_num st' = wtbkq_num st"
    and "home_x (router st') = home_x (router st)" and "home_y (router st') = home_y (router st)"
    and "wtbkq st' = wtbkq st" and "cache_dl2 st' = cache_dl2 st" and "cpuid st' = cpuid st"
    by (cases "new = MQ_EMPTY"; auto)+
qed

section \<open>Searches\<close>

lemma find_missq_empty_entry_Some:
  "find_missq_empty_entry n st = Some i \<Longrightarrow> i < n \<and> mq_state (missq st i) = MQ_EMPTY"
  unfolding find_missq_empty_entry_def by (rule ring_scan_Some)

lemma find_missq_two_empty_entry_Some:
  "find_missq_two_empty_entry n st = Some i \<Longrightarrow>
   i < n \<and> mq_state (missq st i) = MQ_EMPTY \<and> missq_num st < int n - 1"
  by (auto simp: find_missq_two_empty_entry_def dest: find_missq_empty_entry_Some split: if_splits)

text \<open>The occupancy counter counts the entries in use.\<close>

definition missq_counted :: "nat \<Rightarrow> godson2_cpu \<Rightarrow> bool" where
  "missq_counted n st \<longleftrightarrow> missq_num st = int (count_below n (\<lambda>i. mq_state (missq st i) \<noteq> MQ_EMPTY))"

lemma find_missq_empty_entry_ex:
  assumes "missq_counted n st" and "missq_num st < int n"
  shows "\<exists>i. find_missq_empty_entry n st = Some i"
proof -
  from assms obtain i where "i < n" "mq_state (missq st i) = MQ_EMPTY"
    using count_below_less [of n "\<lambda>i. mq_state (missq st i) \<noteq> MQ_EMPTY"]
    by (auto simp: missq_counted_def)
  then show ?thesis unfolding find_missq_empty_entry_def by (rule ring_scan_ex)
qed

lemma wtbkq_enter_Some:
  assumes "wtbkq_enter n rc req paddr inst cs iv st = Some st'"
  shows "\<exists>i<n. \<not> wq_valid (wtbkq st i) \<and> wtbkq st' = (wtbkq st)(i := \<lparr>wq_valid = True,
      wq_cache_status = cs, wq_paddr = paddr, wq_cpuid = rc, wq_req = req, wq_inst = inst,
      wq_intervention = iv\<rparr>)"
    and "credit t d st' = credit t d st" and "missq st' = missq st" and "missq_num st' = missq_num st"
    and "wtbkq_num st' = wtbkq_num st" and "router st' = router st" and "cache_dl2 st' = cache_dl2 st"
    and "cpuid st' = cpuid st"
  using assms
  by (auto simp: wtbkq_enter_def upd_wq_def credit_def dest!: ring_scan_Some split: option.splits)

section \<open>The memory queue\<close>

text \<open>No request is lost: every descriptor is queued or free, and \<open>memq_num\<close> counts the queued ones.\<close>

definition memq_ok :: "nat \<Rightarrow> godson2_cpu \<Rightarrow> bool" where
  "memq_ok n st \<longleftrightarrow> memq_num st = int (length (memq_head st)) \<and>
     length (memq_head st) + length (memq_free_list st) = n"

lemma memq_enter_ok:
  assumes "memq_ok n st"
  shows "\<exists>taken st'. memq_enter n read i st = Some (taken, st') \<and> memq_ok n st' \<and>
    taken = (length (memq_head st) < n) \<and>
    memq_head st' = (if taken then \<lparr>mem_read = read, mem_qid = i, mem_count = 0\<rparr> # memq_head st
                     else memq_head st)"
proof (cases "memq_free_list st")
  case Nil
  then show ?thesis using assms by (intro exI [of _ False]) (simp add: memq_enter_def memq_ok_def)
next
  case (Cons p ps)
  then show ?thesis
    using assms by (auto simp: memq_enter_def memq_ok_def memq_get_from_free_list_def)
qed

lemma check_memq_loop_conserves:
  "memq_num st = int (length (memq_head st) + length rest) \<Longrightarrow>
   length (memq_head st) + length rest + length (memq_free_list st) = n \<Longrightarrow>
   memq_ok n (check_memq_loop f d w rest st)"
proof (induction rest arbitrary: st)
  case Nil
  then show ?case by (simp add: memq_ok_def)
next
  case (Cons tmp rest)
  have keep: "memq_ok n (check_memq_loop f d w rest (st'\<lparr>memq_head := t # memq_head st\<rparr>))"
    if "memq_num st' = memq_num st" "memq_head st' = memq_head st"
      "memq_free_list st' = memq_free_list st" for t st'
    by (rule Cons.IH) (use that Cons.prems in auto)
  have free: "memq_ok n (check_memq_loop f d w rest (memq_return_to_free_list t st'))"
    if "memq_num st' = memq_num st" "memq_head st' = memq_head st"
      "memq_free_list st' = memq_free_list st" for t st'
    by (rule Cons.IH) (use that Cons.prems in \<open>auto simp: memq_return_to_free_list_def\<close>)
  show ?case by (simp add: Let_def keep free)
qed

lemma check_memq_ok: "memq_ok n st \<Longrightarrow> memq_ok n (check_memq f d w st)"
  by (simp add: check_memq_def Let_def)
    (auto intro!: check_memq_loop_conserves simp: memq_ok_def [of n st])

text \<open>A read alone in the queue, \<open>k\<close> cycles old, with \<open>m\<close> words delivered.\<close>

definition reading :: "nat \<Rightarrow> int \<Rightarrow> int \<Rightarrow> godson2_cpu \<Rightarrow> bool" where
  "reading q k m st \<longleftrightarrow> memq_num st = 1 \<and> memcnt (missq st q) = m \<and>
     memq_head st = [\<lparr>mem_read = True, mem_qid = q, mem_count = k\<rparr>]"

lemma check_memq_reading:
  assumes "reading q k m st" and "m < 4"
  shows "k + 1 < f + m * d \<Longrightarrow> reading q (k + 1) m (check_memq f d w st)"
    and "f + m * d \<le> k + 1 \<Longrightarrow> m < 3 \<Longrightarrow> reading q (k + 1) (m + 1) (check_memq f d w st)"
    and "f + m * d \<le> k + 1 \<Longrightarrow> m = 3 \<Longrightarrow> memq_head (check_memq f d w st) = [] \<and>
      memcnt (missq (check_memq f d w st) q) = 4 \<and> memq_num (check_memq f d w st) = 0"
  using assms
  by (auto simp: reading_def check_memq_def Let_def memq_return_to_free_list_def)

lemma words_step:
  assumes "(1::int) \<le> d" and "f \<le> k"
  shows "(f + (1 + (k - f) div d) * d \<le> k + 1) = ((k + 1 - f) div d = (k - f) div d + 1)"
    and "\<not> f + (1 + (k - f) div d) * d \<le> k + 1 \<Longrightarrow> (k + 1 - f) div d = (k - f) div d"
proof -
  let ?q = "(k - f) div d" and ?r = "(k - f) mod d"
  have eq: "k - f = ?q * d + ?r" by simp
  have r: "0 \<le> ?r" "?r < d" using assms(1) by simp_all
  have "k + 1 - f = (?r + 1) + ?q * d" using eq by linarith
  then have "(k + 1 - f) div d = ((?r + 1) + ?q * d) div d" by (rule arg_cong)
  also have "\<dots> = ?q + (?r + 1) div d" using assms(1) by (intro div_mult_self1) simp
  finally have split: "(k + 1 - f) div d = ?q + (?r + 1) div d" .
  have "(f + (1 + q) * d \<le> k + 1) = (d \<le> r + 1)" if "k - f = q * d + r" for q r
    using that by (auto simp: algebra_simps)
  then have cond: "(f + (1 + ?q) * d \<le> k + 1) = (d \<le> ?r + 1)" using eq by blast
  have "(?r + 1) div d = (if d \<le> ?r + 1 then 1 else 0)"
  proof (cases "d \<le> ?r + 1")
    case True
    then have "?r + 1 = d" using r by linarith
    then show ?thesis using assms(1) by simp
  next
    case False
    then show ?thesis using r by (simp add: div_pos_pos_trivial)
  qed
  then show "(f + (1 + ?q) * d \<le> k + 1) = ((k + 1 - f) div d = ?q + 1)"
    and "\<not> f + (1 + ?q) * d \<le> k + 1 \<Longrightarrow> (k + 1 - f) div d = ?q"
    using split cond by auto
qed

lemma less_mult_div3: "(1::int) \<le> d \<Longrightarrow> x < 3 * d \<Longrightarrow> x div d < 3"
proof (rule ccontr)
  assume d: "1 \<le> d" and x: "x < 3 * d" and "\<not> x div d < 3"
  then have "3 * d \<le> x div d * d" by simp
  also have "\<dots> \<le> x" using d by (simp add: minus_mod_eq_div_mult [symmetric])
  finally show False using x by simp
qed

lemma check_memq_reading_iter:
  assumes "reading q 0 0 st" and "1 \<le> f" and "1 \<le> d" and "int k < f + 3 * d"
  shows "reading q (int k) (if int k < f then 0 else 1 + (int k - f) div d) ((check_memq f d w ^^ k) st)"
  using assms(4)
proof (induction k)
  case 0
  then show ?case using assms(1,2) by simp
next
  case (Suc k)
  let ?st = "(check_memq f d w ^^ k) st"
  have IH: "reading q (int k) (if int k < f then 0 else 1 + (int k - f) div d) ?st"
    using Suc by simp
  show ?case
  proof (cases "int k < f")
    case True
    then show ?thesis
      using check_memq_reading [of q "int k" 0 ?st f d w] IH assms(3)
      by (cases "int k + 1 < f") (auto simp: add.commute)
  next
    case False
    let ?m = "1 + (int k - f) div d"
    have "(int k - f) div d < 3"
      using Suc.prems assms(3) less_mult_div3 [of d "int k - f"] by simp
    moreover have "(int k + 1 - f) div d < 3"
      using Suc.prems assms(3) less_mult_div3 [of d "int k + 1 - f"] by simp
    ultimately show ?thesis
      using check_memq_reading [of q "int k" ?m ?st f d w] IH False assms(3)
        words_step [OF assms(3), of f "int k"]
      by (cases "f + ?m * d \<le> int k + 1") (auto simp: add.commute algebra_simps)
  qed
qed

section \<open>Properties\<close>

text \<open>\<open>missq_change_state\<close> on a core with home credits succeeds, leaves every other entry alone,
  puts the entry in the new state (all fields zeroed when that is \<open>MQ_EMPTY\<close>), and takes one credit of
  the request channel and one of the intervention channel exactly when the entry was empty; it aborts
  exactly when an empty entry is taken without a credit.\<close>

theorem missq_change_state_effect:
  "case missq_change_state qid new st of
     None \<Rightarrow> mq_state (missq st qid) = MQ_EMPTY \<and> (credit REQ HOME st < 1 \<or> credit INVN HOME st < 1)
   | Some st' \<Rightarrow>
       missq st' = (missq st)(qid := (if new = MQ_EMPTY then zero_mq else missq st qid)\<lparr>mq_state := new\<rparr>) \<and>
       (\<forall>t d. credit t d st' = credit t d st -
         (if mq_state (missq st qid) = MQ_EMPTY \<and> t \<le> INVN \<and> d = HOME then 1 else 0))"
proof (cases "missq_change_state qid new st")
  case None
  then show ?thesis
    by (auto simp: missq_change_state_def take_home_credit_def Let_def bind_eq_None_conv
        split: if_splits)
next
  case (Some st')
  then show ?thesis using missq_change_state_Some [OF Some] by simp
qed

text \<open>A core with one queued read of entry 0.\<close>

definition read_request :: "godson2_cpu \<Rightarrow> godson2_cpu" where
  "read_request st = (upd_mq 0 (\<lambda>m. m\<lparr>memcnt := 0\<rparr>) st)\<lparr>memq_num := 1,
     memq_head := [\<lparr>mem_read = True, mem_qid = 0, mem_count = 0\<rparr>]\<rparr>"



text \<open>C33. The memory queue neither loses nor duplicates descriptors: \<open>memq_enter\<close> never runs out of
  free descriptors, takes a request exactly when the queue is not full, and with \<open>check_memq\<close> keeps
  queued plus free descriptors at \<open>memq_ifq_size\<close> and \<open>memq_num\<close> equal to the number queued.\<close>

theorem memq_conserved:
  assumes "memq_ok n st"
  shows "memq_ok n (check_memq f d w st) \<and>
    (\<exists>taken st'. memq_enter n read i st = Some (taken, st') \<and> memq_ok n st' \<and>
      taken = (length (memq_head st) < n))"
  using check_memq_ok [OF assms] memq_enter_ok [OF assms, of read i] by blast+

theorem memq_conserved_witness:
  "memq_ok 1 (check_memq 10 2 5 (cache2mem_init (\<lambda>_. blank_packet) 1 (blank_cpu 1 0)))"
proof -
  have "memq_ok 1 (cache2mem_init (\<lambda>_. blank_packet) 1 (blank_cpu 1 0))"
    by (simp add: memq_ok_def cache2mem_init_def memq_init_free_list_def refill_init_free_list_def)
  then show ?thesis by (rule memq_conserved [THEN conjunct1])
qed

end
