(* ===== verification/WayList.thy ===== *)
theory WayList
  imports Cpu
begin

text \<open>
  The way order of a cache set as the pointer structure of cache.c: \<open>way_head\<close> and \<open>way_tail\<close> of the
  set and \<open>way_next\<close> and \<open>way_prev\<close> of its blocks, and \<open>update_way_list\<close> on them. The refinement
  lemmas show that on a well-formed structure it moves the block to the front or to the back of the
  list of ways, which is the view (\<open>way_list\<close>) the rest of the development uses.
\<close>

section \<open>The pointer structure\<close>

datatype list_loc_t = Head | Tail

record way_chain =
  way_head :: "nat option"
  way_tail :: "nat option"
  way_next :: "nat \<Rightarrow> nat option"
  way_prev :: "nat \<Rightarrow> nat option"

text \<open>Linking a block that is in no list to the head or the tail; following a NULL head or tail is
  outside the model.\<close>

definition link_way :: "way_chain \<Rightarrow> nat \<Rightarrow> list_loc_t \<Rightarrow> way_chain option" where
  "link_way cs blk loc =
     (case loc of
        Head \<Rightarrow>
          (case way_head cs of
             None \<Rightarrow> None
           | Some h \<Rightarrow>
               Some (cs\<lparr>way_next := (way_next cs)(blk := Some h),
                         way_prev := ((way_prev cs)(blk := None))(h := Some blk),
                         way_head := Some blk\<rparr>))
      | Tail \<Rightarrow>
          (case way_tail cs of
             None \<Rightarrow> None
           | Some t \<Rightarrow>
               Some (cs\<lparr>way_prev := (way_prev cs)(blk := Some t),
                         way_next := ((way_next cs)(blk := None))(t := Some blk),
                         way_tail := Some blk\<rparr>)))"

definition update_way_list :: "way_chain \<Rightarrow> nat \<Rightarrow> list_loc_t \<Rightarrow> way_chain option" where
  "update_way_list cs blk loc =
     (case (way_prev cs blk, way_next cs blk) of
        (None, None) \<Rightarrow>
          if way_head cs = Some blk \<and> way_tail cs = Some blk then Some cs else None
      | (None, Some n) \<Rightarrow>
          if way_head cs = Some blk \<and> way_tail cs \<noteq> Some blk
          then if loc = Head then Some cs
               else link_way (cs\<lparr>way_head := Some n, way_prev := (way_prev cs)(n := None)\<rparr>) blk loc
          else None
      | (Some p, None) \<Rightarrow>
          if way_head cs \<noteq> Some blk \<and> way_tail cs = Some blk
          then if loc = Tail then Some cs
               else link_way (cs\<lparr>way_tail := Some p, way_next := (way_next cs)(p := None)\<rparr>) blk loc
          else None
      | (Some p, Some n) \<Rightarrow>
          if way_head cs \<noteq> Some blk \<and> way_tail cs \<noteq> Some blk
          then link_way (cs\<lparr>way_next := (way_next cs)(p := Some n),
                             way_prev := (way_prev cs)(n := Some p)\<rparr>) blk loc
          else None)"

section \<open>What the structure stands for\<close>

text \<open>The pointers form the doubly linked list \<open>ws\<close>, from a given left neighbour to a given right
  neighbour.\<close>

fun chained :: "way_chain \<Rightarrow> nat option \<Rightarrow> nat list \<Rightarrow> nat option \<Rightarrow> bool" where
  "chained cs l [] r = True"
| "chained cs l (w # ws) r =
     (way_prev cs w = l \<and> way_next cs w = (case ws of [] \<Rightarrow> r | v # _ \<Rightarrow> Some v) \<and>
      chained cs (Some w) ws r)"

definition head_of :: "nat list \<Rightarrow> nat option" where
  "head_of ws = (case ws of [] \<Rightarrow> None | w # _ \<Rightarrow> Some w)"

definition last_of :: "nat list \<Rightarrow> nat option" where
  "last_of ws = (if ws = [] then None else Some (last ws))"

definition way_rep :: "way_chain \<Rightarrow> nat list \<Rightarrow> bool" where
  "way_rep cs ws \<longleftrightarrow> ws \<noteq> [] \<and> distinct ws \<and> way_head cs = head_of ws \<and>
     way_tail cs = last_of ws \<and> chained cs None ws None"

lemma head_of_simps [simp]: "head_of [] = None" "head_of (w # ws) = Some w"
  by (simp_all add: head_of_def)

lemma last_of_simps [simp]: "last_of [] = None" "last_of [w] = Some w" "last_of (xs @ [w]) = Some w"
  by (simp_all add: last_of_def)

lemma head_of_append [simp]: "head_of (xs @ ys) = (if xs = [] then head_of ys else head_of xs)"
  by (cases xs) auto

lemma last_of_Cons [simp]: "last_of (x # xs) = (if xs = [] then Some x else last_of xs)"
  by (simp add: last_of_def)

lemma last_of_append [simp]: "last_of (xs @ ys) = (if ys = [] then last_of xs else last_of ys)"
  by (simp add: last_of_def)

lemma chained_Cons [simp]:
  "chained cs l (w # ws) r =
     (way_prev cs w = l \<and> way_next cs w = (if ws = [] then r else head_of ws) \<and>
      chained cs (Some w) ws r)"
  by (cases ws) auto

declare chained.simps(2) [simp del]

lemma chained_append:
  "chained cs l (xs @ ys) r =
     (chained cs l xs (if ys = [] then r else head_of ys) \<and>
      chained cs (if xs = [] then l else last_of xs) ys r)"
  by (induction xs arbitrary: l) auto

lemma chained_frame:
  assumes "\<And>w. w \<in> set ws \<Longrightarrow> way_prev s' w = way_prev s w"
    and "\<And>w. w \<in> set ws \<Longrightarrow> way_next s' w = way_next s w"
  shows "chained s' l ws r = chained s l ws r"
  using assms by (induction ws arbitrary: l) auto

text \<open>A pointer that is the right (left) neighbour of a segment can be changed from outside by writing
  the \<open>way_next\<close> of its last (the \<open>way_prev\<close> of its first) block.\<close>

lemma chained_new_right:
  assumes "chained s l (xs @ [p]) r" and "distinct (xs @ [p])"
    and "way_next s' p = r'" and "\<And>w. w \<in> set (xs @ [p]) \<Longrightarrow> way_prev s' w = way_prev s w"
    and "\<And>w. w \<in> set xs \<Longrightarrow> way_next s' w = way_next s w"
  shows "chained s' l (xs @ [p]) r'"
proof -
  have "chained s' l xs (Some p) = chained s l xs (Some p)"
    by (rule chained_frame) (use assms(4,5) in auto)
  then show ?thesis using assms(1,3) assms(4) [of p] by (auto simp: chained_append)
qed

lemma chained_new_left:
  assumes "chained s l (n # xs) r" and "distinct (n # xs)"
    and "way_prev s' n = l'" and "\<And>w. w \<in> set (n # xs) \<Longrightarrow> way_next s' w = way_next s w"
    and "\<And>w. w \<in> set xs \<Longrightarrow> way_prev s' w = way_prev s w"
  shows "chained s' l' (n # xs) r"
proof -
  have "chained s' (Some n) xs r = chained s (Some n) xs r"
    by (rule chained_frame) (use assms(4,5) in auto)
  then show ?thesis using assms(1,3) assms(4) [of n] by (auto simp: chained_Cons)
qed

section \<open>Unlinking and linking\<close>

lemma link_way_Head:
  assumes "way_rep s ws" and "b \<notin> set ws"
  shows "\<exists>s'. link_way s b Head = Some s' \<and> way_rep s' (b # ws)"
proof -
  obtain h r where ws: "ws = h # r" using assms(1) by (cases ws) (auto simp: way_rep_def)
  let ?s = "s\<lparr>way_next := (way_next s)(b := Some h),
     way_prev := ((way_prev s)(b := None))(h := Some b), way_head := Some b\<rparr>"
  have run: "link_way s b Head = Some ?s" using assms(1) ws by (simp add: link_way_def way_rep_def)
  have "chained ?s (Some b) (h # r) None"
    by (rule chained_new_left [of s None]) (use assms ws in \<open>auto simp: way_rep_def\<close>)
  then have "way_rep ?s (b # ws)"
    using assms ws by (auto simp: way_rep_def last_of_def)
  with run show ?thesis by blast
qed

lemma link_way_Tail:
  assumes "way_rep s ws" and "b \<notin> set ws"
  shows "\<exists>s'. link_way s b Tail = Some s' \<and> way_rep s' (ws @ [b])"
proof -
  obtain r t where ws: "ws = r @ [t]" using assms(1) by (cases ws rule: rev_cases) (auto simp: way_rep_def)
  let ?s = "s\<lparr>way_prev := (way_prev s)(b := Some t),
     way_next := ((way_next s)(b := None))(t := Some b), way_tail := Some b\<rparr>"
  have run: "link_way s b Tail = Some ?s" using assms(1) ws by (simp add: link_way_def way_rep_def)
  have "chained ?s None (r @ [t]) (Some b)"
    by (rule chained_new_right [of s None _ _ None]) (use assms ws in \<open>auto simp: way_rep_def\<close>)
  then have "chained ?s None (ws @ [b]) None"
    using assms ws by (auto simp: chained_append)
  then have "way_rep ?s (ws @ [b])"
    using assms ws by (cases r) (auto simp: way_rep_def)
  with run show ?thesis by blast
qed

text \<open>The four shapes of the list around the block.\<close>

lemma way_rep_split:
  assumes "way_rep s (xs @ b # ys)"
  shows "way_prev s b = last_of xs" and "way_next s b = head_of ys"
  using assms by (auto simp: way_rep_def chained_append chained_Cons split: if_splits)

lemma unlink_middle:
  assumes rep: "way_rep s (xs @ b # ys)" and xs: "xs \<noteq> []" and ys: "ys \<noteq> []"
    and p: "way_prev s b = Some p" and n: "way_next s b = Some n"
  shows "way_rep (s\<lparr>way_next := (way_next s)(p := Some n), way_prev := (way_prev s)(n := Some p)\<rparr>)
    (xs @ ys)"
proof -
  obtain xs' where xs': "xs = xs' @ [p]"
    using way_rep_split(1) [OF rep] p xs by (cases xs rule: rev_cases) auto
  obtain ys' where ys': "ys = n # ys'"
    using way_rep_split(2) [OF rep] n ys by (cases ys) auto
  let ?s = "s\<lparr>way_next := (way_next s)(p := Some n), way_prev := (way_prev s)(n := Some p)\<rparr>"
  have d: "distinct (xs @ b # ys)" and c: "chained s None (xs @ b # ys) None"
    using rep by (auto simp: way_rep_def)
  from c have 1: "chained s None xs (Some b)" and 2: "chained s (Some b) ys None"
    using ys xs by (auto simp: chained_append chained_Cons)
  have "chained ?s None (xs' @ [p]) (Some n)"
    by (rule chained_new_right [of s None _ _ "Some b"]) (use 1 d xs' ys' in auto)
  moreover have "chained ?s (Some p) (n # ys') None"
    by (rule chained_new_left [of s "Some b"]) (use 2 d xs' ys' in auto)
  ultimately have "chained ?s None (xs @ ys) None"
    using xs' ys' by (auto simp: chained_append)
  then show ?thesis
    using rep xs ys xs' ys' by (cases xs') (auto simp: way_rep_def last_of_def)
qed

lemma unlink_head:
  assumes rep: "way_rep s (b # ys)" and n: "way_next s b = Some n"
  shows "way_rep (s\<lparr>way_head := Some n, way_prev := (way_prev s)(n := None)\<rparr>) ys"
proof -
  obtain ys' where ys': "ys = n # ys'"
    using way_rep_split(2) [of s "[]" b ys] rep n by (cases ys) auto
  have "chained (s\<lparr>way_head := Some n, way_prev := (way_prev s)(n := None)\<rparr>) None (n # ys') None"
    by (rule chained_new_left [of s "Some b"]) (use rep ys' in \<open>auto simp: way_rep_def\<close>)
  then show ?thesis using rep ys' by (auto simp: way_rep_def last_of_def)
qed

lemma unlink_tail:
  assumes rep: "way_rep s (xs @ [b])" and p: "way_prev s b = Some p"
  shows "way_rep (s\<lparr>way_tail := Some p, way_next := (way_next s)(p := None)\<rparr>) xs"
proof -
  obtain xs' where xs': "xs = xs' @ [p]"
    using way_rep_split(1) [of s xs b "[]"] rep p by (cases xs rule: rev_cases) auto
  have "chained (s\<lparr>way_tail := Some p, way_next := (way_next s)(p := None)\<rparr>) None (xs' @ [p]) None"
    by (rule chained_new_right [of s None _ _ "Some b"])
      (use rep xs' in \<open>auto simp: way_rep_def chained_append\<close>)
  then show ?thesis using rep xs' by (cases xs') (auto simp: way_rep_def)
qed

text \<open>Moving a block of the list to its head or tail.\<close>

definition move_way :: "nat \<Rightarrow> list_loc_t \<Rightarrow> nat list \<Rightarrow> nat list" where
  "move_way b loc ws = (case loc of Head \<Rightarrow> b # remove1 b ws | Tail \<Rightarrow> remove1 b ws @ [b])"

lemma link_way_move:
  assumes "way_rep s (xs @ ys)" and "b \<notin> set (xs @ ys)"
  shows "\<exists>s'. link_way s b loc = Some s' \<and> way_rep s' (move_way b loc (xs @ b # ys))"
  using link_way_Head [OF assms] link_way_Tail [OF assms] assms(2)
  by (cases loc) (auto simp: move_way_def remove1_append)

lemma update_way_list_move:
  assumes rep: "way_rep s ws" and b: "b \<in> set ws"
  shows "\<exists>s'. update_way_list s b loc = Some s' \<and> way_rep s' (move_way b loc ws)"
proof -
  obtain xs ys where ws: "ws = xs @ b # ys" using b by (meson split_list)
  have d: "b \<notin> set (xs @ ys)" using rep ws by (auto simp: way_rep_def)
  note pn = way_rep_split [OF rep [unfolded ws]]
  have ht: "way_head s = (if xs = [] then Some b else head_of xs)"
      "way_tail s = (if ys = [] then Some b else last_of ys)"
    using rep ws by (auto simp: way_rep_def)
  have head: "xs \<noteq> [] \<Longrightarrow> way_head s \<noteq> Some b"
    using ht(1) d by (cases xs) auto
  have tail: "ys \<noteq> [] \<Longrightarrow> way_tail s \<noteq> Some b"
    using ht(2) d by (cases ys rule: rev_cases) auto
  have same: "way_rep s (move_way b loc ws)" if "(loc = Head \<and> xs = []) \<or> (loc = Tail \<and> ys = [])"
    using that rep ws d by (cases loc) (auto simp: move_way_def remove1_append)
  show ?thesis
  proof (cases xs rule: rev_cases)
    case Nil
    show ?thesis
    proof (cases ys)
      case ys: Nil
      have "update_way_list s b loc = Some s"
        using Nil ys pn ht by (simp add: update_way_list_def)
      then show ?thesis using same Nil ys by (cases loc) auto
    next
      case (Cons n ys')
      let ?s = "s\<lparr>way_head := Some n, way_prev := (way_prev s)(n := None)\<rparr>"
      have run: "update_way_list s b loc = (if loc = Head then Some s else link_way ?s b loc)"
        using Nil Cons pn ht tail by (simp add: update_way_list_def)
      have r: "way_rep ?s ([] @ ys)"
        using unlink_head [of s b ys n] rep ws Nil pn Cons by simp
      from link_way_move [OF r, of b loc] d Nil ws same run show ?thesis
        by (cases "loc = Head") simp_all
    qed
  next
    case (snoc xs' p)
    show ?thesis
    proof (cases ys)
      case Nil
      let ?s = "s\<lparr>way_tail := Some p, way_next := (way_next s)(p := None)\<rparr>"
      have run: "update_way_list s b loc = (if loc = Tail then Some s else link_way ?s b loc)"
        using Nil snoc pn ht head by (simp add: update_way_list_def)
      have r: "way_rep ?s (xs @ [])"
        using unlink_tail [of s xs b p] rep ws Nil pn snoc by simp
      from link_way_move [OF r, of b loc] d Nil ws same run show ?thesis
        by (cases "loc = Tail") simp_all
    next
      case (Cons n ys')
      let ?s = "s\<lparr>way_next := (way_next s)(p := Some n), way_prev := (way_prev s)(n := Some p)\<rparr>"
      have run: "update_way_list s b loc = link_way ?s b loc"
        using snoc Cons pn head tail by (simp add: update_way_list_def)
      have r: "way_rep ?s (xs @ ys)"
        using unlink_middle [OF rep [unfolded ws]] pn snoc Cons by simp
      from link_way_move [OF r, of b loc] d ws run show ?thesis by simp
    qed
  qed
qed

section \<open>Properties\<close>

text \<open>C21. On a well-formed way list, \<open>update_way_list\<close> passes all its assertions and follows no NULL
  pointer, and leaves a well-formed list in which the block has moved to the head (or tail) and all
  other blocks keep their order.\<close>

theorem update_way_list_refines:
  assumes "way_rep s ws" and "b \<in> set ws"
  shows "\<exists>s'. update_way_list s b loc = Some s' \<and> way_rep s' (move_way b loc ws) \<and>
    set (move_way b loc ws) = set ws \<and>
    filter (\<lambda>w. w \<noteq> b) (move_way b loc ws) = filter (\<lambda>w. w \<noteq> b) ws"
proof -
  have "distinct ws" using assms(1) by (simp add: way_rep_def)
  then have "remove1 b ws = filter (\<lambda>w. w \<noteq> b) ws"
    by (auto simp: distinct_remove1_removeAll removeAll_filter_not_eq intro!: filter_cong)
  then have "set (move_way b loc ws) = set ws \<and>
      filter (\<lambda>w. w \<noteq> b) (move_way b loc ws) = filter (\<lambda>w. w \<noteq> b) ws"
    using assms(2) by (cases loc) (auto simp: move_way_def)
  with update_way_list_move [OF assms, of loc] show ?thesis by blast
qed

text \<open>A set of three ways in the order the cache is created with.\<close>

definition three_ways :: way_chain where
  "three_ways = \<lparr>way_head = Some 2, way_tail = Some 0,
     way_next = (\<lambda>w. if w = 2 then Some 1 else if w = 1 then Some 0 else None),
     way_prev = (\<lambda>w. if w = 0 then Some 1 else if w = 1 then Some 2 else None)\<rparr>"

theorem update_way_list_refines_witness:
  "\<exists>s'. update_way_list three_ways 1 Head = Some s' \<and> way_rep s' [1, 2, 0]"
  using update_way_list_refines [of three_ways "[2, 1, 0]" 1 Head]
  by (auto simp: way_rep_def three_ways_def last_of_def move_way_def)

end
