(* ===== verification/Cache.thy ===== *)
theory Cache
  imports MissQueue WayList
begin

unbundle bit_operations_syntax

text \<open>
  The caches (cache.c): lookups (\<open>cache_probe\<close>, \<open>find_blk_match_no_jump\<close>, the fast-forwarding
  accesses), the set hash chains, the replacement of a block with its effect on the write-back queue
  and its credits, and the completion of a refill.
\<close>

section \<open>Access to the cores\<close>

definition on_cpu ::
  "nat \<Rightarrow> (godson2_cpu \<Rightarrow> godson2_cpu option) \<Rightarrow> 'z sys_scheme \<Rightarrow> 'z sys_scheme option" where
  "on_cpu c f s = map_option (\<lambda>st. upd_cpu c (\<lambda>_. st) s) (f (cpus s c))"

text \<open>\<open>eventq_queue_callback4(sim_cycle, update_credit, home_x, home_y, type, HOME)\<close> for core \<open>c\<close>.\<close>

definition queue_credit :: "nat \<Rightarrow> nat \<Rightarrow> 'z sys_scheme \<Rightarrow> 'z sys_scheme option" where
  "queue_credit c type s =
     map_option snd (eventq_queue_callback4 (sim_cycle s) Fn_update_credit
       (int (home_x (router (cpus s c)))) (int (home_y (router (cpus s c)))) (int type) (int HOME) s)"

datatype which_cache = Icache | Dcache

fun get_cache :: "which_cache \<Rightarrow> godson2_cpu \<Rightarrow> cache" where
  "get_cache Icache st = icache st"
| "get_cache Dcache st = dcache st"

fun upd_cache :: "which_cache \<Rightarrow> (cache \<Rightarrow> cache) \<Rightarrow> godson2_cpu \<Rightarrow> godson2_cpu" where
  "upd_cache Icache f st = st\<lparr>icache := f (icache st)\<rparr>"
| "upd_cache Dcache f st = st\<lparr>dcache := f (dcache st)\<rparr>"

section \<open>Small helpers\<close>

definition count_valid_bits :: "cache \<Rightarrow> 32 word \<Rightarrow> nat" where
  "count_valid_bits cp vector =
     length (filter (\<lambda>i. CACHE_GET_SB_BIT i vector \<noteq> 0) [0..<subblock_ratio cp])"

text \<open>\<open>fatal\<close> on any other letter.\<close>

definition cache_char2policy :: "char \<Rightarrow> cache_policy option" where
  "cache_char2policy c =
     (if c = CHR ''l'' then Some LRU
      else if c = CHR ''r'' then Some Random
      else if c = CHR ''f'' then Some FIFO
      else if c = CHR ''F'' then Some LRF
      else None)"

definition CACHE_HASH :: "cache \<Rightarrow> md_addr_t \<Rightarrow> nat" where
  "CACHE_HASH cp key =
     unat ((drop_bit 24 key XOR drop_bit 16 key XOR drop_bit 8 key XOR key) AND of_nat (hsize cp - 1))"

text \<open>The hash chains: \<open>blk\<close> is a way of the set. Unlinking asserts that the block is in its chain.\<close>

definition link_htab_ent :: "cache \<Rightarrow> nat \<Rightarrow> cache_set \<Rightarrow> cache_set" where
  "link_htab_ent cp blk cs =
     (let index = CACHE_HASH cp (blk_tag (blks cs blk))
      in cs\<lparr>set_hash := (set_hash cs)(index := blk # set_hash cs index)\<rparr>)"

definition unlink_htab_ent :: "cache \<Rightarrow> nat \<Rightarrow> cache_set \<Rightarrow> cache_set option" where
  "unlink_htab_ent cp blk cs =
     (let index = CACHE_HASH cp (blk_tag (blks cs blk))
      in if blk \<in> set (set_hash cs index)
         then Some (cs\<lparr>set_hash := (set_hash cs)(index := remove1 blk (set_hash cs index))\<rparr>)
         else None)"

text \<open>The walk over a chain for a tag with the \<open>CACHE_BLK_VALID\<close> bit set.\<close>

definition tag_valid_bit :: "cache_blk \<Rightarrow> md_addr_t \<Rightarrow> bool" where
  "tag_valid_bit blk tag \<longleftrightarrow> blk_tag blk = tag \<and> blk_status blk AND CACHE_BLK_VALID \<noteq> 0"

definition find_blk_match_no_jump :: "cache \<Rightarrow> nat \<Rightarrow> md_addr_t \<Rightarrow> nat option" where
  "find_blk_match_no_jump cp st tag =
     (if hsize cp = 0
      then find (\<lambda>w. tag_valid_bit (get_blk cp (st, w)) tag) (way_list (sets cp st))
      else find (\<lambda>w. tag_valid_bit (get_blk cp (st, w)) tag) (set_hash (sets cp st) (CACHE_HASH cp tag)))"

section \<open>Probing an L1 cache\<close>

text \<open>The test of the walk in \<open>cache_probe\<close>.\<close>

definition usable_blk :: "cache_blk \<Rightarrow> md_addr_t \<Rightarrow> bool" where
  "usable_blk blk tag \<longleftrightarrow>
     blk_tag blk = tag \<and> blk_status blk \<noteq> INVALID \<and> blk_status blk \<noteq> DIRTY_INVALID"

definition probe_way :: "cache \<Rightarrow> nat \<Rightarrow> md_addr_t \<Rightarrow> nat option" where
  "probe_way cp st tag = find (\<lambda>w. usable_blk (get_blk cp (st, w)) tag) (way_list (sets cp st))"

text \<open>The test for a hit in the part of a block that is being refilled.\<close>

definition refilling_hit :: "cache \<Rightarrow> md_addr_t \<Rightarrow> md_addr_t \<Rightarrow> nat \<Rightarrow> bool" where
  "refilling_hit cp st tag b \<longleftrightarrow>
     (case refill_blk cp of
        None \<Rightarrow> False
      | Some rp \<Rightarrow> refill_set cp = st \<and> blk_tag (get_blk cp rp) = tag \<and> bit (refill_bitmap cp) b)"

definition cache_probe ::
  "which_cache \<Rightarrow> bool \<Rightarrow> md_addr_t \<Rightarrow> md_addr_t \<Rightarrow> godson2_cpu
     \<Rightarrow> blk_ptr option \<times> int \<times> godson2_cpu" where
  "cache_probe which is_store addr paddr st =
     (let cp = get_cache which st;
          tag = CACHE_TAG cp paddr;
          set = unat (CACHE_SET cp addr);
          b = unat (drop_bit 3 (addr AND 0x1F));
          is_d = (which = Dcache);
          st = (if is_d then bump (OfCache L1_accesses) st else st);
          st = (if is_store then bump (OfCache L1_stores) st else st)
      in case probe_way cp set tag of
        Some w \<Rightarrow>
          (let blk = (set, w); status = blk_status (get_blk cp blk)
           in if status = MODIFIED then
                (Some blk, NO_REQ, if is_d then bump (OfCache L1_hits) st else st)
              else if status = EXCLUSIVE then
                (let st = (if is_d then bump (OfCache L1_hits) st else st)
                 in (Some blk, NO_REQ,
                     if is_store
                     then upd_cache which (upd_blk blk (\<lambda>k. k\<lparr>blk_status := MODIFIED\<rparr>))
                            (bump (OfCache L1_exclusive_to_modified_changes) st)
                     else st))
              else if status = SHARED then
                (if \<not> is_store then (Some blk, NO_REQ, if is_d then bump (OfCache L1_hits) st else st)
                 else (None, UPGRADE,
                       if is_d then bump (OfCache L1_misses) (bump (OfCache L1_upgrade_requests) st) else st))
              else (Some blk, NO_REQ, st))
      | None \<Rightarrow>
          (let request = (if is_store then READ_EX else READ_SHD)
           in if refilling_hit cp (CACHE_SET cp addr) tag b
              then if is_d \<and> refill_new_status cp = SHARED \<and> is_store then (None, UPGRADE, st)
                   else (refill_blk cp, request, st)
              else let st = (if is_store then bump (OfCache L1_read_exclusive_requests) st
                             else bump (OfCache L1_read_shared_requests) st)
                   in (None, request, if is_d then bump (OfCache L1_misses) st else st)))"

section \<open>Address translation\<close>

text \<open>\<open>itlb_probe\<close> and \<open>dtlb_probe\<close> always hit; the result is the physical address.\<close>

definition itlb_probe :: "'z sys_scheme \<Rightarrow> nat \<Rightarrow> md_addr_t \<Rightarrow> md_addr_t" where
  "itlb_probe s c addr =
     (if is_splash s then addr else addr + of_nat c * NEW_THREAD_TOTAL_SIZE (total_cpus s))"

definition dtlb_probe :: "'z sys_scheme \<Rightarrow> nat \<Rightarrow> md_addr_t \<Rightarrow> md_addr_t" where
  "dtlb_probe s c addr =
     (if is_splash s then addr else addr + of_nat c * NEW_THREAD_TOTAL_SIZE (total_cpus s))"

section \<open>Replacement\<close>

text \<open>\<open>bindex = -1\<close> asks for the pseudo-random way.\<close>

definition choose_way :: "cache \<Rightarrow> md_addr_t \<Rightarrow> tick_t \<Rightarrow> int" where
  "choose_way cp st now =
     (if st = refill_set cp then assoc cp - 1 - refill_way cp else now AND (assoc cp - 1))"

text \<open>A shared block with the tag overrides the victim; the walk does not stop, so the last one wins.\<close>

definition victim :: "cache \<Rightarrow> nat \<Rightarrow> md_addr_t \<Rightarrow> nat \<Rightarrow> nat" where
  "victim cp st tag w0 =
     foldl (\<lambda>r w. if blk_tag (get_blk cp (st, w)) = tag \<and> blk_status (get_blk cp (st, w)) = SHARED
                  then w else r) w0 (way_list (sets cp st))"

definition retag_blk :: "md_addr_t \<Rightarrow> md_addr_t \<Rightarrow> cache_blk \<Rightarrow> cache_blk" where
  "retag_blk tag st k =
     k\<lparr>blk_tag := tag, blk_set := st, blk_status := INVALID, sb_valid := 0, sb_dirty := 0\<rparr>"

text \<open>The physical address of the block being replaced, in the set of \<open>paddr\<close>.\<close>

definition replaced_paddr :: "cache \<Rightarrow> md_addr_t \<Rightarrow> md_addr_t \<Rightarrow> md_addr_t" where
  "replaced_paddr cp old_tag paddr =
     (push_bit (tag_shift cp) old_tag + (paddr AND (push_bit (tag_shift cp) 1 - 1))) AND tagset_mask cp"

definition note_refill ::
  "md_addr_t \<Rightarrow> int \<Rightarrow> md_addr_t \<Rightarrow> int \<Rightarrow> blk_ptr \<Rightarrow> int \<Rightarrow> bool \<Rightarrow> int \<Rightarrow> cache \<Rightarrow> cache" where
  "note_refill rep_paddr rep_status st bindex repl req inst new_status cp =
     (let cp = cp\<lparr>replace_paddr := rep_paddr, replace_status := rep_status, refill_set := st,
                  refill_way := bindex, refill_blk := Some repl, refill_bitmap := 0\<rparr>
      in if req \<noteq> NO_REQ
         then cp\<lparr>refill_new_status :=
           (if \<not> inst \<and> req = READ_SHD then new_status
            else if req = READ_SHD then SHARED else EXCLUSIVE)\<rparr>
         else cp)"

text \<open>The hand-over of the replaced block to the write-back queue, or the return of the slot that was
  reserved for it.\<close>

definition replace_writeback ::
  "nat \<Rightarrow> cache_blk \<Rightarrow> md_addr_t \<Rightarrow> md_addr_t \<Rightarrow> md_addr_t \<Rightarrow> bool \<Rightarrow> bool
     \<Rightarrow> 'z sys_scheme \<Rightarrow> 'z sys_scheme option" where
  "replace_writeback c blk tag paddr rep_paddr inst intervention s =
     (let n = wtbkq_ifq_size s; me = cpuid (cpus s c)
      in if intervention then
           on_cpu c (wtbkq_enter n me ELIMINATE paddr inst
             (if blk_tag blk = tag then blk_status blk else INVALID) intervention) s
         else if blk_status blk \<noteq> INVALID then
           on_cpu c (wtbkq_enter n me (if blk_status blk = MODIFIED then WRITEBACK else ELIMINATE)
             rep_paddr inst (blk_status blk) intervention \<circ> bump (OfCache L1_writebacks)) s
         else
           do { s \<leftarrow> on_cpu c (\<lambda>st. if wtbkq_num st - 1 \<ge> 0
                                     then Some (st\<lparr>wtbkq_num := wtbkq_num st - 1\<rparr>) else None) s;
                queue_credit c WTBK s })"

definition replace_block ::
  "nat \<Rightarrow> which_cache \<Rightarrow> int \<Rightarrow> md_addr_t \<Rightarrow> int \<Rightarrow> bool \<Rightarrow> bool \<Rightarrow> int
     \<Rightarrow> 'z sys_scheme \<Rightarrow> (blk_ptr \<times> 'z sys_scheme) option" where
  "replace_block c which bindex paddr req inst intervention new_status s =
     (let cp = get_cache which (cpus s c);
          tag = CACHE_TAG cp paddr;
          set = CACHE_SET cp paddr;
          bindex = (if bindex = - 1 then choose_way cp set (sim_cycle s) else bindex);
          repl = (unat set, victim cp (unat set) tag (nat bindex));
          blk = get_blk cp repl;
          rep_paddr = (if \<not> intervention \<and> blk_status blk \<noteq> INVALID
                       then replaced_paddr cp (blk_tag blk) paddr else 0)
      in if blk_status blk = DIRTY_INVALID then None
         else do {
           s \<leftarrow> replace_writeback c blk tag paddr rep_paddr inst intervention s;
           let s = (if \<not> intervention \<or> blk_tag blk = tag
                    then upd_cpu c (upd_cache which (upd_blk repl (retag_blk tag set))) s else s);
           let s = (if \<not> intervention
                    then upd_cpu c (upd_cache which
                           (note_refill rep_paddr (blk_status blk) set bindex repl req inst new_status)) s
                    else s);
           Some (repl, upd_cpu c (upd_cache which (\<lambda>cp. cp\<lparr>last_tagset := 0xFFFFFFFF\<rparr>)) s) })"

section \<open>Completion of a refill\<close>

definition mark_valid :: "int \<Rightarrow> cache \<Rightarrow> cache option" where
  "mark_valid mode cp =
     (case refill_blk cp of
        None \<Rightarrow> None
      | Some p \<Rightarrow> Some (upd_blk p (\<lambda>k. k\<lparr>blk_status := (blk_status k AND DIRTY) OR mode\<rparr>) cp))"

definition mark_bitmap :: "nat \<Rightarrow> cache \<Rightarrow> cache" where
  "mark_bitmap b cp = cp\<lparr>refill_bitmap := refill_bitmap cp OR push_bit b 1\<rparr>"

section \<open>Fast-forwarding accesses\<close>

definition fast_install :: "md_addr_t \<Rightarrow> md_addr_t \<Rightarrow> tick_t \<Rightarrow> int \<Rightarrow> cache \<Rightarrow> cache" where
  "fast_install tag st now status cp =
     (let bindex = choose_way cp st now;
          repl = (unat st, nat bindex);
          cp = upd_blk repl (\<lambda>k. k\<lparr>blk_tag := tag, blk_status := status\<rparr>) cp
      in cp\<lparr>refill_set := st, refill_way := bindex, refill_blk := Some repl\<rparr>)"

definition icache_extremely_fast_access :: "tick_t \<Rightarrow> md_addr_t \<Rightarrow> cache \<Rightarrow> bool \<times> cache" where
  "icache_extremely_fast_access now addr cp =
     (let tag = CACHE_TAG cp addr; set = CACHE_SET cp addr
      in case find (\<lambda>w. tag_valid_bit (get_blk cp (unat set, w)) tag) (way_list (sets cp (unat set))) of
           Some w \<Rightarrow> (True, cp)
         | None \<Rightarrow> (False, fast_install tag set now CACHE_BLK_VALID cp))"

definition dl1_extremely_fast_access :: "tick_t \<Rightarrow> bool \<Rightarrow> md_addr_t \<Rightarrow> cache \<Rightarrow> bool \<times> cache" where
  "dl1_extremely_fast_access now write addr cp =
     (let tag = CACHE_TAG cp addr; set = CACHE_SET cp addr
      in case find (\<lambda>w. tag_valid_bit (get_blk cp (unat set, w)) tag) (way_list (sets cp (unat set))) of
           Some w \<Rightarrow>
             (True, if write
                    then upd_blk (unat set, w) (\<lambda>k. k\<lparr>blk_status := blk_status k OR CACHE_BLK_DIRTY\<rparr>) cp
                    else cp)
         | None \<Rightarrow>
             (False, fast_install tag set now
                (if write then CACHE_BLK_VALID OR CACHE_BLK_DIRTY else CACHE_BLK_VALID) cp))"

section \<open>Frames\<close>

lemma get_cache_upd_cache [simp]:
  "get_cache w (upd_cache v f st) = (if w = v then f (get_cache w st) else get_cache w st)"
  by (cases w; cases v) auto

lemma get_cache_bump [simp]: "get_cache w (bump k st) = get_cache w st"
  by (cases w) (auto simp: bump_def)

lemma upd_cache_frame [simp]:
  "missq (upd_cache w f st) = missq st" "missq_num (upd_cache w f st) = missq_num st"
  "wtbkq_num (upd_cache w f st) = wtbkq_num st" "wtbkq (upd_cache w f st) = wtbkq st"
  "router (upd_cache w f st) = router st" "cache_dl2 (upd_cache w f st) = cache_dl2 st"
  "credit t d (upd_cache w f st) = credit t d st" "cpuid (upd_cache w f st) = cpuid st"
  by (cases w; simp add: credit_def)+

lemma get_cache_wtbkq_enter:
  "wtbkq_enter n rc req paddr inst cs iv st = Some st' \<Longrightarrow> get_cache w st' = get_cache w st"
  by (cases w) (auto simp: wtbkq_enter_def upd_wq_def bump_def split: option.splits)

lemma queue_credit_cpus: "queue_credit c type s = Some s' \<Longrightarrow> cpus s' = cpus s"
  by (auto simp: queue_credit_def eventq_queue_callback4_def QUEUE_EVENT_def Let_def
      split: if_splits list.splits)

lemma get_blk_last_tagset [simp]: "get_blk (cp\<lparr>last_tagset := x\<rparr>) p = get_blk cp p"
  by (simp add: get_blk_def)

lemma note_refill_frame [simp]:
  "get_blk (note_refill rp rs st b r q i ns cp) p = get_blk cp p"
  "sets (note_refill rp rs st b r q i ns cp) = sets cp"
  "refill_blk (note_refill rp rs st b r q i ns cp) = Some r"
  "tag_shift (note_refill rp rs st b r q i ns cp) = tag_shift cp"
  "set_shift (note_refill rp rs st b r q i ns cp) = set_shift cp"
  "set_mask (note_refill rp rs st b r q i ns cp) = set_mask cp"
  by (auto simp: note_refill_def get_blk_def Let_def)

lemma probe_way_Some:
  "probe_way cp st tag = Some w \<Longrightarrow> w \<in> set (way_list (sets cp st)) \<and> usable_blk (get_blk cp (st, w)) tag"
  by (auto simp: probe_way_def find_Some_iff)

lemma probe_way_None:
  "probe_way cp st tag = None \<longleftrightarrow>
   (\<forall>w\<in>set (way_list (sets cp st)). \<not> usable_blk (get_blk cp (st, w)) tag)"
  by (auto simp: probe_way_def find_None_iff)

lemma victim_cases: "victim cp st tag w0 = w0 \<or> victim cp st tag w0 \<in> set (way_list (sets cp st))"
proof -
  have "foldl (\<lambda>r w. if P w then w else r) w0 ws = w0 \<or>
      foldl (\<lambda>r w. if P w then w else r) w0 ws \<in> set ws" for P and ws :: "nat list"
    by (induction ws rule: rev_induct) auto
  then show ?thesis by (simp add: victim_def)
qed

text \<open>\<open>replace_writeback\<close> touches no cache.\<close>

lemma replace_writeback_caches:
  assumes "replace_writeback c blk tag paddr rp inst iv s = Some s'"
  shows "get_cache w (cpus s' d) = get_cache w (cpus s d)"
proof -
  have enter: "get_cache w (cpus t' d) = get_cache w (cpus s d)"
    if "on_cpu c (wtbkq_enter n m q p i cs v \<circ> f) s = Some t'"
      and "\<And>st. get_cache w (f st) = get_cache w st" for n m q p i cs v f t'
    using that by (auto simp: on_cpu_def dest!: get_cache_wtbkq_enter [where w = w])
  show ?thesis
  proof (cases "\<not> iv \<and> blk_status blk = INVALID")
    case True
    then show ?thesis
      using assms
      by (cases w) (auto simp: replace_writeback_def Let_def on_cpu_def bind_eq_Some_conv
          dest!: queue_credit_cpus split: if_splits)
  next
    case False
    then show ?thesis
      using assms enter [where f = id] enter [where f = "bump (OfCache L1_writebacks)"]
      by (auto simp: replace_writeback_def Let_def split: if_splits)
  qed
qed

text \<open>The caches after a replacement that makes room for a refill.\<close>

lemma replace_block_cache:
  assumes "replace_block c which bindex paddr req inst False ns s = Some (p, s')"
    and "cp = get_cache which (cpus s c)" and "cp' = get_cache which (cpus s' c)"
  shows "fst p = unat (CACHE_SET cp paddr)"
    and "get_blk cp' q = (if q = p then retag_blk (CACHE_TAG cp paddr) (CACHE_SET cp paddr) (get_blk cp p)
                          else get_blk cp q)"
    and "refill_blk cp' = Some p" and "way_list (sets cp' n) = way_list (sets cp n)"
    and "snd p = nat (if bindex = - 1 then choose_way cp (CACHE_SET cp paddr) (sim_cycle s) else bindex) \<or>
         snd p \<in> set (way_list (sets cp (unat (CACHE_SET cp paddr))))"
proof -
  define b where "b = (if bindex = - 1 then choose_way cp (CACHE_SET cp paddr) (sim_cycle s) else bindex)"
  define r where "r = (unat (CACHE_SET cp paddr),
    victim cp (unat (CACHE_SET cp paddr)) (CACHE_TAG cp paddr) (nat b))"
  from assms(1,2) obtain s1 rp where
    1: "replace_writeback c (get_blk cp r) (CACHE_TAG cp paddr) paddr rp inst False s = Some s1"
    and p: "p = r"
    and cp': "cp' = (note_refill rp (blk_status (get_blk cp r)) (CACHE_SET cp paddr) b r req inst ns
        (upd_blk r (retag_blk (CACHE_TAG cp paddr) (CACHE_SET cp paddr)) (get_cache which (cpus s1 c))))
        \<lparr>last_tagset := 0xFFFFFFFF\<rparr>"
    unfolding assms(3)
    by (fastforce simp: replace_block_def Let_def bind_eq_Some_conv b_def r_def split: if_splits)
  have cp1: "get_cache which (cpus s1 c) = cp"
    using replace_writeback_caches [OF 1] assms(2) by simp
  note cp' = cp' [unfolded cp1]
  show "fst p = unat (CACHE_SET cp paddr)" by (simp add: p r_def)
  show "get_blk cp' q = (if q = p then retag_blk (CACHE_TAG cp paddr) (CACHE_SET cp paddr) (get_blk cp p)
      else get_blk cp q)"
    by (simp add: cp' p)
  show "refill_blk cp' = Some p" by (simp add: cp' p)
  show "way_list (sets cp' n) = way_list (sets cp n)" by (simp add: cp')
  show "snd p = nat (if bindex = - 1 then choose_way cp (CACHE_SET cp paddr) (sim_cycle s) else bindex) \<or>
         snd p \<in> set (way_list (sets cp (unat (CACHE_SET cp paddr))))"
    using victim_cases [of cp "unat (CACHE_SET cp paddr)" "CACHE_TAG cp paddr" "nat b"]
    by (auto simp: p r_def b_def)
qed

section \<open>Ownership of translated addresses\<close>

lemma unat_power32: "k < 32 \<Longrightarrow> unat ((2 :: 32 word) ^ k) = 2 ^ k"
proof -
  assume "k < 32"
  then have "(2 :: nat) ^ k < 2 ^ 32" by (intro power_strict_increasing) auto
  then show ?thesis using of_nat_inverse [of "2 ^ k" "(2 :: 32 word) ^ k"] by simp
qed

lemma total_size_power:
  assumes "k \<le> 31"
  shows "unat (NEW_THREAD_TOTAL_SIZE (2 ^ k)) = 2 ^ (31 - k)"
proof -
  have "unat (of_nat (2 ^ k) :: 32 word) = 2 ^ k"
    using unat_power32 [of k] assms by simp
  then have "unat (NEW_THREAD_TOTAL_SIZE (2 ^ k)) = 2 ^ 31 div 2 ^ k"
    unfolding NEW_THREAD_TOTAL_SIZE_def by (simp only: unat_div_distrib) simp
  also have "(2 :: nat) ^ 31 = 2 ^ (31 - k) * 2 ^ k" using assms by (simp flip: power_add)
  finally show ?thesis by simp
qed

text \<open>An address of core \<open>c\<close>'s own space, as a number.\<close>

lemma unat_translated:
  assumes "k \<le> 31" "c < 2 ^ k" "unat addr < 2 ^ (31 - k)"
  shows "unat (addr + of_nat c * NEW_THREAD_TOTAL_SIZE (2 ^ k)) = unat addr + c * 2 ^ (31 - k)"
    and "unat addr + c * 2 ^ (31 - k) < 2 ^ 31"
proof -
  have p: "(2 :: nat) ^ k * 2 ^ (31 - k) = 2 ^ 31" using assms(1) by (simp flip: power_add)
  have "unat addr + c * 2 ^ (31 - k) < 2 ^ (31 - k) + c * 2 ^ (31 - k)" using assms(3) by simp
  also have "\<dots> = Suc c * 2 ^ (31 - k)" by simp
  also have "\<dots> \<le> 2 ^ k * 2 ^ (31 - k)" using assms(2) by (intro mult_right_mono) auto
  finally show less: "unat addr + c * 2 ^ (31 - k) < 2 ^ 31" by (simp only: p)
  have "unat (of_nat c * NEW_THREAD_TOTAL_SIZE (2 ^ k)) = c * 2 ^ (31 - k)"
    using less assms(2) by (simp add: unat_word_ariths total_size_power [OF assms(1)] unat_of_nat mod_mult_left_eq)
  then show "unat (addr + of_nat c * NEW_THREAD_TOTAL_SIZE (2 ^ k)) = unat addr + c * 2 ^ (31 - k)"
    using less by (simp add: unat_word_ariths)
qed

lemma and_low_bits: "unat ((w :: 32 word) AND of_nat (2 ^ k - 1)) = unat w mod 2 ^ k"
proof -
  have "(of_nat (2 ^ k - 1) :: 32 word) = mask k"
    by (simp add: mask_eq_exp_minus_1 of_nat_diff)
  then have "w AND of_nat (2 ^ k - 1) = take_bit k w" by (simp only: take_bit_eq_mask)
  then show ?thesis by (simp only: unsigned_take_bit_eq) (simp only: take_bit_eq_mod)
qed

section \<open>Properties\<close>



text \<open>Replacement followed by the end of the refill installs the line: the victim gets the tag of
  the requested address, no other block of the cache changes, and once \<open>mark_valid\<close> has run with the
  granted state, the walk of \<open>cache_probe\<close> finds a block with the tag in the set.\<close>

theorem replace_refill_found:
  assumes "replace_block c which bindex paddr req inst False ns s = Some (p, s')"
    and "cp = get_cache which (cpus s c)" and "cp' = get_cache which (cpus s' c)"
    and "nat (if bindex = - 1 then choose_way cp (CACHE_SET cp paddr) (sim_cycle s) else bindex)
      \<in> set (way_list (sets cp (unat (CACHE_SET cp paddr))))"
    and "mode \<in> {SHARED, EXCLUSIVE, MODIFIED}"
  shows "\<exists>cp2. mark_valid mode cp' = Some cp2 \<and> blk_status (get_blk cp2 p) = mode \<and>
    blk_tag (get_blk cp2 p) = CACHE_TAG cp paddr \<and>
    probe_way cp2 (unat (CACHE_SET cp paddr)) (CACHE_TAG cp paddr) \<noteq> None \<and>
    (\<forall>q. q \<noteq> p \<longrightarrow> get_blk cp2 q = get_blk cp q)"
proof -
  note r = replace_block_cache [OF assms(1-3)]
  define cp2 where "cp2 = upd_blk p (\<lambda>k. k\<lparr>blk_status := (blk_status k AND DIRTY) OR mode\<rparr>) cp'"
  have mark: "mark_valid mode cp' = Some cp2" by (simp add: mark_valid_def r(3) cp2_def)
  have "get_blk cp2 p = (retag_blk (CACHE_TAG cp paddr) (CACHE_SET cp paddr) (get_blk cp p))
      \<lparr>blk_status := mode\<rparr>"
    by (simp add: cp2_def r(2) retag_blk_def)
  then have p: "blk_status (get_blk cp2 p) = mode" "blk_tag (get_blk cp2 p) = CACHE_TAG cp paddr"
    by (simp_all add: retag_blk_def)
  have "snd p \<in> set (way_list (sets cp2 (unat (CACHE_SET cp paddr))))"
    using r(4,5) assms(4) by (auto simp: cp2_def)
  moreover have "p = (unat (CACHE_SET cp paddr), snd p)" using r(1) by (cases p) simp
  then have "usable_blk (get_blk cp2 (unat (CACHE_SET cp paddr), snd p)) (CACHE_TAG cp paddr)"
    using p assms(5) by (auto simp: usable_blk_def)
  ultimately have "probe_way cp2 (unat (CACHE_SET cp paddr)) (CACHE_TAG cp paddr) \<noteq> None"
    unfolding probe_way_None by blast
  with mark p show ?thesis by (auto simp: cp2_def r(2))
qed

theorem replace_refill_found_witness:
  "\<exists>p s' cp2. replace_block 0 Dcache 0 0x40 READ_EX False False UNTOUCHED (blank_sys EXCLUSIVE) = Some (p, s') \<and>
     mark_valid EXCLUSIVE (get_cache Dcache (cpus s' 0)) = Some cp2 \<and> blk_status (get_blk cp2 p) = EXCLUSIVE"
proof -
  have "replace_block 0 Dcache 0 0x40 READ_EX False False UNTOUCHED (blank_sys EXCLUSIVE) \<noteq> None"
    by (simp add: replace_block_def replace_writeback_def on_cpu_def Let_def cache2mem_init_def
        memq_init_free_list_def refill_init_free_list_def blank_cpu_def small_cache_def get_blk_def
        blank_blk_def CACHE_SET_def CACHE_TAG_def victim_def wtbkq_enter_def ring_scan_def
        ring_order_def zero_wq_def upt_rec bump_def)
  then obtain p s' where run:
    "replace_block 0 Dcache 0 0x40 READ_EX False False UNTOUCHED (blank_sys EXCLUSIVE) = Some (p, s')"
    by auto
  have way: "nat (if (0::int) = - 1 then choose_way (get_cache Dcache (cpus (blank_sys EXCLUSIVE) 0))
        (CACHE_SET (get_cache Dcache (cpus (blank_sys EXCLUSIVE) 0)) 0x40) (sim_cycle (blank_sys EXCLUSIVE)) else 0)
      \<in> set (way_list (sets (get_cache Dcache (cpus (blank_sys EXCLUSIVE) 0))
        (unat (CACHE_SET (get_cache Dcache (cpus (blank_sys EXCLUSIVE) 0)) 0x40))))"
    by (simp add: cache2mem_init_def memq_init_free_list_def refill_init_free_list_def blank_cpu_def
        small_cache_def)
  from replace_refill_found [OF run refl refl way, of EXCLUSIVE] run show ?thesis by auto
qed

text \<open>A fast-forwarding instruction access that misses leaves a block that \<open>cache_probe\<close> does not
  see: it is marked with \<open>CACHE_BLK_VALID\<close>, the value of the line state \<open>INVALID\<close>, so the same
  address still misses in the set when detailed simulation starts.\<close>

theorem icache_fast_access_not_warm:
  assumes "icache_extremely_fast_access now addr cp = (False, cp')"
    and "probe_way cp (unat (CACHE_SET cp addr)) (CACHE_TAG cp addr) = None"
  shows "probe_way cp' (unat (CACHE_SET cp' addr)) (CACHE_TAG cp' addr) = None \<and>
    (\<exists>p. refill_blk cp' = Some p \<and> blk_tag (get_blk cp' p) = CACHE_TAG cp' addr \<and>
      blk_status (get_blk cp' p) = INVALID)"
proof -
  define st where "st = CACHE_SET cp addr"
  define r where "r = (unat st, nat (choose_way cp st now))"
  have cp': "cp' = (upd_blk r (\<lambda>k. k\<lparr>blk_tag := CACHE_TAG cp addr, blk_status := CACHE_BLK_VALID\<rparr>) cp)
      \<lparr>refill_set := st, refill_way := choose_way cp st now, refill_blk := Some r\<rparr>"
    using assms(1)
    by (auto simp: icache_extremely_fast_access_def fast_install_def Let_def st_def r_def split: option.splits)
  have blk: "get_blk cp' q = (if q = r
      then (get_blk cp r)\<lparr>blk_tag := CACHE_TAG cp addr, blk_status := CACHE_BLK_VALID\<rparr>
      else get_blk cp q)" for q
    by (simp add: cp' get_blk_def [of "_\<lparr>refill_set := _, refill_way := _, refill_blk := _\<rparr>"]
        get_blk_def [of "upd_blk _ _ _", symmetric])
  have geo: "CACHE_SET cp' addr = st" "CACHE_TAG cp' addr = CACHE_TAG cp addr"
    "way_list (sets cp' n) = way_list (sets cp n)" "refill_blk cp' = Some r" for n
    by (simp_all add: cp' CACHE_SET_def CACHE_TAG_def st_def)
  show ?thesis
    using assms(2) unfolding probe_way_None geo st_def [symmetric]
    by (auto simp: blk usable_blk_def)
qed

theorem icache_fast_access_not_warm_witness:
  "probe_way (snd (icache_extremely_fast_access 7 0x1040 (small_cache SHARED)))
     (unat (CACHE_SET (snd (icache_extremely_fast_access 7 0x1040 (small_cache SHARED))) 0x1040))
     (CACHE_TAG (snd (icache_extremely_fast_access 7 0x1040 (small_cache SHARED))) 0x1040) = None"
proof -
  have 1: "icache_extremely_fast_access 7 0x1040 (small_cache SHARED) =
      (False, snd (icache_extremely_fast_access 7 0x1040 (small_cache SHARED)))"
    and 2: "probe_way (small_cache SHARED) (unat (CACHE_SET (small_cache SHARED) 0x1040))
      (CACHE_TAG (small_cache SHARED) 0x1040) = None"
    by (simp_all add: icache_extremely_fast_access_def Let_def probe_way_def small_cache_def
        CACHE_SET_def CACHE_TAG_def get_blk_def usable_blk_def tag_valid_bit_def blank_blk_def)
  show ?thesis using icache_fast_access_not_warm [OF 1 2] by (rule conjunct1)
qed

text \<open>\<open>find_blk_match_no_jump\<close> tests the \<open>CACHE_BLK_VALID\<close> bit of the line state: it never returns a
  shared block, and it does return an invalid one whose tag matches.\<close>

theorem find_blk_match_states:
  "(\<forall>w. find_blk_match_no_jump cp st tag = Some w \<longrightarrow> blk_status (get_blk cp (st, w)) \<noteq> SHARED) \<and>
   (hsize cp = 0 \<and> way_list (sets cp st) = [w] \<and> blk_tag (get_blk cp (st, w)) = tag \<and>
      blk_status (get_blk cp (st, w)) = INVALID \<longrightarrow> find_blk_match_no_jump cp st tag = Some w)"
  by (auto simp: find_blk_match_no_jump_def tag_valid_bit_def find_Some_iff split: if_splits)

theorem find_blk_match_states_witness:
  "find_blk_match_no_jump ((small_cache INVALID)\<lparr>sets := (\<lambda>_. (sets (small_cache INVALID) 0)\<lparr>way_list := [0]\<rparr>)\<rparr>)
     2 0 = Some 0"
  using find_blk_match_states [of "(small_cache INVALID)\<lparr>sets := (\<lambda>_. (sets (small_cache INVALID) 0)
      \<lparr>way_list := [0]\<rparr>)\<rparr>" 2 0 0]
  by (simp add: small_cache_def get_blk_def blank_blk_def)

text \<open>With a power-of-two number of cores and separate address spaces, \<open>dtlb_probe\<close> maps an address
  of a core's own share to a valid physical address whose \<open>PADDR_OWNER\<close> is that core, so private
  addresses of different cores never meet.\<close>

theorem dtlb_probe_owner:
  assumes "total_cpus s = 2 ^ k" and "k \<le> 31" and "c < 2 ^ k" and "unat addr < 2 ^ (31 - k)"
    and "\<not> is_splash s"
  shows "PADDR_OWNER (total_cpus s) (dtlb_probe s c addr) = Some c \<and> VALID_PADDR (dtlb_probe s c addr)"
proof -
  let ?p = "dtlb_probe s c addr"
  have p: "unat ?p = unat addr + c * 2 ^ (31 - k)" and less: "unat ?p < 2 ^ 31"
    using unat_translated [OF assms(2-4)] assms(1,5) by (simp_all add: dtlb_probe_def)
  have "unat (drop_bit (31 - k) ?p AND of_nat (2 ^ k - 1)) = (unat ?p div 2 ^ (31 - k)) mod 2 ^ k"
    by (simp only: and_low_bits unat_drop_bit_eq) (simp only: drop_bit_eq_div)
  also have "unat ?p div 2 ^ (31 - k) = c" using p assms(4) by simp
  finally have "PADDR_OWNER (total_cpus s) ?p = Some c"
    using assms(1,3) by (simp add: PADDR_OWNER_def log_base2_power)
  moreover have "VALID_PADDR ?p" using less by (simp add: VALID_PADDR_def word_less_nat_alt)
  ultimately show ?thesis by simp
qed

theorem dtlb_probe_owner_witness:
  "PADDR_OWNER 4 (dtlb_probe (blank_sys INVALID) 3 0x400000) = Some 3"
  using dtlb_probe_owner [of "blank_sys INVALID" 2 3 "0x400000"] by simp

end
