(* ===== verification/Router.thy ===== *)
theory Router
  imports Cache
begin

unbundle bit_operations_syntax

text \<open>
  The mesh router of each core (noc.c with the round-robin arbiter of noc_rr.c): taking a request
  from the local caches, arrival and departure of packets, credits, X-Y routing, arbitration, and the
  delivery of packets into the miss queue and the write-back queue of the home core.
\<close>

section \<open>Initial state\<close>

definition init_router :: "'z sys_scheme \<Rightarrow> nat \<Rightarrow> router_t" where
  "init_router s k =
     \<lparr>ingress = (\<lambda>_ _ _. None), ingress_head = (\<lambda>_ _. 0), ingress_num = (\<lambda>_ _. 0),
      egress_credit = (\<lambda>i j.
        if i < NUM_TYPES \<and> j < NUM_DIRECTIONS
        then if j = HOME
             then if i = REQ \<or> i = INVN then int (missq_ifq_size s)
                  else if i = WTBK then int (wtbkq_ifq_size s) else 1
             else int (router_ifq_size s)
        else 0),
      egress_last_grant = (\<lambda>i j. if i < NUM_TYPES \<and> j < NUM_DIRECTIONS then NOUGHT else 0),
      egress_grant = (\<lambda>_ _. None), priority = (\<lambda>_. 0),
      home_x = k mod mesh_width s, home_y = k div mesh_width s\<rparr>"

definition noc_init :: "'z sys_scheme \<Rightarrow> 'z sys_scheme" where
  "noc_init s =
     s\<lparr>cpus := (\<lambda>k. if k < total_cpus s then (cpus s k)\<lparr>router := init_router s k\<rparr> else cpus s k),
       mesh_height := total_cpus s div mesh_width s\<rparr>"

section \<open>Requests from the home core\<close>

definition set_slot ::
  "nat \<Rightarrow> nat \<Rightarrow> nat \<Rightarrow> inputbuffer option \<Rightarrow> router_t \<Rightarrow> router_t" where
  "set_slot type dir pos p r =
     r\<lparr>ingress := (ingress r)(type := (ingress r type)(dir := (ingress r type dir)(pos := p)))\<rparr>"

definition add_num :: "nat \<Rightarrow> nat \<Rightarrow> int \<Rightarrow> router_t \<Rightarrow> router_t" where
  "add_num type dir k r =
     r\<lparr>ingress_num := (ingress_num r)(type := (ingress_num r type)(dir := ingress_num r type dir + k))\<rparr>"

text \<open>The first free slot from the head on, in ring order.\<close>

definition free_slot :: "nat \<Rightarrow> nat \<Rightarrow> nat \<Rightarrow> router_t \<Rightarrow> nat option" where
  "free_slot n type dir r =
     ring_scan (ingress_head r type dir) n (\<lambda>pos. ingress r type dir pos = None)"

definition put_packet :: "nat \<Rightarrow> nat \<Rightarrow> nat \<Rightarrow> inputbuffer \<Rightarrow> router_t \<Rightarrow> router_t" where
  "put_packet n type dir pk r =
     (case free_slot n type dir r of
        None \<Rightarrow> r
      | Some pos \<Rightarrow> set_slot type dir pos (Some (pk\<lparr>source_channel := dir, pk_index := pos\<rparr>)) r)"

text \<open>\<open>noc_request\<close> returns whether the packet was taken. \<open>None\<close>: \<open>log2\<close> panics.\<close>

definition noc_request ::
  "nat \<Rightarrow> nat \<Rightarrow> int \<Rightarrow> int \<Rightarrow> nat \<Rightarrow> nat \<Rightarrow> md_addr_t \<Rightarrow> bool
     \<Rightarrow> 'z sys_scheme \<Rightarrow> (bool \<times> 'z sys_scheme) option" where
  "noc_request c chan_type request cache_status qid dest paddr inst s =
     (let st = cpus s c; n = router_ifq_size s
      in if ingress_num (router st) chan_type HOME \<ge> int n then Some (False, s)
         else do {
           dest_cpuid \<leftarrow> (if chan_type = INVN \<or> chan_type = RESP then Some dest
                          else PADDR_OWNER (total_cpus s) paddr);
           let pk = \<lparr>source_channel = HOME, pk_index = 0, time_stamp = sim_cycle s,
                     dest_x = dest_cpuid mod mesh_width s, dest_y = dest_cpuid div mesh_width s,
                     pk_req = request, pk_cache_status = cache_status, pk_qid = qid,
                     pk_cpuid = cpuid st, pk_inst = inst, pk_paddr = paddr\<rparr>;
           let st = st\<lparr>router := put_packet n chan_type HOME pk (router st)\<rparr>;
           let st = bump (OfNoc (pack_sent chan_type)) (bump (OfNoc (input_buffer_write_access chan_type HOME)) st);
           let st = st\<lparr>router := add_num chan_type HOME 1 (router st)\<rparr>;
           if ingress_num (router st) chan_type HOME \<le> int n
           then Some (True, upd_cpu c (\<lambda>_. st) s) else None })"

section \<open>Arrival and departure\<close>

definition flit_arrive ::
  "inputbuffer \<Rightarrow> nat \<Rightarrow> nat \<Rightarrow> nat \<Rightarrow> nat \<Rightarrow> 'z sys_scheme \<Rightarrow> 'z sys_scheme option" where
  "flit_arrive pk hx hy type direction s =
     (let c = hx + hy * mesh_width s; n = router_ifq_size s
      in on_cpu c (\<lambda>st.
           let st = bump (OfNoc (input_buffer_write_access type direction)) st;
               r = add_num type direction 1 (put_packet n type direction pk (router st))
           in if ingress_num r type direction \<le> int n then Some (st\<lparr>router := r\<rparr>) else None) s)"

definition update_ingress_head :: "nat \<Rightarrow> nat \<Rightarrow> nat \<Rightarrow> router_t \<Rightarrow> router_t" where
  "update_ingress_head n type src r =
     (case ring_scan (ingress_head r type src) n (\<lambda>pos. ingress r type src pos \<noteq> None) of
        None \<Rightarrow> r
      | Some pos \<Rightarrow>
          r\<lparr>ingress_head := (ingress_head r)(type := (ingress_head r type)(src := pos))\<rparr>)"

definition packet_depart :: "nat \<Rightarrow> inputbuffer \<Rightarrow> nat \<Rightarrow> nat \<Rightarrow> router_t \<Rightarrow> router_t option" where
  "packet_depart n pk type out r =
     (let src = source_channel pk;
          r = set_slot type src (pk_index pk) None r;
          r = add_num type src (- 1) (update_ingress_head n type src r);
          r = (if out \<noteq> HOME
               then r\<lparr>egress_credit := (egress_credit r)(type := (egress_credit r type)
                        (out := egress_credit r type out - 1))\<rparr>
               else r)
      in if ingress_num r type src \<ge> 0 \<and> ingress_num r type src \<le> int n \<and> egress_credit r type out \<ge> 0
         then Some r else None)"

definition update_credit :: "nat \<Rightarrow> nat \<Rightarrow> nat \<Rightarrow> nat \<Rightarrow> 'z sys_scheme \<Rightarrow> 'z sys_scheme option" where
  "update_credit hx hy type direction s =
     (let c = hx + hy * mesh_width s
      in on_cpu c (\<lambda>st.
           if direction = HOME then
             if type = REQ \<or> type = INVN then
               let st = add_credit INVN HOME 1 (add_credit REQ HOME 1 st)
               in if credit REQ HOME st \<le> int (missq_ifq_size s) \<and> credit INVN HOME st \<le> int (missq_ifq_size s)
                  then Some st else None
             else if type = WTBK then
               let st = add_credit WTBK HOME 1 st
               in if credit WTBK HOME st \<le> int (wtbkq_ifq_size s) then Some st else None
             else Some st
           else
             let st = add_credit type direction 1 st
             in if credit type direction st \<le> int (router_ifq_size s) then Some st else None) s)"

section \<open>Delivery at the home core\<close>

definition set_data_ack :: "nat \<Rightarrow> miss_queue \<Rightarrow> miss_queue" where
  "set_data_ack i m = m\<lparr>data_ack_received := (data_ack_received m)(i := True)\<rparr>"

definition set_inst_ack :: "nat \<Rightarrow> miss_queue \<Rightarrow> miss_queue" where
  "set_inst_ack i m = m\<lparr>inst_ack_received := (inst_ack_received m)(i := True)\<rparr>"

definition set_data_sent :: "nat \<Rightarrow> bool \<Rightarrow> miss_queue \<Rightarrow> miss_queue" where
  "set_data_sent i v m = m\<lparr>data_intervention_sent := (data_intervention_sent m)(i := v)\<rparr>"

definition set_inst_sent :: "nat \<Rightarrow> bool \<Rightarrow> miss_queue \<Rightarrow> miss_queue" where
  "set_inst_sent i v m = m\<lparr>inst_intervention_sent := (inst_intervention_sent m)(i := v)\<rparr>"

definition set_ack :: "bool \<Rightarrow> nat \<Rightarrow> miss_queue \<Rightarrow> miss_queue" where
  "set_ack inst i = (if inst then set_inst_ack i else set_data_ack i)"

definition clear_sent :: "bool \<Rightarrow> nat \<Rightarrow> miss_queue \<Rightarrow> miss_queue" where
  "clear_sent inst i = (if inst then set_inst_sent i False else set_data_sent i False)"

definition mark_dirty :: "blk_ptr \<Rightarrow> godson2_cpu \<Rightarrow> godson2_cpu" where
  "mark_dirty p st = st\<lparr>cache_dl2 := upd_blk p (\<lambda>k. k\<lparr>blk_dirty := True\<rparr>) (cache_dl2 st)\<rparr>"

text \<open>A remote read enters the miss queue.\<close>

definition home_request :: "nat \<Rightarrow> inputbuffer \<Rightarrow> godson2_cpu \<Rightarrow> godson2_cpu option" where
  "home_request n pk st =
     do { i \<leftarrow> find_missq_two_empty_entry n st;
          st \<leftarrow> missq_change_state i MQ_L1_MISS st;
          let st = upd_mq i (\<lambda>m. m\<lparr>mq_req := pk_req pk, mq_ack := NO_REQ, mq_qid := pk_qid pk,
            mq_cpuid := pk_cpuid pk, mq_paddr := pk_paddr pk, mq_inst := pk_inst pk, memcnt := 0,
            cachecnt := 0, wait_for_reissue := False, wait_for_response := 0,
            memread_sent := False, lsconten := False\<rparr>) st;
          Some (bump (OfQueue missq_access) (st\<lparr>missq_num := missq_num st + 1\<rparr>)) }"

text \<open>A remote write-back enters the write-back queue; the slot is reserved first.\<close>

definition reserve_wtbkq :: "nat \<Rightarrow> godson2_cpu \<Rightarrow> godson2_cpu option" where
  "reserve_wtbkq n st =
     (let st = add_credit WTBK HOME (- 1) (st\<lparr>wtbkq_num := wtbkq_num st + 1\<rparr>)
      in if wtbkq_num st \<le> int n \<and> credit WTBK HOME st \<ge> 0 then Some st else None)"

definition home_writeback :: "nat \<Rightarrow> inputbuffer \<Rightarrow> godson2_cpu \<Rightarrow> godson2_cpu option" where
  "home_writeback n pk st =
     do { st \<leftarrow> reserve_wtbkq n st;
          wtbkq_enter n (pk_cpuid pk) (pk_req pk) (pk_paddr pk) (pk_inst pk)
            (if pk_req pk = WRITEBACK then 1 else 0) False st }"

text \<open>An intervention or invalidation enters the miss queue; no entry is an access outside the array.\<close>

definition home_intervention :: "nat \<Rightarrow> inputbuffer \<Rightarrow> godson2_cpu \<Rightarrow> godson2_cpu option" where
  "home_intervention n pk st =
     do { i \<leftarrow> find_missq_empty_entry n st;
          st \<leftarrow> missq_change_state i MQ_MODIFY_L1 st;
          let st = upd_mq i (\<lambda>m. m\<lparr>modify_l1 := True, mq_req := pk_req pk, mq_ack := NO_REQ,
            mq_qid := pk_qid pk, mq_cpuid := pk_cpuid pk, mq_paddr := pk_paddr pk,
            mq_inst := pk_inst pk, wtbkq_checked := False, conflict_checked := False,
            wait_for_reissue := False, wait_for_response := 0, memread_sent := False\<rparr>) st;
          Some (bump (OfQueue missq_access) (st\<lparr>missq_num := missq_num st + 1\<rparr>)) }"

text \<open>An acknowledgement for an entry that is modifying other L1 caches. \<open>b\<close> is the state of the L2
  block it is about; a NULL block pointer is only followed where the code follows it.\<close>

definition ack_modify :: "bool \<Rightarrow> int \<Rightarrow> nat \<Rightarrow> nat \<Rightarrow> godson2_cpu \<Rightarrow> godson2_cpu option" where
  "ack_modify inst L1_status qid from st =
     (let m = missq st qid;
          l2 = map_option (\<lambda>p. (p, blk_status (get_blk (cache_dl2 st) p))) (L2_changed_blk m)
      in if intervention_type m = INTERVENTION_SHD then
           if L1_status = EXCLUSIVE \<or> L1_status = MODIFIED then
             (let st = upd_mq qid (set_data_ack from) st
              in if L1_status = MODIFIED
                 then map_option (\<lambda>(p, b). mark_dirty p st) l2 else Some st)
           else do { (p, b) \<leftarrow> l2;
                     assertion (b \<noteq> INVALID \<and> b \<noteq> SHARED);
                     Some (upd_mq qid (set_data_sent from False) st) }
         else if intervention_type m = INTERVENTION_EXC then
           do { (p, b) \<leftarrow> l2;
                if b = L1_status \<or> (b = EXCLUSIVE \<and> L1_status = MODIFIED)
                then let st = upd_mq qid (set_ack inst from) st
                     in Some (if L1_status = MODIFIED then mark_dirty p st else st)
                else do { assertion (b \<noteq> INVALID \<and>
                            \<not> (b = SHARED \<and> (L1_status = EXCLUSIVE \<or> L1_status = MODIFIED)));
                          Some (upd_mq qid (clear_sent inst from) st) } }
         else if intervention_type m = INVALIDATE then
           do { (p, b) \<leftarrow> l2;
                if b = L1_status then Some (upd_mq qid (set_ack inst from) st)
                else do { assertion (b \<noteq> INVALID \<and> b \<noteq> EXCLUSIVE \<and>
                            \<not> (b = SHARED \<and> (L1_status = EXCLUSIVE \<or> L1_status = MODIFIED)));
                          Some (upd_mq qid (clear_sent inst from) st) } }
         else Some st)"

text \<open>An acknowledgement for an entry that is emptying the L1 copies of an L2 victim.\<close>

definition ack_replace :: "bool \<Rightarrow> int \<Rightarrow> nat \<Rightarrow> nat \<Rightarrow> godson2_cpu \<Rightarrow> godson2_cpu option" where
  "ack_replace inst L1_status qid from st =
     do { p \<leftarrow> L2_replace_blk (missq st qid);
          let b = blk_status (get_blk (cache_dl2 st) p);
          assertion (b \<noteq> INVALID \<and> \<not> (b = SHARED \<and> (L1_status = EXCLUSIVE \<or> L1_status = MODIFIED)));
          let st = (if b = L1_status \<or>
                       (b = EXCLUSIVE \<and> (L1_status = EXCLUSIVE \<or> L1_status = MODIFIED))
                    then upd_mq qid (set_ack inst from) st
                    else upd_mq qid (clear_sent inst from) st);
          Some (if L1_status = MODIFIED then mark_dirty p st else st) }"

definition home_ack :: "inputbuffer \<Rightarrow> godson2_cpu \<Rightarrow> godson2_cpu option" where
  "home_ack pk st =
     (let qid = pk_qid pk; m = missq st qid; paddr = pk_paddr pk
      in if mq_state m = MQ_MODIFY_L1 \<and> BLOCK_MATCH (mq_paddr m) paddr then
           ack_modify (pk_inst pk) (pk_cache_status pk) qid (pk_cpuid pk) st
         else if mq_state m = MQ_READ_L2 \<and> BLOCK_MATCH (mq_paddr m) paddr then
           missq_change_state qid MQ_REPLACE_L1
             (upd_mq qid (\<lambda>m. m\<lparr>memcnt := 4, mq_cache_status := pk_cache_status pk\<rparr>) st)
         else if mq_state m = MQ_L2_MISS \<and> BLOCK_MATCH (L2_replace_paddr m) paddr then
           ack_replace (pk_inst pk) (pk_cache_status pk) qid (pk_cpuid pk) st
         else Some st)"

definition home_enter :: "inputbuffer \<Rightarrow> nat \<Rightarrow> nat \<Rightarrow> 'z sys_scheme \<Rightarrow> 'z sys_scheme option" where
  "home_enter pk hx hy s =
     (if dest_x pk = hx \<and> dest_y pk = hy then
        (let c = hx + hy * mesh_width s; req = pk_req pk
         in if req = READ_SHD \<or> req = READ_EX \<or> req = UPGRADE then
              on_cpu c (home_request (missq_ifq_size s) pk) s
            else if req = WRITEBACK \<or> req = ELIMINATE then
              on_cpu c (home_writeback (wtbkq_ifq_size s) pk) s
            else if req = INTERVENTION_SHD \<or> req = INTERVENTION_EXC \<or> req = INVALIDATE then
              on_cpu c (home_intervention (missq_ifq_size s) pk) s
            else if req = ACK \<or> req = ACK_DATA then
              on_cpu c (home_ack pk) s
            else Some s)
      else None)"

section \<open>Traversal\<close>

text \<open>\<open>SEND_CREDIT_*\<close>: the credit for the freed slot goes back to the neighbour the packet came from,
  after the wire delay; the directions the code has a case for are \<open>dirs\<close>.\<close>

definition send_credit ::
  "nat \<Rightarrow> nat \<Rightarrow> nat list \<Rightarrow> nat \<Rightarrow> 'z sys_scheme \<Rightarrow> 'z sys_scheme option" where
  "send_credit c src dirs type s =
     (let r = router (cpus s c); x = home_x r; y = home_y r;
          credit_to = (\<lambda>x y dir. map_option snd (eventq_queue_callback4 (sim_cycle s + wire_delay)
            Fn_update_credit (int x) (int y) (int type) (int dir) s))
      in if src \<notin> set dirs then Some s
         else if src = UP then (if 1 \<le> y then credit_to x (y - 1) DOWN else None)
         else if src = DOWN then (if y + 1 < mesh_height s then credit_to x (y + 1) UP else None)
         else if src = LEFT then (if 1 \<le> x then credit_to (x - 1) y RIGHT else None)
         else if src = RIGHT then (if x + 1 < mesh_width s then credit_to (x + 1) y LEFT else None)
         else Some s)"

definition depart_cpu :: "nat \<Rightarrow> inputbuffer \<Rightarrow> nat \<Rightarrow> nat \<Rightarrow> 'z sys_scheme \<Rightarrow> 'z sys_scheme option" where
  "depart_cpu c pk type out s =
     on_cpu c (\<lambda>st. map_option (\<lambda>r. st\<lparr>router := r\<rparr>)
       (packet_depart (router_ifq_size s) pk type out (router st))) s"

definition traverse_stats :: "nat \<Rightarrow> inputbuffer \<Rightarrow> nat \<Rightarrow> 'z sys_scheme \<Rightarrow> 'z sys_scheme" where
  "traverse_stats c pk type s =
     upd_cpu c (bump (OfNoc (input_buffer_read_access type (source_channel pk))) \<circ> bump (OfNoc (crossbar_access type))) s"

definition add_latency :: "inputbuffer \<Rightarrow> nat \<Rightarrow> 'z sys_scheme \<Rightarrow> 'z sys_scheme" where
  "add_latency pk type s =
     upd_cpu (pk_cpuid pk) (\<lambda>st. st\<lparr>counters := (counters st)
       (OfNoc (pack_latency type) := counters st (OfNoc (pack_latency type)) + (sim_cycle s - time_stamp pk))\<rparr>) s"

definition traverse_home :: "nat \<Rightarrow> nat \<Rightarrow> 'z sys_scheme \<Rightarrow> 'z sys_scheme option" where
  "traverse_home c type s =
     (let r = router (cpus s c)
      in case egress_grant r type HOME of
           None \<Rightarrow> Some s
         | Some pk \<Rightarrow>
             do { s \<leftarrow> home_enter pk (home_x r) (home_y r) s;
                  s \<leftarrow> depart_cpu c pk type HOME s;
                  let s = traverse_stats c pk type (add_latency pk type s);
                  send_credit c (source_channel pk) [UP, DOWN, LEFT, RIGHT] type s })"

text \<open>One neighbour: \<open>ok\<close> is the guard on the position, \<open>x\<close> and \<open>y\<close> the neighbour, \<open>arrive_dir\<close> the input
  of the neighbour the packet arrives at, and \<open>dirs\<close> the inputs that have a case in the switch that
  sends the credit back.\<close>

definition traverse_dir ::
  "nat \<Rightarrow> nat \<Rightarrow> nat \<Rightarrow> bool \<Rightarrow> nat \<Rightarrow> nat \<Rightarrow> nat \<Rightarrow> nat list \<Rightarrow> 'z sys_scheme \<Rightarrow> 'z sys_scheme option" where
  "traverse_dir c type out ok x y arrive_dir dirs s =
     (case egress_grant (router (cpus s c)) type out of
        None \<Rightarrow> Some s
      | Some pk \<Rightarrow>
          if ok then
            do { s \<leftarrow> map_option snd (eventq_queue_callbackpointer4 (sim_cycle s + wire_delay)
                   Fn_flit_arrive pk (int x) (int y) (int type) (int arrive_dir) s);
                 s \<leftarrow> depart_cpu c pk type out s;
                 send_credit c (source_channel pk) dirs type (traverse_stats c pk type s) }
          else Some s)"

text \<open>The four blocks of \<open>flit_traverse\<close> for the neighbours, as a table.\<close>

definition hop :: "nat \<Rightarrow> nat \<Rightarrow> nat \<Rightarrow> nat \<Rightarrow> nat \<Rightarrow> bool \<times> nat \<times> nat \<times> nat \<times> nat list" where
  "hop width height x y out =
     (if out = UP then (0 < y, x, y - 1, DOWN, [DOWN, LEFT, RIGHT])
      else if out = DOWN then (y < height, x, y + 1, UP, [UP, LEFT, RIGHT])
      else if out = LEFT then (0 < x, x - 1, y, RIGHT, [UP, DOWN, RIGHT])
      else (x < width, x + 1, y, LEFT, [UP, DOWN, LEFT]))"

definition traverse_type :: "nat \<Rightarrow> nat \<Rightarrow> 'z sys_scheme \<Rightarrow> 'z sys_scheme option" where
  "traverse_type c type s =
     (let x = home_x (router (cpus s c)); y = home_y (router (cpus s c))
      in do { s \<leftarrow> traverse_home c type s;
              fold_opt (\<lambda>out s. case hop (mesh_width s) (mesh_height s) x y out of
                  (ok, x', y', arrive_dir, dirs) \<Rightarrow> traverse_dir c type out ok x' y' arrive_dir dirs s)
                [UP, DOWN, LEFT, RIGHT] s })"

definition flit_traverse :: "nat \<Rightarrow> 'z sys_scheme \<Rightarrow> 'z sys_scheme option" where
  "flit_traverse c s = fold_opt (traverse_type c) [0..<NUM_TYPES] s"

section \<open>Round-robin arbitration\<close>

text \<open>X-Y routing: which output the packet asks for at this router.\<close>

definition wants :: "router_t \<Rightarrow> nat \<Rightarrow> inputbuffer \<Rightarrow> bool" where
  "wants r out pk =
     (if out = HOME then dest_x pk = home_x r \<and> dest_y pk = home_y r
      else if out = UP then dest_x pk = home_x r \<and> dest_y pk < home_y r
      else if out = DOWN then dest_x pk = home_x r \<and> dest_y pk > home_y r
      else if out = LEFT then dest_x pk < home_x r
      else dest_x pk > home_x r)"

definition head_packet :: "router_t \<Rightarrow> nat \<Rightarrow> nat \<Rightarrow> inputbuffer option" where
  "head_packet r type i = ingress r type i (ingress_head r type i)"

definition requests :: "router_t \<Rightarrow> nat \<Rightarrow> nat \<Rightarrow> nat \<Rightarrow> bool" where
  "requests r type out i =
     (ingress_num r type i > 0 \<and> (case head_packet r type i of None \<Rightarrow> False | Some pk \<Rightarrow> wants r out pk))"

text \<open>The condition at HOME is \<open>credit > (type==REQ)?1:0 || type == RESP\<close>, which C reads as
  \<open>(credit > (type==REQ)) ? 1 : (0 || type == RESP)\<close>.\<close>

definition output_free :: "router_t \<Rightarrow> nat \<Rightarrow> nat \<Rightarrow> bool" where
  "output_free r type out =
     (if out = HOME
      then (if egress_credit r type HOME > (if type = REQ then 1 else 0) then True else type = RESP)
      else egress_credit r type out > 0)"

text \<open>The scan \<open>for (i=1; i<=5; i++) j = (last + i) % 5\<close>.\<close>

definition rr_pick :: "nat \<Rightarrow> (nat \<Rightarrow> bool) \<Rightarrow> nat option" where
  "rr_pick prev req = find req (map (\<lambda>i. (prev + i) mod NUM_DIRECTIONS) [1..<NUM_DIRECTIONS + 1])"

definition grant :: "nat \<Rightarrow> nat \<Rightarrow> nat \<Rightarrow> router_t \<Rightarrow> router_t" where
  "grant type out j r =
     r\<lparr>egress_grant := (egress_grant r)(type := (egress_grant r type)(out := head_packet r type j)),
       egress_last_grant := (egress_last_grant r)(type := (egress_last_grant r type)(out := j))\<rparr>"

text \<open>An input that counts packets but has none at its head would be a NULL dereference.\<close>

definition arbitrate_out :: "nat \<Rightarrow> nat \<Rightarrow> router_t \<Rightarrow> router_t option" where
  "arbitrate_out type out r =
     (if output_free r type out then
        if \<exists>i\<in>{0..<NUM_DIRECTIONS}. ingress_num r type i > 0 \<and> head_packet r type i = None then None
        else (case rr_pick (egress_last_grant r type out) (requests r type out) of
                None \<Rightarrow> Some r
              | Some j \<Rightarrow> Some (grant type out j r))
      else Some r)"

definition clear_grants :: "router_t \<Rightarrow> router_t" where
  "clear_grants r = r\<lparr>egress_grant := (\<lambda>type i.
     if type < NUM_TYPES \<and> i < NUM_DIRECTIONS then None else egress_grant r type i)\<rparr>"

definition arbitrate_router :: "router_t \<Rightarrow> router_t option" where
  "arbitrate_router r =
     fold_opt (\<lambda>type. fold_opt (arbitrate_out type) [0..<NUM_DIRECTIONS]) [0..<NUM_TYPES] (clear_grants r)"

definition arbitrate :: "nat \<Rightarrow> 'z sys_scheme \<Rightarrow> 'z sys_scheme option" where
  "arbitrate c s = on_cpu c (\<lambda>st. map_option (\<lambda>r. st\<lparr>router := r\<rparr>) (arbitrate_router (router st))) s"

definition crossbar_switch :: "nat \<Rightarrow> 'z sys_scheme \<Rightarrow> 'z sys_scheme option" where
  "crossbar_switch c s = Some s"

definition noc_stage :: "nat \<Rightarrow> 'z sys_scheme \<Rightarrow> 'z sys_scheme option" where
  "noc_stage c s = do { s \<leftarrow> flit_traverse c s; s \<leftarrow> crossbar_switch c s; arbitrate c s }"

end
