(* ===== verification/InputBuffer.thy ===== *)
theory InputBuffer
  imports Router
begin

text \<open>
  The input buffers of the router are circular arrays of packet slots with a head and a count. This
  theory states what such a buffer promises as an interface (a bounded first-in first-out queue),
  proves that the slots, \<open>put_packet\<close> and \<open>packet_depart\<close> implement it, and derives that packets of
  one channel leave in the order they entered.
\<close>

section \<open>A bounded queue\<close>

datatype 'p buffer_op = Enq 'p | Deq

locale bounded_fifo =
  fixes enq :: "'p \<Rightarrow> 's \<Rightarrow> 's"
    and deq :: "'s \<Rightarrow> 's"
    and contents :: "'s \<Rightarrow> 'q list \<Rightarrow> bool"
    and view :: "'p \<Rightarrow> 'q"
    and capacity :: nat
  assumes enq: "contents s q \<Longrightarrow> length q < capacity \<Longrightarrow> contents (enq p s) (q @ [view p])"
    and deq: "contents s (x # q) \<Longrightarrow> contents (deq s) q"
begin

text \<open>A run that respects the bounds, with the packets that leave.\<close>

fun run_ops :: "'p buffer_op list \<Rightarrow> 's \<times> 'q list \<Rightarrow> ('s \<times> 'q list \<times> 'q list) option" where
  "run_ops [] (s, q) = Some (s, q, [])"
| "run_ops (Enq p # ops) (s, q) =
     (if length q < capacity then run_ops ops (enq p s, q @ [view p]) else None)"
| "run_ops (Deq # ops) (s, []) = None"
| "run_ops (Deq # ops) (s, x # q) = map_option (\<lambda>(s, q, out). (s, q, x # out)) (run_ops ops (deq s, q))"

fun entered :: "'p buffer_op list \<Rightarrow> 'q list" where
  "entered [] = []"
| "entered (Enq p # ops) = view p # entered ops"
| "entered (Deq # ops) = entered ops"

lemma in_order:
  "contents s q \<Longrightarrow> run_ops ops (s, q) = Some (s', q', out) \<Longrightarrow>
   contents s' q' \<and> out @ q' = q @ entered ops"
proof (induction ops arbitrary: s q out)
  case (Cons op ops)
  show ?case
  proof (cases op)
    case (Enq p)
    with Cons.prems have run: "length q < capacity" "run_ops ops (enq p s, q @ [view p]) = Some (s', q', out)"
      by (auto split: if_splits)
    from Cons.IH [OF enq [OF Cons.prems(1) run(1)] run(2)] Enq show ?thesis by simp
  next
    case Deq
    with Cons.prems obtain x r o' where q: "q = x # r" "run_ops ops (deq s, r) = Some (s', q', o')" "out = x # o'"
      by (cases q) auto
    from Cons.IH [OF deq [OF Cons.prems(1) [unfolded q(1)]] q(2)] q Deq show ?thesis by simp
  qed
qed simp

end

section \<open>The slots of a buffer as a queue\<close>

definition fifo_rep :: "nat \<Rightarrow> nat \<Rightarrow> nat \<Rightarrow> router_t \<Rightarrow> inputbuffer list \<Rightarrow> bool" where
  "fifo_rep n type dir r q \<longleftrightarrow>
     ingress_head r type dir < n \<and> ingress_num r type dir = int (length q) \<and> length q \<le> n \<and>
     (\<forall>k<n. ingress r type dir ((ingress_head r type dir + k) mod n) =
        (if k < length q then Some (q ! k) else None)) \<and>
     (\<forall>k<length q. source_channel (q ! k) = dir \<and>
        pk_index (q ! k) = (ingress_head r type dir + k) mod n)"

lemma fifo_rep_slot:
  "fifo_rep n type dir r q \<Longrightarrow> k < n \<Longrightarrow>
   ingress r type dir ((ingress_head r type dir + k) mod n) = (if k < length q then Some (q ! k) else None)"
  unfolding fifo_rep_def by blast

lemma fifo_rep_head:
  assumes "fifo_rep n type dir r (p # q)"
  shows "head_packet r type dir = Some p" and "source_channel p = dir"
    and "pk_index p = ingress_head r type dir"
proof -
  have h: "ingress_head r type dir < n" using assms by (simp add: fifo_rep_def)
  then show "head_packet r type dir = Some p"
    using fifo_rep_slot [OF assms, of 0] by (simp add: head_packet_def)
  have "0 < length (p # q)" by simp
  then have "source_channel ((p # q) ! 0) = dir \<and>
      pk_index ((p # q) ! 0) = (ingress_head r type dir + 0) mod n"
    using assms unfolding fifo_rep_def by blast
  with h show "source_channel p = dir" "pk_index p = ingress_head r type dir" by simp_all
qed

lemma ring_position:
  assumes "h < n" and "i < (n::nat)"
  obtains k where "k < n" "i = (h + k) mod n"
proof -
  have "i \<in> set (ring_order h n)" using assms by (simp add: set_ring_order)
  then show thesis using that by (auto simp: ring_order_def)
qed

lemma set_slot_frame [simp]:
  "ingress_head (set_slot t d p v r) = ingress_head r" "ingress_num (set_slot t d p v r) = ingress_num r"
  "egress_credit (set_slot t d p v r) = egress_credit r" "home_x (set_slot t d p v r) = home_x r"
  "home_y (set_slot t d p v r) = home_y r"
  "ingress (set_slot t d p v r) t d = (ingress r t d)(p := v)"
  by (simp_all add: set_slot_def)

lemma add_num_frame [simp]:
  "ingress_head (add_num t d k r) = ingress_head r" "ingress (add_num t d k r) = ingress r"
  "egress_credit (add_num t d k r) = egress_credit r" "home_x (add_num t d k r) = home_x r"
  "home_y (add_num t d k r) = home_y r"
  "ingress_num (add_num t d k r) t d = ingress_num r t d + k"
  by (simp_all add: add_num_def)

text \<open>Entering: the free slot is the one after the last packet.\<close>

lemma free_slot_rep:
  assumes "fifo_rep n type dir r q" and "length q < n"
  shows "free_slot n type dir r = Some ((ingress_head r type dir + length q) mod n)"
  unfolding free_slot_def
  by (rule ring_scan_first) (use assms in \<open>auto simp: fifo_rep_def\<close>)

definition in_slot :: "nat \<Rightarrow> nat \<Rightarrow> nat \<Rightarrow> router_t \<Rightarrow> inputbuffer list \<Rightarrow> inputbuffer \<Rightarrow> inputbuffer" where
  "in_slot n type dir r q pk =
     pk\<lparr>source_channel := dir, pk_index := (ingress_head r type dir + length q) mod n\<rparr>"

lemma put_packet_rep:
  assumes rep: "fifo_rep n type dir r q" and len: "length q < n"
  shows "fifo_rep n type dir (add_num type dir 1 (put_packet n type dir pk r))
    (q @ [in_slot n type dir r q pk])"
proof -
  let ?h = "ingress_head r type dir" and ?p = "in_slot n type dir r q pk"
  have put: "put_packet n type dir pk r = set_slot type dir ((?h + length q) mod n) (Some ?p) r"
    by (simp add: put_packet_def free_slot_rep [OF rep len] in_slot_def)
  have slot: "((ingress r type dir)((?h + length q) mod n := Some ?p)) ((?h + k) mod n) =
      (if k < length (q @ [?p]) then Some ((q @ [?p]) ! k) else None)" if "k < n" for k
  proof (cases "k = length q")
    case False
    then have "(?h + k) mod n \<noteq> (?h + length q) mod n" using ring_inject that len by blast
    then show ?thesis using fifo_rep_slot [OF rep that] False by (simp add: nth_append)
  qed simp
  show ?thesis
    unfolding fifo_rep_def put
    using rep len slot by (auto simp: fifo_rep_def nth_append in_slot_def less_Suc_eq)
qed

text \<open>Leaving: the head packet goes and the head moves to the next packet, if there is one.\<close>

definition leave :: "nat \<Rightarrow> nat \<Rightarrow> nat \<Rightarrow> router_t \<Rightarrow> router_t" where
  "leave n type dir r =
     add_num type dir (- 1)
       (update_ingress_head n type dir (set_slot type dir (ingress_head r type dir) None r))"

lemma leave_rep:
  assumes rep: "fifo_rep n type dir r (p # q)"
  shows "fifo_rep n type dir (leave n type dir r) q"
proof -
  let ?h = "ingress_head r type dir" and ?in = "(ingress r type dir)(ingress_head r type dir := None)"
  have h: "?h < n" and len: "length q < n" using rep by (auto simp: fifo_rep_def)
  have slot: "?in ((?h + k) mod n) = (if 0 < k \<and> k \<le> length q then Some (q ! (k - 1)) else None)"
    if "k < n" for k
  proof (cases k)
    case 0
    then show ?thesis using h by simp
  next
    case (Suc j)
    then have "(?h + k) mod n \<noteq> (?h + 0) mod n" using ring_inject [of ?h k n 0] that by auto
    then show ?thesis using fifo_rep_slot [OF rep that] h Suc by auto
  qed
  show ?thesis
  proof (cases q)
    case Nil
    have "ring_scan ?h n (\<lambda>pos. ?in pos \<noteq> None) = None"
      unfolding ring_scan_None
    proof (intro allI impI)
      fix i assume "i < n"
      then obtain k where "k < n" "i = (?h + k) mod n" using ring_position [OF h] by blast
      then show "\<not> ?in i \<noteq> None" using slot [of k] Nil by (cases k) auto
    qed
    then have "leave n type dir r = add_num type dir (- 1) (set_slot type dir ?h None r)"
      by (simp add: leave_def update_ingress_head_def)
    then show ?thesis using rep slot Nil h by (auto simp: fifo_rep_def)
  next
    case (Cons p2 q2)
    then have n: "1 < n" using len by simp
    have "ring_scan ?h n (\<lambda>pos. ?in pos \<noteq> None) = Some ((?h + 1) mod n)"
      by (rule ring_scan_first) (use n slot [of 1] slot [of 0] Cons h in auto)
    then have leave: "leave n type dir r = add_num type dir (- 1)
        ((set_slot type dir ?h None r)\<lparr>ingress_head :=
          (ingress_head r)(type := (ingress_head r type)(dir := (?h + 1) mod n))\<rparr>)"
      by (simp add: leave_def update_ingress_head_def)
    have shift: "((?h + 1) mod n + k) mod n = (?h + Suc k) mod n" for k
      by (simp add: mod_simps)
    have "?in (((?h + 1) mod n + k) mod n) = (if k < length q then Some (q ! k) else None)"
      if "k < n" for k
    proof (cases "Suc k < n")
      case True
      then show ?thesis using slot [OF True] unfolding shift by (simp only: Suc_le_eq zero_less_Suc simp_thms diff_Suc_1)
    next
      case False
      then have "Suc k = n" using that by simp
      then have "?in ((?h + Suc k) mod n) = None" using h by simp
      then show ?thesis using False len that unfolding shift by simp
    qed
    moreover have "source_channel (q ! k) = dir \<and> pk_index (q ! k) = ((?h + 1) mod n + k) mod n"
      if "k < length q" for k
    proof -
      have "Suc k < length (p # q)" using that by simp
      then have "source_channel ((p # q) ! Suc k) = dir \<and>
          pk_index ((p # q) ! Suc k) = (?h + Suc k) mod n"
        using rep unfolding fifo_rep_def by blast
      then show ?thesis unfolding shift by simp
    qed
    ultimately show ?thesis
      using rep n len by (auto simp: fifo_rep_def leave)
  qed
qed

text \<open>\<open>packet_depart\<close> of the head packet is \<open>leave\<close> and, for a neighbour, the loss of one credit.\<close>

lemma update_ingress_head_frame [simp]:
  "egress_credit (update_ingress_head n t d r) = egress_credit r"
  "ingress (update_ingress_head n t d r) = ingress r"
  "ingress_num (update_ingress_head n t d r) = ingress_num r"
  "home_x (update_ingress_head n t d r) = home_x r" "home_y (update_ingress_head n t d r) = home_y r"
  by (simp_all add: update_ingress_head_def split: option.splits)

lemma packet_depart_head:
  assumes rep: "fifo_rep n type dir r (p # q)"
    and credit: "egress_credit r type out \<ge> (if out = HOME then 0 else 1)"
  shows "\<exists>r'. packet_depart n p type out r = Some r' \<and> fifo_rep n type dir r' q \<and>
    egress_credit r' type out = egress_credit r type out - (if out = HOME then 0 else 1)"
proof -
  note head = fifo_rep_head [OF rep]
  let ?c = "\<lambda>r. r\<lparr>egress_credit := (egress_credit r)(type := (egress_credit r type)
      (out := egress_credit r type out - 1))\<rparr>"
  define r1 where "r1 = leave n type dir r"
  define r2 where "r2 = (if out \<noteq> HOME then ?c r1 else r1)"
  have rep1: "fifo_rep n type dir r1 q" unfolding r1_def by (rule leave_rep [OF rep])
  then have rep2: "fifo_rep n type dir r2 q" by (simp add: r2_def fifo_rep_def)
  have cr: "egress_credit r1 = egress_credit r" by (simp add: r1_def leave_def)
  have "packet_depart n p type out r =
      (if ingress_num r2 type dir \<ge> 0 \<and> ingress_num r2 type dir \<le> int n \<and> egress_credit r2 type out \<ge> 0
       then Some r2 else None)"
    unfolding packet_depart_def Let_def head(2,3) r2_def r1_def leave_def by simp
  moreover have "ingress_num r2 type dir \<ge> 0" "ingress_num r2 type dir \<le> int n"
    using rep2 by (auto simp: fifo_rep_def)
  moreover have "egress_credit r2 type out = egress_credit r type out - (if out = HOME then 0 else 1)"
    by (simp add: r2_def cr)
  ultimately show ?thesis using rep2 credit by auto
qed

section \<open>The buffer keeps the promise\<close>

text \<open>What a packet carries, without the two fields the buffer writes.\<close>

definition payload :: "inputbuffer \<Rightarrow> inputbuffer" where
  "payload pk = pk\<lparr>source_channel := 0, pk_index := 0\<rparr>"

definition enq_packet :: "nat \<Rightarrow> nat \<Rightarrow> nat \<Rightarrow> inputbuffer \<Rightarrow> router_t \<Rightarrow> router_t" where
  "enq_packet n type dir pk r = add_num type dir 1 (put_packet n type dir pk r)"

definition buffer_holds :: "nat \<Rightarrow> nat \<Rightarrow> nat \<Rightarrow> router_t \<Rightarrow> inputbuffer list \<Rightarrow> bool" where
  "buffer_holds n type dir r l \<longleftrightarrow> (\<exists>q. fifo_rep n type dir r q \<and> map payload q = l)"

interpretation slots: bounded_fifo "enq_packet n type dir" "leave n type dir" "buffer_holds n type dir"
  payload n
proof
  fix r l pk
  assume "buffer_holds n type dir r l" "length l < n"
  then show "buffer_holds n type dir (enq_packet n type dir pk r) (l @ [payload pk])"
    using put_packet_rep [of n type dir r _ pk]
    by (fastforce simp: buffer_holds_def enq_packet_def in_slot_def payload_def)
next
  fix r l x
  assume "buffer_holds n type dir r (x # l)"
  then show "buffer_holds n type dir (leave n type dir r) l"
    using leave_rep by (fastforce simp: buffer_holds_def)
qed

section \<open>Properties\<close>

text \<open>\<open>noc_request\<close> on a local input buffer that holds the queue \<open>q\<close> refuses exactly when the
  buffer is full; otherwise it appends one packet, addressed through \<open>PADDR_OWNER\<close> or to the given core,
  behind the packets already there, and leaves every other buffer alone.\<close>

theorem noc_request_enqueues:
  assumes "fifo_rep (router_ifq_size s) type HOME (router (cpus s c)) q"
    and "noc_request c type req cst qid dest paddr inst s = Some (taken, s')"
  shows "taken = (length q < router_ifq_size s) \<and>
    (if taken
     then \<exists>pk d. fifo_rep (router_ifq_size s) type HOME (router (cpus s' c)) (q @ [pk]) \<and>
       pk_req pk = req \<and> pk_qid pk = qid \<and> pk_paddr pk = paddr \<and> pk_cpuid pk = cpuid (cpus s c) \<and>
       dest_x pk = d mod mesh_width s \<and> dest_y pk = d div mesh_width s \<and>
       (if type = INVN \<or> type = RESP then d = dest else PADDR_OWNER (total_cpus s) paddr = Some d)
     else s' = s)"
proof (cases "length q < router_ifq_size s")
  case False
  then show ?thesis using assms by (auto simp: noc_request_def Let_def fifo_rep_def)
next
  case True
  have num: "ingress_num (router (cpus s c)) type HOME = int (length q)"
    using assms(1) by (simp add: fifo_rep_def)
  obtain d where d: "(if type = INVN \<or> type = RESP then Some dest else PADDR_OWNER (total_cpus s) paddr) = Some d"
    using assms(2) True num by (auto simp: noc_request_def Let_def bind_eq_Some_conv)
  define pk where "pk = \<lparr>source_channel = HOME, pk_index = 0, time_stamp = sim_cycle s,
     dest_x = d mod mesh_width s, dest_y = d div mesh_width s, pk_req = req, pk_cache_status = cst,
     pk_qid = qid, pk_cpuid = cpuid (cpus s c), pk_inst = inst, pk_paddr = paddr\<rparr>"
  have "taken \<and> router (cpus s' c) =
      add_num type HOME 1 (put_packet (router_ifq_size s) type HOME pk (router (cpus s c)))"
    using assms(2) True num d by (auto simp: noc_request_def Let_def pk_def split: if_splits)
  then have taken: "taken" and r: "fifo_rep (router_ifq_size s) type HOME (router (cpus s' c))
      (q @ [in_slot (router_ifq_size s) type HOME (router (cpus s c)) q pk])"
    using put_packet_rep [OF assms(1) True] by auto
  show ?thesis
    using True taken r d
    by (auto simp: in_slot_def pk_def intro!: exI [of _ d] split: if_splits
        intro: exI [of _ "in_slot (router_ifq_size s) type HOME (router (cpus s c)) q pk"])
qed

text \<open>C9. In any run of arrivals into one input buffer and departures of its head packet that never
  overflows or underflows, the packets that have left followed by those still held are exactly the
  initial ones followed by those that arrived, in order.\<close>

theorem input_buffer_in_order:
  assumes "fifo_rep n type dir r []"
    and "slots.run_ops n type dir ops (r, []) = Some (r', held, gone)"
  shows "gone @ held = slots.entered ops \<and> buffer_holds n type dir r' held"
  using slots.in_order [of n type dir r "[]" ops r' held gone] assms
  by (auto simp: buffer_holds_def)

text \<open>The two properties at work: on a fresh two-core machine, core 0 asks core 1 for a block, and a
  buffer takes two packets and gives the first one back.\<close>

definition net_packet :: "md_addr_t \<Rightarrow> inputbuffer" where
  "net_packet paddr = \<lparr>source_channel = HOME, pk_index = 0, time_stamp = 0, dest_x = 1, dest_y = 0,
     pk_req = READ_SHD, pk_cache_status = 0, pk_qid = 0, pk_cpuid = 0, pk_inst = False, pk_paddr = paddr\<rparr>"

lemma payload_net_packet: "payload (net_packet a) = net_packet a"
  by (simp add: payload_def net_packet_def)

lemma noc_init_empty:
  assumes "c < total_cpus s" and "0 < router_ifq_size s"
  shows "fifo_rep (router_ifq_size (noc_init s)) type dir (router (cpus (noc_init s) c)) []"
  using assms by (simp add: fifo_rep_def noc_init_def init_router_def)

theorem input_buffer_in_order_witness:
  "\<exists>r' held gone. slots.run_ops 8 REQ HOME [Enq (net_packet 32), Enq (net_packet 64), Deq]
       (router (cpus (noc_init (blank_sys 0)) 0), []) = Some (r', held, gone) \<and>
     gone @ held = map payload [net_packet 32, net_packet 64]"
proof -
  let ?r = "router (cpus (noc_init (blank_sys 0)) 0)"
    and ?ops = "[Enq (net_packet 32), Enq (net_packet 64), Deq]"
  have e: "fifo_rep 8 REQ HOME ?r []"
    using noc_init_empty [of 0 "blank_sys 0" REQ HOME] by (simp add: noc_init_def blank_sys_simps)
  obtain r' held gone where run: "slots.run_ops 8 REQ HOME ?ops (?r, []) = Some (r', held, gone)"
    by (simp add: slots.run_ops.simps)
  from input_buffer_in_order [OF e run] run show ?thesis by (auto simp: slots.entered.simps)
qed

theorem noc_request_enqueues_witness:
  "case noc_request 0 INVN INVALIDATE INVALID 3 1 32 False (noc_init (blank_sys 0)) of
     None \<Rightarrow> False
   | Some (taken, s') \<Rightarrow> taken \<and>
       (\<exists>pk. fifo_rep 8 INVN HOME (router (cpus s' 0)) [pk] \<and> pk_qid pk = 3 \<and> dest_x pk = 1 \<and> dest_y pk = 0)"
proof -
  let ?s = "noc_init (blank_sys 0)"
  have e: "fifo_rep (router_ifq_size ?s) INVN HOME (router (cpus ?s 0)) []"
    using noc_init_empty [of 0 "blank_sys 0" INVN HOME] by simp
  have "\<exists>taken s'. noc_request 0 INVN INVALIDATE INVALID 3 1 32 False ?s = Some (taken, s')"
    by (auto simp: noc_request_def noc_init_def init_router_def Let_def add_num_def put_packet_def
        set_slot_def split: option.split)
  then obtain taken s' where run: "noc_request 0 INVN INVALIDATE INVALID 3 1 32 False ?s = Some (taken, s')"
    by blast
  show ?thesis
    using noc_request_enqueues [OF e run] unfolding run by (auto simp: noc_init_def)
qed

end
