(* ===== verification/Arbitration.thy ===== *)
theory Arbitration
  imports InputBuffer
begin

text \<open>
  What the round-robin arbiter and the X-Y routing function promise: an output is granted to one
  requesting input whenever it has a credit and a request, an input is granted at most one output, an
  input that keeps asking is served within five arbitrations, and every hop of a packet brings it one
  step nearer to its destination.
\<close>

section \<open>One output\<close>

lemma rr_pick_scan: "rr_pick prev req = ring_scan (prev + 1) 5 req"
proof -
  have "map (\<lambda>i. (prev + i) mod 5) [1..<6] = map (\<lambda>i. (prev + 1 + i) mod 5) [0..<5]"
    by (rule nth_equalityI) auto
  then show ?thesis by (simp add: rr_pick_def ring_scan_def ring_order_def)
qed

lemma rr_pick_Some: "rr_pick prev req = Some j \<Longrightarrow> j < NUM_DIRECTIONS \<and> req j"
  unfolding rr_pick_scan by (rule ring_scan_Some)

lemma rr_pick_None: "rr_pick prev req = None \<longleftrightarrow> (\<forall>j<NUM_DIRECTIONS. \<not> req j)"
  unfolding rr_pick_scan by (rule ring_scan_None)

text \<open>How far input \<open>j\<close> is from the front of the scan when \<open>prev\<close> was served last: 0 is next.\<close>

definition rr_dist :: "nat \<Rightarrow> nat \<Rightarrow> nat" where
  "rr_dist prev j = (j + 4 * (prev + 1)) mod 5"

lemma rr_dist_less: "rr_dist prev j < 5"
  by (simp add: rr_dist_def)

lemma rr_dist_position:
  assumes "j < 5"
  shows "(prev + 1 + rr_dist prev j) mod 5 = j"
proof -
  have "(prev + 1 + rr_dist prev j) mod 5 = (prev + 1 + (j + 4 * (prev + 1))) mod 5"
    unfolding rr_dist_def by (rule mod_add_right_eq)
  also have "prev + 1 + (j + 4 * (prev + 1)) = j + 5 * (prev + 1)" by simp
  also have "\<dots> mod 5 = j mod 5" by (rule mod_mult_self2)
  finally show ?thesis using assms by simp
qed

lemma rr_dist_after:
  assumes "m < rr_dist prev j" and "j < 5"
  shows "rr_dist ((prev + 1 + m) mod 5) j < rr_dist prev j"
proof -
  define k where "k = (prev + 1 + m) mod 5"
  define e where "e = rr_dist prev j - m - 1"
  have "(k + 1 + e) mod 5 = (k + (1 + e)) mod 5" by (simp only: add.assoc)
  also have "\<dots> = (prev + 1 + m + (1 + e)) mod 5" unfolding k_def by (rule mod_add_left_eq)
  also have "prev + 1 + m + (1 + e) = prev + 1 + rr_dist prev j" using assms(1) by (simp add: e_def)
  finally have "(k + 1 + e) mod 5 = (k + 1 + rr_dist k j) mod 5"
    by (simp only: rr_dist_position [OF assms(2)])
  then have "e = rr_dist k j"
    by (rule ring_inject) (use rr_dist_less [of k j] rr_dist_less [of prev j] in \<open>auto simp: e_def\<close>)
  moreover have "e < rr_dist prev j" using assms(1) by (simp add: e_def)
  ultimately show ?thesis by (simp add: k_def)
qed

lemma rr_pick_other:
  assumes j: "j < 5" "req j" and pick: "rr_pick prev req = Some k" and "k \<noteq> j"
  shows "rr_dist k j < rr_dist prev j"
proof -
  obtain m where m: "m < 5" "k = (prev + 1 + m) mod 5" "\<forall>i<m. \<not> req ((prev + 1 + i) mod 5)"
    using pick unfolding rr_pick_scan ring_scan_def find_Some_iff by (auto simp: ring_order_def)
  have at: "(prev + 1 + rr_dist prev j) mod 5 = j" by (rule rr_dist_position [OF j(1)])
  have "\<not> rr_dist prev j < m"
  proof
    assume "rr_dist prev j < m"
    then have "\<not> req ((prev + 1 + rr_dist prev j) mod 5)" using m(3) by blast
    then show False using at j(2) by simp
  qed
  moreover have "rr_dist prev j \<noteq> m" using at m(2) \<open>k \<noteq> j\<close> by auto
  ultimately show ?thesis using rr_dist_after [of m prev j, OF _ j(1)] unfolding m(2) by linarith
qed

section \<open>All outputs of a router\<close>

text \<open>The choice an arbitration makes for one output, and its effect on a set of outputs.\<close>

definition choice :: "router_t \<Rightarrow> nat \<Rightarrow> nat \<Rightarrow> nat option" where
  "choice r type out =
     (if output_free r type out
      then rr_pick (egress_last_grant r type out) (requests r type out) else None)"

definition arb_upd :: "(nat \<times> nat) set \<Rightarrow> router_t \<Rightarrow> router_t" where
  "arb_upd S r = r\<lparr>
     egress_grant := (\<lambda>t out. if (t, out) \<in> S
       then (case choice r t out of None \<Rightarrow> egress_grant r t out | Some j \<Rightarrow> head_packet r t j)
       else egress_grant r t out),
     egress_last_grant := (\<lambda>t out. if (t, out) \<in> S
       then (case choice r t out of None \<Rightarrow> egress_last_grant r t out | Some j \<Rightarrow> j)
       else egress_last_grant r t out)\<rparr>"

text \<open>No input counts packets without having one at its head.\<close>

definition heads_ok :: "router_t \<Rightarrow> bool" where
  "heads_ok r \<longleftrightarrow>
     (\<forall>type<NUM_TYPES. \<forall>i<NUM_DIRECTIONS. ingress_num r type i > 0 \<longrightarrow> head_packet r type i \<noteq> None)"

lemma arbiter_cong:
  assumes "ingress r' = ingress r" "ingress_num r' = ingress_num r" "ingress_head r' = ingress_head r"
    "egress_credit r' = egress_credit r" "home_x r' = home_x r" "home_y r' = home_y r"
  shows "head_packet r' = head_packet r" and "requests r' = requests r" and "output_free r' = output_free r"
    and "heads_ok r' = heads_ok r"
proof -
  have head: "head_packet r' = head_packet r" by (intro ext) (simp add: head_packet_def assms)
  have wants: "wants r' = wants r" by (intro ext) (simp only: wants_def assms)
  show "head_packet r' = head_packet r" by (rule head)
  show "requests r' = requests r" by (intro ext) (simp only: requests_def head wants assms)
  show "output_free r' = output_free r" by (intro ext) (simp only: output_free_def assms)
  show "heads_ok r' = heads_ok r" by (simp only: heads_ok_def head assms)
qed

lemma arb_upd_frame [simp]:
  "ingress (arb_upd S r) = ingress r" "ingress_num (arb_upd S r) = ingress_num r"
  "ingress_head (arb_upd S r) = ingress_head r" "egress_credit (arb_upd S r) = egress_credit r"
  "home_x (arb_upd S r) = home_x r" "home_y (arb_upd S r) = home_y r" "priority (arb_upd S r) = priority r"
  by (simp_all add: arb_upd_def)

lemmas arb_upd_inputs [simp] = arbiter_cong [of "arb_upd S r" r for S r, OF arb_upd_frame(1-6)]

lemma arb_upd_empty [simp]: "arb_upd {} r = r"
  by (simp add: arb_upd_def)

lemma arbitrate_out_upd:
  assumes "heads_ok r" and "type < NUM_TYPES" and "(type, out) \<notin> S"
  shows "arbitrate_out type out (arb_upd S r) = Some (arb_upd (insert (type, out) S) r)"
proof -
  have no_null: "\<not> (\<exists>i\<in>{0..<NUM_DIRECTIONS}. ingress_num r type i > 0 \<and> head_packet r type i = None)"
    using assms(1,2) by (auto simp: heads_ok_def)
  have last_grant: "egress_last_grant (arb_upd S r) type out = egress_last_grant r type out"
    using assms(3) by (simp add: arb_upd_def)
  have same: "arb_upd (insert (type, out) S) r = arb_upd S r" if "choice r type out = None"
    using that assms(3) by (auto simp: arb_upd_def fun_eq_iff)
  have granted: "arb_upd (insert (type, out) S) r = grant type out j (arb_upd S r)"
    if "choice r type out = Some j" for j
    using that assms(3) by (auto simp: arb_upd_def grant_def head_packet_def fun_eq_iff)
  show ?thesis
    using no_null same granted unfolding arbitrate_out_def last_grant choice_def arb_upd_frame
    by (cases "rr_pick (egress_last_grant r type out) (requests r type out)") auto
qed

lemma arbitrate_outs:
  assumes "heads_ok r" and "type < NUM_TYPES" and "distinct outs" and "\<forall>out\<in>set outs. (type, out) \<notin> S"
  shows "fold_opt (arbitrate_out type) outs (arb_upd S r) = Some (arb_upd (S \<union> {type} \<times> set outs) r)"
  using assms(3,4)
proof (induction outs arbitrary: S)
  case (Cons out outs)
  have "fold_opt (arbitrate_out type) outs (arb_upd (insert (type, out) S) r) =
      Some (arb_upd (insert (type, out) S \<union> {type} \<times> set outs) r)"
    by (rule Cons.IH) (use Cons.prems in auto)
  moreover have "insert (type, out) S \<union> {type} \<times> set outs = S \<union> {type} \<times> set (out # outs)" by auto
  ultimately show ?case using arbitrate_out_upd [OF assms(1,2), of out S] Cons.prems by simp
qed simp

lemma arbitrate_types:
  assumes "heads_ok r" and "\<forall>t\<in>set ts. t < NUM_TYPES" and "distinct ts"
    and "\<forall>t\<in>set ts. \<forall>out. (t, out) \<notin> S"
  shows "fold_opt (\<lambda>type. fold_opt (arbitrate_out type) [0..<NUM_DIRECTIONS]) ts (arb_upd S r) =
     Some (arb_upd (S \<union> set ts \<times> {0..<NUM_DIRECTIONS}) r)"
  using assms(2-4)
proof (induction ts arbitrary: S)
  case (Cons t ts)
  have "fold_opt (arbitrate_out t) [0..<NUM_DIRECTIONS] (arb_upd S r) =
      Some (arb_upd (S \<union> {t} \<times> {0..<NUM_DIRECTIONS}) r)"
    using arbitrate_outs [of r t "[0..<NUM_DIRECTIONS]" S] assms(1) Cons.prems by simp
  moreover have "fold_opt (\<lambda>type. fold_opt (arbitrate_out type) [0..<NUM_DIRECTIONS]) ts
      (arb_upd (S \<union> {t} \<times> {0..<NUM_DIRECTIONS}) r) =
      Some (arb_upd ((S \<union> {t} \<times> {0..<NUM_DIRECTIONS}) \<union> set ts \<times> {0..<NUM_DIRECTIONS}) r)"
    by (rule Cons.IH) (use Cons.prems in auto)
  moreover have "(S \<union> {t} \<times> {0..<NUM_DIRECTIONS}) \<union> set ts \<times> {0..<NUM_DIRECTIONS} =
      S \<union> set (t # ts) \<times> {0..<NUM_DIRECTIONS}" by auto
  ultimately show ?case by (simp del: upt_rec_numeral)
qed simp

lemma clear_grants_frame [simp]:
  "ingress (clear_grants r) = ingress r" "ingress_num (clear_grants r) = ingress_num r"
  "ingress_head (clear_grants r) = ingress_head r" "egress_credit (clear_grants r) = egress_credit r"
  "home_x (clear_grants r) = home_x r" "home_y (clear_grants r) = home_y r"
  "egress_last_grant (clear_grants r) = egress_last_grant r" "priority (clear_grants r) = priority r"
  by (simp_all add: clear_grants_def)

lemmas clear_grants_inputs [simp] = arbiter_cong [of "clear_grants r" r for r, OF clear_grants_frame(1-6)]

lemma clear_grants_choice [simp]: "choice (clear_grants r) = choice r"
  by (intro ext) (simp add: choice_def)

lemma clear_grants_None:
  "type < NUM_TYPES \<Longrightarrow> out < NUM_DIRECTIONS \<Longrightarrow> egress_grant (clear_grants r) type out = None"
  by (simp add: clear_grants_def)

lemma arbitrate_router_eq:
  assumes "heads_ok r"
  shows "arbitrate_router r = Some (arb_upd ({0..<NUM_TYPES} \<times> {0..<NUM_DIRECTIONS}) (clear_grants r))"
  using arbitrate_types [of "clear_grants r" "[0..<NUM_TYPES]" "{}"] assms
  by (simp add: arbitrate_router_def del: upt_rec_numeral)

lemma arbitrate_router_grant:
  assumes "heads_ok r" and "arbitrate_router r = Some r'" and "type < NUM_TYPES" and "out < NUM_DIRECTIONS"
  shows "egress_grant r' type out = (case choice r type out of None \<Rightarrow> None | Some j \<Rightarrow> head_packet r type j)"
    and "egress_last_grant r' type out =
      (case choice r type out of None \<Rightarrow> egress_last_grant r type out | Some j \<Rightarrow> j)"
  using assms by (auto simp: arbitrate_router_eq arb_upd_def clear_grants_None split: option.split)

lemma wants_unique:
  "wants r out pk \<Longrightarrow> wants r out' pk \<Longrightarrow> out < NUM_DIRECTIONS \<Longrightarrow> out' < NUM_DIRECTIONS \<Longrightarrow> out = out'"
  unfolding wants_def by (auto split: if_splits)

lemma requests_head: "requests r type out i \<Longrightarrow> \<exists>pk. head_packet r type i = Some pk \<and> wants r out pk"
  by (auto simp: requests_def split: option.splits)

lemma choice_Some: "choice r type out = Some j \<Longrightarrow>
  output_free r type out \<and> j < NUM_DIRECTIONS \<and> requests r type out j"
  unfolding choice_def by (auto split: if_splits dest: rr_pick_Some)

lemma fifo_heads_ok:
  assumes "\<And>type i. type < NUM_TYPES \<Longrightarrow> i < NUM_DIRECTIONS \<Longrightarrow> \<exists>q. fifo_rep n type i r q"
  shows "heads_ok r"
  unfolding heads_ok_def
proof (intro allI impI)
  fix type i assume b: "type < NUM_TYPES" "i < NUM_DIRECTIONS" and num: "ingress_num r type i > 0"
  from assms [OF b] obtain q where q: "fifo_rep n type i r q" by blast
  with num have "q \<noteq> []" by (auto simp: fifo_rep_def)
  then obtain p q' where "q = p # q'" by (cases q) auto
  with q show "head_packet r type i \<noteq> None" using fifo_rep_head(1) by fastforce
qed

section \<open>Properties\<close>

text \<open>C5. Arbitration in a router whose input buffers have a packet at every counted head never follows
  a NULL pointer; each output is granted exactly when it has a credit and some input asks for it, the
  packet granted is the head packet of a requesting input, and no input is granted to two outputs.\<close>

theorem arbitrate_router_matching:
  assumes "heads_ok r"
  shows "\<exists>r'. arbitrate_router r = Some r' \<and>
    (\<forall>type<NUM_TYPES. \<forall>out<NUM_DIRECTIONS. case egress_grant r' type out of
       None \<Rightarrow> \<not> output_free r type out \<or> (\<forall>i<NUM_DIRECTIONS. \<not> requests r type out i)
     | Some pk \<Rightarrow> output_free r type out \<and>
         (\<exists>i<NUM_DIRECTIONS. requests r type out i \<and> head_packet r type i = Some pk \<and>
            egress_last_grant r' type out = i \<and>
            (\<forall>out'<NUM_DIRECTIONS. egress_grant r' type out' \<noteq> None \<longrightarrow>
               egress_last_grant r' type out' = i \<longrightarrow> out' = out)))"
proof -
  obtain r' where r': "arbitrate_router r = Some r'" using arbitrate_router_eq [OF assms] by blast
  note grants = arbitrate_router_grant [OF assms r']
  have "case egress_grant r' type out of
       None \<Rightarrow> \<not> output_free r type out \<or> (\<forall>i<NUM_DIRECTIONS. \<not> requests r type out i)
     | Some pk \<Rightarrow> output_free r type out \<and>
         (\<exists>i<NUM_DIRECTIONS. requests r type out i \<and> head_packet r type i = Some pk \<and>
            egress_last_grant r' type out = i \<and>
            (\<forall>out'<NUM_DIRECTIONS. egress_grant r' type out' \<noteq> None \<longrightarrow>
               egress_last_grant r' type out' = i \<longrightarrow> out' = out))"
    if bounds: "type < NUM_TYPES" "out < NUM_DIRECTIONS" for type out
  proof (cases "choice r type out")
    case None
    then show ?thesis using grants(1) [OF bounds] by (auto simp: choice_def rr_pick_None split: if_splits)
  next
    case (Some j)
    note j = choice_Some [OF Some]
    then obtain pk where pk: "head_packet r type j = Some pk" "wants r out pk" using requests_head by blast
    have "out' = out" if o: "out' < NUM_DIRECTIONS" "egress_grant r' type out' \<noteq> None"
      "egress_last_grant r' type out' = j" for out'
    proof -
      obtain i where i: "choice r type out' = Some i"
        using o(2) grants(1) [OF bounds(1) o(1)] by (auto split: option.splits)
      then have "i = j" using o(3) grants(2) [OF bounds(1) o(1)] by simp
      then have "wants r out' pk" using choice_Some [OF i] requests_head [of r type out' j] pk(1) by auto
      then show ?thesis using wants_unique pk(2) bounds(2) o(1) by blast
    qed
    then show ?thesis using grants [OF bounds] Some j pk by auto
  qed
  then show ?thesis using r' by blast
qed

text \<open>C16. Round-robin arbitration starves nobody: over any run of arbitrations in which input \<open>j\<close> keeps
  asking for an output, it has been granted that output by the time the output has been free in five
  of them.\<close>

theorem arbitrate_router_starvation_free:
  assumes run: "\<And>k. k < n \<Longrightarrow> heads_ok (r k) \<and> arbitrate_router (r k) = Some (r' k) \<and>
      requests (r k) type out j \<and> egress_last_grant (r (Suc k)) type out = egress_last_grant (r' k) type out"
    and bounds: "type < NUM_TYPES" "out < NUM_DIRECTIONS" "j < NUM_DIRECTIONS"
    and free: "5 \<le> card {k. k < n \<and> output_free (r k) type out}"
  shows "\<exists>k<n. egress_grant (r' k) type out = head_packet (r k) type j \<and> egress_last_grant (r' k) type out = j"
proof (rule ccontr)
  assume none: "\<not> ?thesis"
  let ?d = "\<lambda>k. rr_dist (egress_last_grant (r k) type out) j"
  have "m \<le> n \<Longrightarrow> ?d m + count_below m (\<lambda>k. output_free (r k) type out) \<le> ?d 0" for m
  proof (induction m)
    case (Suc m)
    then have m: "m < n" by simp
    note R = run [OF m]
    have grants: "egress_grant (r' m) type out =
          (case choice (r m) type out of None \<Rightarrow> None | Some j \<Rightarrow> head_packet (r m) type j)"
        "egress_last_grant (r' m) type out =
          (case choice (r m) type out of None \<Rightarrow> egress_last_grant (r m) type out | Some j \<Rightarrow> j)"
      using arbitrate_router_grant R bounds(1,2) by blast+
    show ?case
    proof (cases "output_free (r m) type out")
      case False
      then have "choice (r m) type out = None" by (simp add: choice_def)
      then have "?d (Suc m) = ?d m" using R grants(2) by simp
      then show ?thesis using Suc False by (simp add: count_below_Suc)
    next
      case True
      then have c: "choice (r m) type out =
          rr_pick (egress_last_grant (r m) type out) (requests (r m) type out)" by (simp add: choice_def)
      then obtain i where i: "choice (r m) type out = Some i"
        using rr_pick_None [of "egress_last_grant (r m) type out" "requests (r m) type out"] R bounds(3)
        by (cases "choice (r m) type out") auto
      have "i \<noteq> j" using none grants i m by auto
      then have "rr_dist i j < ?d m"
        by (intro rr_pick_other [OF bounds(3) _ trans [OF c [symmetric] i]]) (use R in auto)
      moreover have "?d (Suc m) = rr_dist i j" using R grants(2) i by simp
      ultimately show ?thesis using Suc True by (simp add: count_below_Suc)
    qed
  qed simp
  from this [of n] have "count_below n (\<lambda>k. output_free (r k) type out) \<le> ?d 0" by simp
  then show False using free rr_dist_less [of "egress_last_grant (r 0) type out" j]
    by (simp add: count_below_def)
qed

text \<open>C30. X-Y routing in the mesh: the output a packet asks for leads to a router of the mesh that is
  exactly one step nearer to its destination (or is \<open>HOME\<close>, at the destination), the position guard of
  that output holds, and at the next router the packet asks for an output whose switch has a case for
  the input it came in by, so its credit goes back.\<close>

theorem xy_route_progress:
  assumes "out < NUM_DIRECTIONS" and "wants r out pk"
    and "home_x r < w" "home_y r < h" "dest_x pk < w" "dest_y pk < h"
  shows "if out = HOME then dest_x pk = home_x r \<and> dest_y pk = home_y r
    else case hop w h (home_x r) (home_y r) out of (ok, x', y', arrive_dir, _) \<Rightarrow>
      ok \<and> x' < w \<and> y' < h \<and>
      \<bar>int (dest_x pk) - int x'\<bar> + \<bar>int (dest_y pk) - int y'\<bar> + 1 =
        \<bar>int (dest_x pk) - int (home_x r)\<bar> + \<bar>int (dest_y pk) - int (home_y r)\<bar> \<and>
      (\<forall>out'<NUM_DIRECTIONS. wants (r\<lparr>home_x := x', home_y := y'\<rparr>) out' pk \<longrightarrow> out' \<noteq> HOME \<longrightarrow>
         arrive_dir \<in> set (snd (snd (snd (snd (hop w h x' y' out'))))))"
proof -
  consider "out = HOME" | "out = UP" | "out = DOWN" | "out = LEFT" | "out = RIGHT"
    using assms(1) by fastforce
  then show ?thesis
    by cases (use assms(2-) in \<open>auto simp: wants_def hop_def split: if_splits\<close>)
qed

section \<open>A router at work\<close>

text \<open>Router 1 of a fresh 2x2 mesh with one request for its own core at the input from above.\<close>

definition busy_router :: router_t where
  "busy_router = (add_num REQ UP 1 (set_slot REQ UP 0 (Some (net_packet 32)) (init_router (blank_sys 0) 1)))
     \<lparr>egress_last_grant := (\<lambda>_ _. UP)\<rparr>"

lemma busy_router_ok: "heads_ok busy_router" "requests busy_router REQ HOME UP" "output_free busy_router REQ HOME"
  by (auto simp: busy_router_def heads_ok_def requests_def head_packet_def wants_def output_free_def
      add_num_def set_slot_def init_router_def net_packet_def)

theorem arbitrate_router_matching_witness:
  "\<exists>r'. arbitrate_router busy_router = Some r' \<and> egress_grant r' REQ HOME \<noteq> None"
  using arbitrate_router_matching [OF busy_router_ok(1)]
proof (elim ex_forward conjE, intro conjI notI)
  fix r'
  assume all: "\<forall>type<NUM_TYPES. \<forall>out<NUM_DIRECTIONS. case egress_grant r' type out of
       None \<Rightarrow> \<not> output_free busy_router type out \<or> (\<forall>i<NUM_DIRECTIONS. \<not> requests busy_router type out i)
     | Some pk \<Rightarrow> output_free busy_router type out \<and>
         (\<exists>i<NUM_DIRECTIONS. requests busy_router type out i \<and> head_packet busy_router type i = Some pk \<and>
            egress_last_grant r' type out = i \<and>
            (\<forall>out'<NUM_DIRECTIONS. egress_grant r' type out' \<noteq> None \<longrightarrow>
               egress_last_grant r' type out' = i \<longrightarrow> out' = out))"
    and "egress_grant r' REQ HOME = None"
  with all [rule_format, of REQ HOME]
  have "\<not> output_free busy_router REQ HOME \<or> (\<forall>i<NUM_DIRECTIONS. \<not> requests busy_router REQ HOME i)"
    by simp
  then show False using busy_router_ok(2,3) by auto
qed

theorem arbitrate_router_starvation_free_witness:
  "egress_last_grant (the (arbitrate_router busy_router)) REQ HOME = UP \<and>
   egress_grant (the (arbitrate_router busy_router)) REQ HOME = head_packet busy_router REQ UP"
proof -
  let ?r = "busy_router" and ?r' = "the (arbitrate_router busy_router)"
  have arb: "arbitrate_router ?r = Some ?r'" using arbitrate_router_eq [OF busy_router_ok(1)] by simp
  have "choice ?r REQ HOME = Some UP"
    using busy_router_ok(2,3)
    by (simp add: choice_def rr_pick_def upt_rec busy_router_def requests_def head_packet_def add_num_def
        set_slot_def init_router_def)
  then have last_grant: "egress_last_grant ?r' REQ HOME = UP"
    using arbitrate_router_grant(2) [OF busy_router_ok(1) arb, of REQ HOME] by simp
  have "\<exists>k<5::nat. egress_grant ?r' REQ HOME = head_packet ?r REQ UP \<and> egress_last_grant ?r' REQ HOME = UP"
    using busy_router_ok arb last_grant
    by (intro arbitrate_router_starvation_free [of 5 "\<lambda>_. ?r" "\<lambda>_. ?r'"])
      (simp_all add: busy_router_def)
  then show ?thesis by blast
qed

theorem xy_route_progress_witness:
  "case hop 2 2 0 0 RIGHT of (ok, x', y', _) \<Rightarrow> ok \<and> x' < 2 \<and> y' < 2 \<and>
     \<bar>int (dest_x (net_packet 32)) - int x'\<bar> = 0"
  using xy_route_progress [of RIGHT "init_router (blank_sys 0) 0" "net_packet 32" 2 2]
  by (simp add: init_router_def wants_def net_packet_def hop_def)

end
