(* ===== verification/Coherence.thy ===== *)
theory Coherence
  imports Arbitration
begin

unbundle bit_operations_syntax

text \<open>
  The directory side of the coherence protocol (cache2mem.c): the interventions on an L1 data cache,
  the probe of the L2 cache with its directory (\<open>scache_probe\<close>), the refill of an L2 block from memory
  and the write-back of an L1 block into the L2, in the MESI build.
\<close>

section \<open>Interventions on the L1 data cache\<close>

text \<open>The walk over a set for a line with the tag that is not invalid.\<close>

definition find_line :: "cache \<Rightarrow> md_addr_t \<Rightarrow> blk_ptr option" where
  "find_line cp paddr =
     (let tag = CACHE_TAG cp paddr; set = unat (CACHE_SET cp paddr)
      in map_option (\<lambda>w. (set, w))
           (find (\<lambda>w. blk_tag (get_blk cp (set, w)) = tag \<and> blk_status (get_blk cp (set, w)) \<noteq> INVALID)
             (way_list (sets cp set))))"

definition set_status :: "int \<Rightarrow> cache_blk \<Rightarrow> cache_blk" where
  "set_status x k = k\<lparr>blk_status := x\<rparr>"

text \<open>Both interventions return the response, the old state of the line and the line.\<close>

definition intervention_shared ::
  "md_addr_t \<Rightarrow> godson2_cpu \<Rightarrow> int \<times> int \<times> blk_ptr option \<times> godson2_cpu" where
  "intervention_shared paddr st =
     (case find_line (dcache st) paddr of
        None \<Rightarrow> (ACK, INVALID, None, bump (OfCache L1_external_intervention_shareds) st)
      | Some p \<Rightarrow>
          (let status = blk_status (get_blk (dcache st) p)
           in (if status = MODIFIED then ACK_DATA else ACK, status, Some p,
               bump (OfCache L1_external_intervention_shareds)
                 (upd_cache Dcache (upd_blk p (set_status SHARED)) st))))"

definition intervention_exclusive ::
  "md_addr_t \<Rightarrow> godson2_cpu \<Rightarrow> int \<times> int \<times> blk_ptr option \<times> godson2_cpu" where
  "intervention_exclusive paddr st =
     (case find_line (dcache st) paddr of
        None \<Rightarrow> (ACK, INVALID, None, bump (OfCache L1_external_intervention_exclusives) st)
      | Some p \<Rightarrow>
          (let status = blk_status (get_blk (dcache st) p)
           in (if status = MODIFIED then ACK_DATA else ACK, status, Some p,
               bump (OfCache L1_external_intervention_exclusives)
                 (upd_cache Dcache (upd_blk p (set_status INVALID)) st))))"

definition invalidate :: "md_addr_t \<Rightarrow> godson2_cpu \<Rightarrow> (int \<times> blk_ptr option \<times> godson2_cpu) option" where
  "invalidate paddr st =
     (case find_line (dcache st) paddr of
        None \<Rightarrow> Some (INVALID, None, bump (OfCache L1_external_invalidations) st)
      | Some p \<Rightarrow>
          (let status = blk_status (get_blk (dcache st) p)
           in if status \<noteq> EXCLUSIVE \<and> status \<noteq> MODIFIED
              then Some (status, Some p, bump (OfCache L1_external_invalidations)
                     (upd_cache Dcache (upd_blk p (set_status INVALID)) st))
              else None))"

section \<open>Directories\<close>

text \<open>An assignment to the first \<open>n\<close> entries of an array.\<close>

definition upto :: "nat \<Rightarrow> (nat \<Rightarrow> 'a) \<Rightarrow> (nat \<Rightarrow> 'a) \<Rightarrow> nat \<Rightarrow> 'a" where
  "upto n f old = (\<lambda>i. if i < n then f i else old i)"

definition dir_count :: "nat \<Rightarrow> (nat \<Rightarrow> bool) \<Rightarrow> nat" where
  "dir_count n dir = length (filter dir [0..<n])"

text \<open>The loop that copies a directory into a miss queue entry and clears the records of what has been
  sent and acknowledged.\<close>

definition copy_directory :: "nat \<Rightarrow> (nat \<Rightarrow> bool) \<Rightarrow> (nat \<Rightarrow> bool) \<Rightarrow> miss_queue \<Rightarrow> miss_queue" where
  "copy_directory n ddir idir m =
     m\<lparr>mq_data_directory := upto n ddir (mq_data_directory m),
       mq_inst_directory := upto n idir (mq_inst_directory m),
       data_intervention_sent := upto n (\<lambda>_. False) (data_intervention_sent m),
       inst_intervention_sent := upto n (\<lambda>_. False) (inst_intervention_sent m),
       data_ack_received := upto n (\<lambda>_. False) (data_ack_received m),
       inst_ack_received := upto n (\<lambda>_. False) (inst_ack_received m)\<rparr>"

section \<open>Probing the L2 cache\<close>

text \<open>The directory says that the requester still holds the line: wait for its write-back.\<close>

definition wait_response :: "nat \<Rightarrow> godson2_cpu \<Rightarrow> godson2_cpu" where
  "wait_response qid = upd_mq qid (\<lambda>m. m\<lparr>wait_for_response := 1, read_local_l2 := False\<rparr>)"

text \<open>Other L1 caches have to be modified first: the entry gets the directory of the line without the
  requester and the type of the intervention.\<close>

definition start_modify ::
  "nat \<Rightarrow> nat \<Rightarrow> blk_ptr \<Rightarrow> (nat \<Rightarrow> bool) \<Rightarrow> int \<Rightarrow> godson2_cpu \<Rightarrow> godson2_cpu option" where
  "start_modify n qid blk idir itype st =
     do { st \<leftarrow> missq_change_state qid MQ_MODIFY_L1 st;
          let rc = mq_cpuid (missq st qid);
          let ddir = data_directory (get_blk (cache_dl2 st) blk);
          Some (upd_mq qid (\<lambda>m. (copy_directory n (\<lambda>i. i \<noteq> rc \<and> ddir i) idir m)
            \<lparr>intervention_type := itype, wait_for_response := 0, L2_changed_blk := Some blk\<rparr>) st) }"

definition clear_read_local :: "nat \<Rightarrow> godson2_cpu \<Rightarrow> godson2_cpu" where
  "clear_read_local qid = upd_mq qid (\<lambda>m. m\<lparr>read_local_l2 := False\<rparr>)"

text \<open>A read of a line the directory knows as exclusive.\<close>

definition probe_exclusive :: "nat \<Rightarrow> int \<Rightarrow> nat \<Rightarrow> blk_ptr \<Rightarrow> godson2_cpu \<Rightarrow> godson2_cpu option" where
  "probe_exclusive n req qid blk st =
     (let rc = mq_cpuid (missq st qid); is_inst = mq_inst (missq st qid); b = get_blk (cache_dl2 st) blk
      in if req = READ_SHD then
           if (\<not> is_inst \<and> data_directory b rc) \<or> (is_inst \<and> inst_directory b rc)
           then Some (wait_response qid st)
           else do { st \<leftarrow> start_modify n qid blk (\<lambda>_. False) INTERVENTION_SHD st;
                     let others = dir_count n (mq_data_directory (missq st qid));
                     Some (upd_mq qid (\<lambda>m. m\<lparr>mq_cache_status :=
                       (if is_inst then SHARED else if others = 0 then EXCLUSIVE else SHARED)\<rparr>)
                       (clear_read_local qid st)) }
         else if req = READ_EX \<or> req = UPGRADE then
           do { assertion (\<not> is_inst);
                if data_directory b rc then Some (wait_response qid st)
                else map_option (clear_read_local qid)
                       (start_modify n qid blk (\<lambda>_. False) INTERVENTION_EXC st) }
         else Some st)"

text \<open>A read of a line the directory knows as shared.\<close>

definition grant_shared :: "nat \<Rightarrow> nat \<Rightarrow> blk_ptr \<Rightarrow> godson2_cpu \<Rightarrow> godson2_cpu option" where
  "grant_shared n qid blk st =
     (let rc = mq_cpuid (missq st qid); is_inst = mq_inst (missq st qid)
      in do { st \<leftarrow> missq_change_state qid (if cpuid st = rc then MQ_REPLACE_L1 else MQ_EXTRDY) st;
              let st = upd_mq qid (\<lambda>m. m\<lparr>memcnt := 4, read_local_l2 := False, L2_changed_blk := None,
                wait_for_response := 0\<rparr>) st;
              let st = st\<lparr>cache_dl2 := upd_blk blk (\<lambda>b. if is_inst
                then b\<lparr>inst_directory := (inst_directory b)(rc := True)\<rparr>
                else b\<lparr>data_directory := (data_directory b)(rc := True)\<rparr>) (cache_dl2 st)\<rparr>;
              if is_inst then Some st
              else let granted = (if dir_count n (data_directory (get_blk (cache_dl2 st) blk)) = 1
                                  then EXCLUSIVE else SHARED)
                   in Some (upd_mq qid (\<lambda>m. m\<lparr>mq_cache_status := granted\<rparr>)
                        (st\<lparr>cache_dl2 := upd_blk blk (set_status granted) (cache_dl2 st)\<rparr>)) })"

definition probe_shared :: "nat \<Rightarrow> int \<Rightarrow> nat \<Rightarrow> blk_ptr \<Rightarrow> godson2_cpu \<Rightarrow> godson2_cpu option" where
  "probe_shared n req qid blk st =
     (let rc = mq_cpuid (missq st qid); is_inst = mq_inst (missq st qid); b = get_blk (cache_dl2 st) blk;
          idir = (\<lambda>i. i \<noteq> rc \<and> inst_directory b i)
      in if req = READ_SHD then
           if (\<not> is_inst \<and> data_directory b rc) \<or> (is_inst \<and> inst_directory b rc)
           then Some (wait_response qid st)
           else grant_shared n qid blk st
         else if req = READ_EX then
           do { assertion (\<not> is_inst);
                if data_directory b rc then Some (wait_response qid st)
                else map_option (clear_read_local qid) (start_modify n qid blk idir INVALIDATE st) }
         else if req = UPGRADE then
           do { assertion (\<not> is_inst); start_modify n qid blk idir INVALIDATE st }
         else Some st)"

text \<open>The line misses: a victim is chosen and its L1 copies have to be emptied.\<close>

definition probe_miss :: "nat \<Rightarrow> tick_t \<Rightarrow> nat \<Rightarrow> md_addr_t \<Rightarrow> godson2_cpu \<Rightarrow> godson2_cpu option" where
  "probe_miss n now qid paddr st =
     do { st \<leftarrow> missq_change_state qid MQ_L2_MISS st;
          let cp = cache_dl2 st;
          let set = CACHE_SET cp paddr;
          let bindex = (if set = refill_set cp then assoc cp - 1 - refill_way cp else now AND (assoc cp - 1));
          let repl = (unat set, nat bindex);
          let b = get_blk cp repl;
          let st = upd_mq qid (\<lambda>m. (copy_directory n (data_directory b) (inst_directory b) m)
            \<lparr>intervention_type := INTERVENTION_EXC, L2_replace_blk := Some repl, L2_changed_blk := Some repl,
             L2_replace_paddr := push_bit (tag_shift cp) (blk_tag b) + push_bit (set_shift cp) (blk_set b)\<rparr>) st;
          Some (bump (OfCache L2_misses) st) }"

definition scache_probe_cpu ::
  "nat \<Rightarrow> tick_t \<Rightarrow> int \<Rightarrow> nat \<Rightarrow> md_addr_t \<Rightarrow> godson2_cpu \<Rightarrow> godson2_cpu option" where
  "scache_probe_cpu n now req qid paddr st =
     (case find_line (cache_dl2 st) paddr of
        None \<Rightarrow> probe_miss n now qid paddr st
      | Some blk \<Rightarrow>
          (let status = blk_status (get_blk (cache_dl2 st) blk)
           in map_option (bump (OfCache L2_hits))
                (if status = EXCLUSIVE then probe_exclusive n req qid blk st
                 else if status = SHARED then probe_shared n req qid blk st
                 else Some st)))"

definition scache_probe :: "nat \<Rightarrow> int \<Rightarrow> nat \<Rightarrow> md_addr_t \<Rightarrow> 'z sys_scheme \<Rightarrow> 'z sys_scheme option" where
  "scache_probe c req qid paddr s =
     on_cpu c (scache_probe_cpu (total_cpus s) (sim_cycle s) req qid paddr) s"

section \<open>Refill and write-back of the L2\<close>

definition scache_refill_cpu :: "nat \<Rightarrow> nat \<Rightarrow> godson2_cpu \<Rightarrow> godson2_cpu option" where
  "scache_refill_cpu n q st =
     (let m = missq st q; cp = cache_dl2 st; rc = mq_cpuid m; inst = mq_inst m;
          tag = CACHE_TAG cp (mq_paddr m); set = CACHE_SET cp (mq_paddr m)
      in case L2_replace_blk m of
           None \<Rightarrow> None
         | Some repl \<Rightarrow>
             (let st = (if inst then st else upd_mq q (\<lambda>m. m\<lparr>mq_cache_status := EXCLUSIVE\<rparr>) st);
                  cp = upd_blk repl (\<lambda>b. b\<lparr>blk_tag := tag, blk_set := set,
                    blk_status := (if inst then SHARED else EXCLUSIVE), blk_dirty := False,
                    sb_valid := 0, sb_dirty := 0,
                    data_directory := upto n (\<lambda>i. i = rc \<and> \<not> inst) (data_directory b),
                    inst_directory := upto n (\<lambda>i. i = rc \<and> inst) (inst_directory b)\<rparr>) cp;
                  cp = cp\<lparr>refill_set := set, refill_way := L2_replace_way m, refill_blk := Some repl,
                    refill_bitmap := 0, last_tagset := 0xFFFFFFFF\<rparr>
              in missq_change_state q (if rc = cpuid st then MQ_REPLACE_L1 else MQ_EXTRDY)
                   (st\<lparr>cache_dl2 := cp\<rparr>)))"

definition scache_refill :: "nat \<Rightarrow> nat \<Rightarrow> 'z sys_scheme \<Rightarrow> 'z sys_scheme option" where
  "scache_refill c q s = on_cpu c (scache_refill_cpu (total_cpus s) q) s"

text \<open>The walk does not stop at the first line with the tag.\<close>

definition writeback_blk :: "nat \<Rightarrow> int \<Rightarrow> bool \<Rightarrow> cache_blk \<Rightarrow> cache_blk" where
  "writeback_blk rc req inst b =
     (let b = (if inst then b\<lparr>inst_directory := (inst_directory b)(rc := False)\<rparr>
               else b\<lparr>data_directory := (data_directory b)(rc := False)\<rparr>)
      in if req = WRITEBACK then b\<lparr>blk_dirty := True\<rparr> else b)"

definition scache_writeback_cpu ::
  "nat \<Rightarrow> int \<Rightarrow> md_addr_t \<Rightarrow> bool \<Rightarrow> godson2_cpu \<Rightarrow> godson2_cpu option" where
  "scache_writeback_cpu rc req paddr inst st =
     (if req = WRITEBACK \<or> req = ELIMINATE
      then let st = bump (OfCache cache_dl2_wtbk_access) st; cp = cache_dl2 st;
               tag = CACHE_TAG cp paddr; set = unat (CACHE_SET cp paddr)
           in Some (st\<lparr>cache_dl2 := fold (\<lambda>w cp.
                if blk_tag (get_blk cp (set, w)) = tag \<and> blk_status (get_blk cp (set, w)) \<noteq> INVALID
                then upd_blk (set, w) (writeback_blk rc req inst) cp else cp) (way_list (sets cp set)) cp\<rparr>)
      else None)"

definition scache_writeback ::
  "nat \<Rightarrow> nat \<Rightarrow> int \<Rightarrow> md_addr_t \<Rightarrow> bool \<Rightarrow> 'z sys_scheme \<Rightarrow> 'z sys_scheme option" where
  "scache_writeback c rc req paddr inst s = on_cpu c (scache_writeback_cpu rc req paddr inst) s"

end
