(* ===== verification/Cache2mem.thy ===== *)
theory Cache2mem
  imports Coherence
begin

unbundle bit_operations_syntax

text \<open>
  One cycle of the cache-to-memory pipeline of a core (\<open>cache2mem\<close> in cache2mem.c, MESI build): L1
  misses enter the miss queue, are issued to the home L2 cache, modify other L1 caches, fetch and
  refill L2 blocks, drain the write-back queue, answer remote requests, and replace and refill the
  local L1. The C function is one body with eleven parts; each part is a definition here, and
  \<open>cache2mem\<close> runs them in the order of the source.
\<close>

section \<open>Local variables\<close>

text \<open>The indices chosen at the start of the function; \<open>None\<close> is \<open>-1\<close>.\<close>

record c2m_locals =
  emptyi :: "nat option"
  L1_missi :: "nat option"
  read_L2i :: "nat option"
  modify_L1i :: "nat option"
  replace_L1i :: "nat option"
  extrdyi :: "nat option"
  L2_missi :: "nat option"
  memrefi :: "nat option"
  refill_L2i :: "nat option"
  missq_has_delay1 :: bool

definition pick_state :: "nat \<Rightarrow> nat \<Rightarrow> godson2_cpu \<Rightarrow> nat option" where
  "pick_state n statei st =
     ring_scan ((lasti st statei + 1) mod n) n (\<lambda>i. mq_state (missq st i) = statei)"

definition select_entries :: "nat \<Rightarrow> godson2_cpu \<Rightarrow> c2m_locals" where
  "select_entries n st =
     \<lparr>emptyi = pick_state n MQ_EMPTY st, L1_missi = pick_state n MQ_L1_MISS st,
      read_L2i = pick_state n MQ_READ_L2 st, modify_L1i = pick_state n MQ_MODIFY_L1 st,
      replace_L1i = pick_state n MQ_REPLACE_L1 st, extrdyi = pick_state n MQ_EXTRDY st,
      L2_missi = pick_state n MQ_L2_MISS st, memrefi = pick_state n MQ_MEMREF st,
      refill_L2i = pick_state n MQ_REFILL_L2 st,
      missq_has_delay1 = (\<exists>i\<in>{0..<n}. mq_state (missq st i) = MQ_DELAY1)\<rparr>"

text \<open>A step that may not apply.\<close>

definition when_some :: "'a option \<Rightarrow> ('a \<Rightarrow> 's \<Rightarrow> 's option) \<Rightarrow> 's \<Rightarrow> 's option" where
  "when_some x f s = (case x of None \<Rightarrow> Some s | Some a \<Rightarrow> f a s)"

section \<open>L1 misses enter the miss queue\<close>

definition upd_lsq :: "nat \<Rightarrow> (lsq_entry \<Rightarrow> lsq_entry) \<Rightarrow> godson2_cpu \<Rightarrow> godson2_cpu" where
  "upd_lsq l f st = st\<lparr>lsq := (lsq st)(l := f (lsq st l))\<rparr>"

text \<open>The loop that looks for the line among the queued misses. The result says whether the loop ran to
  its end and whether the miss becomes a new upgrade request.\<close>

fun scan_missq :: "nat \<Rightarrow> nat list \<Rightarrow> bool \<Rightarrow> godson2_cpu \<Rightarrow> bool \<times> bool \<times> godson2_cpu" where
  "scan_missq l [] new_upgrade_req st = (True, new_upgrade_req, st)"
| "scan_missq l (i # is) new_upgrade_req st =
     (let m = missq st i; e = lsq st l
      in if cpuid st = mq_cpuid m \<and> mq_state m \<noteq> MQ_EMPTY \<and> \<not> mq_inst m \<and> BLOCK_MATCH (mq_paddr m) (lsq_paddr e)
         then if mq_state m > MQ_L1_MISS \<and> mq_req m = READ_SHD \<and> (lsq_req e = READ_EX \<or> lsq_req e = UPGRADE)
              then scan_missq l is True (upd_lsq l (\<lambda>e. e\<lparr>lsq_req := UPGRADE\<rparr>) st)
              else if mq_state m = MQ_L1_MISS \<and> mq_req m = READ_SHD \<and> lsq_req e = READ_EX
              then (False, new_upgrade_req, upd_mq i (\<lambda>m. m\<lparr>mq_req := READ_EX\<rparr>) st)
              else if (mq_req m = READ_EX \<or> mq_req m = UPGRADE) \<and>
                      (lsq_req e = READ_EX \<or> lsq_req e = UPGRADE \<or> lsq_req e = READ_SHD)
              then (False, False, st)
              else (False, new_upgrade_req, st)
         else scan_missq l is new_upgrade_req st)"

text \<open>The fields of a new entry for a miss of this core; \<open>lsconten\<close> is only written for a data miss.\<close>

definition new_miss :: "bool \<Rightarrow> int \<Rightarrow> int \<Rightarrow> nat \<Rightarrow> md_addr_t \<Rightarrow> miss_queue \<Rightarrow> miss_queue" where
  "new_miss inst index req me paddr m =
     m\<lparr>mq_inst := inst, mq_set := index, mq_req := req, mq_ack := NO_REQ, mq_cpuid := me,
       mq_paddr := paddr, memcnt := 0, cachecnt := 0, wait_for_reissue := False,
       wait_for_response := 0, memread_sent := False, lsconten := (if inst then lsconten m else False)\<rparr>"

definition miss_distance :: "nat \<Rightarrow> nat \<Rightarrow> nat \<Rightarrow> nat" where
  "miss_distance width owner me =
     (let dest_x = owner mod width; dest_y = owner div width; hx = me mod width; hy = me div width
      in if hx = dest_x \<and> hy = dest_y then 0
         else 1 + (if hx div 2 \<noteq> dest_x div 2 then 1 else 0) + (if hy div 2 \<noteq> dest_y div 2 then 1 else 0))"

definition data_miss :: "nat \<Rightarrow> nat \<Rightarrow> nat \<Rightarrow> nat \<Rightarrow> nat \<Rightarrow> godson2_cpu \<Rightarrow> godson2_cpu option" where
  "data_miss n cores width e l st =
     do { let (ended, new_upgrade_req, st) = scan_missq l [0..<n] False st;
          let q = lsq st l;
          st \<leftarrow> (if (ended \<or> new_upgrade_req) \<and> VALID_PADDR (lsq_paddr q)
                 then do { st \<leftarrow> missq_change_state e MQ_L1_MISS st;
                           let st = upd_mq e (new_miss False (lsq_set q) (lsq_req q) (cpuid st) (lsq_paddr q)) st;
                           owner \<leftarrow> PADDR_OWNER cores (lsq_paddr q);
                           Some (bump (OfLsq (l1dmiss_dist (miss_distance width owner (cpuid st))))
                             (st\<lparr>missq_num := missq_num st + 1\<rparr>)) }
                 else Some st);
          Some (bump (OfQueue dcache_read_low_level_count) (bump (OfQueue missq_access)
            ((upd_lsq l (\<lambda>e. e\<lparr>lsq_fetching := True\<rparr>) st)\<lparr>lsq_missi := None\<rparr>))) }"

definition inst_miss :: "nat \<Rightarrow> godson2_cpu \<Rightarrow> godson2_cpu option" where
  "inst_miss e st =
     do { st \<leftarrow> (if VALID_PADDR (irep_paddr (irepbuf st))
                 then do { st \<leftarrow> missq_change_state e MQ_L1_MISS st;
                           let st = upd_mq e (new_miss True (irep_set (irepbuf st)) READ_SHD (cpuid st)
                             (irep_paddr (irepbuf st))) st;
                           Some (st\<lparr>missq_num := missq_num st + 1\<rparr>) }
                 else Some st);
          Some (bump (OfQueue icache_read_low_level_count) (bump (OfQueue missq_access)
            (st\<lparr>irepbuf := (irepbuf st)\<lparr>irep_state := IREP_REFILL\<rparr>\<rparr>))) }"

definition enter_miss :: "nat \<Rightarrow> nat \<Rightarrow> nat \<Rightarrow> c2m_locals \<Rightarrow> godson2_cpu \<Rightarrow> godson2_cpu option" where
  "enter_miss n cores width L st =
     (case emptyi L of
        None \<Rightarrow> Some st
      | Some e \<Rightarrow>
          if missq_num st < int n - 2 then
            (case lsq_missi st of
               Some l \<Rightarrow> data_miss n cores width e l st
             | None \<Rightarrow> if irep_state (irepbuf st) = IREP_MISS then inst_miss e st else Some st)
          else Some st)"

section \<open>Issue to the home L2\<close>

text \<open>The loop over the miss queue: another issued entry of the same L2 set and home, or an earlier
  load of the same line before an upgrade, holds the request back.\<close>

fun issue_scan :: "nat \<Rightarrow> nat \<Rightarrow> nat \<Rightarrow> nat list \<Rightarrow> bool \<Rightarrow> godson2_cpu \<Rightarrow> bool \<times> godson2_cpu" where
  "issue_scan n cores q [] same_set st = (same_set, st)"
| "issue_scan n cores q (i # is) same_set st =
     (let m = missq st i; mq = missq st q;
          same_set = (same_set \<or> (i \<noteq> q \<and> mq_state m > MQ_L1_MISS \<and>
            CACHE_SET (cache_dl2 st) (mq_paddr m) = CACHE_SET (cache_dl2 st) (mq_paddr mq) \<and>
            PADDR_OWNER cores (mq_paddr m) = PADDR_OWNER cores (mq_paddr mq)))
      in if i \<noteq> q \<and> cpuid st = mq_cpuid m \<and> cpuid st = mq_cpuid mq \<and> mq_state m \<ge> MQ_L1_MISS \<and>
            BLOCK_MATCH (mq_paddr m) (mq_paddr mq) \<and> mq_req m = READ_SHD \<and> mq_req mq = UPGRADE
         then let st = (if \<not> lsconten mq
                        then upd_mq q (\<lambda>m. m\<lparr>lsconten := True\<rparr>) (bump (OfLsq sim_load_store_contention) st) else st);
                  st = st\<lparr>lasti := (lasti st)(MQ_L1_MISS := (lasti st MQ_L1_MISS + 1) mod n)\<rparr>
              in issue_scan n cores q is True st
         else issue_scan n cores q is same_set st)"

text \<open>The result says whether the L2 port is taken.\<close>

definition issue_miss :: "nat \<Rightarrow> c2m_locals \<Rightarrow> 'z sys_scheme \<Rightarrow> (bool \<times> 'z sys_scheme) option" where
  "issue_miss c L s =
     (case L1_missi L of
        None \<Rightarrow> Some (False, s)
      | Some q \<Rightarrow>
          if wait_for_reissue (missq (cpus s c) q) then Some (False, s)
          else
            (let n = missq_ifq_size s; st = cpus s c; paddr = mq_paddr (missq st q)
             in do { dest \<leftarrow> PADDR_OWNER (total_cpus s) paddr;
                     assertion (cpuid st \<noteq> mq_cpuid (missq st q) \<longrightarrow> dest = cpuid st);
                     let (same_set, st) = issue_scan n (total_cpus s) q [0..<n] False st;
                     let s = upd_cpu c (\<lambda>_. st) s;
                     if same_set then Some (False, s)
                     else if dest = cpuid st then
                       do { s \<leftarrow> on_cpu c (missq_change_state q MQ_READ_L2) s;
                            let s = upd_cpu c (upd_mq q (\<lambda>m. m\<lparr>read_local_l2 := True\<rparr>)) s;
                            s \<leftarrow> map_option snd (eventq_queue_callback4 (sim_cycle s + L2_probe_delay * period st)
                              Fn_scache_probe (int (cpuid st)) (mq_req (missq st q)) (int q) (uint paddr) s);
                            Some (True, upd_cpu c (bump (OfCache cache_dl2_fetch_access)) s) }
                     else
                       do { (taken, s) \<leftarrow> noc_request c REQ (mq_req (missq st q)) 0 q (cpuid st) paddr
                              (mq_inst (missq st q)) s;
                            if taken
                            then do { s \<leftarrow> on_cpu c (missq_change_state q MQ_READ_L2) s;
                                      Some (False, upd_cpu c (bump (OfQueue noc_read_count) \<circ>
                                        upd_mq q (\<lambda>m. m\<lparr>read_local_l2 := False\<rparr>)) s) }
                            else Some (False, s) } }))"

definition reprobe :: "nat \<Rightarrow> c2m_locals \<Rightarrow> 'z sys_scheme \<Rightarrow> 'z sys_scheme option" where
  "reprobe c L s =
     when_some (read_L2i L) (\<lambda>q s. let m = missq (cpus s c) q
       in if wait_for_response m = 2 then scache_probe (cpuid (cpus s c)) (mq_req m) q (mq_paddr m) s
          else Some s) s"

section \<open>Modifying other L1 caches\<close>

definition external_req :: "miss_queue \<Rightarrow> bool" where
  "external_req m \<longleftrightarrow> mq_req m = INTERVENTION_SHD \<or> mq_req m = INTERVENTION_EXC \<or> mq_req m = INVALIDATE"

text \<open>The misses of the same line that have not been issued are told to wait; at most two are recorded.\<close>

definition note_conflict :: "nat \<Rightarrow> nat \<Rightarrow> godson2_cpu \<Rightarrow> godson2_cpu" where
  "note_conflict q i st =
     (let m = missq st i; mq = missq st q
      in if i \<noteq> q \<and> mq_state m \<noteq> MQ_EMPTY \<and> BLOCK_MATCH (mq_paddr m) (mq_paddr mq) \<and> mq_state m = MQ_L1_MISS
         then upd_mq q (\<lambda>m. if invn_match_i1 m = None then m\<lparr>invn_match_i1 := Some i\<rparr>
                             else m\<lparr>invn_match_i2 := Some i\<rparr>)
                (upd_mq i (\<lambda>m. m\<lparr>wait_for_reissue := True\<rparr>) st)
         else st)"

definition check_conflicts :: "nat \<Rightarrow> nat \<Rightarrow> godson2_cpu \<Rightarrow> godson2_cpu" where
  "check_conflicts n q st =
     (if conflict_checked (missq st q) then st
      else upd_mq q (\<lambda>m. m\<lparr>conflict_checked := True\<rparr>)
        (fold (note_conflict q) [0..<n]
          (upd_mq q (\<lambda>m. m\<lparr>invn_match_i1 := None, invn_match_i2 := None\<rparr>) st)))"

text \<open>A write-back entry is given up: its credit goes back at once.\<close>

definition drop_wtbkq :: "nat \<Rightarrow> nat \<Rightarrow> 'z sys_scheme \<Rightarrow> 'z sys_scheme option" where
  "drop_wtbkq c j s =
     do { s \<leftarrow> queue_credit c WTBK (upd_cpu c (upd_wq j (\<lambda>w. w\<lparr>wq_valid := False\<rparr>)) s);
          on_cpu c (\<lambda>st. if wtbkq_num st - 1 \<ge> 0 then Some (st\<lparr>wtbkq_num := wtbkq_num st - 1\<rparr>) else None) s }"

text \<open>A pending write-back of the line answers the external request. The result is \<open>exit_missq\<close>.\<close>

definition check_wtbkq :: "nat \<Rightarrow> nat \<Rightarrow> 'z sys_scheme \<Rightarrow> (bool \<times> 'z sys_scheme) option" where
  "check_wtbkq c q s =
     (let st = cpus s c; m = missq st q;
          checked = upd_cpu c (upd_mq q (\<lambda>m. m\<lparr>wtbkq_checked := True\<rparr>))
      in if wtbkq_checked m then Some (False, s)
         else (case find (\<lambda>i. wq_valid (wtbkq st i) \<and> BLOCK_MATCH (wq_paddr (wtbkq st i)) (mq_paddr m) \<and>
                   wq_inst (wtbkq st i) = mq_inst m) [0..<wtbkq_ifq_size s] of
             None \<Rightarrow> Some (False, checked s)
           | Some i \<Rightarrow>
               (let w = wtbkq st i;
                    s = upd_cpu c (upd_mq q (\<lambda>m. m\<lparr>mq_ack := (if wq_req w = WRITEBACK then ACK_DATA else ACK),
                      mq_cache_status := wq_cache_status w\<rparr>)) s
                in do { s \<leftarrow> (if mq_req m = INTERVENTION_SHD \<and>
                               (wq_cache_status w = EXCLUSIVE \<or> wq_cache_status w = MODIFIED)
                             then Some s else drop_wtbkq c i s);
                        s \<leftarrow> on_cpu c (missq_change_state q MQ_EXTRDY) s;
                        Some (True, checked s) })))"

text \<open>The loop that sends one intervention to a remote L1; it stops after the first that the router
  takes. A NULL \<open>L2_changed_blk\<close> is followed.\<close>

fun send_invns :: "nat \<Rightarrow> nat \<Rightarrow> int \<Rightarrow> md_addr_t \<Rightarrow> nat list \<Rightarrow> 'z sys_scheme \<Rightarrow> 'z sys_scheme option" where
  "send_invns c q itype paddr [] s = Some s"
| "send_invns c q itype paddr (i # is) s =
     (let st = cpus s c; m = missq st q
      in do { (data_taken, s) \<leftarrow> (if i \<noteq> cpuid st \<and> mq_data_directory m i \<and> \<not> data_intervention_sent m i
                then noc_request c INVN itype 0 q i paddr False s else Some (False, s));
              if data_taken then Some (upd_cpu c (upd_mq q (set_data_sent i True)) s)
              else do {
                blk \<leftarrow> L2_changed_blk m;
                (inst_taken, s) \<leftarrow> (if blk_status (get_blk (cache_dl2 st) blk) = SHARED \<and>
                    i \<noteq> cpuid st \<and> mq_inst_directory m i \<and> \<not> inst_intervention_sent m i
                  then noc_request c INVN itype 0 q i paddr True s else Some (False, s));
                if inst_taken then Some (upd_cpu c (upd_mq q (set_inst_sent i True)) s)
                else send_invns c q itype paddr is s } })"

definition ack_all_received :: "nat \<Rightarrow> miss_queue \<Rightarrow> bool" where
  "ack_all_received n m \<longleftrightarrow> (\<forall>i\<in>{0..<n}.
     (mq_data_directory m i \<longrightarrow> data_ack_received m i) \<and> data_intervention_sent m i = data_ack_received m i \<and>
     (mq_inst_directory m i \<longrightarrow> inst_ack_received m i) \<and> inst_intervention_sent m i = inst_ack_received m i)"

text \<open>The new state and directory of the L2 block once every copy has been modified.\<close>

definition modified_blk :: "nat \<Rightarrow> miss_queue \<Rightarrow> cache_blk \<Rightarrow> cache_blk" where
  "modified_blk n m b =
     (let b = b\<lparr>data_directory := upto n (mq_data_directory m) (data_directory b),
                inst_directory := upto n (mq_inst_directory m) (inst_directory b)\<rparr>
      in if mq_req m = READ_SHD
         then if mq_inst m
              then b\<lparr>blk_status := SHARED, inst_directory := (inst_directory b)(mq_cpuid m := True)\<rparr>
              else b\<lparr>blk_status := mq_cache_status m, data_directory := (data_directory b)(mq_cpuid m := True)\<rparr>
         else b\<lparr>blk_status := EXCLUSIVE,
                data_directory := upto n (\<lambda>i. i = mq_cpuid m) (data_directory b),
                inst_directory := upto n (\<lambda>_. False) (inst_directory b)\<rparr>)"

definition finish_modify :: "nat \<Rightarrow> nat \<Rightarrow> godson2_cpu \<Rightarrow> godson2_cpu option" where
  "finish_modify n q st =
     (let m = missq st q;
          st = (case L2_changed_blk m of
                  None \<Rightarrow> st
                | Some blk \<Rightarrow> st\<lparr>cache_dl2 := upd_blk blk (modified_blk n m) (cache_dl2 st)\<rparr>)
      in map_option (upd_mq q (\<lambda>m. m\<lparr>memcnt := 4\<rparr>))
           (missq_change_state q (if cpuid st = mq_cpuid m then MQ_REPLACE_L1 else MQ_EXTRDY) st))"

text \<open>The whole part; the result is \<open>exit_missq\<close>.\<close>

definition modify_L1 :: "nat \<Rightarrow> c2m_locals \<Rightarrow> 'z sys_scheme \<Rightarrow> (bool \<times> 'z sys_scheme) option" where
  "modify_L1 c L s =
     (case modify_L1i L of
        None \<Rightarrow> Some (False, s)
      | Some q \<Rightarrow>
          (let m = missq (cpus s c) q; n = total_cpus s;
               done = upd_cpu c (\<lambda>st. st\<lparr>lasti := (lasti st)(MQ_MODIFY_L1 := q)\<rparr>)
           in if external_req m
              then map_option (map_prod id done)
                     (check_wtbkq c q (upd_cpu c (check_conflicts (missq_ifq_size s) q) s))
              else do { s \<leftarrow> send_invns c q (intervention_type m) (mq_paddr m) [0..<n] s;
                        s \<leftarrow> (if ack_all_received n (missq (cpus s c) q)
                               then on_cpu c (finish_modify n q) s else Some s);
                        Some (False, done s) }))"

section \<open>L2 miss, memory access and L2 refill\<close>

definition L2_miss :: "nat \<Rightarrow> c2m_locals \<Rightarrow> 'z sys_scheme \<Rightarrow> 'z sys_scheme option" where
  "L2_miss c L s =
     when_some (L2_missi L) (\<lambda>q s.
       do { let st = cpus s c;
            let m = missq st q;
            repl \<leftarrow> L2_replace_blk m;
            s \<leftarrow> (if blk_status (get_blk (cache_dl2 st) repl) \<noteq> INVALID
                   then send_invns c q INTERVENTION_EXC (L2_replace_paddr m) [0..<total_cpus s] s else Some s);
            let ack = ack_all_received (total_cpus s) (missq (cpus s c) q);
            s \<leftarrow> (if memread_sent (missq (cpus s c) q) then Some s
                   else on_cpu c (\<lambda>st. map_option (\<lambda>(sent, st). upd_mq q (\<lambda>m. m\<lparr>memread_sent := sent\<rparr>) st)
                          (memq_enter (memq_ifq_size s) True q st)) s);
            if ack \<and> memread_sent (missq (cpus s c) q)
            then on_cpu c (map_option (bump (OfQueue memq_read_count)) \<circ> missq_change_state q MQ_MEMREF) s
            else Some s }) s"

definition memref :: "nat \<Rightarrow> c2m_locals \<Rightarrow> 'z sys_scheme \<Rightarrow> 'z sys_scheme option" where
  "memref c L s =
     when_some (memrefi L) (\<lambda>q s.
       if memcnt (missq (cpus s c) q) = 4
       then on_cpu c (map_option (upd_mq q (\<lambda>m. m\<lparr>scache_refilled := False, memwrite_sent := False\<rparr>)) \<circ>
              missq_change_state q MQ_REFILL_L2) s
       else Some s) s"

definition refill_L2 :: "nat \<Rightarrow> c2m_locals \<Rightarrow> 'z sys_scheme \<Rightarrow> 'z sys_scheme option" where
  "refill_L2 c L s =
     when_some (refill_L2i L) (\<lambda>q s.
       do { let st = cpus s c;
            let m = missq st q;
            ready \<leftarrow> (if memwrite_sent m then Some True
                       else map_option (\<lambda>p. \<not> blk_dirty (get_blk (cache_dl2 st) p)) (L2_replace_blk m));
            if ready
            then if scache_refilled m then Some s
                 else do { s \<leftarrow> map_option snd (eventq_queue_callback2 (sim_cycle s + L2_write_delay * period st)
                             Fn_scache_refill (int (cpuid st)) (int q) s);
                           Some (upd_cpu c (bump (OfCache cache_dl2_refill_access) \<circ>
                             upd_mq q (\<lambda>m. m\<lparr>scache_refilled := True\<rparr>)) s) }
            else on_cpu c (\<lambda>st. map_option (\<lambda>(sent, st). upd_mq q (\<lambda>m. m\<lparr>memwrite_sent := sent\<rparr>) st)
                   (memq_enter (memq_ifq_size s) False q st)) s }) s"

section \<open>The write-back queue\<close>

text \<open>The search for a write-back starts its counter at \<open>wtbkq_lasti\<close> but tests the entries from 0 on.\<close>

definition wtbkq_dirtyi :: "nat \<Rightarrow> godson2_cpu \<Rightarrow> nat option" where
  "wtbkq_dirtyi n st = find (\<lambda>j. wq_valid (wtbkq st j)) [0..<n]"

text \<open>The effect of a write-back at home on one miss queue entry of the same line. The result says
  whether the write-back may still go to the L2.\<close>

definition ack_by_writeback :: "writeback_queue \<Rightarrow> miss_queue \<Rightarrow> miss_queue option" where
  "ack_by_writeback w m =
     (if wq_intervention w then
        if \<not> wq_inst w then None
        else if wq_cache_status w = SHARED then Some (set_inst_ack (wq_cpuid w) m)
        else if wq_cache_status w = INVALID then Some (set_inst_sent (wq_cpuid w) False m)
        else None
      else if wq_inst w
      then Some (m\<lparr>mq_inst_directory := (mq_inst_directory m)(wq_cpuid w := False)\<rparr>)
      else Some (m\<lparr>mq_data_directory := (mq_data_directory m)(wq_cpuid w := False)\<rparr>))"

definition wtbk_meets :: "nat \<Rightarrow> nat \<Rightarrow> md_addr_t \<Rightarrow> nat \<Rightarrow> bool \<Rightarrow> 'z sys_scheme \<Rightarrow> (bool \<times> 'z sys_scheme) option" where
  "wtbk_meets c j paddr i issue s =
     (let st = cpus s c; m = missq st i; w = wtbkq st j
      in if (mq_state m = MQ_MODIFY_L1 \<and> BLOCK_MATCH (mq_paddr m) paddr) \<or>
            (mq_state m = MQ_L2_MISS \<and> BLOCK_MATCH (L2_replace_paddr m) paddr) \<or>
            (mq_state m = MQ_READ_L2 \<and> BLOCK_MATCH (mq_paddr m) paddr)
         then if mq_state m = MQ_READ_L2 then
                if read_local_l2 m then Some (False, s)
                else if wait_for_response m = 1 \<or> wait_for_response m = 2 then
                  do { let s = (if mq_cpuid m = wq_cpuid w
                                then upd_cpu c (upd_mq i (\<lambda>m. m\<lparr>wait_for_response := 2\<rparr>)) s else s);
                       s \<leftarrow> scache_writeback (cpuid st) (wq_cpuid w) (wq_req w) (wq_paddr w) (wq_inst w) s;
                       map_option (Pair False) (drop_wtbkq c j s) }
                else None
              else do { m' \<leftarrow> ack_by_writeback w m;
                        map_option (Pair False) (drop_wtbkq c j (upd_cpu c (upd_mq i (\<lambda>_. m')) s)) }
         else Some (issue, s))"

fun wtbk_scan :: "nat \<Rightarrow> nat \<Rightarrow> md_addr_t \<Rightarrow> nat list \<Rightarrow> bool \<Rightarrow> 'z sys_scheme \<Rightarrow> (bool \<times> 'z sys_scheme) option" where
  "wtbk_scan c j paddr [] issue s = Some (issue, s)"
| "wtbk_scan c j paddr (i # is) issue s =
     (case wtbk_meets c j paddr i issue s of
        None \<Rightarrow> None
      | Some (issue, s) \<Rightarrow> wtbk_scan c j paddr is issue s)"

text \<open>A write-back must not pass a probe of the same L2 set that is under way.\<close>

definition wtbk_blocked :: "nat \<Rightarrow> md_addr_t \<Rightarrow> bool \<Rightarrow> godson2_cpu \<Rightarrow> bool" where
  "wtbk_blocked n paddr port st \<longleftrightarrow> (\<exists>i\<in>{0..<n}.
     (mq_state (missq st i) = MQ_READ_L2 \<and> read_local_l2 (missq st i) \<and>
      CACHE_SET (cache_dl2 st) (mq_paddr (missq st i)) = CACHE_SET (cache_dl2 st) paddr) \<or> port)"

definition wtbk_local :: "nat \<Rightarrow> nat \<Rightarrow> bool \<Rightarrow> 'z sys_scheme \<Rightarrow> 'z sys_scheme option" where
  "wtbk_local c j port s =
     (let n = missq_ifq_size s; paddr = wq_paddr (wtbkq (cpus s c) j)
      in do { (issue, s) \<leftarrow> wtbk_scan c j paddr [0..<n] True s;
              if issue \<and> \<not> wtbk_blocked n paddr port (cpus s c)
              then let st = cpus s c; w = wtbkq st j
                   in do { s \<leftarrow> map_option snd (eventq_queue_callback5 (sim_cycle s + L2_write_delay * period st)
                             Fn_scache_writeback (int (cpuid st)) (int (wq_cpuid w)) (wq_req w)
                             (uint (wq_paddr w)) (if wq_inst w then 1 else 0) s);
                           drop_wtbkq c j s }
              else Some s })"

text \<open>A write-back made by an intervention of a remote home answers the entry that asked for it.\<close>

fun answer_intervention ::
  "nat \<Rightarrow> md_addr_t \<Rightarrow> nat list \<Rightarrow> bool \<Rightarrow> godson2_cpu \<Rightarrow> (bool \<times> godson2_cpu) option" where
  "answer_intervention j paddr [] found st = Some (found, st)"
| "answer_intervention j paddr (i # is) found st =
     (let m = missq st i; w = wtbkq st j
      in if mq_state m = MQ_MODIFY_L1 \<and> BLOCK_MATCH (mq_paddr m) paddr
         then do { st \<leftarrow> missq_change_state i MQ_EXTRDY (upd_mq i (\<lambda>m. m\<lparr>
                     mq_ack := (if wq_cache_status w = MODIFIED then ACK_DATA else ACK),
                     mq_cache_status := wq_cache_status w\<rparr>) st);
                   answer_intervention j paddr is True st }
         else answer_intervention j paddr is found st)"

definition wtbk_remote :: "nat \<Rightarrow> nat \<Rightarrow> 'z sys_scheme \<Rightarrow> 'z sys_scheme option" where
  "wtbk_remote c j s =
     (let st = cpus s c; w = wtbkq st j
      in if wq_intervention w
         then do { (found, st) \<leftarrow> answer_intervention j (wq_paddr w) [0..<missq_ifq_size s] False st;
                   assertion found;
                   drop_wtbkq c j (upd_cpu c (\<lambda>_. st) s) }
         else do { (taken, s) \<leftarrow> noc_request c WTBK (wq_req w) 0 j (cpuid st) (wq_paddr w) (wq_inst w) s;
                   if taken
                   then map_option (upd_cpu c (bump (OfQueue noc_write_count))) (drop_wtbkq c j s)
                   else Some s })"

text \<open>The whole part; the result is \<open>wtbkq_has_two_empty\<close>.\<close>

definition drain_wtbkq :: "nat \<Rightarrow> bool \<Rightarrow> 'z sys_scheme \<Rightarrow> (bool \<times> 'z sys_scheme) option" where
  "drain_wtbkq c port s =
     (let n = wtbkq_ifq_size s; dirtyi = wtbkq_dirtyi n (cpus s c);
          s = upd_cpu c (\<lambda>st. st\<lparr>wtbkq_lasti := (wtbkq_lasti st + 1) mod n\<rparr>) s;
          two_empty = wtbkq_num (cpus s c) < int n - 1
      in map_option (Pair two_empty)
           (when_some dirtyi (\<lambda>j s.
             do { dest \<leftarrow> PADDR_OWNER (total_cpus s) (wq_paddr (wtbkq (cpus s c) j));
                  if dest = cpuid (cpus s c) then wtbk_local c j port s else wtbk_remote c j s }) s))"

section \<open>Answers to remote requests\<close>

definition free_missq :: "nat \<Rightarrow> nat \<Rightarrow> nat \<Rightarrow> 'z sys_scheme \<Rightarrow> 'z sys_scheme option" where
  "free_missq c q type s =
     do { s \<leftarrow> on_cpu c (missq_change_state q MQ_EMPTY) s;
          queue_credit c type (upd_cpu c (\<lambda>st. st\<lparr>missq_num := missq_num st - 1\<rparr>) s) }"

definition external_ready :: "nat \<Rightarrow> c2m_locals \<Rightarrow> 'z sys_scheme \<Rightarrow> 'z sys_scheme option" where
  "external_ready c L s =
     when_some (extrdyi L) (\<lambda>q s.
       let m = missq (cpus s c) q
       in if external_req m
          then do { assertion (mq_ack m \<noteq> NO_REQ);
                    (taken, s) \<leftarrow> noc_request c RESP (mq_ack m) (mq_cache_status m) (mq_qid m) (mq_cpuid m)
                      (mq_paddr m) (mq_inst m) s;
                    if taken then free_missq c q INVN s else Some s }
          else do { (taken, s) \<leftarrow> noc_request c RESP ACK_DATA (mq_cache_status m) (mq_qid m) (mq_cpuid m)
                      (mq_paddr m) (mq_inst m) s;
                    if taken then free_missq c q REQ s else Some s }) s"

section \<open>Replacing and refilling the L1\<close>

definition stall_fetch :: "godson2_cpu \<Rightarrow> godson2_cpu" where
  "stall_fetch st = st\<lparr>istall := istall st OR REFILL_STALL\<rparr>"

text \<open>A packet from the free list, filled in, goes to the load-store queue.\<close>

definition send_refill :: "(refill_packet \<Rightarrow> refill_packet) \<Rightarrow> godson2_cpu \<Rightarrow> godson2_cpu option" where
  "send_refill f st =
     map_option (\<lambda>(p, st). st\<lparr>lsq_refill := Some (f p)\<rparr>) (refill_get_from_free_list st)"

definition refill_words :: "nat \<Rightarrow> godson2_cpu \<Rightarrow> godson2_cpu option" where
  "refill_words q st =
     (if cachecnt (missq st q) < memcnt (missq st q)
      then let m = missq st q;
               b = nat (cachecnt m XOR uint (drop_bit 3 (mq_paddr m AND 0x1F)));
               st = upd_mq q (\<lambda>m. m\<lparr>cachecnt := cachecnt m + 1\<rparr>) st;
               m = missq st q
           in do { st \<leftarrow> (if mq_inst m
                     then let st = stall_fetch (bump (OfQueue icache_refill_access) st);
                              st = st\<lparr>irepbuf := (irepbuf st)\<lparr>irep_bitmap := (irep_bitmap (irepbuf st))(b := True)\<rparr>\<rparr>
                          in if cachecnt m = 4
                             then map_option (\<lambda>ic. st\<lparr>icache := ic\<lparr>refill_blk := None\<rparr>,
                                    irepbuf := (irepbuf st)\<lparr>irep_state := IREP_EMPTY\<rparr>\<rparr>)
                                  (mark_valid SHARED (icache st))
                             else Some st
                     else map_option (bump (OfQueue dcache_refill_access))
                            (send_refill (\<lambda>p. p\<lparr>rf_replace := False, rf_intervention := False, rf_set := mq_set m,
                               rf_paddr := (mq_paddr m AND NOT 0x1F) + of_nat (b * 8), rf_cnt := cachecnt m,
                               rf_req := mq_req m, rf_cache_status := mq_cache_status m\<rparr>) st));
                   if cachecnt m = 4
                   then missq_change_state q MQ_DELAY1 (st\<lparr>refilltag := False, refill_delay := 4\<rparr>)
                   else Some st }
      else Some st)"

text \<open>\<open>replace_block\<close> on the instruction cache, after its write-back slot has been reserved.\<close>

definition replace_icache :: "nat \<Rightarrow> md_addr_t \<Rightarrow> bool \<Rightarrow> 'z sys_scheme \<Rightarrow> 'z sys_scheme option" where
  "replace_icache c paddr intervention s =
     map_option snd (replace_block c Icache (irep_way (irepbuf (cpus s c))) paddr NO_REQ True intervention UNTOUCHED s)"

text \<open>An intervention on this core's data cache goes out as a refill packet.\<close>

definition intervene_dcache :: "int \<Rightarrow> md_addr_t \<Rightarrow> nat \<Rightarrow> godson2_cpu \<Rightarrow> godson2_cpu option" where
  "intervene_dcache req paddr q st =
     map_option (bump (OfQueue dcache_refill_access))
       (send_refill (\<lambda>p. p\<lparr>rf_replace := False, rf_intervention := True, rf_req := req, rf_paddr := paddr,
          rf_missqid := q\<rparr>) st)"

text \<open>A miss of the line that has not been issued starts to drain instead.\<close>

definition delay_match :: "nat \<Rightarrow> nat option \<Rightarrow> godson2_cpu \<Rightarrow> godson2_cpu" where
  "delay_match q r st =
     (case r of
        None \<Rightarrow> st
      | Some i \<Rightarrow>
          if mq_state (missq st i) = MQ_L1_MISS \<and> BLOCK_MATCH (mq_paddr (missq st q)) (mq_paddr (missq st i))
          then upd_mq i (\<lambda>m. m\<lparr>mq_state := MQ_DELAY1\<rparr>) st else st)"

text \<open>A recorded miss is emptied on the spot.\<close>

definition empty_missq :: "nat \<Rightarrow> nat \<Rightarrow> nat \<Rightarrow> 'z sys_scheme \<Rightarrow> 'z sys_scheme option" where
  "empty_missq c type i s =
     queue_credit c type (upd_cpu c (\<lambda>st. (upd_mq i (\<lambda>m. m\<lparr>mq_state := MQ_EMPTY\<rparr>) st)
       \<lparr>missq_num := missq_num st - 1\<rparr>) s)"

definition external_modify :: "nat \<Rightarrow> bool \<Rightarrow> nat \<Rightarrow> 'z sys_scheme \<Rightarrow> 'z sys_scheme option" where
  "external_modify c exit_missq q s =
     (let st = cpus s c; m = missq st q
      in if refill_delay st = 0 \<and> wtbkq_checked m \<and> \<not> exit_missq then
           if \<not> mq_inst m then
             on_cpu c (\<lambda>st. map_option (upd_mq q (\<lambda>m. m\<lparr>modify_l1 := False\<rparr>))
               (intervene_dcache (mq_req m) (mq_paddr m) q
                 (delay_match q (invn_match_i2 m) (delay_match q (invn_match_i1 m) st)))) s
           else
             do { s \<leftarrow> on_cpu c (reserve_wtbkq (wtbkq_ifq_size s)) s;
                  s \<leftarrow> replace_icache c (mq_paddr m) True s;
                  let s = upd_cpu c (upd_mq q (\<lambda>m. m\<lparr>modify_l1 := False\<rparr>) \<circ> stall_fetch \<circ> bump (OfQueue replace_access)) s;
                  s \<leftarrow> when_some (invn_match_i1 m) (empty_missq c INVN) s;
                  when_some (invn_match_i2 m) (empty_missq c INVN) s }
         else Some s)"

text \<open>The copies in this core's own L1 caches, on behalf of an entry that modifies L1 caches or of one
  that empties the copies of an L2 victim. \<open>blk\<close> is the L2 block, \<open>bump_access\<close> whether the
  instruction side counts an access.\<close>

definition local_modify ::
  "nat \<Rightarrow> nat \<Rightarrow> blk_ptr \<Rightarrow> md_addr_t \<Rightarrow> bool \<Rightarrow> 'z sys_scheme \<Rightarrow> 'z sys_scheme option" where
  "local_modify c q blk paddr bump_access s =
     (let st = cpus s c; m = missq st q; me = cpuid st
      in if blk_status (get_blk (cache_dl2 st) blk) = INVALID then Some s
         else if mq_inst_directory m me \<and> \<not> inst_intervention_sent m me then
           do { s \<leftarrow> on_cpu c (reserve_wtbkq (wtbkq_ifq_size s)) s;
                s \<leftarrow> replace_icache c paddr True s;
                Some (upd_cpu c (stall_fetch \<circ> upd_mq q (set_inst_sent me True) \<circ>
                  (if bump_access then bump (OfQueue replace_access) else id)) s) }
         else if mq_data_directory m me \<and> \<not> data_intervention_sent m me \<and> refill_delay st = 0 then
           on_cpu c (\<lambda>st. map_option (upd_mq q (set_data_sent me True))
             (intervene_dcache (intervention_type m) paddr q st)) s
         else Some s)"

text \<open>The granted line replaces an L1 line; a read that got an exclusive line cancels queued stores to
  it. \<open>None\<close> also covers the breakpoint the code executes on a queued entry it does not expect.\<close>

fun cancel_stores :: "nat \<Rightarrow> nat \<Rightarrow> nat list \<Rightarrow> 'z sys_scheme \<Rightarrow> 'z sys_scheme option" where
  "cancel_stores c q [] s = Some s"
| "cancel_stores c q (i # is) s =
     (let m = missq (cpus s c) i; mq = missq (cpus s c) q
      in if i \<noteq> q \<and> mq_state m \<noteq> MQ_EMPTY \<and> mq_cpuid m = mq_cpuid mq \<and> BLOCK_MATCH (mq_paddr m) (mq_paddr mq)
         then if (mq_req m = READ_EX \<or> mq_req m = UPGRADE) \<and> mq_state m = MQ_L1_MISS
              then (case empty_missq c REQ i s of None \<Rightarrow> None | Some s \<Rightarrow> cancel_stores c q is s)
              else None
         else cancel_stores c q is s)"

definition replace_data :: "nat \<Rightarrow> nat \<Rightarrow> 'z sys_scheme \<Rightarrow> 'z sys_scheme option" where
  "replace_data c q s =
     (let m = missq (cpus s c) q
      in case refill_get_from_free_list (cpus s c) of
           None \<Rightarrow> None
         | Some (p, st) \<Rightarrow>
             (let p = p\<lparr>rf_replace := True, rf_intervention := False, rf_set := mq_set m, rf_paddr := mq_paddr m,
                        rf_req := mq_req m, rf_cache_status := mq_cache_status m\<rparr>;
                  s = upd_cpu c (\<lambda>_. st) s
              in map_option (upd_cpu c (\<lambda>st. st\<lparr>lsq_refill := Some p\<rparr>))
                   (if mq_req m = READ_SHD \<and> mq_cache_status m = EXCLUSIVE
                    then cancel_stores c q [0..<missq_ifq_size s]
                           (upd_cpu c (upd_mq q (\<lambda>m. m\<lparr>mq_req := READ_EX\<rparr>)) s)
                    else Some s)))"

definition replace_L1 :: "nat \<Rightarrow> nat \<Rightarrow> 'z sys_scheme \<Rightarrow> 'z sys_scheme option" where
  "replace_L1 c q s =
     do { let s = upd_cpu c (\<lambda>st. bump (OfQueue replace_access) (st\<lparr>refilltag := True, refilli := q\<rparr>)) s;
          s \<leftarrow> on_cpu c (reserve_wtbkq (wtbkq_ifq_size s)) s;
          s \<leftarrow> (if mq_inst (missq (cpus s c) q)
                 then map_option (upd_cpu c stall_fetch)
                        (replace_icache c (mq_paddr (missq (cpus s c) q)) False s)
                 else replace_data c q s);
          on_cpu c (missq_change_state q MQ_REFILL_L1) s }"

text \<open>The cascade of conditions that selects one L1 action per cycle. \<open>refill_L1i\<close> is read before the
  other parts run; outside the queue it would be an access outside the array.\<close>

definition L1_part ::
  "nat \<Rightarrow> c2m_locals \<Rightarrow> nat \<Rightarrow> bool \<Rightarrow> bool \<Rightarrow> 'z sys_scheme \<Rightarrow> 'z sys_scheme option" where
  "L1_part c L refill_L1i exit_missq two_empty s =
     (let s = upd_cpu c (\<lambda>st. if refill_delay st > 0 then st\<lparr>refill_delay := refill_delay st - 1\<rparr> else st) s;
          st = cpus s c; me = cpuid st; may = two_empty \<and> \<not> missq_has_delay1 L;
          modify = (\<lambda>P. case modify_L1i L of None \<Rightarrow> False | Some q \<Rightarrow> P (missq st q))
      in if refilltag st then (if refill_L1i < missq_ifq_size s then on_cpu c (refill_words refill_L1i) s else None)
         else if may \<and> modify (\<lambda>m. external_req m \<and> modify_l1 m) then
           when_some (modify_L1i L) (external_modify c exit_missq) s
         else if may \<and> modify (\<lambda>m. (mq_data_directory m me \<and> \<not> data_intervention_sent m me) \<or>
                                (mq_inst_directory m me \<and> \<not> inst_intervention_sent m me)) then
           when_some (modify_L1i L) (\<lambda>q s. case L2_changed_blk (missq st q) of
             None \<Rightarrow> None | Some blk \<Rightarrow> local_modify c q blk (mq_paddr (missq st q)) True s) s
         else if may \<and> replace_L1i L \<noteq> None then when_some (replace_L1i L) (replace_L1 c) s
         else if may then
           when_some (L2_missi L) (\<lambda>q s. case L2_replace_blk (missq st q) of
             None \<Rightarrow> None | Some blk \<Rightarrow> local_modify c q blk (L2_replace_paddr (missq st q)) False s) s
         else Some s)"

section \<open>The delayed release of entries\<close>

definition delay_entry :: "nat \<Rightarrow> nat \<Rightarrow> 'z sys_scheme \<Rightarrow> 'z sys_scheme option" where
  "delay_entry c i s =
     (let k = mq_state (missq (cpus s c) i)
      in if k = MQ_DELAY3 then empty_missq c REQ i s
         else if k = MQ_DELAY2 then Some (upd_cpu c (upd_mq i (\<lambda>m. m\<lparr>mq_state := MQ_DELAY3\<rparr>)) s)
         else if k = MQ_DELAY1 then Some (upd_cpu c (upd_mq i (\<lambda>m. m\<lparr>mq_state := MQ_DELAY2\<rparr>)) s)
         else Some s)"

section \<open>The cycle\<close>

definition cache2mem :: "nat \<Rightarrow> 'z sys_scheme \<Rightarrow> 'z sys_scheme option" where
  "cache2mem c s =
     (let n = missq_ifq_size s; L = select_entries n (cpus s c); refill_L1i = refilli (cpus s c)
      in do { s \<leftarrow> on_cpu c (enter_miss n (total_cpus s) (mesh_width s) L) s;
              (port, s) \<leftarrow> issue_miss c L s;
              s \<leftarrow> reprobe c L s;
              (exit_missq, s) \<leftarrow> modify_L1 c L s;
              s \<leftarrow> L2_miss c L s;
              s \<leftarrow> memref c L s;
              s \<leftarrow> refill_L2 c L s;
              (two_empty, s) \<leftarrow> drain_wtbkq c port s;
              s \<leftarrow> external_ready c L s;
              s \<leftarrow> L1_part c L refill_L1i exit_missq two_empty s;
              fold_opt (delay_entry c) [0..<n] s })"

end
