(* ===== verification/Credits.thy ===== *)
theory Credits
  imports Cache2mem
begin

unbundle bit_operations_syntax

text \<open>
  The home credits of a core: the router may deliver a packet into the miss queue or the write-back
  queue of a core only against a credit, an entry that is taken costs a credit, and an entry that is
  released queues an \<open>update_credit\<close> event. The theory shows that credits, entries in use and queued
  credit events of every core always add up to the same total, through all parts of \<open>cache2mem\<close>, the
  router and the event handlers.
\<close>

section \<open>The ledger of a core\<close>

definition busy :: "nat \<Rightarrow> godson2_cpu \<Rightarrow> int" where
  "busy n st = int (count_below n (\<lambda>i. mq_state (missq st i) \<noteq> MQ_EMPTY))"

definition cpu_total :: "nat \<Rightarrow> godson2_cpu \<Rightarrow> int \<times> int \<times> int \<times> nat \<times> nat \<times> tick_t" where
  "cpu_total n st =
     (credit REQ HOME st + busy n st, credit INVN HOME st + busy n st, credit WTBK HOME st + wtbkq_num st,
      home_x (router st), home_y (router st), period st)"

definition shift :: "int \<Rightarrow> int \<Rightarrow> int \<times> int \<times> int \<times> nat \<times> nat \<times> tick_t
    \<Rightarrow> int \<times> int \<times> int \<times> nat \<times> nat \<times> tick_t" where
  "shift a k = (\<lambda>(r, i, w, x, y). (r + a, i + a, w + k, x, y))"

lemma shift_simps [simp]: "shift 0 0 L = L" "shift a k (shift a' k' L) = shift (a + a') (k + k') L"
  by (cases L; simp add: shift_def)+

lemma busy_frame:
  assumes "missq st' = missq st"
  shows "busy n st' = busy n st"
  using assms by (simp add: busy_def)

lemma busy_update:
  assumes "missq st' = (missq st)(q := m)"
  shows "busy n st' = busy n st + (if q < n \<and> mq_state (missq st q) = MQ_EMPTY \<and> mq_state m \<noteq> MQ_EMPTY then 1
    else if q < n \<and> mq_state (missq st q) \<noteq> MQ_EMPTY \<and> mq_state m = MQ_EMPTY then - 1 else 0)"
proof (cases "q < n \<and> (mq_state (missq st q) = MQ_EMPTY) \<noteq> (mq_state m = MQ_EMPTY)")
  case False
  have "count_below n (\<lambda>i. mq_state (missq st' i) \<noteq> MQ_EMPTY) = count_below n (\<lambda>i. mq_state (missq st i) \<noteq> MQ_EMPTY)"
    by (rule count_below_cong) (use False assms in auto)
  then show ?thesis using False by (auto simp: busy_def)
next
  case True
  show ?thesis
  proof (cases "mq_state (missq st q) = MQ_EMPTY")
    case empty: True
    have "count_below n (\<lambda>i. mq_state (missq st' i) \<noteq> MQ_EMPTY) =
        Suc (count_below n (\<lambda>i. mq_state (missq st i) \<noteq> MQ_EMPTY))"
      by (rule count_below_add [of q]) (use True empty assms in auto)
    then show ?thesis using True empty by (simp add: busy_def)
  next
    case full: False
    have "count_below n (\<lambda>i. mq_state (missq st i) \<noteq> MQ_EMPTY) =
        Suc (count_below n (\<lambda>i. mq_state (missq st' i) \<noteq> MQ_EMPTY))"
      by (rule count_below_add [of q]) (use True full assms in auto)
    then show ?thesis using True full by (simp add: busy_def)
  qed
qed

text \<open>No step changes the period of a core.\<close>

lemma period_frame [simp]:
  "period (upd_mq q f st) = period st" "period (add_credit t d k st) = period st" "period (bump x st) = period st"
  "period (upd_cache w g st) = period st" "period (upd_wq j h st) = period st" "period (upd_lsq l e st) = period st"
  by (simp_all add: upd_mq_def add_credit_def bump_def upd_wq_def upd_lsq_def) (cases w; simp)

lemma period_steps:
  "missq_change_state q new st = Some st' \<Longrightarrow> period st' = period st"
  "wtbkq_enter m rc req paddr inst cs iv st = Some st' \<Longrightarrow> period st' = period st"
  by (auto simp: missq_change_state_def take_home_credit_def wtbkq_enter_def Let_def split: if_splits option.splits bind_splits)

text \<open>An update that leaves the miss queue states, the router and the counts alone.\<close>

lemma cpu_total_frame:
  assumes "missq st' = missq st" "router st' = router st" "wtbkq_num st' = wtbkq_num st" "period st' = period st"
  shows "cpu_total n st' = cpu_total n st"
  using assms by (simp add: cpu_total_def busy_def credit_def)

lemma cpu_total_upd_mq [simp]:
  assumes "mq_state (f (missq st q)) = mq_state (missq st q)"
  shows "cpu_total n (upd_mq q f st) = cpu_total n st"
  using assms busy_update [of "upd_mq q f st" st q "f (missq st q)" n] by (auto simp: cpu_total_def)

text \<open>A change of state that does not release the entry keeps the totals.\<close>

lemma cpu_total_change_state:
  assumes "missq_change_state q new st = Some st'" and "new \<noteq> MQ_EMPTY"
    and "q < n \<or> mq_state (missq st q) \<noteq> MQ_EMPTY"
  shows "cpu_total n st' = cpu_total n st"
  using missq_change_state_Some [OF assms(1)] busy_update [OF missq_change_state_Some(1) [OF assms(1)], of n]
    assms(2,3) period_steps(1) [OF assms(1)]
  by (auto simp: cpu_total_def)

lemma cpu_total_release:
  assumes "missq_change_state q MQ_EMPTY st = Some st'" and "q < n"
  shows "cpu_total n st' = shift (- 1) 0 (cpu_total n st)"
  using missq_change_state_Some [OF assms(1)] busy_update [OF missq_change_state_Some(1) [OF assms(1)], of n]
    assms(2) period_steps(1) [OF assms(1)]
  by (auto simp: cpu_total_def shift_def)

lemma cpu_total_wtbkq_enter:
  assumes "wtbkq_enter m rc req paddr inst cs iv st = Some st'"
  shows "cpu_total n st' = cpu_total n st"
  by (rule cpu_total_frame) (rule wtbkq_enter_Some [OF assms] period_steps(2) [OF assms])+

lemma reserve_wtbkq_Some:
  "reserve_wtbkq m st = Some st' \<longleftrightarrow>
   wtbkq_num st < int m \<and> 1 \<le> credit WTBK HOME st \<and>
   st' = add_credit WTBK HOME (- 1) (st\<lparr>wtbkq_num := wtbkq_num st + 1\<rparr>)"
proof -
  have "credit t d (st\<lparr>wtbkq_num := k\<rparr>) = credit t d st" for t d k by (simp add: credit_def)
  then show ?thesis by (auto simp: reserve_wtbkq_def Let_def)
qed

lemma cpu_total_reserve: "reserve_wtbkq m st = Some st' \<Longrightarrow> cpu_total n st' = cpu_total n st"
proof -
  have "credit t d (st\<lparr>wtbkq_num := k\<rparr>) = credit t d st" for t d k by (simp add: credit_def)
  then show "reserve_wtbkq m st = Some st' \<Longrightarrow> cpu_total n st' = cpu_total n st"
    by (auto simp: reserve_wtbkq_Some cpu_total_def busy_def)
qed

section \<open>The ledger of the system\<close>

text \<open>The queued events that will return a home credit of core \<open>c\<close> on one of the channels \<open>ts\<close>.\<close>

definition credit_event :: "nat \<Rightarrow> nat \<Rightarrow> int list \<Rightarrow> 'd eventq_desc \<Rightarrow> bool" where
  "credit_event w c ts ev \<longleftrightarrow>
     (case ev_action ev of
        EventCallback4 f x y t d \<Rightarrow>
          f = Fn_update_credit \<and> d = int HOME \<and> x + y * int w = int c \<and> t \<in> set ts
      | _ \<Rightarrow> False)"

definition pending_credits :: "nat \<Rightarrow> int list \<Rightarrow> 'z sys_scheme \<Rightarrow> int" where
  "pending_credits c ts s = int (length (filter (credit_event (mesh_width s) c ts) (eventq_pending s)))"

definition missq_credits :: "int list" where "missq_credits = [int REQ, int INVN]"

definition wtbkq_credits :: "int list" where "wtbkq_credits = [int WTBK]"

definition ledger :: "'z sys_scheme \<Rightarrow> nat \<Rightarrow> int \<times> int \<times> int \<times> nat \<times> nat \<times> tick_t" where
  "ledger s c =
     (case cpu_total (missq_ifq_size s) (cpus s c) of (r, i, w, x, y) \<Rightarrow>
        (r + pending_credits c missq_credits s, i + pending_credits c missq_credits s,
         w + pending_credits c wtbkq_credits s, x, y))"

text \<open>\<open>moved c a k s s'\<close>: the totals of core \<open>c\<close> grew by \<open>a\<close> on the miss queue channels and by \<open>k\<close> on the
  write-back channel, those of the other cores stayed, and so did the geometry.\<close>

definition moved :: "nat \<Rightarrow> int \<Rightarrow> int \<Rightarrow> 'z sys_scheme \<Rightarrow> 'z sys_scheme \<Rightarrow> bool" where
  "moved c a k s s' \<longleftrightarrow> ledger s' = (ledger s)(c := shift a k (ledger s c)) \<and> mesh_width s' = mesh_width s \<and>
     missq_ifq_size s' = missq_ifq_size s \<and> wtbkq_ifq_size s' = wtbkq_ifq_size s"

definition balanced :: "'z sys_scheme \<Rightarrow> 'z sys_scheme \<Rightarrow> bool" where
  "balanced s s' \<longleftrightarrow> ledger s' = ledger s \<and> mesh_width s' = mesh_width s \<and>
     missq_ifq_size s' = missq_ifq_size s \<and> wtbkq_ifq_size s' = wtbkq_ifq_size s"

lemma moved_trans: "moved c a k s t \<Longrightarrow> moved c a' k' t u \<Longrightarrow> moved c (a + a') (k + k') s u"
  by (auto simp: moved_def add.commute)

lemma moved_0 [simp]: "moved c 0 0 s s' = balanced s s'"
  by (simp add: balanced_def moved_def)

lemma balanced_refl [simp]: "balanced s s"
  by (simp add: balanced_def moved_def)

lemma balanced_trans: "balanced s t \<Longrightarrow> balanced t u \<Longrightarrow> balanced s u"
  by (simp add: balanced_def moved_def)

lemma moved_balanced: "moved c a k s t \<Longrightarrow> balanced t u \<Longrightarrow> moved c a k s u"
  by (simp add: balanced_def moved_def)

lemma balanced_then_moved: "balanced s t \<Longrightarrow> moved c a k t u \<Longrightarrow> moved c a k s u"
  by (simp add: balanced_def moved_def)

lemma on_cpu_Some: "on_cpu c f s = Some s' \<longleftrightarrow> (\<exists>st. f (cpus s c) = Some st \<and> s' = upd_cpu c (\<lambda>_. st) s)"
  by (auto simp: on_cpu_def)

lemma moved_upd_cpu:
  assumes "cpu_total (missq_ifq_size s) (f (cpus s c)) = shift a k (cpu_total (missq_ifq_size s) (cpus s c))"
  shows "moved c a k s (upd_cpu c f s)"
  using assms
  by (cases "cpu_total (missq_ifq_size s) (cpus s c)")
    (auto simp: moved_def ledger_def pending_credits_def fun_eq_iff upd_cpu_def shift_def)

lemma balanced_upd_cpu:
  assumes "cpu_total (missq_ifq_size s) (f (cpus s c)) = cpu_total (missq_ifq_size s) (cpus s c)"
  shows "balanced s (upd_cpu c f s)"
  using moved_upd_cpu [of s f c 0 0] assms by simp

lemma balanced_frame:
  assumes "missq (f (cpus s c)) = missq (cpus s c)" "router (f (cpus s c)) = router (cpus s c)"
    "wtbkq_num (f (cpus s c)) = wtbkq_num (cpus s c)" "period (f (cpus s c)) = period (cpus s c)"
  shows "balanced s (upd_cpu c f s)"
  by (rule balanced_upd_cpu) (rule cpu_total_frame [OF assms])

lemma balanced_on_cpu:
  assumes "on_cpu c f s = Some s'"
    and "\<And>st'. f (cpus s c) = Some st' \<Longrightarrow> cpu_total (missq_ifq_size s) st' = cpu_total (missq_ifq_size s) (cpus s c)"
  shows "balanced s s'"
  using assms unfolding on_cpu_Some by (elim exE conjE) (simp add: balanced_upd_cpu)

text \<open>Queueing an event adds one to the count of its kind.\<close>

lemma filter_insert_event:
  "length (filter P (insert_event p new evs)) = length (filter P evs) + (if P new then 1 else 0)"
  by (induction evs) auto

lemma QUEUE_EVENT_inserts:
  assumes "QUEUE_EVENT whn act s = Some (i, s')"
  shows "\<exists>ev p free k. ev_action ev = act \<and> ev_when ev = whn \<and>
    s' = s\<lparr>eventq_free := free, next_ID := k, eventq_pending := insert_event p ev (eventq_pending s)\<rparr>"
proof -
  obtain fresh free where f: "(case eventq_free s of [] \<Rightarrow> (zero_desc, []) | d # ds \<Rightarrow> (d, ds)) = (fresh, free)"
    by (rule prod.exhaust)
  have "s' = s\<lparr>eventq_free := free, next_ID := next_ID s + 1, eventq_pending :=
      insert_event (if is_cpu_execute act then (\<lambda>ev. ev_when ev \<le> whn) else (\<lambda>ev. ev_when ev < whn))
        (fresh\<lparr>ev_when := whn, ev_id := next_ID s, ev_action := act\<rparr>) (eventq_pending s)\<rparr>"
    using assms by (auto simp: QUEUE_EVENT_def Let_def f split: if_splits)
  then show ?thesis
    by (intro exI [of _ "fresh\<lparr>ev_when := whn, ev_id := next_ID s, ev_action := act\<rparr>"] exI conjI) simp_all
qed
text \<open>Only an \<open>update_credit\<close> for the direction \<open>HOME\<close> counts.\<close>

fun home_credit :: "'d eventq_action \<Rightarrow> bool" where
  "home_credit (EventCallback4 f x y t d) = (f = Fn_update_credit \<and> d = int HOME)"
| "home_credit _ = False"

lemma credit_event_home: "\<not> home_credit (ev_action ev) \<Longrightarrow> \<not> credit_event w c ts ev"
  by (cases "ev_action ev") (auto simp: credit_event_def)

lemma balanced_queue:
  assumes "QUEUE_EVENT whn act s = Some (i, s')" and "\<not> home_credit act"
  shows "balanced s s'"
proof -
  obtain ev p free k where ev: "ev_action ev = act"
    and s': "s' = s\<lparr>eventq_free := free, next_ID := k, eventq_pending := insert_event p ev (eventq_pending s)\<rparr>"
    using QUEUE_EVENT_inserts [OF assms(1)] by blast
  have "\<not> credit_event w c ts ev" for w c ts by (rule credit_event_home) (simp add: ev assms(2))
  then have "pending_credits c ts s' = pending_credits c ts s" for c ts
    by (simp add: pending_credits_def s' filter_insert_event)
  then show ?thesis by (simp add: balanced_def moved_def ledger_def fun_eq_iff s')
qed

text \<open>A step leaves the clock, the periods and the queued cycles of the cores alone, and queues events at
  no time in the past.\<close>

definition forward_time :: "'z sys_scheme \<Rightarrow> bool" where
  "forward_time s \<longleftrightarrow> (\<forall>c. 0 \<le> period (cpus s c))"

text \<open>The queued cycles of the cores.\<close>

definition exec_events :: "'z sys_scheme \<Rightarrow> inputbuffer eventq_desc list" where
  "exec_events s = filter (\<lambda>e. is_cpu_execute (ev_action e)) (eventq_pending s)"

definition clocked :: "'z sys_scheme \<Rightarrow> 'z sys_scheme \<Rightarrow> bool" where
  "clocked s s' \<longleftrightarrow> sim_cycle s' = sim_cycle s \<and> (\<forall>c. period (cpus s' c) = period (cpus s c)) \<and>
     exec_events s' = exec_events s \<and> total_cpus s' = total_cpus s \<and> (forward_time s \<longrightarrow> queue_ok s \<longrightarrow> queue_ok s')"

lemma clocked_refl [simp]: "clocked s s"
  by (simp add: clocked_def)

lemma clocked_trans: "clocked s t \<Longrightarrow> clocked t u \<Longrightarrow> clocked s u"
  by (auto simp: clocked_def forward_time_def)

lemma transp_clocked: "transp clocked"
  by (rule transpI) (rule clocked_trans)

lemma reflp_clocked: "reflp clocked"
  by (rule reflpI) simp

lemma clocked_upd_cpu [simp]:
  "period (f (cpus s c)) = period (cpus s c) \<Longrightarrow> clocked s (upd_cpu c f s)"
  by (simp add: clocked_def queue_ok_def exec_events_def)

lemma clocked_pre: "clocked (upd_cpu c f s) s' \<Longrightarrow> period (f (cpus s c)) = period (cpus s c) \<Longrightarrow> clocked s s'"
  by (rule clocked_trans [OF clocked_upd_cpu])

lemma clocked_on_cpu:
  "on_cpu c f s = Some s' \<Longrightarrow> (\<And>st'. f (cpus s c) = Some st' \<Longrightarrow> period st' = period (cpus s c)) \<Longrightarrow> clocked s s'"
  by (auto simp: on_cpu_Some)

lemma clocked_event:
  assumes "QUEUE_EVENT whn act s = Some (i, s')" and "forward_time s \<Longrightarrow> sim_cycle s \<le> whn"
    and "\<not> is_cpu_execute act"
  shows "clocked s s'"
proof -
  have other: "filter P (insert_event p e es) = filter P es" if "\<not> P e" for P p e and es :: "inputbuffer eventq_desc list"
    using that by (induction es) auto
  have "exec_events s' = exec_events s"
    using QUEUE_EVENT_inserts [OF assms(1)] assms(3) by (auto simp: exec_events_def intro!: other)
  moreover
  have "sim_cycle s' = sim_cycle s" "cpus s' = cpus s" "total_cpus s' = total_cpus s" using QUEUE_EVENT_inserts [OF assms(1)] by auto
  ultimately show ?thesis using QUEUE_EVENT_ok [OF _ assms(1)] assms(2) by (simp add: clocked_def)
qed

lemma clocked_queue_credit: "queue_credit c type s = Some s' \<Longrightarrow> clocked s s'"
  by (auto simp: queue_credit_def eventq_queue_callback4_def dest: clocked_event)

lemma clocked_drop:
  assumes "drop_wtbkq c j s = Some s'"
  shows "clocked s s'"
proof -
  let ?s0 = "upd_cpu c (upd_wq j (\<lambda>w. w\<lparr>wq_valid := False\<rparr>)) s"
  from assms obtain s1 where q: "queue_credit c WTBK ?s0 = Some s1"
    and s': "on_cpu c (\<lambda>st. if wtbkq_num st - 1 \<ge> 0 then Some (st\<lparr>wtbkq_num := wtbkq_num st - 1\<rparr>) else None) s1 = Some s'"
    unfolding drop_wtbkq_def bind_eq_Some_conv by blast
  have "clocked s s1" by (rule clocked_pre [OF clocked_queue_credit [OF q]]) simp
  moreover have "clocked s1 s'" by (rule clocked_on_cpu [OF s']) (auto split: if_splits)
  ultimately show ?thesis by (rule clocked_trans)
qed

lemma clocked_replace_block:
  assumes "replace_block c which bindex paddr req inst iv ns s = Some (p, s')"
  shows "clocked s s'"
proof -
  obtain blk tag rp f s1 where 1: "replace_writeback c blk tag paddr rp inst iv s = Some s1"
    and s': "s' = upd_cpu c (upd_cache which f) s1 \<or>
      (\<exists>g. s' = upd_cpu c (upd_cache which f) (upd_cpu c (upd_cache which g) s1)) \<or>
      (\<exists>g h. s' = upd_cpu c (upd_cache which f) (upd_cpu c (upd_cache which g) (upd_cpu c (upd_cache which h) s1)))"
    using assms(1) by (fastforce simp: replace_block_def Let_def bind_eq_Some_conv split: if_splits)
  have "clocked s s1"
    using 1 by (auto simp: replace_writeback_def Let_def bind_eq_Some_conv on_cpu_Some dest!: clocked_queue_credit
        period_steps intro: clocked_pre split: if_splits)
  moreover have "clocked s1 s'"
    using s' clocked_trans clocked_upd_cpu by (metis period_frame(4))
  ultimately show ?thesis by (rule clocked_trans)
qed

text \<open>The router of core \<open>c\<close> sits at the position of core \<open>c\<close> in the mesh.\<close>

definition placed :: "nat \<Rightarrow> 'z sys_scheme \<Rightarrow> bool" where
  "placed c s \<longleftrightarrow> home_x (router (cpus s c)) + home_y (router (cpus s c)) * mesh_width s = c"

lemma placed_ledger: "placed c s \<longleftrightarrow> (case ledger s c of (r, i, w, x, y, t) \<Rightarrow> x + y * mesh_width s = c)"
  by (simp add: placed_def ledger_def cpu_total_def)

lemma placed_moved: "moved d a k s s' \<Longrightarrow> placed c s' = placed c s"
  by (cases "ledger s d") (auto simp: placed_ledger moved_def shift_def)

lemma moved_queue_credit:
  assumes "queue_credit c type s = Some s'" and "placed c s"
  shows "moved c (if type \<le> INVN then 1 else 0) (if type = WTBK then 1 else 0) s s'"
proof -
  let ?x = "int (home_x (router (cpus s c)))" and ?y = "int (home_y (router (cpus s c)))"
  obtain i where "QUEUE_EVENT (sim_cycle s) (EventCallback4 Fn_update_credit ?x ?y (int type) (int HOME)) s = Some (i, s')"
    using assms(1) by (auto simp: queue_credit_def eventq_queue_callback4_def)
  then obtain ev p free k where ev: "ev_action ev = EventCallback4 Fn_update_credit ?x ?y (int type) (int HOME)"
    and s': "s' = s\<lparr>eventq_free := free, next_ID := k, eventq_pending := insert_event p ev (eventq_pending s)\<rparr>"
    using QUEUE_EVENT_inserts by blast
  have at: "(?x + ?y * int (mesh_width s) = int d) = (d = c)" for d
    using assms(2) unfolding placed_def by (metis of_nat_add of_nat_eq_iff of_nat_mult)
  have "pending_credits d ts s' = pending_credits d ts s + (if d = c \<and> int type \<in> set ts then 1 else 0)" for d ts
    using at [of d] by (simp add: pending_credits_def s' filter_insert_event credit_event_def ev)
  then show ?thesis
    by (cases "cpu_total (missq_ifq_size s) (cpus s c)")
      (auto simp: moved_def ledger_def fun_eq_iff s' shift_def missq_credits_def wtbkq_credits_def)
qed

text \<open>A slot of the write-back queue that is given up: one write-back less, one credit event more.\<close>

lemma moved_wtbkq_num:
  assumes "on_cpu c (\<lambda>st. if wtbkq_num st - 1 \<ge> 0 then Some (st\<lparr>wtbkq_num := wtbkq_num st - 1\<rparr>) else None) s = Some s'"
  shows "moved c 0 (- 1) s s'"
proof -
  have s': "s' = upd_cpu c (\<lambda>_. (cpus s c)\<lparr>wtbkq_num := wtbkq_num (cpus s c) - 1\<rparr>) s"
    using assms unfolding on_cpu_Some by (auto split: if_splits)
  show ?thesis unfolding s' by (rule moved_upd_cpu) (simp add: cpu_total_def shift_def busy_def credit_def)
qed

lemma balanced_placed: "balanced s s' \<Longrightarrow> placed c s' = placed c s"
  using placed_moved [of 0 0 0 s s' c] by simp

lemma balanced_drop_wtbkq:
  assumes "drop_wtbkq c j s = Some s'" and "placed c s"
  shows "balanced s s'"
proof -
  let ?s0 = "upd_cpu c (upd_wq j (\<lambda>w. w\<lparr>wq_valid := False\<rparr>)) s"
  from assms(1) obtain s1 where q: "queue_credit c WTBK ?s0 = Some s1"
    and s': "on_cpu c (\<lambda>st. if wtbkq_num st - 1 \<ge> 0 then Some (st\<lparr>wtbkq_num := wtbkq_num st - 1\<rparr>) else None) s1 = Some s'"
    unfolding drop_wtbkq_def bind_eq_Some_conv by blast
  have 0: "balanced s ?s0" by (rule balanced_frame) (simp_all add: upd_wq_def)
  then have "placed c ?s0" using assms(2) by (simp add: balanced_placed)
  from moved_trans [OF moved_queue_credit [OF q this] moved_wtbkq_num [OF s']]
  show ?thesis using balanced_trans [OF 0] by simp
qed

text \<open>An entry of the miss queue that is released, in the two ways the code has.\<close>

lemma balanced_free_missq:
  assumes "free_missq c q type s = Some s'" and "placed c s" and "q < missq_ifq_size s" and "type \<le> INVN"
  shows "balanced s s'"
proof -
  from assms(1) obtain st where st: "missq_change_state q MQ_EMPTY (cpus s c) = Some st"
    and q: "queue_credit c type (upd_cpu c (\<lambda>st. st\<lparr>missq_num := missq_num st - 1\<rparr>) (upd_cpu c (\<lambda>_. st) s)) = Some s'"
    unfolding free_missq_def bind_eq_Some_conv on_cpu_Some by blast
  let ?s1 = "upd_cpu c (\<lambda>_. st) s" and ?s2 = "upd_cpu c (\<lambda>st. st\<lparr>missq_num := missq_num st - 1\<rparr>) (upd_cpu c (\<lambda>_. st) s)"
  have m1: "moved c (- 1) 0 s ?s1"
    by (rule moved_upd_cpu) (rule cpu_total_release [OF st assms(3)])
  have m2: "balanced ?s1 ?s2" by (rule balanced_frame) simp_all
  have "placed c ?s2" using assms(2) placed_moved [OF m1] balanced_placed [OF m2] by simp
  from moved_trans [OF moved_balanced [OF m1 m2] moved_queue_credit [OF q this]] assms(4)
  show ?thesis by simp
qed

text \<open>\<open>empty_missq\<close> does not look whether the entry is in use; releasing an unused one adds a credit.\<close>

lemma moved_empty_missq:
  assumes "empty_missq c type q s = Some s'" and "placed c s" and "type \<le> INVN"
  shows "moved c (if q < missq_ifq_size s \<and> mq_state (missq (cpus s c) q) \<noteq> MQ_EMPTY then 0 else 1) 0 s s'"
proof -
  let ?f = "\<lambda>st. (upd_mq q (\<lambda>m. m\<lparr>mq_state := MQ_EMPTY\<rparr>) st)\<lparr>missq_num := missq_num st - 1\<rparr>"
  let ?st = "cpus s c" and ?n = "missq_ifq_size s"
  let ?e = "q < ?n \<and> mq_state (missq ?st q) \<noteq> MQ_EMPTY"
  have q: "queue_credit c type (upd_cpu c ?f s) = Some s'" using assms(1) by (simp add: empty_missq_def)
  have "busy ?n (?f ?st) = busy ?n ?st - (if ?e then 1 else 0)"
    using busy_update [of "?f ?st" ?st q "(missq ?st q)\<lparr>mq_state := MQ_EMPTY\<rparr>" ?n] by auto
  then have m1: "moved c (if ?e then - 1 else 0) 0 s (upd_cpu c ?f s)"
    by (intro moved_upd_cpu) (simp add: cpu_total_def shift_def credit_def)
  have "placed c (upd_cpu c ?f s)" using assms(2) placed_moved [OF m1] by simp
  from moved_trans [OF m1 moved_queue_credit [OF q this]] assms(3)
  have "moved c ((if ?e then - 1 else 0) + 1) 0 s s'" by simp
  moreover have "(if ?e then - 1 else (0::int)) + 1 = (if ?e then 0 else 1)" by simp
  ultimately show ?thesis by (simp only:)
qed

text \<open>A replacement uses the reserved write-back slot or gives it up.\<close>

lemma balanced_replace_writeback:
  assumes "replace_writeback c blk tag paddr rp inst iv s = Some s'" and "placed c s"
  shows "balanced s s'"
proof (cases "\<not> iv \<and> blk_status blk = INVALID")
  case True
  then obtain s1 where 1: "on_cpu c (\<lambda>st. if wtbkq_num st - 1 \<ge> 0
      then Some (st\<lparr>wtbkq_num := wtbkq_num st - 1\<rparr>) else None) s = Some s1" and q: "queue_credit c WTBK s1 = Some s'"
    using assms(1) unfolding replace_writeback_def Let_def
    by (simp only: if_True if_False simp_thms bind_eq_Some_conv) (elim exE conjE)
  have "placed c s1" using assms(2) placed_moved [OF moved_wtbkq_num [OF 1]] by simp
  from moved_trans [OF moved_wtbkq_num [OF 1] moved_queue_credit [OF q this]] show ?thesis by simp
next
  case False
  have enter: "balanced s t" if run: "on_cpu c f s = Some t"
    and f: "\<And>st. f (cpus s c) = Some st \<Longrightarrow> \<exists>st0 n m q p i cs v. wtbkq_enter n m q p i cs v st0 = Some st \<and>
      cpu_total (missq_ifq_size s) st0 = cpu_total (missq_ifq_size s) (cpus s c)" for f t
    by (rule balanced_on_cpu [OF run]) (use f cpu_total_wtbkq_enter in metis)
  have b: "cpu_total n (bump k st) = cpu_total n st" for n k st by (rule cpu_total_frame) simp_all
  show ?thesis
  proof (cases iv)
    case True
    show ?thesis
      by (rule enter [OF assms(1) [unfolded replace_writeback_def Let_def if_P [OF True]]]) blast
  next
    case niv: False
    then have nv: "blk_status blk \<noteq> INVALID" using False by simp
    show ?thesis
      by (rule enter [OF assms(1) [unfolded replace_writeback_def Let_def if_not_P [OF niv] if_P [OF nv] comp_def]])
        (use b in blast)
  qed
qed

lemma cpu_total_upd_cache [simp]: "cpu_total n (upd_cache w f st) = cpu_total n st"
  by (rule cpu_total_frame) simp_all

lemma balanced_replace_block:
  assumes "replace_block c which bindex paddr req inst iv ns s = Some (p, s')" and "placed c s"
  shows "balanced s s'"
proof -
  obtain blk tag rp f s1 where 1: "replace_writeback c blk tag paddr rp inst iv s = Some s1"
    and s': "s' = upd_cpu c (upd_cache which f) s1 \<or>
      (\<exists>g. s' = upd_cpu c (upd_cache which f) (upd_cpu c (upd_cache which g) s1)) \<or>
      (\<exists>g h. s' = upd_cpu c (upd_cache which f) (upd_cpu c (upd_cache which g) (upd_cpu c (upd_cache which h) s1)))"
    using assms(1) by (fastforce simp: replace_block_def Let_def bind_eq_Some_conv split: if_splits)
  have up: "balanced t (upd_cpu c (upd_cache which g) t)" for t g by (rule balanced_upd_cpu) simp
  then have "balanced s1 s'" using s' balanced_trans by blast
  then show ?thesis using balanced_replace_writeback [OF 1 assms(2)] balanced_trans by blast
qed

section \<open>The parts of a cycle\<close>

lemma cpu_total_same:
  assumes "\<And>i. mq_state (missq st' i) = mq_state (missq st i)"
    "egress_credit (router st') = egress_credit (router st)" "home_x (router st') = home_x (router st)"
    "home_y (router st') = home_y (router st)" "wtbkq_num st' = wtbkq_num st" "period st' = period st"
  shows "cpu_total n st' = cpu_total n st"
  using assms by (simp add: cpu_total_def busy_def credit_def)

text \<open>A change of a core that the ledger does not see.\<close>

definition quiet :: "godson2_cpu \<Rightarrow> godson2_cpu \<Rightarrow> bool" where
  "quiet st st' \<longleftrightarrow> (\<forall>i. mq_state (missq st' i) = mq_state (missq st i)) \<and>
     egress_credit (router st') = egress_credit (router st) \<and> home_x (router st') = home_x (router st) \<and>
     home_y (router st') = home_y (router st) \<and> wtbkq_num st' = wtbkq_num st \<and> period st' = period st"

lemma quiet_refl [simp]: "quiet st st"
  by (simp add: quiet_def)

lemma quiet_trans: "quiet st st' \<Longrightarrow> quiet st' st'' \<Longrightarrow> quiet st st''"
  by (simp add: quiet_def)

lemma cpu_total_quiet: "quiet st st' \<Longrightarrow> cpu_total n st' = cpu_total n st"
  unfolding quiet_def by (intro cpu_total_same) auto

lemma quiet_upd_mq [simp]:
  "mq_state (f (missq st q)) = mq_state (missq st q) \<Longrightarrow> quiet st (upd_mq q f st)"
  by (simp add: quiet_def)

lemma quiet_bump [simp]: "quiet st (bump k st)"
  by (simp add: quiet_def)

lemma put_packet_frame [simp]:
  "egress_credit (put_packet n t d pk r) = egress_credit r" "home_x (put_packet n t d pk r) = home_x r"
  "home_y (put_packet n t d pk r) = home_y r"
  by (simp_all add: put_packet_def split: option.split)

lemma noc_request_effect:
  assumes "noc_request c t req cst qid dest paddr inst s = Some (taken, s')"
  shows "s' = s \<or> (\<exists>st. s' = upd_cpu c (\<lambda>_. st) s \<and> quiet (cpus s c) st)"
proof (cases "ingress_num (router (cpus s c)) t HOME \<ge> int (router_ifq_size s)")
  case True
  then show ?thesis using assms by (simp add: noc_request_def Let_def)
next
  case False
  then obtain pk where s': "s' = upd_cpu c (\<lambda>_. (bump (OfNoc (pack_sent t)) (bump (OfNoc (input_buffer_write_access t HOME))
      ((cpus s c)\<lparr>router := put_packet (router_ifq_size s) t HOME pk (router (cpus s c))\<rparr>)))
      \<lparr>router := add_num t HOME 1 (put_packet (router_ifq_size s) t HOME pk (router (cpus s c)))\<rparr>) s"
    using assms unfolding noc_request_def Let_def
    by (auto simp: bind_eq_Some_conv split: if_splits)
  show ?thesis unfolding s' by (intro disjI2 exI conjI) (rule refl, simp add: quiet_def)
qed

lemma scan_missq_quiet: "quiet st (snd (snd (scan_missq l is b st)))"
proof (induction "is" arbitrary: b st)
  case (Cons i "is")
  have "quiet st (upd_lsq l f st)" for f by (simp add: quiet_def upd_lsq_def)
  then show ?case by (auto simp: Let_def intro: quiet_trans [OF _ Cons.IH])
qed simp

lemma cpu_total_data_miss:
  assumes "data_miss n cores width e l st = Some st'" and "e < n"
  shows "cpu_total n st' = cpu_total n st"
proof -
  obtain x y st0 where scan: "scan_missq l [0..<n] False st = (x, y, st0)" by (rule prod_cases3)
  have 0: "cpu_total n st0 = cpu_total n st"
    using scan_missq_quiet [of st l "[0..<n]" False] unfolding scan by (intro cpu_total_quiet) simp
  obtain st1 where 1: "(if (x \<or> y) \<and> VALID_PADDR (lsq_paddr (lsq st0 l))
      then do { st \<leftarrow> missq_change_state e MQ_L1_MISS st0;
                let st = upd_mq e (new_miss False (lsq_set (lsq st0 l)) (lsq_req (lsq st0 l)) (cpuid st) (lsq_paddr (lsq st0 l))) st;
                owner \<leftarrow> PADDR_OWNER cores (lsq_paddr (lsq st0 l));
                Some (bump (OfLsq (l1dmiss_dist (miss_distance width owner (cpuid st)))) (st\<lparr>missq_num := missq_num st + 1\<rparr>)) }
      else Some st0) = Some st1"
    and st': "st' = bump (OfQueue dcache_read_low_level_count) (bump (OfQueue missq_access)
            ((upd_lsq l (\<lambda>e. e\<lparr>lsq_fetching := True\<rparr>) st1)\<lparr>lsq_missi := None\<rparr>))"
    using assms(1) unfolding data_miss_def scan Let_def prod.case by (auto simp: bind_eq_Some_conv)
  have "cpu_total n st1 = cpu_total n st0"
  proof (cases "(x \<or> y) \<and> VALID_PADDR (lsq_paddr (lsq st0 l))")
    case False
    then show ?thesis using 1 by (simp only: if_False option.inject)
  next
    case True
    then obtain st2 k where 2: "missq_change_state e MQ_L1_MISS st0 = Some st2"
      and st1: "st1 = bump k ((upd_mq e (new_miss False (lsq_set (lsq st0 l)) (lsq_req (lsq st0 l)) (cpuid st2) (lsq_paddr (lsq st0 l))) st2)
         \<lparr>missq_num := missq_num st2 + 1\<rparr>)"
      using 1 by (auto simp: bind_eq_Some_conv)
    have "cpu_total n st1 = cpu_total n st2"
      unfolding st1 by (rule cpu_total_same) (simp_all add: new_miss_def)
    also have "\<dots> = cpu_total n st0" by (rule cpu_total_change_state [OF 2]) (use assms(2) in simp_all)
    finally show ?thesis .
  qed
  moreover have "cpu_total n st' = cpu_total n st1"
    unfolding st' by (rule cpu_total_same) (simp_all add: upd_lsq_def)
  ultimately show ?thesis using 0 by simp
qed

lemma cpu_total_inst_miss:
  assumes "inst_miss e st = Some st'" and "e < n"
  shows "cpu_total n st' = cpu_total n st"
proof -
  obtain st1 where 1: "(if VALID_PADDR (irep_paddr (irepbuf st))
      then do { st \<leftarrow> missq_change_state e MQ_L1_MISS st;
                let st = upd_mq e (new_miss True (irep_set (irepbuf st)) READ_SHD (cpuid st) (irep_paddr (irepbuf st))) st;
                Some (st\<lparr>missq_num := missq_num st + 1\<rparr>) }
      else Some st) = Some st1"
    and st': "st' = bump (OfQueue icache_read_low_level_count) (bump (OfQueue missq_access)
            (st1\<lparr>irepbuf := (irepbuf st1)\<lparr>irep_state := IREP_REFILL\<rparr>\<rparr>))"
    using assms(1) unfolding inst_miss_def by (auto simp: bind_eq_Some_conv)
  have "cpu_total n st1 = cpu_total n st"
  proof (cases "VALID_PADDR (irep_paddr (irepbuf st))")
    case False
    then show ?thesis using 1 by simp
  next
    case True
    then obtain st2 where 2: "missq_change_state e MQ_L1_MISS st = Some st2"
      and st1: "st1 = (upd_mq e (new_miss True (irep_set (irepbuf st2)) READ_SHD (cpuid st2) (irep_paddr (irepbuf st2))) st2)
         \<lparr>missq_num := missq_num st2 + 1\<rparr>"
      using 1 by (auto simp: bind_eq_Some_conv Let_def)
    have "cpu_total n st1 = cpu_total n st2"
      unfolding st1 by (rule cpu_total_same) (simp_all add: new_miss_def)
    also have "\<dots> = cpu_total n st" by (rule cpu_total_change_state [OF 2]) (use assms(2) in simp_all)
    finally show ?thesis .
  qed
  moreover have "cpu_total n st' = cpu_total n st1" unfolding st' by (rule cpu_total_same) simp_all
  ultimately show ?thesis by simp
qed

lemma pick_state_Some: "pick_state n k st = Some i \<Longrightarrow> i < n \<and> mq_state (missq st i) = k"
  unfolding pick_state_def by (rule ring_scan_Some)

lemma cpu_total_enter_miss:
  assumes "enter_miss n cores width L st = Some st'" and "\<And>e. emptyi L = Some e \<Longrightarrow> e < n"
  shows "cpu_total n st' = cpu_total n st"
  using assms cpu_total_data_miss cpu_total_inst_miss
  by (fastforce simp: enter_miss_def split: option.splits if_splits)

lemma issue_scan_quiet: "quiet st (snd (issue_scan n cores q is b st))"
proof (induction "is" arbitrary: b st)
  case (Cons i "is")
  have l: "quiet st st' \<Longrightarrow> quiet st (st'\<lparr>lasti := x\<rparr>)" for x st st' by (simp add: quiet_def)
  have "quiet st (upd_mq q (\<lambda>m. m\<lparr>lsconten := True\<rparr>) (bump k st))" for k
    by (simp add: quiet_def)
  then show ?case by (auto simp: Let_def intro!: quiet_trans [OF _ Cons.IH] l)
qed simp
lemma balanced_quiet: "quiet (cpus s c) (f (cpus s c)) \<Longrightarrow> balanced s (upd_cpu c f s)"
  by (rule balanced_upd_cpu) (rule cpu_total_quiet)

lemma balanced_on_cpu_quiet:
  "on_cpu c f s = Some s' \<Longrightarrow> (\<And>st'. f (cpus s c) = Some st' \<Longrightarrow> quiet (cpus s c) st') \<Longrightarrow> balanced s s'"
  by (rule balanced_on_cpu) (auto intro: cpu_total_quiet)

lemma balanced_change:
  assumes "on_cpu c (missq_change_state q new) s = Some s'" and "new \<noteq> MQ_EMPTY"
    and "q < missq_ifq_size s \<or> mq_state (missq (cpus s c) q) \<noteq> MQ_EMPTY"
  shows "balanced s s'"
  by (rule balanced_on_cpu [OF assms(1)]) (rule cpu_total_change_state [OF _ assms(2,3)])

lemma balanced_size: "balanced s s' \<Longrightarrow> missq_ifq_size s' = missq_ifq_size s"
  by (simp add: balanced_def)

text \<open>A run never loses credits if the router of the acting core is in its place. All parts but one keep
  the totals; the exception is \<open>external_modify\<close>.\<close>

definition kept :: "nat \<Rightarrow> 'z sys_scheme \<Rightarrow> 'z sys_scheme \<Rightarrow> bool" where
  "kept c s s' \<longleftrightarrow> missq_ifq_size s' = missq_ifq_size s \<and> clocked s s' \<and> (placed c s \<longrightarrow> (\<exists>a\<ge>0. moved c a 0 s s'))"

lemma keptI:
  "missq_ifq_size s' = missq_ifq_size s \<Longrightarrow> clocked s s' \<Longrightarrow> (placed c s \<Longrightarrow> moved c a 0 s s') \<Longrightarrow> 0 \<le> a \<Longrightarrow>
   kept c s s'"
  by (auto simp: kept_def)

lemma kept_balanced:
  "missq_ifq_size s' = missq_ifq_size s \<Longrightarrow> clocked s s' \<Longrightarrow> (placed c s \<Longrightarrow> balanced s s') \<Longrightarrow> kept c s s'"
  by (rule keptI [of _ _ _ 0]) (simp_all add: moved_0)

lemma kept_size: "kept c s s' \<Longrightarrow> missq_ifq_size s' = missq_ifq_size s"
  by (simp add: kept_def)

lemma reflp_kept: "reflp (kept c)"
  by (rule reflpI) (rule kept_balanced; simp)

lemma transp_kept: "transp (kept c)"
proof (rule transpI)
  fix s t u assume st: "kept c s t" and tu: "kept c t u"
  show "kept c s u"
  proof (cases "placed c s")
    case False
    then show ?thesis using st tu clocked_trans by (auto simp: kept_def)
  next
    case True
    then obtain a where a: "0 \<le> a" "moved c a 0 s t" using st by (auto simp: kept_def)
    with True have "placed c t" by (simp add: placed_moved)
    then obtain b where "0 \<le> b" "moved c b 0 t u" using tu by (auto simp: kept_def)
    then have "moved c (a + b) (0 + 0) s u" using a moved_trans by blast
    moreover have "0 \<le> a + b" using a \<open>0 \<le> b\<close> by simp
    ultimately have "\<exists>k\<ge>0. moved c k 0 s u" by auto
    then show ?thesis using st tu clocked_trans by (auto simp: kept_def)
  qed
qed

lemmas kept_bind = steps_bind [OF transp_kept] steps2_bind [OF transp_kept]
lemmas kept_bind2 = steps_bind2 [OF transp_kept] steps2_bind2 [OF transp_kept]
lemmas kept_from = steps_from [OF transp_kept] steps2_from [OF transp_kept]
lemmas kept_map = steps_map [OF transp_kept]
lemmas kept_fold = steps_fold [OF reflp_kept transp_kept]

lemma kept_refl [simp]: "kept c s s"
  using reflp_kept by (rule reflpD)

text \<open>The primitive steps.\<close>

lemma size_on_cpu: "on_cpu c f s = Some s' \<Longrightarrow> missq_ifq_size s' = missq_ifq_size s"
  by (auto simp: on_cpu_Some)

lemma size_event: "QUEUE_EVENT whn act s = Some (i, s') \<Longrightarrow> missq_ifq_size s' = missq_ifq_size s"
  by (auto dest!: QUEUE_EVENT_inserts)

lemma size_queue_credit: "queue_credit c type s = Some s' \<Longrightarrow> missq_ifq_size s' = missq_ifq_size s"
  by (auto simp: queue_credit_def eventq_queue_callback4_def dest: size_event)

lemma kept_upd: "quiet (cpus s d) (f (cpus s d)) \<Longrightarrow> kept c s (upd_cpu d f s)"
  by (intro kept_balanced balanced_quiet) (simp_all add: quiet_def)

lemma cpu_total_period: "cpu_total n st' = cpu_total n st \<Longrightarrow> period st' = period st"
  by (simp add: cpu_total_def)

lemma kept_upd_total:
  "cpu_total (missq_ifq_size s) (f (cpus s d)) = cpu_total (missq_ifq_size s) (cpus s d) \<Longrightarrow>
   kept c s (upd_cpu d f s)"
  by (rule kept_balanced) (simp, rule clocked_upd_cpu, erule cpu_total_period, erule balanced_upd_cpu)

lemma kept_period: "kept c s s' \<Longrightarrow> period (cpus s' d) = period (cpus s d)"
  by (simp add: kept_def clocked_def)

lemma forward_delay:
  "forward_time s \<Longrightarrow> sim_cycle s \<le> sim_cycle s + L2_write_delay * period (cpus s c)"
  "forward_time s \<Longrightarrow> sim_cycle s \<le> sim_cycle s + L2_probe_delay * period (cpus s c)"
  by (simp_all add: forward_time_def L2_write_delay_def L2_probe_delay_def)

lemma kept_on_cpu:
  "(\<And>st'. f (cpus s d) = Some st' \<Longrightarrow> cpu_total (missq_ifq_size s) st' = cpu_total (missq_ifq_size s) (cpus s d)) \<Longrightarrow>
   steps (kept c) s (on_cpu d f s)"
  unfolding steps_def by (intro allI impI kept_balanced) (auto intro: balanced_on_cpu clocked_on_cpu cpu_total_period dest: size_on_cpu)

lemma kept_noc: "steps2 (kept c) s (noc_request d t req cst qid dest paddr inst s)"
  unfolding steps2_def
proof (intro allI impI)
  fix taken s' assume "noc_request d t req cst qid dest paddr inst s = Some (taken, s')"
  from noc_request_effect [OF this] show "kept c s s'" by (auto intro: kept_upd)
qed

lemma kept_event:
  "\<not> home_credit act \<Longrightarrow> \<not> is_cpu_execute act \<Longrightarrow> (forward_time s \<Longrightarrow> sim_cycle s \<le> whn) \<Longrightarrow>
   steps2 (kept c) s (QUEUE_EVENT whn act s)"
  unfolding steps2_def
  by (intro allI impI kept_balanced) (auto intro: balanced_queue dest: size_event clocked_event)

lemma kept_change:
  "new \<noteq> MQ_EMPTY \<Longrightarrow> q < missq_ifq_size s \<or> mq_state (missq (cpus s d) q) \<noteq> MQ_EMPTY \<Longrightarrow>
   steps (kept c) s (on_cpu d (missq_change_state q new) s)"
  by (rule kept_on_cpu) (rule cpu_total_change_state)

lemma kept_drop: "steps (kept c) s (drop_wtbkq c j s)"
  unfolding steps_def
proof (intro allI impI kept_balanced)
  fix s' assume run: "drop_wtbkq c j s = Some s'"
  then show "missq_ifq_size s' = missq_ifq_size s"
    by (auto simp: drop_wtbkq_def bind_eq_Some_conv dest!: size_on_cpu size_queue_credit)
  show "placed c s \<Longrightarrow> balanced s s'" by (rule balanced_drop_wtbkq [OF run])
  show "clocked s s'" by (rule clocked_drop [OF run])
qed

lemma kept_free: "q < missq_ifq_size s \<Longrightarrow> type \<le> INVN \<Longrightarrow> steps (kept c) s (free_missq c q type s)"
  unfolding steps_def
proof (intro allI impI kept_balanced)
  fix s' assume q: "q < missq_ifq_size s" "type \<le> INVN" and run: "free_missq c q type s = Some s'"
  show "missq_ifq_size s' = missq_ifq_size s"
    using run by (auto simp: free_missq_def bind_eq_Some_conv dest!: size_on_cpu size_queue_credit)
  show "placed c s \<Longrightarrow> balanced s s'" using balanced_free_missq [OF run _ q] .
  show "clocked s s'"
    using run by (auto simp: free_missq_def bind_eq_Some_conv on_cpu_Some dest!: clocked_queue_credit period_steps
        dest: clocked_pre)
qed

lemma kept_empty: "type \<le> INVN \<Longrightarrow> steps (kept c) s (empty_missq c type q s)"
  unfolding steps_def
proof (intro allI impI keptI)
  fix s' assume q: "type \<le> INVN" and run: "empty_missq c type q s = Some s'"
  show "missq_ifq_size s' = missq_ifq_size s"
    using run by (auto simp: empty_missq_def dest!: size_queue_credit)
  show "clocked s s'"
    using run by (auto simp: empty_missq_def dest!: clocked_queue_credit intro: clocked_pre)
  show "placed c s \<Longrightarrow>
      moved c (if q < missq_ifq_size s \<and> mq_state (missq (cpus s c) q) \<noteq> MQ_EMPTY then 0 else 1) 0 s s'"
    using moved_empty_missq [OF run _ q] .
qed simp

lemma kept_replace_icache: "steps (kept c) s (replace_icache c paddr iv s)"
  unfolding replace_icache_def
proof (rule steps_snd, unfold steps2_def, intro allI impI kept_balanced)
  fix p s' assume run: "replace_block c Icache (irep_way (irepbuf (cpus s c))) paddr NO_REQ True iv UNTOUCHED s = Some (p, s')"
  show "placed c s \<Longrightarrow> balanced s s'" by (rule balanced_replace_block [OF run])
  show "clocked s s'" by (rule clocked_replace_block [OF run])
  show "missq_ifq_size s' = missq_ifq_size s"
    using run
    by (auto simp: replace_block_def replace_writeback_def Let_def bind_eq_Some_conv
        dest!: size_on_cpu size_queue_credit split: if_splits)
qed

lemmas kept_prims = kept_noc kept_change kept_drop kept_free kept_empty kept_replace_icache

section \<open>Every part of a cycle\<close>

lemma pick_less: "pick_state n k st = Some i \<Longrightarrow> i < n"
  using pick_state_Some by blast

definition picks :: "nat \<Rightarrow> c2m_locals \<Rightarrow> bool" where
  "picks n L \<longleftrightarrow> (\<forall>q. q \<in> {x. emptyi L = Some x \<or> L1_missi L = Some x \<or> read_L2i L = Some x \<or>
     modify_L1i L = Some x \<or> replace_L1i L = Some x \<or> extrdyi L = Some x \<or> L2_missi L = Some x \<or>
     memrefi L = Some x \<or> refill_L2i L = Some x} \<longrightarrow> q < n)"

lemma picks_select: "picks n (select_entries n st)"
  by (auto simp: picks_def select_entries_def Let_def dest: pick_less)

text \<open>The events that the cycle queues, other than credits.\<close>

lemma kept_callback:
  "f \<noteq> Fn_update_credit \<Longrightarrow> (forward_time s \<Longrightarrow> sim_cycle s \<le> whn) \<Longrightarrow>
    steps (kept c) s (map_option snd (eventq_queue_callback4 whn f a b d e s))"
  "(forward_time s \<Longrightarrow> sim_cycle s \<le> whn) \<Longrightarrow> steps (kept c) s (map_option snd (eventq_queue_callback2 whn f a b s))"
  "(forward_time s \<Longrightarrow> sim_cycle s \<le> whn) \<Longrightarrow>
    steps (kept c) s (map_option snd (eventq_queue_callback5 whn f a b d e g s))"
  by (simp_all add: eventq_queue_callback2_def eventq_queue_callback4_def eventq_queue_callback5_def
      steps_snd kept_event)

lemma kept_issue_miss:
  assumes "picks (missq_ifq_size s) L"
  shows "steps2 (kept c) s (issue_miss c L s)"
proof (cases "L1_missi L")
  case None
  then show ?thesis by (simp add: issue_miss_def)
next
  case (Some q)
  then have q: "q < missq_ifq_size s" using assms by (auto simp: picks_def)
  let ?n = "missq_ifq_size s"
  obtain same st where scan: "issue_scan ?n (total_cpus s) q [0..<?n] False (cpus s c) = (same, st)"
    by (rule prod.exhaust)
  let ?s0 = "upd_cpu c (\<lambda>_. st) s"
  have 0: "kept c s ?s0"
    using issue_scan_quiet [of "cpus s c" ?n "total_cpus s" q "[0..<?n]" False] scan by (intro kept_upd) simp
  have q0: "q < missq_ifq_size ?s0" using q by simp
  show ?thesis
    unfolding issue_miss_def Let_def Some option.case scan prod.case
    apply (rule steps_if)
     apply simp
    apply (rule steps2_read)
    apply (simp only: steps_assertion, rule impI)
    apply (rule kept_from(2) [OF 0])
    apply (rule steps_if)
     apply simp
    apply (rule steps_if)
     apply (rule kept_bind(2) [OF kept_change])
       apply simp
      using q0 apply simp
     apply (rule kept_from(2) [OF kept_upd [where d = c and f = "upd_mq q (\<lambda>m. m\<lparr>read_local_l2 := True\<rparr>)"]])
      apply simp
     apply (rule kept_bind(2) [OF kept_callback(1)])
       apply simp
      apply (drule kept_period [where d = c])
      apply (drule forward_delay(2) [where c = c])
      apply simp
     apply (simp add: kept_upd quiet_def)
    apply (rule kept_bind2(2) [OF kept_noc])
    apply (simp only: prod.case)
    apply (rule steps_if)
     apply (rule kept_bind(2) [OF kept_change])
       apply simp
      using q0 apply (simp add: kept_size)
     apply (simp add: kept_upd quiet_def)
    apply simp
    done
qed

lemma on_cpu_const: "on_cpu c (\<lambda>st. Some (f st)) s = Some (upd_cpu c f s)"
  by (simp add: on_cpu_def upd_cpu_def)

lemma cpu_total_add_mq:
  "(\<And>m. mq_state (f m) = mq_state m) \<Longrightarrow> cpu_total n (upd_mq q f st) = cpu_total n st"
  by simp

lemma copy_directory_state [simp]: "mq_state (copy_directory n d i m) = mq_state m"
  by (simp add: copy_directory_def)

lemma cpu_total_L2 [simp]: "cpu_total n (st\<lparr>cache_dl2 := cp\<rparr>) = cpu_total n st"
  by (rule cpu_total_frame) simp_all

lemma cpu_total_bump [simp]: "cpu_total n (bump k st) = cpu_total n st"
  by (rule cpu_total_frame) simp_all

lemma cpu_total_start_modify:
  assumes "start_modify n qid blk idir t st = Some st'" and "qid < k"
  shows "cpu_total k st' = cpu_total k st"
  using assms by (auto simp: start_modify_def bind_eq_Some_conv Let_def cpu_total_change_state)

lemma cpu_total_grant_shared:
  assumes "grant_shared n qid blk st = Some st'" and "qid < k"
  shows "cpu_total k st' = cpu_total k st"
  using assms cpu_total_change_state [of qid "if cpuid st = mq_cpuid (missq st qid) then MQ_REPLACE_L1 else MQ_EXTRDY" st _ k]
  by (auto simp: grant_shared_def bind_eq_Some_conv Let_def split: if_splits)

lemma cpu_total_probe_miss:
  assumes "probe_miss n now qid paddr st = Some st'" and "qid < k"
  shows "cpu_total k st' = cpu_total k st"
  using assms by (auto simp: probe_miss_def bind_eq_Some_conv Let_def cpu_total_change_state)

lemma cpu_total_wait [simp]: "cpu_total k (wait_response qid st) = cpu_total k st"
  by (simp add: wait_response_def)

lemma cpu_total_clear [simp]: "cpu_total k (clear_read_local qid st) = cpu_total k st"
  by (simp add: clear_read_local_def)

lemma cpu_total_scache_probe:
  assumes "scache_probe_cpu n now req qid paddr st = Some st'" and "qid < k"
  shows "cpu_total k st' = cpu_total k st"
  using assms
  by (auto simp: scache_probe_cpu_def probe_exclusive_def probe_shared_def Let_def bind_eq_Some_conv
      split: option.splits if_splits
      dest: cpu_total_start_modify cpu_total_grant_shared cpu_total_probe_miss)

lemma kept_scache_probe: "q < missq_ifq_size s \<Longrightarrow> steps (kept c) s (scache_probe d req q paddr s)"
  unfolding scache_probe_def by (rule kept_on_cpu) (rule cpu_total_scache_probe)

lemma steps_when:
  "reflp R \<Longrightarrow> (\<And>q. x = Some q \<Longrightarrow> steps R s (f q s)) \<Longrightarrow> steps R s (when_some x f s)"
  by (cases x) (simp_all add: when_some_def reflpD)

lemmas kept_when = steps_when [OF reflp_kept]

lemma kept_reprobe: "picks (missq_ifq_size s) L \<Longrightarrow> steps (kept c) s (reprobe c L s)"
  unfolding reprobe_def by (rule kept_when) (auto simp: Let_def picks_def intro: kept_scache_probe)

lemma kept_upd_from: "kept c s t \<Longrightarrow> quiet (cpus t d) (f (cpus t d)) \<Longrightarrow> kept c s (upd_cpu d f t)"
  using kept_upd transp_kept unfolding transp_def by blast

lemmas kept_prims_from = kept_from(2) [OF _ kept_noc] kept_from(1) [OF _ kept_change]
  kept_from(1) [OF _ kept_drop] kept_from(1) [OF _ kept_free] kept_from(1) [OF _ kept_empty]
  kept_from(1) [OF _ kept_replace_icache] kept_from(1) [OF _ kept_callback(1)]
  kept_from(1) [OF _ kept_callback(2)] kept_from(1) [OF _ kept_callback(3)] kept_from(1) [OF _ kept_on_cpu]

lemma quiet_fold:
  assumes "\<And>i st. quiet st (f i st)"
  shows "quiet st (fold f is st)"
  by (induction "is" arbitrary: st) (auto intro: quiet_trans [OF assms])

lemma quiet_check_conflicts: "quiet st (check_conflicts n q st)"
proof -
  have "quiet st (note_conflict q i st)" for i st
    by (simp add: note_conflict_def Let_def quiet_def)
  then have "quiet st (fold (note_conflict q) is (upd_mq q (\<lambda>m. m\<lparr>invn_match_i1 := None, invn_match_i2 := None\<rparr>) st))"
    for "is" by (intro quiet_trans [OF _ quiet_fold]) simp_all
  then show ?thesis by (simp add: check_conflicts_def) (simp add: quiet_def)
qed

lemma kept_check_wtbkq:
  assumes "q < missq_ifq_size s"
  shows "steps2 (kept c) s (check_wtbkq c q s)"
  unfolding check_wtbkq_def Let_def
  apply (rule steps_if)
   apply simp
  apply (rule steps_option)
   apply (simp add: kept_upd)
  apply (rule kept_bind(2))
   apply (rule steps_if)
    apply (simp add: kept_upd)
   apply (rule kept_prims_from)
   apply (simp add: kept_upd)
  apply (rule kept_bind(2) [OF kept_change])
    apply simp
   apply (simp add: assms kept_size)
  apply (simp add: kept_upd)
  done

lemma kept_send_invns: "steps (kept c) s (send_invns c q itype paddr is s)"
proof (induction "is" arbitrary: s)
  case (Cons i "is")
  have taken: "steps2 (kept c) t (if b then noc_request c INVN itype 0 q i paddr inst t else Some (False, t))" for b inst t
    by (rule steps_if) (simp_all add: kept_noc)
  show ?case
    unfolding send_invns.simps Let_def
    apply (rule kept_bind2(1) [OF taken], unfold prod.case)
    apply (rule steps_if)
     apply (simp add: kept_upd set_data_sent_def)
    apply (rule steps_read)
    apply (rule kept_bind2(1) [OF taken], unfold prod.case)
    apply (rule steps_if)
     apply (simp add: kept_upd set_inst_sent_def)
    apply (rule Cons.IH)
    done
qed simp

lemma cpu_total_finish_modify:
  assumes "finish_modify n q st = Some st'" and "q < k"
  shows "cpu_total k st' = cpu_total k st"
  using assms
  by (auto simp: finish_modify_def Let_def split: option.splits dest!: cpu_total_change_state [where n = k])

lemma kept_map2:
  "steps2 (kept c) s m \<Longrightarrow> (\<And>t. kept c t (f t)) \<Longrightarrow> steps2 (kept c) s (map_option (map_prod id f) m)"
  unfolding steps2_def by (auto simp: map_option_eq_Some intro: transpD [OF transp_kept])

lemma kept_modify_L1:
  assumes "picks (missq_ifq_size s) L"
  shows "steps2 (kept c) s (modify_L1 c L s)"
  unfolding modify_L1_def Let_def
  apply (rule steps_option)
   apply simp
  apply (rule steps_if)
   prefer 2
   apply (rule kept_bind(2) [OF kept_send_invns])
   apply (rule kept_bind(2))
    apply (rule steps_if)
     apply (rule kept_on_cpu)
     apply (erule cpu_total_finish_modify)
     using assms apply (simp add: picks_def kept_size)
    apply simp
   apply (simp add: kept_upd quiet_def)
  apply (rule kept_map2)
   apply (rule kept_from(2) [OF _ kept_check_wtbkq])
    apply (rule kept_upd, rule quiet_check_conflicts)
   using assms apply (simp add: picks_def)
  apply (simp add: kept_upd quiet_def)
  done

lemma memq_enter_quiet: "memq_enter n rd i st = Some (b, st') \<Longrightarrow> quiet st st'"
  by (auto simp: memq_enter_def memq_get_from_free_list_def quiet_def split: if_splits option.splits list.splits)

lemma cpu_total_memq:
  assumes "map_option (\<lambda>(b, st). upd_mq q (f b) st) (memq_enter n rd q st) = Some st'"
    and "\<And>b m. mq_state (f b m) = mq_state m"
  shows "cpu_total k st' = cpu_total k st"
  using assms by (auto dest!: memq_enter_quiet cpu_total_quiet [where n = k])

lemma kept_L2_miss:
  assumes "picks (missq_ifq_size s) L"
  shows "steps (kept c) s (L2_miss c L s)"
  unfolding L2_miss_def Let_def
  apply (rule kept_when)
  apply (rule steps_read)
  apply (rule kept_bind(1))
   apply (rule steps_if)
    apply (rule kept_send_invns)
   apply simp
  apply (rule kept_bind(1))
   apply (rule steps_if)
    apply simp
   apply (rule kept_on_cpu, erule cpu_total_memq, simp)
  apply (rule steps_if)
   apply (rule kept_on_cpu)
   apply (clarsimp simp: map_option_eq_Some)
   apply (erule cpu_total_change_state)
    apply simp
   using assms apply (simp add: picks_def kept_size)
  apply simp
  done

lemma kept_memref:
  assumes "picks (missq_ifq_size s) L"
  shows "steps (kept c) s (memref c L s)"
  unfolding memref_def
  apply (rule kept_when)
  apply (rule steps_if)
   apply (rule kept_on_cpu)
   apply (clarsimp simp: map_option_eq_Some)
   apply (erule cpu_total_change_state)
    apply simp
   using assms apply (simp add: picks_def)
  apply simp
  done

lemma kept_refill_L2: "steps (kept c) s (refill_L2 c L s)"
  unfolding refill_L2_def Let_def
  apply (rule kept_when)
  apply (rule steps_read)
  apply (rule steps_if)
   apply (rule steps_if)
    apply simp
   apply (rule kept_bind(1) [OF kept_callback(2)], erule forward_delay)
   apply (simp add: kept_upd quiet_def)
  apply (rule kept_on_cpu, erule cpu_total_memq, simp)
  done

lemma kept_scache_writeback: "steps (kept c) s (scache_writeback d rc req paddr inst s)"
  unfolding scache_writeback_def
  by (rule kept_on_cpu) (auto simp: scache_writeback_cpu_def Let_def split: if_splits)

lemma ack_by_writeback_state: "ack_by_writeback w m = Some m' \<Longrightarrow> mq_state m' = mq_state m"
  by (auto simp: ack_by_writeback_def set_inst_ack_def set_inst_sent_def split: if_splits)

lemma kept_wtbk_meets: "steps2 (kept c) s (wtbk_meets c j paddr i issue s)"
  unfolding wtbk_meets_def Let_def
  apply (rule steps_if)
   apply (rule steps_if)
    apply (rule steps_if)
     apply simp
    apply (rule steps_if)
     apply (rule kept_bind(2))
      apply (rule kept_from(1) [OF _ kept_scache_writeback])
      apply (simp add: kept_upd)
     apply (rule steps2_Pair, rule kept_drop)
    apply simp
   apply (rule steps2_read)
   apply (rule steps2_Pair, rule kept_prims_from)
   apply (simp add: kept_upd ack_by_writeback_state)
  apply simp
  done

lemma kept_wtbk_scan: "steps2 (kept c) s (wtbk_scan c j paddr is issue s)"
proof (induction "is" arbitrary: issue s)
  case (Cons i "is")
  have "steps2 (kept c) s (wtbk_meets c j paddr i issue s \<bind> (\<lambda>(issue, s). wtbk_scan c j paddr is issue s))"
    by (rule kept_bind2(2) [OF kept_wtbk_meets], unfold prod.case) (rule Cons.IH)
  moreover have "wtbk_scan c j paddr (i # is) issue s =
      wtbk_meets c j paddr i issue s \<bind> (\<lambda>(issue, s). wtbk_scan c j paddr is issue s)"
    by (cases "wtbk_meets c j paddr i issue s") auto
  ultimately show ?case by (simp only:)
qed simp

lemma kept_wtbk_local: "steps (kept c) s (wtbk_local c j port s)"
  unfolding wtbk_local_def Let_def
  apply (rule kept_bind2(1) [OF kept_wtbk_scan], unfold prod.case)
  apply (rule steps_if)
   apply (rule kept_bind(1) [OF kept_callback(3)], erule forward_delay)
   apply (rule kept_drop)
  apply simp
  done

lemma cpu_total_answer:
  assumes "answer_intervention j paddr is found st = Some (b, st')" and "\<forall>i\<in>set is. i < n"
  shows "cpu_total n st' = cpu_total n st"
  using assms
proof (induction "is" arbitrary: found st)
  case (Cons i "is")
  then show ?case
    by (auto simp: Let_def bind_eq_Some_conv dest!: cpu_total_change_state [where n = n] split: if_splits)
qed simp

lemma kept_wtbk_remote: "steps (kept c) s (wtbk_remote c j s)"
  unfolding wtbk_remote_def Let_def
  apply (rule steps_if)
   apply (rule steps_read)
   apply (clarsimp simp: case_prod_beta)
   apply (rule kept_prims_from)
   apply (rule kept_upd_total, erule cpu_total_answer)
   apply simp
  apply (rule kept_bind2(1) [OF kept_noc], unfold prod.case)
  apply (rule steps_if)
   apply (rule kept_map [OF kept_drop])
   apply (simp add: kept_upd)
  apply simp
  done

lemma kept_drain_wtbkq: "steps2 (kept c) s (drain_wtbkq c port s)"
  unfolding drain_wtbkq_def Let_def
  apply (rule steps2_Pair)
  apply (rule kept_from(1) [OF _ kept_when])
   apply (simp add: kept_upd quiet_def)
  apply (rule steps_read)
  apply (rule steps_if)
   apply (rule kept_wtbk_local)
  apply (rule kept_wtbk_remote)
  done

lemma kept_external_ready:
  assumes "picks (missq_ifq_size s) L"
  shows "steps (kept c) s (external_ready c L s)"
proof -
  have free: "steps (kept c) t (if taken then free_missq c q type t else Some t)"
    if "kept c s t" "extrdyi L = Some q" "type \<le> INVN" for t taken q type
    using assms that by (intro steps_if kept_free) (auto simp: picks_def kept_size)
  show ?thesis
    unfolding external_ready_def Let_def
    apply (rule kept_when)
    apply (rule steps_if)
     apply (simp only: steps_assertion, rule impI)
     apply (rule kept_bind2(1) [OF kept_noc], unfold prod.case)
     apply (rule free; simp)
    apply (rule kept_bind2(1) [OF kept_noc], unfold prod.case)
    apply (rule free; simp)
    done
qed

lemma send_refill_quiet: "send_refill f st = Some st' \<Longrightarrow> quiet st st'"
  by (auto simp: send_refill_def refill_get_from_free_list_def quiet_def split: list.splits)

lemma cpu_total_refill_words:
  assumes "refill_words q st = Some st'" and "q < n"
  shows "cpu_total n st' = cpu_total n st"
proof (cases "cachecnt (missq st q) < memcnt (missq st q)")
  case False
  then show ?thesis using assms(1) by (simp add: refill_words_def)
next
  case True
  have "\<exists>st1. quiet st st1 \<and>
      (st' = st1 \<or> missq_change_state q MQ_DELAY1 (st1\<lparr>refilltag := False, refill_delay := 4\<rparr>) = Some st')"
    using assms(1) unfolding refill_words_def Let_def if_P [OF True] bind_eq_Some_conv
    apply (elim exE conjE)
    subgoal for st1
      by (rule exI [of _ st1], rule conjI)
        (auto simp: quiet_def stall_fetch_def send_refill_def refill_get_from_free_list_def
          split: if_splits list.splits)
    done
  then obtain st1 where 1: "quiet st st1" and st': "st' = st1 \<or>
      missq_change_state q MQ_DELAY1 (st1\<lparr>refilltag := False, refill_delay := 4\<rparr>) = Some st'"
    by blast
  have "quiet st1 (st1\<lparr>refilltag := False, refill_delay := 4\<rparr>)" by (simp add: quiet_def)
  then show ?thesis
    using st' cpu_total_quiet [OF 1, of n] cpu_total_quiet [of st1 "st1\<lparr>refilltag := False, refill_delay := 4\<rparr>" n]
      cpu_total_change_state [of q MQ_DELAY1 "st1\<lparr>refilltag := False, refill_delay := 4\<rparr>" st' n] assms(2)
    by auto
qed

lemma set_sent_state [simp]:
  "mq_state (set_data_sent i b m) = mq_state m" "mq_state (set_inst_sent i b m) = mq_state m"
  by (simp_all add: set_data_sent_def set_inst_sent_def)

lemma kept_reserve: "steps (kept c) s (on_cpu d (reserve_wtbkq n) s)"
  by (rule kept_on_cpu) (rule cpu_total_reserve)

lemma quiet_stall [simp]: "quiet st (stall_fetch st)"
  by (simp add: stall_fetch_def quiet_def)

lemma intervene_quiet: "intervene_dcache req paddr q st = Some st' \<Longrightarrow> quiet st st'"
  by (auto simp: intervene_dcache_def dest!: send_refill_quiet intro: quiet_trans)

lemma cpu_total_busy:
  "mq_state (missq st i) \<noteq> MQ_EMPTY \<Longrightarrow> mq_state (f (missq st i)) \<noteq> MQ_EMPTY \<Longrightarrow>
   cpu_total n (upd_mq i f st) = cpu_total n st"
  using busy_update [of "upd_mq i f st" st i "f (missq st i)" n] by (simp add: cpu_total_def credit_def)

lemma delay_match_total: "cpu_total n (delay_match q r st) = cpu_total n st"
  by (auto simp: delay_match_def cpu_total_def credit_def busy_update [of "upd_mq _ _ _" st]
      split: option.splits)

lemma kept_external_modify: "steps (kept c) s (external_modify c ex q s)"
  unfolding external_modify_def Let_def
  apply (rule steps_if)
   apply (rule steps_if)
    apply (rule kept_on_cpu)
    apply (clarsimp simp: map_option_eq_Some)
    apply (drule intervene_quiet, drule cpu_total_quiet)
    apply (simp add: delay_match_total)
   apply (rule kept_bind(1) [OF kept_reserve])
   apply (rule kept_bind(1) [OF kept_replace_icache])
   apply (rule kept_bind(1))
    apply (rule kept_from(1) [OF _ kept_when])
     apply (simp add: kept_upd quiet_def stall_fetch_def)
    apply (rule kept_empty, simp)
   apply (rule kept_when)
   apply (rule kept_empty, simp)
  apply simp
  done

lemma kept_local_modify: "steps (kept c) s (local_modify c q blk paddr b s)"
  unfolding local_modify_def Let_def
  apply (rule steps_if)
   apply simp
  apply (rule steps_if)
   apply (rule kept_bind(1) [OF kept_reserve])
   apply (rule kept_bind(1) [OF kept_replace_icache])
   apply (simp add: kept_upd quiet_def stall_fetch_def)
  apply (rule steps_if)
   apply (rule kept_on_cpu)
   apply (clarsimp simp: map_option_eq_Some)
   apply (drule intervene_quiet, drule cpu_total_quiet)
   apply simp
  apply simp
  done

lemma kept_cancel_stores: "steps (kept c) s (cancel_stores c q is s)"
proof (induction "is" arbitrary: s)
  case (Cons i "is")
  show ?case
    unfolding cancel_stores.simps Let_def
    apply (rule steps_if)
     apply (rule steps_if)
      apply (rule steps_option)
       apply simp
      apply (rule kept_from(1) [OF _ Cons.IH])
      apply (erule stepsD [OF kept_empty, rotated], simp)
     apply simp
    apply (rule Cons.IH)
    done
qed simp

lemma refill_get_quiet: "refill_get_from_free_list st = Some (p, st') \<Longrightarrow> quiet st st'"
  by (auto simp: refill_get_from_free_list_def quiet_def split: list.splits)

lemma kept_replace_data: "steps (kept c) s (replace_data c q s)"
  unfolding replace_data_def Let_def
  apply (rule steps_option)
   apply simp
  apply (rename_tac x, case_tac x, simp only: prod.case)
  apply (rule kept_map)
   apply (rule steps_if)
    apply (rule kept_from(1) [OF _ kept_cancel_stores])
    apply (rule kept_upd_from)
     apply (rule kept_upd, erule refill_get_quiet)
    apply simp
   apply (simp add: kept_upd refill_get_quiet)
  apply (simp add: kept_upd quiet_def)
  done

lemma kept_replace_L1: "q < missq_ifq_size s \<Longrightarrow> steps (kept c) s (replace_L1 c q s)"
  unfolding replace_L1_def Let_def
  apply (rule kept_bind(1))
   apply (rule kept_from(1) [OF _ kept_reserve])
   apply (simp add: kept_upd quiet_def)
  apply (rule kept_bind(1))
   apply (rule steps_if)
    apply (rule kept_map [OF kept_replace_icache])
    apply (simp add: kept_upd)
   apply (rule kept_replace_data)
  apply (rule kept_change)
   apply simp
  apply (simp add: kept_size)
  done

lemma kept_L1_part:
  assumes "picks (missq_ifq_size s) L"
  shows "steps (kept c) s (L1_part c L r ex two s)"
proof -
  let ?t = "upd_cpu c (\<lambda>st. if refill_delay st > 0 then st\<lparr>refill_delay := refill_delay st - 1\<rparr> else st) s"
  have 0: "kept c s ?t" by (rule kept_upd) (simp add: quiet_def)
  show ?thesis
    unfolding L1_part_def Let_def
    apply (rule kept_from(1) [OF 0])
    apply (rule steps_if)
     apply (rule steps_if)
      apply (rule kept_on_cpu, erule cpu_total_refill_words)
      apply simp
     apply simp
    apply (rule steps_if)
     apply (rule kept_when, rule kept_external_modify)
    apply (rule steps_if)
     apply (rule kept_when, rule steps_option)
      apply simp
     apply (rule kept_local_modify)
    apply (rule steps_if)
     apply (rule kept_when, rule kept_replace_L1)
     using assms apply (simp add: picks_def)
    apply (rule steps_if)
     apply (rule kept_when, rule steps_option)
      apply simp
     apply (rule kept_local_modify)
    apply simp
    done
qed

lemma kept_delay_entry: "steps (kept c) s (delay_entry c i s)"
  unfolding delay_entry_def Let_def
  apply (rule steps_if)
   apply (rule kept_empty, simp)
  apply (rule steps_if)
   apply (simp, rule kept_upd_total, rule cpu_total_busy; simp)
  apply (rule steps_if)
   apply (simp, rule kept_upd_total, rule cpu_total_busy; simp)
  apply simp
  done

lemma kept_cache2mem: "steps (kept c) s (cache2mem c s)"
proof -
  let ?n = "missq_ifq_size s" and ?L = "select_entries (missq_ifq_size s) (cpus s c)"
  have L: "picks ?n ?L" by (rule picks_select)
  have e: "cpu_total ?n st = cpu_total ?n (cpus s c)"
    if "enter_miss ?n (total_cpus s) (mesh_width s) ?L (cpus s c) = Some st" for st
    by (rule cpu_total_enter_miss [OF that]) (use L in \<open>simp add: picks_def\<close>)
  show ?thesis
    unfolding cache2mem_def Let_def
    apply (rule kept_bind(1) [OF kept_on_cpu], erule e)
    apply (rule kept_bind2(1) [OF kept_issue_miss], simp add: kept_size L, unfold prod.case)
    apply (rule kept_bind(1) [OF kept_reprobe], simp add: kept_size L)
    apply (rule kept_bind2(1) [OF kept_modify_L1], simp add: kept_size L, unfold prod.case)
    apply (rule kept_bind(1) [OF kept_L2_miss], simp add: kept_size L)
    apply (rule kept_bind(1) [OF kept_memref], simp add: kept_size L)
    apply (rule kept_bind(1) [OF kept_refill_L2])
    apply (rule kept_bind2(1) [OF kept_drain_wtbkq], unfold prod.case)
    apply (rule kept_bind(1) [OF kept_external_ready], simp add: kept_size L)
    apply (rule kept_bind(1) [OF kept_L1_part], simp add: kept_size L)
    apply (rule kept_fold, rule kept_delay_entry)
    done
qed

section \<open>Deliveries and events\<close>

lemma busy_bounds: "0 \<le> busy n st \<and> busy n st \<le> int n"
  by (simp add: busy_def count_below_le)

text \<open>A credit that comes back: the event leaves the queue and the credit counter grows.\<close>

lemma pending_credits_Cons:
  assumes "eventq_pending s = ev # rest"
  shows "pending_credits c ts s = pending_credits c ts (s\<lparr>eventq_pending := rest\<rparr>) +
    (if credit_event (mesh_width s) c ts ev then 1 else 0)"
  using assms by (simp add: pending_credits_def)

lemma pending_credits_nonneg: "0 \<le> pending_credits c ts s"
  by (simp add: pending_credits_def)

lemma pending_credits_upd_cpu [simp]: "pending_credits c ts (upd_cpu d f s) = pending_credits c ts s"
  by (simp add: pending_credits_def)

lemma credit_event_callback:
  assumes "ev_action ev = EventCallback4 Fn_update_credit (int x) (int y) (int t) (int HOME)"
  shows "credit_event w c ts ev = (c = x + y * w \<and> int t \<in> set ts)"
proof -
  have "(int x + int y * int w = int c) = (c = x + y * w)"
    by (metis of_nat_add of_nat_eq_iff of_nat_mult)
  then show ?thesis by (auto simp: credit_event_def assms)
qed

section \<open>Properties\<close>


text \<open>While the sums of the ledger do not exceed the queue sizes, an \<open>update_credit\<close> event for a home
  channel passes its assertions, and taking it off the queue and running it leaves every core's sums
  as they were.\<close>

theorem update_credit_returns:
  assumes "eventq_pending s = ev # rest"
    and "ev_action ev = EventCallback4 Fn_update_credit (int x) (int y) (int t) (int HOME)"
    and "t \<le> WTBK" and "ledger s (x + y * mesh_width s) = (r, i, w, hx, hy)"
    and "r \<le> int (missq_ifq_size s)" and "i \<le> int (missq_ifq_size s)" and "w \<le> int (wtbkq_ifq_size s)"
    and "0 \<le> wtbkq_num (cpus s (x + y * mesh_width s))"
  shows "\<exists>s'. update_credit x y t HOME (s\<lparr>eventq_pending := rest\<rparr>) = Some s' \<and> ledger s' = ledger s"
proof -
  let ?c = "x + y * mesh_width s" and ?s = "s\<lparr>eventq_pending := rest\<rparr>" and ?n = "missq_ifq_size s"
  let ?st = "cpus s ?c"
  note ev = credit_event_callback [OF assms(2)] pending_credits_Cons [OF assms(1)]
  have L: "ledger s c = (case cpu_total ?n (cpus s c) of (r, i, w, x, y) \<Rightarrow>
      (r + pending_credits c missq_credits s, i + pending_credits c missq_credits s,
       w + pending_credits c wtbkq_credits s, x, y))" for c by (simp add: ledger_def)
  note p = pending_credits_nonneg [of ?c missq_credits ?s] pending_credits_nonneg [of ?c wtbkq_credits ?s]
    busy_bounds [of ?n ?st]
  show ?thesis
  proof (cases "t = WTBK")
    case True
    have "credit WTBK HOME ?st + 1 \<le> int (wtbkq_ifq_size s)"
      using assms(4,7,8) p True by (auto simp: L cpu_total_def ev wtbkq_credits_def)
    then have run: "update_credit x y t HOME ?s = Some (upd_cpu ?c (\<lambda>_. add_credit WTBK HOME 1 ?st) ?s)"
      using True by (simp add: update_credit_def Let_def on_cpu_def)
    have "ledger (upd_cpu ?c (\<lambda>_. add_credit WTBK HOME 1 ?st) ?s) = ledger s"
      by (rule ext) (auto simp: ledger_def cpu_total_def ev True wtbkq_credits_def missq_credits_def busy_def)
    with run show ?thesis by blast
  next
    case False
    then have t: "t = REQ \<or> t = INVN" using assms(3) by auto
    have "credit REQ HOME ?st + 1 \<le> int ?n" "credit INVN HOME ?st + 1 \<le> int ?n"
      using assms(4-6) p t by (auto simp: L cpu_total_def ev missq_credits_def)
    then have run: "update_credit x y t HOME ?s =
        Some (upd_cpu ?c (\<lambda>_. add_credit INVN HOME 1 (add_credit REQ HOME 1 ?st)) ?s)"
      using t by (auto simp: update_credit_def Let_def on_cpu_def)
    have "ledger (upd_cpu ?c (\<lambda>_. add_credit INVN HOME 1 (add_credit REQ HOME 1 ?st)) ?s) = ledger s"
      using t by (intro ext) (auto simp: ledger_def cpu_total_def ev wtbkq_credits_def missq_credits_def busy_def)
    with run show ?thesis by blast
  qed
qed


text \<open>The properties at work on a machine that has just been initialised.\<close>

lemma fresh_cycle: "\<exists>s'. cache2mem 0 (noc_init (blank_sys 0)) = Some s'"
proof -
  let ?s = "noc_init (blank_sys 0)"
  have st: "missq (cpus ?s 0) = (\<lambda>_. zero_mq)" "wtbkq (cpus ?s 0) = (\<lambda>_. zero_wq)"
    "lsq_missi (cpus ?s 0) = None" "irep_state (irepbuf (cpus ?s 0)) = IREP_EMPTY"
    "\<not> refilltag (cpus ?s 0)" "refill_delay (cpus ?s 0) = 0" "missq_num (cpus ?s 0) = 0"
    by (simp_all add: noc_init_def cache2mem_init_def memq_init_free_list_def refill_init_free_list_def blank_cpu_def)
  have pick: "pick_state n k (cpus ?s 0) = None" if "k \<noteq> MQ_EMPTY" for n k
    using that by (simp add: pick_state_def ring_scan_None st)
  have L: "select_entries n (cpus ?s 0) = \<lparr>emptyi = pick_state n MQ_EMPTY (cpus ?s 0), L1_missi = None,
      read_L2i = None, modify_L1i = None, replace_L1i = None, extrdyi = None, L2_missi = None, memrefi = None,
      refill_L2i = None, missq_has_delay1 = False\<rparr>" for n
    by (simp add: select_entries_def pick st)
  let ?L = "select_entries (missq_ifq_size ?s) (cpus ?s 0)"
  have enter: "enter_miss n m w ?L (cpus ?s 0) = Some (cpus ?s 0)" for n m w
    by (simp add: enter_miss_def st split: option.split)
  have same: "upd_cpu 0 (\<lambda>_. cpus ?s 0) ?s = ?s" by (simp add: upd_cpu_def)
  have parts: "issue_miss 0 ?L s = Some (False, s)" "reprobe 0 ?L s = Some s" "modify_L1 0 ?L s = Some (False, s)"
    "L2_miss 0 ?L s = Some s" "memref 0 ?L s = Some s" "refill_L2 0 ?L s = Some s" "external_ready 0 ?L s = Some s" for s
    by (simp_all add: L issue_miss_def reprobe_def modify_L1_def L2_miss_def memref_def refill_L2_def
        external_ready_def when_some_def)
  obtain f b where drain: "drain_wtbkq 0 False ?s = Some (b, upd_cpu 0 f ?s)"
    and f: "missq (f (cpus ?s 0)) = (\<lambda>_. zero_mq)" "\<not> refilltag (f (cpus ?s 0))" "refill_delay (f (cpus ?s 0)) = 0"
  proof
    have none: "wtbkq_dirtyi n (cpus ?s 0) = None" for n by (simp add: wtbkq_dirtyi_def st find_None_iff zero_wq_def)
    show "drain_wtbkq 0 False ?s = Some (wtbkq_num (cpus ?s 0) < int (wtbkq_ifq_size ?s) - 1,
        upd_cpu 0 (\<lambda>st. st\<lparr>wtbkq_lasti := (wtbkq_lasti st + 1) mod wtbkq_ifq_size ?s\<rparr>) ?s)"
      by (simp add: drain_wtbkq_def Let_def none when_some_def)
  qed (simp_all add: st)
  have L1: "\<exists>g. L1_part 0 ?L r False b (upd_cpu 0 f ?s) = Some (upd_cpu 0 g ?s) \<and> missq (g (cpus ?s 0)) = (\<lambda>_. zero_mq)" for r
    by (rule exI [of _ f]) (auto simp: L1_part_def Let_def L f when_some_def upd_cpu_def)
  then obtain g where g: "L1_part 0 ?L (refilli (cpus ?s 0)) False b (upd_cpu 0 f ?s) = Some (upd_cpu 0 g ?s)"
    "missq (g (cpus ?s 0)) = (\<lambda>_. zero_mq)" by blast
  have delay: "fold_opt (delay_entry 0) is (upd_cpu 0 g ?s) = Some (upd_cpu 0 g ?s)" for "is"
    by (induction "is") (simp_all add: delay_entry_def g)
  show ?thesis
    by (simp add: cache2mem_def Let_def enter on_cpu_def same parts drain g delay)
qed

lemma fresh_ledger: "c < 4 \<Longrightarrow> ledger (noc_init (blank_sys 0)) c = (8, 8, 8, c mod 2, c div 2, 1)"
  by (simp add: ledger_def cpu_total_def pending_credits_def noc_init_def init_router_def credit_def busy_def
      count_below_def cache2mem_init_def memq_init_free_list_def refill_init_free_list_def blank_cpu_def)


definition credit_due :: sys where
  "credit_due = (noc_init (blank_sys 0))\<lparr>eventq_pending :=
     [\<lparr>ev_when = 1, ev_id = 1, ev_action = EventCallback4 Fn_update_credit 1 1 (int WTBK) (int HOME)\<rparr>],
     cpus := (\<lambda>c. (add_credit WTBK HOME (- 1) (cpus (noc_init (blank_sys 0)) c)))\<rparr>"

theorem update_credit_returns_witness:
  "\<exists>s'. update_credit 1 1 WTBK HOME (credit_due\<lparr>eventq_pending := []\<rparr>) = Some s' \<and> ledger s' = ledger credit_due"
proof -
  have st: "cpus credit_due c = add_credit WTBK HOME (- 1) (cpus (noc_init (blank_sys 0)) c)"
    "mesh_width credit_due = 2" "missq_ifq_size credit_due = 8" "wtbkq_ifq_size credit_due = 8" for c
    by (simp_all add: credit_due_def noc_init_def)
  have L: "ledger credit_due (1 + 1 * mesh_width credit_due) = (8, 8, 8, 1, 1, 1)"
    by (simp add: ledger_def cpu_total_def pending_credits_def credit_event_def st busy_def count_below_def
        credit_due_def noc_init_def init_router_def credit_def missq_credits_def wtbkq_credits_def
        cache2mem_init_def memq_init_free_list_def refill_init_free_list_def blank_cpu_def add_credit_def)
  have num: "0 \<le> wtbkq_num (cpus credit_due (1 + 1 * mesh_width credit_due))"
    by (simp add: st noc_init_def cache2mem_init_def memq_init_free_list_def refill_init_free_list_def)
  let ?ev = "\<lparr>ev_when = 1, ev_id = 1, ev_action = EventCallback4 Fn_update_credit 1 1 (int WTBK) (int HOME)\<rparr>"
  have q: "eventq_pending credit_due = ?ev # []" by (simp add: credit_due_def)
  have a: "ev_action ?ev = EventCallback4 Fn_update_credit (int 1) (int 1) (int WTBK) (int HOME)" by simp
  show ?thesis by (rule update_credit_returns [OF q a _ L _ _ _ num]) (simp_all add: st)
qed


end
