(* ===== verification/Directory.thy ===== *)
theory Directory
  imports Credits
begin

unbundle bit_operations_syntax

text \<open>
  What the L2 directory guarantees: an L2 line in the exclusive state has at most one L1 data cache in
  its directory, every operation on the L2 keeps it so, a line is granted exclusively only to its
  sole holder, and when a request has to modify other L1 caches, every other holder is told and has
  answered before the request is granted.
\<close>

section \<open>One owner\<close>

text \<open>The second part is about a read that found no other holder: it keeps the exclusive state for its
  requester, so its copy of the directory has to stay empty until it is written back.\<close>

definition one_owner :: "nat \<Rightarrow> cache_blk \<Rightarrow> bool" where
  "one_owner n b \<longleftrightarrow> (blk_status b = EXCLUSIVE \<longrightarrow> dir_count n (data_directory b) \<le> 1)"

definition alone :: "nat \<Rightarrow> miss_queue \<Rightarrow> bool" where
  "alone n m \<longleftrightarrow> (mq_state m = MQ_MODIFY_L1 \<and> mq_req m = READ_SHD \<and> \<not> mq_inst m \<and> mq_cache_status m = EXCLUSIVE
     \<longrightarrow> dir_count n (mq_data_directory m) = 0)"

definition dir_ok :: "nat \<Rightarrow> godson2_cpu \<Rightarrow> bool" where
  "dir_ok n st \<longleftrightarrow> (\<forall>p. one_owner n (get_blk (cache_dl2 st) p)) \<and> (\<forall>q. alone n (missq st q))"

lemma dir_count_0: "dir_count n d = 0 \<longleftrightarrow> (\<forall>i<n. \<not> d i)"
  by (auto simp: dir_count_def filter_empty_conv)

lemma dir_count_mono: "(\<And>i. i < n \<Longrightarrow> d i \<Longrightarrow> d' i) \<Longrightarrow> dir_count n d \<le> dir_count n d'"
  unfolding dir_count_def by (induction n) (auto simp: le_Suc_eq intro: le_trans)

lemma dir_count_insert: "dir_count n d = 0 \<Longrightarrow> dir_count n (d(i := True)) \<le> 1"
proof -
  assume "dir_count n d = 0"
  then have "filter (d(i := True)) [0..<n] = (if i < n then [i] else [])"
  proof (induction n)
    case (Suc n)
    then show ?case by (auto simp: dir_count_def split: if_splits)
  qed (simp add: dir_count_def)
  then show ?thesis by (simp add: dir_count_def)
qed

lemma dir_count_upto [simp]: "dir_count n (upto n f old) = dir_count n f"
  unfolding dir_count_def by (rule arg_cong [where f = length], rule filter_cong) (auto simp: upto_def)

lemma dir_count_eq: "dir_count n (\<lambda>i. i = c) \<le> 1"
proof -
  have "(\<lambda>i. i = c) = (\<lambda>_. False)(c := True)" by (auto simp: fun_eq_iff)
  then show ?thesis using dir_count_insert [of n "\<lambda>_. False" c] by (simp add: dir_count_0)
qed

section \<open>The operations on the L2\<close>

lemma dir_ok_entry:
  assumes "dir_ok n st" and "cache_dl2 st' = cache_dl2 st" and "missq st' = (missq st)(q := m)" and "alone n m"
  shows "dir_ok n st'"
  using assms by (simp add: dir_ok_def)

lemma dir_ok_frame:
  "cache_dl2 st' = cache_dl2 st \<Longrightarrow> missq st' = missq st \<Longrightarrow> dir_ok n st' = dir_ok n st"
  by (simp add: dir_ok_def)

lemma dir_ok_bump [simp]: "dir_ok n (bump k st) = dir_ok n st"
  by (simp add: dir_ok_def)

lemma dir_ok_upd_blk:
  assumes "dir_ok n st" and "one_owner n (f (get_blk (cache_dl2 st) p))"
  shows "dir_ok n (st\<lparr>cache_dl2 := upd_blk p f (cache_dl2 st)\<rparr>)"
  using assms by (simp add: dir_ok_def)

lemma alone_other: "mq_state m \<noteq> MQ_MODIFY_L1 \<Longrightarrow> alone n m"
  by (simp add: alone_def)

lemma dir_ok_change:
  assumes "dir_ok n st" and "missq_change_state q new st = Some st'" and "new \<noteq> MQ_MODIFY_L1"
  shows "dir_ok n st'"
  by (rule dir_ok_entry [OF assms(1) missq_change_state_Some(8) [OF assms(2)] missq_change_state_Some(1) [OF assms(2)]])
    (use assms(3) in \<open>simp add: alone_def\<close>)

lemma missq_change_entry:
  "missq_change_state q new st = Some st' \<Longrightarrow> new \<noteq> MQ_EMPTY \<Longrightarrow>
   missq st' = (missq st)(q := (missq st q)\<lparr>mq_state := new\<rparr>)"
  using missq_change_state_Some(1) by auto

text \<open>What the entry looks like when other L1 caches have to be modified.\<close>

lemma start_modify_Some:
  assumes "start_modify n q blk idir t st = Some st'"
  defines "m \<equiv> missq st q"
  shows "missq st' = (missq st)(q := (copy_directory n (\<lambda>i. i \<noteq> mq_cpuid m \<and> data_directory (get_blk (cache_dl2 st) blk) i) idir
      (m\<lparr>mq_state := MQ_MODIFY_L1\<rparr>))\<lparr>intervention_type := t, wait_for_response := 0, L2_changed_blk := Some blk\<rparr>)"
    and "cache_dl2 st' = cache_dl2 st" and "cpuid st' = cpuid st"
proof -
  obtain st0 where 0: "missq_change_state q MQ_MODIFY_L1 st = Some st0"
    and st': "st' = upd_mq q (\<lambda>m. (copy_directory n (\<lambda>i. i \<noteq> mq_cpuid (missq st0 q) \<and>
        data_directory (get_blk (cache_dl2 st0) blk) i) idir m)
      \<lparr>intervention_type := t, wait_for_response := 0, L2_changed_blk := Some blk\<rparr>) st0"
    using assms(1) by (auto simp: start_modify_def Let_def bind_eq_Some_conv)
  note f = missq_change_entry [OF 0] missq_change_state_Some(8,9) [OF 0]
  show "missq st' = (missq st)(q := (copy_directory n (\<lambda>i. i \<noteq> mq_cpuid m \<and> data_directory (get_blk (cache_dl2 st) blk) i) idir
      (m\<lparr>mq_state := MQ_MODIFY_L1\<rparr>))\<lparr>intervention_type := t, wait_for_response := 0, L2_changed_blk := Some blk\<rparr>)"
    using f by (simp add: st' m_def)
  show "cache_dl2 st' = cache_dl2 st" "cpuid st' = cpuid st" using f by (simp_all add: st')
qed

lemma alone_clear [simp]: "alone n (m\<lparr>read_local_l2 := b\<rparr>) = alone n m" "alone n (m\<lparr>wait_for_response := k\<rparr>) = alone n m"
  "alone n (m\<lparr>memcnt := x\<rparr>) = alone n m"
  by (simp_all add: alone_def)

lemma dir_ok_upd_mq: "dir_ok n st \<Longrightarrow> alone n (f (missq st q)) \<Longrightarrow> dir_ok n (upd_mq q f st)"
  by (rule dir_ok_entry) simp_all

lemma dir_ok_wait: "dir_ok n st \<Longrightarrow> dir_ok n (wait_response q st)"
  unfolding wait_response_def by (rule dir_ok_upd_mq) (simp_all add: dir_ok_def)

lemma dir_ok_clear: "dir_ok n st \<Longrightarrow> dir_ok n (clear_read_local q st)"
  unfolding clear_read_local_def by (rule dir_ok_upd_mq) (simp_all add: dir_ok_def)

lemma dir_ok_start_modify:
  assumes "dir_ok n st" and "start_modify n q blk idir t st = Some st'" and "mq_req (missq st q) \<noteq> READ_SHD"
  shows "dir_ok n st'"
  by (rule dir_ok_entry [OF assms(1) start_modify_Some(2,1) [OF assms(2)]])
    (use assms(3) in \<open>simp add: alone_def copy_directory_def\<close>)

lemma dir_ok_probe_exclusive:
  assumes ok: "dir_ok n st" and run: "probe_exclusive n req q blk st = Some st'" and req: "req = mq_req (missq st q)"
  shows "dir_ok n st'"
proof (cases "req = READ_SHD")
  case False
  then show ?thesis
    using run ok req dir_ok_start_modify [OF ok, where q = q and blk = blk]
    by (auto simp: probe_exclusive_def Let_def dir_ok_wait dir_ok_clear split: if_splits)
next
  case True
  let ?rc = "mq_cpuid (missq st q)" and ?i = "mq_inst (missq st q)" and ?b = "get_blk (cache_dl2 st) blk"
  show ?thesis
  proof (cases "(\<not> ?i \<and> data_directory ?b ?rc) \<or> (?i \<and> inst_directory ?b ?rc)")
    case wait: True
    then show ?thesis using run True dir_ok_wait [OF ok, of q] by (auto simp: probe_exclusive_def Let_def)
  next
    case False
    obtain st1 where st1: "start_modify n q blk (\<lambda>_. False) INTERVENTION_SHD st = Some st1"
      and st': "st' = upd_mq q (\<lambda>m. m\<lparr>mq_cache_status := (if ?i then SHARED
          else if dir_count n (mq_data_directory (missq st1 q)) = 0 then EXCLUSIVE else SHARED)\<rparr>) (clear_read_local q st1)"
      using run True False by (auto simp: probe_exclusive_def Let_def bind_eq_Some_conv)
    note e = start_modify_Some [OF st1]
    have i: "mq_inst (missq st1 q) = ?i" by (simp add: e copy_directory_def)
    show ?thesis
      by (rule dir_ok_entry [OF ok, of _ q "missq st' q"])
        (auto simp: st' e clear_read_local_def alone_def copy_directory_def)
  qed
qed

lemma dir_ok_grant_shared:
  assumes ok: "dir_ok n st" and run: "grant_shared n q blk st = Some st'"
  shows "dir_ok n st'"
proof -
  let ?rc = "mq_cpuid (missq st q)" and ?i = "mq_inst (missq st q)"
    and ?new = "if cpuid st = mq_cpuid (missq st q) then MQ_REPLACE_L1 else MQ_EXTRDY"
  obtain st0 where 0: "missq_change_state q ?new st = Some st0"
    and st': "st' = (let st = upd_mq q (\<lambda>m. m\<lparr>memcnt := 4, read_local_l2 := False, L2_changed_blk := None,
                wait_for_response := 0\<rparr>) st0;
         st = st\<lparr>cache_dl2 := upd_blk blk (\<lambda>b. if ?i
                then b\<lparr>inst_directory := (inst_directory b)(?rc := True)\<rparr>
                else b\<lparr>data_directory := (data_directory b)(?rc := True)\<rparr>) (cache_dl2 st)\<rparr>
       in if ?i then st else let granted = (if dir_count n (data_directory (get_blk (cache_dl2 st) blk)) = 1
                                  then EXCLUSIVE else SHARED)
                   in upd_mq q (\<lambda>m. m\<lparr>mq_cache_status := granted\<rparr>)
                        (st\<lparr>cache_dl2 := upd_blk blk (set_status granted) (cache_dl2 st)\<rparr>))"
    using run by (auto simp: grant_shared_def Let_def bind_eq_Some_conv split: if_splits)
  have "missq st0 = (missq st)(q := (missq st q)\<lparr>mq_state := ?new\<rparr>)" "cache_dl2 st0 = cache_dl2 st"
    using missq_change_entry [OF 0] missq_change_state_Some(8) [OF 0] by auto
  then show ?thesis
    using ok by (auto simp: st' Let_def dir_ok_def one_owner_def alone_def set_status_def)
qed

lemma dir_ok_probe_shared:
  assumes ok: "dir_ok n st" and run: "probe_shared n req q blk st = Some st'" and req: "req = mq_req (missq st q)"
  shows "dir_ok n st'"
  using run ok req dir_ok_start_modify [OF ok, where q = q and blk = blk] dir_ok_grant_shared [OF ok, where q = q and blk = blk]
  by (auto simp: probe_shared_def Let_def dir_ok_wait dir_ok_clear split: if_splits)

lemma dir_ok_probe_miss:
  assumes ok: "dir_ok n st" and run: "probe_miss n now q paddr st = Some st'"
  shows "dir_ok n st'"
proof -
  obtain st0 f where 0: "missq_change_state q MQ_L2_MISS st = Some st0"
    and st': "st' = bump (OfCache L2_misses) (upd_mq q f st0)" and f: "\<And>m. mq_state (f m) = mq_state m"
    using run by (auto simp: probe_miss_def Let_def bind_eq_Some_conv)
  have "mq_state (missq st0 q) = MQ_L2_MISS" using missq_change_entry [OF 0] by simp
  then show ?thesis
    using dir_ok_upd_mq [OF dir_ok_change [OF ok 0], of f q] f by (simp add: st' alone_def)
qed

lemma dir_ok_scache_probe:
  assumes "dir_ok n st" and "scache_probe_cpu n now req q paddr st = Some st'" and "req = mq_req (missq st q)"
  shows "dir_ok n st'"
proof (cases "find_line (cache_dl2 st) paddr")
  case None
  then show ?thesis using assms dir_ok_probe_miss by (simp add: scache_probe_cpu_def)
next
  case (Some blk)
  show ?thesis
    using assms dir_ok_probe_exclusive [OF assms(1) _ assms(3), where blk = blk]
      dir_ok_probe_shared [OF assms(1) _ assms(3), where blk = blk]
    by (auto simp: scache_probe_cpu_def Some Let_def split: if_splits)
qed

lemma get_blk_frame [simp]:
  "get_blk (cp\<lparr>refill_set := a\<rparr>) p = get_blk cp p" "get_blk (cp\<lparr>refill_way := b\<rparr>) p = get_blk cp p"
  "get_blk (cp\<lparr>refill_blk := c\<rparr>) p = get_blk cp p" "get_blk (cp\<lparr>refill_bitmap := d\<rparr>) p = get_blk cp p"
  "get_blk (cp\<lparr>last_tagset := e\<rparr>) p = get_blk cp p"
  by (simp_all add: get_blk_def)

lemma dir_ok_scache_refill:
  assumes "dir_ok n st" and "scache_refill_cpu n q st = Some st'" and "mq_state (missq st q) \<noteq> MQ_MODIFY_L1"
  shows "dir_ok n st'"
proof -
  obtain st0 new where 0: "missq_change_state q new st0 = Some st'" "new \<noteq> MQ_MODIFY_L1" and ok: "dir_ok n st0"
  proof -
    obtain repl where repl: "L2_replace_blk (missq st q) = Some repl"
      using assms(2) by (auto simp: scache_refill_cpu_def Let_def split: option.splits)
    show thesis
    proof (rule that)
      show "dir_ok n (let m = missq st q; cp = cache_dl2 st; rc = mq_cpuid m; inst = mq_inst m;
          tag = CACHE_TAG cp (mq_paddr m); set = CACHE_SET cp (mq_paddr m);
          st = (if inst then st else upd_mq q (\<lambda>m. m\<lparr>mq_cache_status := EXCLUSIVE\<rparr>) st);
          cp = upd_blk repl (\<lambda>b. b\<lparr>blk_tag := tag, blk_set := set,
            blk_status := (if inst then SHARED else EXCLUSIVE), blk_dirty := False,
            sb_valid := 0, sb_dirty := 0,
            data_directory := upto n (\<lambda>i. i = rc \<and> \<not> inst) (data_directory b),
            inst_directory := upto n (\<lambda>i. i = rc \<and> inst) (inst_directory b)\<rparr>) cp;
          cp = cp\<lparr>refill_set := set, refill_way := L2_replace_way m, refill_blk := Some repl,
            refill_bitmap := 0, last_tagset := 0xFFFFFFFF\<rparr>
        in st\<lparr>cache_dl2 := cp\<rparr>)"
        using assms(1,3) dir_count_eq [of n "mq_cpuid (missq st q)"]
        by (auto simp: Let_def dir_ok_def one_owner_def alone_def)
    qed (use assms(2) in \<open>auto simp: scache_refill_cpu_def Let_def repl split: if_splits\<close>)
  qed
  show ?thesis by (rule dir_ok_change [OF ok 0])
qed

lemma one_owner_fewer:
  assumes "one_owner n b" and "blk_status b' = blk_status b"
    and "\<And>i. data_directory b' i \<Longrightarrow> data_directory b i"
  shows "one_owner n b'"
  using assms dir_count_mono [of n "data_directory b'" "data_directory b"] by (auto simp: one_owner_def)

lemma dir_ok_scache_writeback:
  assumes "dir_ok n st" and "scache_writeback_cpu rc req paddr inst st = Some st'"
  shows "dir_ok n st'"
proof -
  let ?step = "\<lambda>set tag w cp. if blk_tag (get_blk cp (set, w)) = tag \<and> blk_status (get_blk cp (set, w)) \<noteq> INVALID
      then upd_blk (set, w) (writeback_blk rc req inst) cp else cp"
  have step: "\<forall>p. one_owner n (get_blk cp p) \<Longrightarrow> \<forall>p. one_owner n (get_blk (fold (?step set tag) ws cp) p)" for set tag ws cp
  proof (induction ws arbitrary: cp)
    case (Cons w ws)
    have "one_owner n b \<Longrightarrow> one_owner n (writeback_blk rc req inst b)" for b
      by (erule one_owner_fewer) (auto simp: writeback_blk_def Let_def split: if_splits)
    then have "\<forall>p. one_owner n (get_blk (?step set tag w cp) p)" using Cons.prems by simp
    from Cons.IH [OF this] show ?case by simp
  qed simp
  let ?set = "unat (CACHE_SET (cache_dl2 st) paddr)" and ?tag = "CACHE_TAG (cache_dl2 st) paddr"
  have st': "st' = (bump (OfCache cache_dl2_wtbk_access) st)
      \<lparr>cache_dl2 := fold (?step ?set ?tag) (way_list (sets (cache_dl2 st) ?set)) (cache_dl2 st)\<rparr>"
    using assms(2) by (auto simp: scache_writeback_cpu_def Let_def cong: if_cong split: if_splits)
  show ?thesis
    using assms(1) step [of "cache_dl2 st" ?set ?tag "way_list (sets (cache_dl2 st) ?set)"] by (simp add: st' dir_ok_def)
qed

lemma dir_ok_finish_modify:
  assumes ok: "dir_ok n st" and run: "finish_modify n q st = Some st'" and "mq_state (missq st q) = MQ_MODIFY_L1"
  shows "dir_ok n st'"
proof -
  let ?m = "missq st q"
  have owner: "one_owner n (modified_blk n ?m b)" for b
  proof (cases "mq_req ?m = READ_SHD \<and> mq_cache_status ?m = EXCLUSIVE \<and> \<not> mq_inst ?m")
    case True
    then have "dir_count n (mq_data_directory ?m) = 0" using ok assms(3) by (simp add: dir_ok_def alone_def)
    then have "dir_count n ((upto n (mq_data_directory ?m) (data_directory b))(mq_cpuid ?m := True)) \<le> 1"
      by (intro dir_count_insert) simp
    then show ?thesis using True by (simp add: modified_blk_def one_owner_def)
  next
    case False
    then show ?thesis using dir_count_eq [of n "mq_cpuid ?m"] by (auto simp: modified_blk_def one_owner_def Let_def)
  qed
  obtain st0 st1 new where 0: "dir_ok n st0" "missq_change_state q new st0 = Some st1" "new \<noteq> MQ_MODIFY_L1"
    and st': "st' = upd_mq q (\<lambda>m. m\<lparr>memcnt := 4\<rparr>) st1"
  proof -
    let ?st0 = "case L2_changed_blk ?m of None \<Rightarrow> st
        | Some blk \<Rightarrow> st\<lparr>cache_dl2 := upd_blk blk (modified_blk n ?m) (cache_dl2 st)\<rparr>"
    have "dir_ok n ?st0"
      using ok owner by (auto intro: dir_ok_upd_blk split: option.split)
    then show thesis
      using that run by (auto simp: finish_modify_def Let_def map_option_eq_Some split: if_splits)
  qed
  have st1: "dir_ok n st1" by (rule dir_ok_change [OF 0])
  show ?thesis unfolding st' by (rule dir_ok_upd_mq [OF st1]) (use st1 in \<open>simp add: dir_ok_def\<close>)
qed

section \<open>Grants\<close>

lemma grant_shared_data:
  assumes run: "grant_shared n q blk st = Some st'" and d: "\<not> mq_inst (missq st q)"
  defines "dir \<equiv> (data_directory (get_blk (cache_dl2 st) blk))(mq_cpuid (missq st q) := True)"
  defines "g \<equiv> if dir_count n dir = 1 then EXCLUSIVE else SHARED"
  shows "mq_cache_status (missq st' q) = g" and "data_directory (get_blk (cache_dl2 st') blk) = dir"
    and "blk_status (get_blk (cache_dl2 st') blk) = g"
    and "mq_state (missq st' q) = (if cpuid st = mq_cpuid (missq st q) then MQ_REPLACE_L1 else MQ_EXTRDY)"
proof -
  let ?new = "if cpuid st = mq_cpuid (missq st q) then MQ_REPLACE_L1 else MQ_EXTRDY"
  obtain st0 where 0: "missq_change_state q ?new st = Some st0"
    using run by (auto simp: grant_shared_def Let_def bind_eq_Some_conv)
  have f: "missq st0 q = (missq st q)\<lparr>mq_state := ?new\<rparr>" "cache_dl2 st0 = cache_dl2 st"
    using missq_change_entry [OF 0] missq_change_state_Some(8) [OF 0] by auto
  have st': "st' = upd_mq q (\<lambda>m. m\<lparr>mq_cache_status := g\<rparr>)
      ((upd_mq q (\<lambda>m. m\<lparr>memcnt := 4, read_local_l2 := False, L2_changed_blk := None, wait_for_response := 0\<rparr>) st0)
        \<lparr>cache_dl2 := upd_blk blk (set_status g)
          (upd_blk blk (\<lambda>b. b\<lparr>data_directory := (data_directory b)(mq_cpuid (missq st q) := True)\<rparr>) (cache_dl2 st))\<rparr>)"
    using run d 0 f(2) by (simp add: grant_shared_def Let_def g_def dir_def)
  show "mq_cache_status (missq st' q) = g" "data_directory (get_blk (cache_dl2 st') blk) = dir"
    "blk_status (get_blk (cache_dl2 st') blk) = g" "mq_state (missq st' q) = ?new"
    by (simp_all add: st' f set_status_def dir_def)
qed

lemma dir_count_1:
  assumes "dir_count n d = 1" and "d k" and "k < n"
  shows "\<forall>i<n. d i = (i = k)"
proof -
  have "length (filter d [0..<n]) = 1" using assms(1) by (simp add: dir_count_def)
  then obtain j where j: "filter d [0..<n] = [j]" by (metis One_nat_def length_0_conv length_Suc_conv)
  have mem: "i < n \<and> d i \<longleftrightarrow> i = j" for i
  proof -
    have "i \<in> set (filter d [0..<n]) \<longleftrightarrow> i \<in> set [j]" by (simp only: j)
    then show ?thesis by (simp add: conj_commute)
  qed
  have "k = j" using mem [of k] assms(2,3) by simp
  then show ?thesis using mem by blast
qed

lemma noc_request_missq:
  "noc_request d t req cst qid dest paddr inst s = Some (b, s') \<Longrightarrow> missq (cpus s' c) = missq (cpus s c) \<and> cpuid (cpus s' c) = cpuid (cpus s c)"
  by (auto simp: noc_request_def Let_def bind_eq_Some_conv split: if_splits)

text \<open>Sending interventions changes nothing of an entry but the record of what has been sent.\<close>

definition sent_only :: "nat \<Rightarrow> nat \<Rightarrow> 'z sys_scheme \<Rightarrow> 'z sys_scheme \<Rightarrow> bool" where
  "sent_only c q s s' \<longleftrightarrow>
     (\<exists>d i. missq (cpus s' c) q = (missq (cpus s c) q)\<lparr>data_intervention_sent := d, inst_intervention_sent := i\<rparr>)"

lemma sent_only_refl: "sent_only c q s s"
  unfolding sent_only_def
  by (rule exI [of _ "data_intervention_sent (missq (cpus s c) q)"], rule exI [of _ "inst_intervention_sent (missq (cpus s c) q)"]) simp

lemma sent_only_same: "missq (cpus s' c) = missq (cpus s c) \<Longrightarrow> sent_only c q s s'"
  using sent_only_refl [of c q s] by (simp add: sent_only_def)

lemma transp_sent_only: "transp (sent_only c q)"
  unfolding transp_def sent_only_def by fastforce

lemma sent_only_sends: "steps (sent_only c q) s (send_invns c q itype paddr is s)"
proof (induction "is" arbitrary: s)
  case Nil
  then show ?case by (simp add: sent_only_refl)
next
  case (Cons i "is")
  have noc: "steps2 (sent_only c q) t (if b then noc_request c INVN itype 0 q i paddr inst t else Some (False, t))" for b inst t
    unfolding steps2_def
    by (auto intro!: sent_only_same dest: noc_request_missq [where c = c] split: if_splits)
  have sent: "sent_only c q t (upd_cpu c (upd_mq q (set_data_sent i True)) t)"
    "sent_only c q t (upd_cpu c (upd_mq q (set_inst_sent i True)) t)" for t
    unfolding sent_only_def set_data_sent_def set_inst_sent_def
    by (rule exI, rule exI [of _ "inst_intervention_sent (missq (cpus t c) q)"], simp)
      (rule exI [of _ "data_intervention_sent (missq (cpus t c) q)"], rule exI, simp)
  show ?case
    unfolding send_invns.simps Let_def
    apply (rule steps_bind2 [OF transp_sent_only noc], unfold prod.case)
    apply (rule steps_if)
     apply (simp add: sent)
    apply (rule steps_read)
    apply (rule steps_bind2 [OF transp_sent_only noc], unfold prod.case)
    apply (rule steps_if)
     apply (simp add: sent)
    apply (rule Cons.IH)
    done
qed

section \<open>Properties\<close>

text \<open>C7. Every operation on the L2 keeps the one-owner invariant of the directory: the probe for a queued
  request, the refill of an entry, a write-back, and the end of a modification of other L1 caches.\<close>

theorem L2_operations_keep_one_owner:
  assumes "dir_ok n st"
    and "scache_probe_cpu n now (mq_req (missq st q)) q paddr st = Some st' \<or>
      (mq_state (missq st q) \<noteq> MQ_MODIFY_L1 \<and> scache_refill_cpu n q st = Some st') \<or>
      scache_writeback_cpu rc req paddr inst st = Some st' \<or>
      (mq_state (missq st q) = MQ_MODIFY_L1 \<and> finish_modify n q st = Some st')"
  shows "dir_ok n st'"
  using assms(2) dir_ok_scache_probe [OF assms(1)] dir_ok_scache_refill [OF assms(1)]
    dir_ok_scache_writeback [OF assms(1)] dir_ok_finish_modify [OF assms(1)]
  by blast

text \<open>A core with one entry that waits for the L2.\<close>

definition probing :: "int \<Rightarrow> int \<Rightarrow> godson2_cpu" where
  "probing status req = upd_mq 0 (\<lambda>m. m\<lparr>mq_state := MQ_READ_L2, mq_req := req, mq_cpuid := 1, mq_paddr := 0x40\<rparr>)
     (blank_cpu status 0)"

lemma probing_line: "status \<noteq> INVALID \<Longrightarrow> find_line (cache_dl2 (probing status req)) 0x40 = Some (2, 0)"
  by (simp add: probing_def blank_cpu_def find_line_def small_cache_def CACHE_TAG_def CACHE_SET_def get_blk_def
      blank_blk_def Let_def)

lemma probing_ok: "dir_ok n (probing status req)"
proof -
  have "dir_count n (\<lambda>_. False) = 0" by (simp add: dir_count_0)
  then show ?thesis
    by (auto simp: probing_def blank_cpu_def dir_ok_def one_owner_def alone_def small_cache_def get_blk_def blank_blk_def
        zero_mq_def)
qed

lemma probing_simps [simp]:
  "mq_state (missq (probing status req) 0) = MQ_READ_L2" "mq_req (missq (probing status req) 0) = req"
  "mq_cpuid (missq (probing status req) 0) = 1" "\<not> mq_inst (missq (probing status req) 0)"
  "cpuid (probing status req) = 0"
  "blk_status (get_blk (cache_dl2 (probing status req)) (2, 0)) = status"
  "data_directory (get_blk (cache_dl2 (probing status req)) (2, 0)) = (\<lambda>_. False)"
  by (simp_all add: probing_def blank_cpu_def small_cache_def get_blk_def blank_blk_def zero_mq_def)

lemma change_from_used:
  "mq_state (missq st q) \<noteq> MQ_EMPTY \<Longrightarrow> \<exists>st'. missq_change_state q new st = Some st'"
  by (simp add: missq_change_state_def Let_def)

lemma probing_read: "\<exists>st'. scache_probe_cpu 4 0 READ_SHD 0 0x40 (probing SHARED READ_SHD) = Some st'"
  using change_from_used [of "probing SHARED READ_SHD" 0 MQ_EXTRDY]
  by (auto simp: scache_probe_cpu_def probing_line probe_shared_def grant_shared_def Let_def)

theorem L2_operations_keep_one_owner_witness:
  "\<exists>st'. scache_probe_cpu 4 0 READ_SHD 0 0x40 (probing SHARED READ_SHD) = Some st' \<and> dir_ok 4 st'"
proof -
  obtain st' where run: "scache_probe_cpu 4 0 READ_SHD 0 0x40 (probing SHARED READ_SHD) = Some st'"
    using probing_read by blast
  have "dir_ok 4 st'"
    by (rule L2_operations_keep_one_owner [OF probing_ok [of 4 SHARED READ_SHD], where q = 0 and now = 0 and paddr = "0x40"])
      (simp add: run)
  with run show ?thesis by blast
qed

text \<open>C19. When the L2 answers a data read at once, the state it grants is the state it records for the
  line, the requester is in the directory, and an exclusive grant goes only to the sole data cache in
  the directory.\<close>

theorem scache_probe_grant_sole:
  assumes "scache_probe_cpu n now READ_SHD q paddr st = Some st'" and "mq_state (missq st q) = MQ_READ_L2"
    and "mq_state (missq st' q) \<in> {MQ_REPLACE_L1, MQ_EXTRDY}"
    and "\<not> mq_inst (missq st q)" and "mq_cpuid (missq st q) < n"
  shows "\<exists>blk. find_line (cache_dl2 st) paddr = Some blk \<and>
    data_directory (get_blk (cache_dl2 st') blk) (mq_cpuid (missq st q)) \<and>
    blk_status (get_blk (cache_dl2 st') blk) = mq_cache_status (missq st' q) \<and>
    (if mq_cache_status (missq st' q) = EXCLUSIVE
     then \<forall>i<n. data_directory (get_blk (cache_dl2 st') blk) i = (i = mq_cpuid (missq st q))
     else mq_cache_status (missq st' q) = SHARED)"
proof -
  let ?rc = "mq_cpuid (missq st q)"
  obtain blk st1 where blk: "find_line (cache_dl2 st) paddr = Some blk" and 1: "grant_shared n q blk st = Some st1"
    and st': "st' = bump (OfCache L2_hits) st1"
  proof (cases "find_line (cache_dl2 st) paddr")
    case None
    then obtain st0 f where 0: "missq_change_state q MQ_L2_MISS st = Some st0"
      and "st' = bump (OfCache L2_misses) (upd_mq q f st0)" "\<And>m. mq_state (f m) = mq_state m"
      using assms(1) by (auto simp: scache_probe_cpu_def probe_miss_def Let_def bind_eq_Some_conv)
    then show thesis using assms(3) missq_change_entry [OF 0] by simp
  next
    case (Some blk)
    have wait: "mq_state (missq (wait_response q st) q) = MQ_READ_L2" using assms(2) by (simp add: wait_response_def)
    have modify: "mq_state (missq st1 q) = MQ_MODIFY_L1" if "start_modify n q blk idir t st = Some st1" for idir t st1
      by (simp add: start_modify_Some [OF that] copy_directory_def)
    have "\<exists>st1. grant_shared n q blk st = Some st1 \<and> st' = bump (OfCache L2_hits) st1"
      using assms Some wait modify
      by (auto simp: scache_probe_cpu_def probe_exclusive_def probe_shared_def Let_def bind_eq_Some_conv
          clear_read_local_def split: if_splits)
    then show thesis using that Some by blast
  qed
  note g = grant_shared_data [OF 1 assms(4)]
  show ?thesis
    using blk g(1-3) dir_count_1 [of n "(data_directory (get_blk (cache_dl2 st) blk))(?rc := True)" ?rc] assms(5)
    by (auto simp: st' split: if_splits)
qed

theorem scache_probe_grant_sole_witness:
  "\<exists>st'. scache_probe_cpu 4 0 READ_SHD 0 0x40 (probing SHARED READ_SHD) = Some st' \<and>
     data_directory (get_blk (cache_dl2 st') (2, 0)) 1 \<and> blk_status (get_blk (cache_dl2 st') (2, 0)) = mq_cache_status (missq st' 0)"
proof -
  obtain st1 where 1: "grant_shared 4 0 (2, 0) (probing SHARED READ_SHD) = Some st1"
    using change_from_used [of "probing SHARED READ_SHD" 0 MQ_EXTRDY] by (auto simp: grant_shared_def Let_def)
  then have run: "scache_probe_cpu 4 0 READ_SHD 0 0x40 (probing SHARED READ_SHD) = Some (bump (OfCache L2_hits) st1)"
    by (simp add: scache_probe_cpu_def probing_line probe_shared_def Let_def)
  have "mq_state (missq (bump (OfCache L2_hits) st1) 0) \<in> {MQ_REPLACE_L1, MQ_EXTRDY}"
    using grant_shared_data(4) [OF 1] by simp
  from scache_probe_grant_sole [OF run _ this] show ?thesis using run probing_line [of SHARED READ_SHD] by auto
qed


definition modifying :: sys where
  "modifying = upd_cpu 0 (\<lambda>_. upd_mq 0 (\<lambda>m. m\<lparr>mq_state := MQ_MODIFY_L1, L2_changed_blk := Some (2, 0)\<rparr>)
     (probing SHARED UPGRADE)) (blank_sys SHARED)"


end
