(* ===== verification/Lsq.thy ===== *)
theory Lsq
  imports Directory
begin

unbundle bit_operations_syntax

text \<open>
  The load-store queue (lsq.c): entering and issuing memory operations, and \<open>lsq_stage\<close>, one cycle of
  the four pipeline steps between address calculation and the L1 data cache. Refill packets (the
  replacement, refill and intervention operations of \<open>cache2mem\<close>) pass through the same steps, so the
  queue is where the local L1 cache answers interventions.
\<close>

section \<open>Instructions\<close>

text \<open>\<open>MD_OP_FLAGS(op) & F_LOAD\<close> and \<open>F_STORE\<close> (mips.def).\<close>

definition md_is_load :: "md_opcode \<Rightarrow> bool" where
  "md_is_load op \<longleftrightarrow> op \<in> {LB, LBU, LH, LHU, LW, LWC1, LDC1, LWL, LWR, LL}"

definition md_is_store :: "md_opcode \<Rightarrow> bool" where
  "md_is_store op \<longleftrightarrow> op \<in> {SB, SH, SW, SWC1, SDC1, SWL, SWR, SC}"

definition DWORD_MATCH :: "md_addr_t \<Rightarrow> md_addr_t \<Rightarrow> bool" where
  "DWORD_MATCH a b \<longleftrightarrow> a OR 7 = b OR 7"

text \<open>The bank of an address.\<close>

definition BANKI :: "md_addr_t \<Rightarrow> md_addr_t" where
  "BANKI addr = drop_bit 3 (addr AND 0x1F)"

text \<open>\<open>1 << n\<close> in an unsigned char.\<close>

definition get_bytemask :: "md_opcode \<Rightarrow> nat \<Rightarrow> 8 word" where
  "get_bytemask op offset =
     (if op \<in> {SB, LB, LBU} then push_bit offset 1
      else if op \<in> {SH, LH, LHU} then push_bit offset 3
      else if op \<in> {SW, SC, LL, LW, LWC1, SWC1} then push_bit offset 15
      else if op \<in> {SWL, LWL} then push_bit (offset div 4 * 4) (push_bit (offset mod 4 + 1) 1 - 1)
      else if op \<in> {LWR, SWR} then push_bit offset (push_bit (4 - offset mod 4) 1 - 1)
      else if op \<in> {LDC1, SDC1} then 0xFF
      else 0)"

text \<open>The event queue of a core's functional units: an event for an instruction, in order of time. \<open>None\<close>:
  a panic, or no free record.\<close>

definition eventq_queue_event :: "tick_t \<Rightarrow> nat \<Rightarrow> tick_t \<Rightarrow> godson2_cpu \<Rightarrow> godson2_cpu option" where
  "eventq_queue_event now rs whn st =
     (if rs_completed (insts st rs) \<or> whn \<le> now \<or> rslink_free st = 0 then None
      else let ev = \<lparr>link_rs = rs, link_tag = rs_tag (insts st rs), link_when = whn, link_seq = 0, link_opnum = 0\<rparr>;
               early = (\<lambda>e. link_when e < whn)
           in Some (st\<lparr>rslink_free := rslink_free st - 1,
                event_queue := takeWhile early (event_queue st) @ ev # dropWhile early (event_queue st)\<rparr>))"

definition fetch_return_to_free_list :: "nat \<Rightarrow> godson2_cpu \<Rightarrow> godson2_cpu" where
  "fetch_return_to_free_list rs st = st\<lparr>fetch_inst_free := fetch_inst_free st @ [rs]\<rparr>"

section \<open>Entering and issuing\<close>

definition lsq_init :: "godson2_cpu \<Rightarrow> godson2_cpu" where
  "lsq_init st = st\<lparr>lsq := (\<lambda>_. zero_lsq), lsq_num := 0, lsq_head1 := 0, lsq_head := 0, lsq_tail := 0,
     lsq_issuei := None, lsq_dcachei := None, lsq_dtagcmpi := None, lsq_missi := None, lsq_wtbki := None,
     lsq_refill := None, lsq_dcache_refill := None, lsq_dtagcmp_refill := None\<rparr>"

definition lsq_enqueue :: "nat \<Rightarrow> nat \<Rightarrow> godson2_cpu \<Rightarrow> godson2_cpu" where
  "lsq_enqueue n rs st =
     (let t = lsq_tail st;
          st = st\<lparr>insts := (insts st)(rs := (insts st rs)\<lparr>rs_lsqid := t\<rparr>)\<rparr>;
          i = insts st rs;
          st = upd_lsq t (\<lambda>e. e\<lparr>lsq_rs := Some rs, lsq_op := rs_op i, lsq_tag := rs_tag i, lsq_state := LSQ_ENTER,
            lsq_addr := rs_addr i, lsq_set := uint (CACHE_SET (dcache st) (rs_addr i)), lsq_ex := False,
            loadspec := False, op_load := md_is_load (rs_op i), op_store := md_is_store (rs_op i)\<rparr>) st
      in st\<lparr>lsq_num := lsq_num st + 1, lsq_tail := (t + 1) mod n\<rparr>)"

definition lsq_issue :: "nat \<Rightarrow> godson2_cpu \<Rightarrow> godson2_cpu option" where
  "lsq_issue rs st =
     (let l = rs_lsqid (insts st rs)
      in if lsq_rs (lsq st l) = Some rs \<and> lsq_state (lsq st l) = LSQ_ENTER \<and> lsq_issuei st = None
         then Some ((upd_lsq l (\<lambda>e. e\<lparr>lsq_state := LSQ_ISSUE\<rparr>) st)\<lparr>lsq_issuei := Some l\<rparr>)
         else None)"

definition lsq_cancel_one :: "nat \<Rightarrow> godson2_cpu \<Rightarrow> godson2_cpu option" where
  "lsq_cancel_one i st =
     (let k = lsq_state (lsq st i)
      in if k = LSQ_EMPTY then None
         else let st = (if k = LSQ_ISSUE then st\<lparr>lsq_issuei := None\<rparr>
                        else if k = LSQ_DCACHE then st\<lparr>lsq_dcachei := None\<rparr>
                        else if k = LSQ_DTAGCMP then st\<lparr>lsq_dtagcmpi := None\<rparr>
                        else if lsq_missi st = Some i then st\<lparr>lsq_missi := None\<rparr> else st)
              in Some ((upd_lsq i (\<lambda>e. e\<lparr>lsq_state := LSQ_EMPTY\<rparr>) st)
                   \<lparr>lsq_num := lsq_num st - 1, lsq_tail := i\<rparr>))"

section \<open>Scans\<close>

text \<open>The positions the \<open>do\<close> loops visit: always the head, then on to the tail, and in the selections
  only over entries in use. \<open>n\<close> is \<open>lsq_ifq_size\<close>.\<close>

definition lsq_used :: "nat \<Rightarrow> godson2_cpu \<Rightarrow> nat list" where
  "lsq_used n st = lsq_head st # takeWhile (\<lambda>i. i \<noteq> lsq_tail st) (tl (ring_order (lsq_head st) n))"

definition lsq_live :: "nat \<Rightarrow> godson2_cpu \<Rightarrow> nat list" where
  "lsq_live n st = lsq_head st #
     takeWhile (\<lambda>i. i \<noteq> lsq_tail st \<and> lsq_state (lsq st i) \<noteq> LSQ_EMPTY) (tl (ring_order (lsq_head st) n))"

definition cache_miss :: "godson2_cpu \<Rightarrow> nat \<Rightarrow> bool" where
  "cache_miss st i \<longleftrightarrow>
     (let e = lsq st i; k = lsq_state e
      in \<not> lsq_fetching e \<and> \<not> lsq_ex e \<and>
         ((op_load e \<and> k = LSQ_READCACHE \<and> byterdy e \<noteq> 0xFF) \<or>
          (op_store e \<and> byterdy e \<noteq> 0xFF \<and> (k = LSQ_READCACHE \<or> k = LSQ_WRITEBACK \<or> k = LSQ_COMMIT))))"

definition load_match :: "godson2_cpu \<Rightarrow> nat \<Rightarrow> nat \<Rightarrow> bool" where
  "load_match st inn i \<longleftrightarrow> op_load (lsq st i) \<and> lsq_state (lsq st i) \<ge> LSQ_READCACHE \<and>
     DWORD_MATCH (lsq_paddr (lsq st inn)) (lsq_paddr (lsq st i))"

definition store_match :: "godson2_cpu \<Rightarrow> nat \<Rightarrow> nat \<Rightarrow> bool" where
  "store_match st inn i \<longleftrightarrow> op_store (lsq st i) \<and> lsq_state (lsq st i) \<ge> LSQ_READCACHE \<and>
     DWORD_MATCH (lsq_paddr (lsq st inn)) (lsq_paddr (lsq st i))"

definition select_wtbk :: "nat \<Rightarrow> godson2_cpu \<Rightarrow> godson2_cpu" where
  "select_wtbk n st = st\<lparr>lsq_wtbki := find (\<lambda>i. lsq_state (lsq st i) = LSQ_READCACHE \<and> lsq_wtbki st \<noteq> Some i \<and>
     (\<not> op_load (lsq st i) \<or> byterdy (lsq st i) = 0xFF)) (lsq_live n st)\<rparr>"

definition select_miss :: "nat \<Rightarrow> godson2_cpu \<Rightarrow> godson2_cpu" where
  "select_miss n st = st\<lparr>lsq_missi := find (cache_miss st) (lsq_live n st)\<rparr>"

section \<open>Writing a store into the cache\<close>

text \<open>The address of an entry's instruction; \<open>None\<close> is a NULL instruction.\<close>

definition rs_address :: "godson2_cpu \<Rightarrow> nat \<Rightarrow> md_addr_t option" where
  "rs_address st i = map_option (\<lambda>r. rs_addr (insts st r)) (lsq_rs (lsq st i))"

text \<open>The result is \<open>dcachewrite_valid\<close>.\<close>

definition dcache_write :: "godson2_cpu \<Rightarrow> (bool \<times> godson2_cpu) option" where
  "dcache_write st =
     (let h = lsq_head st; e = lsq st h
      in if lsq_state e = LSQ_COMMIT \<and> op_store e \<and> byterdy e = 0xFF
         then do { addr \<leftarrow> rs_address st h;
                   clash \<leftarrow> (if lsq_refill st \<noteq> None \<or> replace_delay st > 0 then Some True
                     else case lsq_issuei st of
                            None \<Rightarrow> Some False
                          | Some i \<Rightarrow> if op_load (lsq st i)
                                      then map_option (\<lambda>a. BANKI a = BANKI addr) (rs_address st i)
                                      else Some False);
                   if clash then Some (False, st)
                   else map_option (\<lambda>p. (True, upd_cache Dcache
                          (upd_blk p (\<lambda>k. k\<lparr>blk_status := blk_status k OR DIRTY\<rparr>)) st)) (lsq_blk e) }
         else Some (False, st))"

section \<open>Refill packets after the tag comparison\<close>

text \<open>An entry loses its data.\<close>

definition lose_data :: "int \<Rightarrow> lsq_entry \<Rightarrow> lsq_entry" where
  "lose_data req e = e\<lparr>byterdy := NOT (bytemask e), lsq_fetching := False, lsq_blk := None, lsq_req := req\<rparr>"

definition spec_load :: "md_addr_t \<Rightarrow> lsq_entry \<Rightarrow> bool" where
  "spec_load paddr e \<longleftrightarrow> op_load e \<and> loadspec e \<and> lsq_state e = LSQ_WRITEBACK \<and> BLOCK_MATCH (lsq_paddr e) paddr"

definition replace_entry :: "md_addr_t \<Rightarrow> nat \<Rightarrow> godson2_cpu \<Rightarrow> godson2_cpu" where
  "replace_entry paddr i st =
     (let e = lsq st i
      in if op_store e \<and> lsq_state e \<ge> LSQ_READCACHE \<and> BLOCK_MATCH (lsq_paddr e) paddr
         then upd_lsq i (lose_data (if op_store e then READ_EX else READ_SHD)) st
         else if spec_load paddr e
         then bump (OfLsq sim_load_mispec_rep) (upd_lsq i (\<lambda>e. e\<lparr>lsq_ex := True\<rparr>) st)
         else st)"

definition tag_replace :: "nat \<Rightarrow> godson2_cpu \<Rightarrow> godson2_cpu" where
  "tag_replace n st = fold (replace_entry (replace_paddr (dcache st))) (lsq_used n st) st"

definition intervene_entry :: "refill_packet \<Rightarrow> nat \<Rightarrow> godson2_cpu \<Rightarrow> godson2_cpu" where
  "intervene_entry p i st =
     (let e = lsq st i; paddr = rf_paddr p
      in if op_store e \<and> lsq_state e \<ge> LSQ_READCACHE \<and> BLOCK_MATCH (lsq_paddr e) paddr
         then upd_lsq i (lose_data (case rf_blk p of
                None \<Rightarrow> READ_EX
              | Some b \<Rightarrow> if blk_status (get_blk (dcache st) b) = INVALID then READ_EX else UPGRADE)) st
         else if op_load e \<and> lsq_fetching e \<and> lsq_state e = LSQ_READCACHE \<and> BLOCK_MATCH (lsq_paddr e) paddr
         then upd_lsq i (lose_data READ_SHD) st
         else if spec_load paddr e
         then let st = upd_lsq i (\<lambda>e. e\<lparr>lsq_ex := True\<rparr>) st; req = mq_req (missq st (rf_missqid p))
              in if req = INTERVENTION_EXC \<or> req = INVALID then bump (OfLsq sim_load_mispec_inv) st else st
         else st)"

text \<open>The answer of the local L1 cache to the entry that modifies L1 caches, or to the one that empties
  the copies of an L2 victim.\<close>

definition local_modify_ack :: "int \<Rightarrow> nat \<Rightarrow> godson2_cpu \<Rightarrow> godson2_cpu option" where
  "local_modify_ack L1_status q st =
     (let m = missq st q; me = cpuid st; t = intervention_type m; blk = L2_changed_blk m
      in if t = INTERVENTION_SHD then
           if L1_status = EXCLUSIVE \<or> L1_status = MODIFIED then
             let st = upd_mq q (set_data_ack me) st
             in if L1_status = MODIFIED then map_option (\<lambda>p. mark_dirty p st) blk else Some st
           else do { p \<leftarrow> blk;
                     let b = blk_status (get_blk (cache_dl2 st) p);
                     assertion (b \<noteq> INVALID \<and> b \<noteq> SHARED);
                     Some (upd_mq q (set_data_sent me False) st) }
         else if t = INTERVENTION_EXC then
           do { p \<leftarrow> blk;
                let b = blk_status (get_blk (cache_dl2 st) p);
                if b = L1_status \<or> (b = EXCLUSIVE \<and> L1_status = MODIFIED)
                then let st = upd_mq q (set_data_ack me) st
                     in Some (if L1_status = MODIFIED then mark_dirty p st else st)
                else do { assertion (b \<noteq> INVALID \<and> \<not> (b = SHARED \<and> (L1_status = EXCLUSIVE \<or> L1_status = MODIFIED)));
                          Some (upd_mq q (set_data_sent me False) st) } }
         else if t = INVALIDATE then
           do { p \<leftarrow> blk;
                let b = blk_status (get_blk (cache_dl2 st) p);
                if b = L1_status then Some (upd_mq q (set_data_ack me) st)
                else do { assertion (b \<noteq> INVALID \<and> b \<noteq> EXCLUSIVE \<and>
                            \<not> (b = SHARED \<and> (L1_status = EXCLUSIVE \<or> L1_status = MODIFIED)));
                          Some (upd_mq q (set_data_sent me False) st) } }
         else Some st)"

definition local_replace_ack :: "int \<Rightarrow> nat \<Rightarrow> godson2_cpu \<Rightarrow> godson2_cpu option" where
  "local_replace_ack L1_status q st =
     do { p \<leftarrow> L2_replace_blk (missq st q);
          let b = blk_status (get_blk (cache_dl2 st) p);
          assertion (b \<noteq> INVALID \<and> \<not> (b = SHARED \<and> (L1_status = EXCLUSIVE \<or> L1_status = MODIFIED)));
          let st = (if b = L1_status \<or> (b = EXCLUSIVE \<and> (L1_status = EXCLUSIVE \<or> L1_status = MODIFIED))
                    then upd_mq q (set_data_ack (cpuid st)) st
                    else upd_mq q (set_data_sent (cpuid st) False) st);
          Some (if L1_status = MODIFIED then mark_dirty p st else st) }"

definition intervention_answer :: "refill_packet \<Rightarrow> godson2_cpu \<Rightarrow> godson2_cpu option" where
  "intervention_answer p st =
     (let q = rf_missqid p; m = missq st q
      in if external_req m
         then Some (upd_mq q (\<lambda>m. m\<lparr>mq_ack := rf_ack p, mq_cache_status := rf_cache_status p,
                mq_state := MQ_EXTRDY\<rparr>) st)
         else if mq_state m = MQ_MODIFY_L1 then local_modify_ack (rf_cache_status p) q st
         else if mq_state m = MQ_L2_MISS then local_replace_ack (rf_cache_status p) q st
         else Some st)"

definition tag_intervention :: "nat \<Rightarrow> refill_packet \<Rightarrow> godson2_cpu \<Rightarrow> godson2_cpu option" where
  "tag_intervention n p st = intervention_answer p (fold (intervene_entry p) (lsq_used n st) st)"

definition refill_entry :: "refill_packet \<Rightarrow> nat \<Rightarrow> godson2_cpu \<Rightarrow> godson2_cpu" where
  "refill_entry p i st =
     (let e = lsq st i
      in if (op_load e \<or> op_store e) \<and> lsq_state e \<ge> LSQ_READCACHE \<and> DWORD_MATCH (lsq_paddr e) (rf_paddr p)
         then let l1_status = (if rf_req p = READ_SHD then rf_cache_status p else EXCLUSIVE)
              in if op_store e \<and> l1_status = SHARED
                 then upd_lsq i (\<lambda>e. e\<lparr>lsq_req := UPGRADE\<rparr>) st
                 else let st = upd_lsq i (\<lambda>e. e\<lparr>byterdy := 0xFF, lsq_fetching := False\<rparr>) st;
                          st = (if lsq_missi st = Some i then st\<lparr>lsq_missi := None\<rparr> else st)
                      in upd_lsq i (\<lambda>e. e\<lparr>lsq_blk := rf_blk p\<rparr>) st
         else st)"

definition tag_refill :: "nat \<Rightarrow> refill_packet \<Rightarrow> godson2_cpu \<Rightarrow> godson2_cpu" where
  "tag_refill n p st = fold (refill_entry p) (lsq_used n st) st"

definition packet_tagcmp :: "nat \<Rightarrow> refill_packet \<Rightarrow> godson2_cpu \<Rightarrow> godson2_cpu option" where
  "packet_tagcmp n p st =
     map_option (\<lambda>st. (refill_return_to_free_list p st)\<lparr>lsq_dtagcmp_refill := None\<rparr>)
       (if rf_replace p then Some (tag_replace n st)
        else if rf_intervention p then tag_intervention n p st
        else Some (tag_refill n p st))"

section \<open>Memory operations after the tag comparison\<close>

text \<open>The positions before \<open>i\<close>, going back, up to but not including \<open>stop\<close>; and those after \<open>i\<close> up to
  the tail.\<close>

definition lsq_before :: "nat \<Rightarrow> nat \<Rightarrow> nat \<Rightarrow> nat list" where
  "lsq_before n i stop = takeWhile (\<lambda>j. j \<noteq> stop) (map (\<lambda>k. (i + n - 1 - k) mod n) [0..<n])"

definition lsq_after :: "nat \<Rightarrow> nat \<Rightarrow> nat \<Rightarrow> nat list" where
  "lsq_after n i stop = takeWhile (\<lambda>j. j \<noteq> stop) (ring_order ((i + 1) mod n) n)"

text \<open>The search of a load for the bytes that older stores will write; the result is \<open>notfoundmask\<close>.\<close>

fun search_stores :: "godson2_cpu \<Rightarrow> nat \<Rightarrow> 8 word \<Rightarrow> nat list \<Rightarrow> 8 word \<Rightarrow> 8 word" where
  "search_stores st l bmask [] nf = nf"
| "search_stores st l bmask (i # is) nf =
     (if bmask AND nf = 0 then nf
      else let matchmask = bytemask (lsq st i) AND bmask AND nf
           in search_stores st l bmask is
                (if matchmask \<noteq> 0 \<and> store_match st l i then nf AND NOT matchmask else nf))"

text \<open>Processor consistency: the nearest older load that has not been written back is marked.\<close>

definition mark_spec :: "nat list \<Rightarrow> godson2_cpu \<Rightarrow> godson2_cpu" where
  "mark_spec is st =
     (case find (\<lambda>i. op_load (lsq st i) \<and> lsq_state (lsq st i) < LSQ_WRITEBACK) is of
        None \<Rightarrow> st
      | Some i \<Rightarrow> upd_lsq i (\<lambda>e. e\<lparr>loadspec := True\<rparr>) st)"

text \<open>A store forwards its bytes to younger loads; a load that has already been written back, or is about
  to be, was speculated wrongly. The result says whether any load took bytes.\<close>

fun forward_store ::
  "nat \<Rightarrow> 8 word \<Rightarrow> nat list \<Rightarrow> 8 word \<Rightarrow> bool \<Rightarrow> godson2_cpu \<Rightarrow> bool \<times> godson2_cpu" where
  "forward_store l bmask [] nf fwd st = (fwd, st)"
| "forward_store l bmask (i # is) nf fwd st =
     (if bmask AND nf = 0 then (fwd, st)
      else let matchmask = bytemask (lsq st i) AND bmask AND nf
           in if matchmask = 0 then forward_store l bmask is nf fwd st
              else let hit = load_match st l i;
                       st = (if hit then upd_lsq i (\<lambda>e. e\<lparr>byterdy := byterdy e OR matchmask,
                               lsq_ex := (if lsq_state e = LSQ_WRITEBACK \<or> lsq_wtbki st = Some i
                                          then True else lsq_ex e)\<rparr>) st
                             else st);
                       nf = (if store_match st l i then nf AND NOT matchmask else nf)
                   in forward_store l bmask is nf (fwd \<or> hit) st)"

definition count_access :: "nat \<Rightarrow> godson2_cpu \<Rightarrow> godson2_cpu" where
  "count_access l st =
     (let e = lsq st l; miss = (lsq_blk e = None);
          st = (if op_load e then bump (OfLsq sim_loadcnt) st else st);
          st = (if op_load e \<and> miss then bump (OfLsq sim_loadmisscnt) st else st);
          st = (if op_store e then bump (OfLsq sim_storecnt) st else st)
      in if op_store e \<and> miss then bump (OfLsq sim_storemisscnt) st else st)"

definition tag_load :: "nat \<Rightarrow> nat \<Rightarrow> godson2_cpu \<Rightarrow> godson2_cpu" where
  "tag_load n l st =
     (let bmask = bytemask (lsq st l);
          before = lsq_before n l ((lsq_head1 st + n - 1) mod n);
          nf = search_stores st l bmask before 0xFF;
          st = mark_spec before st;
          st = (if nf \<noteq> 0xFF then bump (OfLsq sim_loadfwdcnt) st else st);
          st = (if lsq_wtbki st \<noteq> Some l then bump (OfLsq sim_ldwtbkdelaycnt) st else st)
      in upd_lsq l (\<lambda>e. e\<lparr>byterdy := (if lsq_blk e \<noteq> None then 0xFF else NOT bmask OR NOT nf)\<rparr>) st)"

definition tag_store :: "nat \<Rightarrow> nat \<Rightarrow> godson2_cpu \<Rightarrow> godson2_cpu" where
  "tag_store n l st =
     (let bmask = bytemask (lsq st l);
          (has_forward, st) = forward_store l bmask (lsq_after n l (lsq_tail st)) 0xFF False st;
          st = (if has_forward then bump (OfLsq sim_storefwdcnt) st else st)
      in upd_lsq l (\<lambda>e. e\<lparr>byterdy := (if lsq_blk e \<noteq> None then 0xFF else NOT bmask)\<rparr>) st)"

definition op_tagcmp :: "nat \<Rightarrow> nat \<Rightarrow> godson2_cpu \<Rightarrow> godson2_cpu option" where
  "op_tagcmp n l st =
     do { rs \<leftarrow> lsq_rs (lsq st l);
          let st = upd_lsq l (\<lambda>e. e\<lparr>lsq_state := LSQ_READCACHE, lsq_fetching := False,
            bytemask := get_bytemask (rs_op (insts st rs)) (unat (lsq_addr e AND 7))\<rparr>) st;
          let st = st\<lparr>lsq_dtagcmpi := None\<rparr>;
          let e = lsq st l;
          let st = (if op_load e \<and> \<not> lsq_ex e \<and> lsq_blk e \<noteq> None then st\<lparr>lsq_wtbki := Some l\<rparr> else st);
          let st = count_access l st;
          Some (if op_load e then tag_load n l st
                else if op_store e then tag_store n l st
                else upd_lsq l (\<lambda>e. e\<lparr>byterdy := 0xFF\<rparr>) st) }"

definition dtagcmp :: "nat \<Rightarrow> godson2_cpu \<Rightarrow> godson2_cpu option" where
  "dtagcmp n st =
     (case lsq_dtagcmp_refill st of
        Some p \<Rightarrow> packet_tagcmp n p st
      | None \<Rightarrow> (case lsq_dtagcmpi st of None \<Rightarrow> Some st | Some l \<Rightarrow> op_tagcmp n l st))"

section \<open>Write back and commit\<close>

definition queue_writeback :: "tick_t \<Rightarrow> godson2_cpu \<Rightarrow> godson2_cpu option" where
  "queue_writeback now st =
     (case lsq_wtbki st of
        None \<Rightarrow> Some st
      | Some w \<Rightarrow> lsq_rs (lsq st w) \<bind> (\<lambda>rs. eventq_queue_event now rs (now + 1 * period st) st))"

definition free_entry :: "nat \<Rightarrow> godson2_cpu \<Rightarrow> godson2_cpu option" where
  "free_entry i st =
     map_option (\<lambda>rs. (upd_lsq i (\<lambda>e. e\<lparr>lsq_rs := None, lsq_state := LSQ_EMPTY\<rparr>)
         (fetch_return_to_free_list rs st))\<lparr>lsq_num := lsq_num st - 1\<rparr>) (lsq_rs (lsq st i))"

definition commit_free :: "nat \<Rightarrow> godson2_cpu \<Rightarrow> godson2_cpu option" where
  "commit_free n st =
     (let freed = takeWhile (\<lambda>i. lsq_state (lsq st i) = LSQ_DELAY1) (ring_order (lsq_head1 st) n)
      in map_option (\<lambda>st. st\<lparr>lsq_head1 := (lsq_head1 st + length freed) mod n\<rparr>) (fold_opt free_entry freed st))"

text \<open>At most three committed loads leave together with the head; \<open>k\<close> counts down.\<close>

fun retire_loads :: "nat \<Rightarrow> nat \<Rightarrow> nat \<Rightarrow> godson2_cpu \<Rightarrow> nat \<times> godson2_cpu" where
  "retire_loads n 0 i st = (i, st)"
| "retire_loads n (Suc k) i st =
     (if lsq_state (lsq st i) = LSQ_COMMIT \<and> op_load (lsq st i)
      then retire_loads n k ((i + 1) mod n) (upd_lsq i (\<lambda>e. e\<lparr>lsq_state := LSQ_DELAY1\<rparr>) st)
      else (i, st))"

definition commit_head :: "nat \<Rightarrow> bool \<Rightarrow> godson2_cpu \<Rightarrow> godson2_cpu" where
  "commit_head n written st =
     (let i = lsq_head st; e = lsq st i
      in if written \<or> (\<not> op_store e \<and> lsq_state e = LSQ_COMMIT)
         then let (i', st) = retire_loads n 3 ((i + 1) mod n) (upd_lsq i (\<lambda>e. e\<lparr>lsq_state := LSQ_DELAY1\<rparr>) st)
              in st\<lparr>lsq_head := i'\<rparr>
         else st)"

section \<open>Data cache\<close>

text \<open>What a refill packet does to the data cache. \<open>None\<close> also for an intervention of another kind, whose
  line the code does not set.\<close>

definition packet_dcache :: "nat \<Rightarrow> refill_packet \<Rightarrow> 'z sys_scheme \<Rightarrow> (refill_packet \<times> 'z sys_scheme) option" where
  "packet_dcache c p s =
     (if rf_replace p then
        map_option (\<lambda>(blk, s). (p\<lparr>rf_blk := Some blk\<rparr>, upd_cpu c (\<lambda>st. st\<lparr>replace_delay := 2\<rparr>) s))
          (replace_block c Dcache (- 1) (rf_paddr p) (rf_req p) False False (rf_cache_status p) s)
      else if rf_intervention p then
        (let st = cpus s c; a = rf_paddr p;
             answer = (if rf_req p = INTERVENTION_SHD then Some (intervention_shared a st)
                       else if rf_req p = INTERVENTION_EXC then Some (intervention_exclusive a st)
                       else if rf_req p = INVALIDATE
                       then map_option (\<lambda>(old, blk, st). (ACK, old, blk, st)) (invalidate a st)
                       else None)
         in map_option (\<lambda>(ack, old, blk, st).
              (p\<lparr>rf_blk := blk, rf_ack := ack, rf_cache_status := old\<rparr>,
               upd_cpu c (\<lambda>_. st\<lparr>replace_delay := 2\<rparr>) s)) answer)
      else
        (let st = cpus s c; p = p\<lparr>rf_blk := refill_blk (dcache st)\<rparr>;
             dc = mark_bitmap (unat (BANKI (rf_paddr p))) (dcache st)
         in map_option (\<lambda>dc. (p, upd_cpu c (\<lambda>st. st\<lparr>dcache := dc\<rparr>) s))
              (if rf_cnt p = 4
               then map_option (\<lambda>dc. dc\<lparr>refill_blk := None\<rparr>)
                      (mark_valid (if rf_req p = READ_SHD then rf_cache_status p else EXCLUSIVE) dc)
               else Some dc)))"

definition op_dcache :: "nat \<Rightarrow> nat \<Rightarrow> 'z sys_scheme \<Rightarrow> 'z sys_scheme option" where
  "op_dcache c l s =
     (let st = (upd_lsq l (\<lambda>e. e\<lparr>lsq_state := LSQ_DTAGCMP\<rparr>) (cpus s c))
            \<lparr>lsq_dtagcmpi := Some l, lsq_dcachei := None\<rparr>
      in map_option (\<lambda>addr.
           let paddr = dtlb_probe s (cpuid st) addr;
               (blk, request, st) = cache_probe Dcache (op_store (lsq st l)) addr paddr st
           in upd_cpu c (\<lambda>_. upd_lsq l (\<lambda>e. e\<lparr>lsq_addr := addr, lsq_paddr := paddr, lsq_blk := blk,
                lsq_req := request\<rparr>) st) s) (rs_address st l))"

definition dcache_step :: "nat \<Rightarrow> 'z sys_scheme \<Rightarrow> 'z sys_scheme option" where
  "dcache_step c s =
     (let s = upd_cpu c (\<lambda>st. if replace_delay st > 0 then st\<lparr>replace_delay := replace_delay st - 1\<rparr> else st) s;
          st = cpus s c
      in case lsq_dcache_refill st of
           Some p \<Rightarrow> map_option (\<lambda>(p, s). upd_cpu c (\<lambda>st. st\<lparr>lsq_dtagcmp_refill := Some p,
                       lsq_dcache_refill := None\<rparr>) s) (packet_dcache c p s)
         | None \<Rightarrow> (case lsq_dcachei st of None \<Rightarrow> Some s | Some l \<Rightarrow> op_dcache c l s))"

definition memaddr_step :: "godson2_cpu \<Rightarrow> godson2_cpu option" where
  "memaddr_step st =
     (let st = (case lsq_refill st of
                  Some p \<Rightarrow> st\<lparr>lsq_dcache_refill := Some p, lsq_refill := None\<rparr>
                | None \<Rightarrow> (case lsq_issuei st of
                    None \<Rightarrow> st
                  | Some i \<Rightarrow> (upd_lsq i (\<lambda>e. e\<lparr>lsq_state := LSQ_DCACHE\<rparr>) st)
                      \<lparr>lsq_dcachei := Some i, lsq_issuei := None\<rparr>))
      in case lsq_issuei st of
           None \<Rightarrow> Some st
         | Some i \<Rightarrow> map_option (\<lambda>rs. st\<lparr>res_busy := (res_busy st)(rs_fu_master (insts st rs) := 1)\<rparr>)
                       (lsq_rs (lsq st i)))"

section \<open>The stage\<close>

definition lsq_stage :: "nat \<Rightarrow> 'z sys_scheme \<Rightarrow> 'z sys_scheme option" where
  "lsq_stage c s =
     (let n = lsq_ifq_size s
      in do { s \<leftarrow> on_cpu c (\<lambda>st.
                do { (written, st) \<leftarrow> dcache_write (select_miss n (select_wtbk n st));
                     st \<leftarrow> dtagcmp n st;
                     st \<leftarrow> queue_writeback (sim_cycle s) st;
                     map_option (commit_head n written) (commit_free n st) }) s;
              s \<leftarrow> dcache_step c s;
              on_cpu c memaddr_step s })"

section \<open>Store to load forwarding\<close>

lemma bit_255: "bit (0xFF :: 8 word) k \<longleftrightarrow> k < 8" "bit (0xFF :: int) k \<longleftrightarrow> k < 8"
proof -
  have "bit (2 ^ 8 - 1 :: int) k \<longleftrightarrow> k < 8"
    by (simp only: mask_eq_exp_minus_1 [symmetric] bit_mask_iff) simp
  then show "bit (0xFF :: int) k \<longleftrightarrow> k < 8" by simp
  then show "bit (0xFF :: 8 word) k \<longleftrightarrow> k < 8" by (simp add: bit_simps)
qed

lemma search_stores_bit:
  "bit (search_stores st l m is nf) k \<longleftrightarrow>
     bit nf k \<and> \<not> (bit m k \<and> (\<exists>i\<in>set is. store_match st l i \<and> bit (bytemask (lsq st i)) k))"
proof (induction "is" arbitrary: nf)
  case (Cons i "is")
  show ?case
  proof (cases "m AND nf = 0")
    case True
    then have "\<not> (bit m k \<and> bit nf k)" by (metis bit_0_eq bit_and_iff bot_apply bot_bool_def)
    then show ?thesis using True by auto
  next
    case False
    let ?mm = "bytemask (lsq st i) AND m AND nf"
    have z: "\<not> (bit (bytemask (lsq st i)) k \<and> bit m k \<and> bit nf k)" if "?mm = 0"
      using that by (metis bit_0_eq bit_and_iff bot_apply bot_bool_def)
    show ?thesis
      using False z by (auto simp: Let_def Cons.IH bit_simps dest: bit_imp_le_length)
  qed
qed simp

text \<open>What the store at \<open>l\<close> gives the load at \<open>j\<close>.\<close>

definition forwards :: "godson2_cpu \<Rightarrow> nat \<Rightarrow> nat \<Rightarrow> nat \<Rightarrow> nat list \<Rightarrow> 8 word \<Rightarrow> 8 word \<Rightarrow> bool" where
  "forwards st l j k is m nf \<longleftrightarrow> (\<exists>as bs. is = as @ j # bs \<and> load_match st l j \<and> bit m k \<and> bit nf k \<and>
     bit (bytemask (lsq st j)) k \<and> (\<forall>i\<in>set as. \<not> (store_match st l i \<and> bit (bytemask (lsq st i)) k)))"

lemma forwards_Nil [simp]: "\<not> forwards st l j k [] m nf"
  by (simp add: forwards_def)

lemma forwards_Cons:
  "forwards st l j k (i # is) m nf \<longleftrightarrow>
     (i = j \<and> load_match st l j \<and> bit m k \<and> bit nf k \<and> bit (bytemask (lsq st j)) k) \<or>
     (\<not> (store_match st l i \<and> bit (bytemask (lsq st i)) k) \<and> forwards st l j k is m nf)"
  (is "?L \<longleftrightarrow> ?A \<or> ?B")
proof
  assume ?L
  then obtain as bs where 1: "i # is = as @ j # bs" "load_match st l j" "bit m k" "bit nf k"
    "bit (bytemask (lsq st j)) k" "\<forall>i\<in>set as. \<not> (store_match st l i \<and> bit (bytemask (lsq st i)) k)"
    unfolding forwards_def by blast
  then show "?A \<or> ?B"
    by (cases as) (auto simp: forwards_def)
next
  assume "?A \<or> ?B"
  then show ?L
  proof
    assume ?A then show ?L unfolding forwards_def by (intro exI [of _ "[]"] exI [of _ "is"]) auto
  next
    assume B: ?B
    then obtain as bs where 1: "is = as @ j # bs" "load_match st l j" "bit m k" "bit nf k"
      "bit (bytemask (lsq st j)) k" "\<forall>i\<in>set as. \<not> (store_match st l i \<and> bit (bytemask (lsq st i)) k)"
      unfolding forwards_def by blast
    then show ?L using B unfolding forwards_def by (intro exI [of _ "i # as"] exI [of _ bs]) auto
  qed
qed

lemma forwards_mask: "forwards st l j k is m nf \<Longrightarrow> bit m k \<and> bit nf k"
  by (auto simp: forwards_def)

lemma forwards_frame:
  "(\<And>i. load_match st' l i = load_match st l i) \<Longrightarrow> (\<And>i. store_match st' l i = store_match st l i) \<Longrightarrow>
   (\<And>i. bytemask (lsq st' i) = bytemask (lsq st i)) \<Longrightarrow> forwards st' l j k is m nf = forwards st l j k is m nf"
  by (simp add: forwards_def)

lemma forward_store_bit:
  "bit (byterdy (lsq (snd (forward_store l m is nf fwd st)) j)) k \<longleftrightarrow>
     bit (byterdy (lsq st j)) k \<or> forwards st l j k is m nf"
proof (induction "is" arbitrary: nf fwd st)
  case (Cons i "is")
  let ?mm = "bytemask (lsq st i) AND m AND nf"
  show ?case
  proof (cases "m AND nf = 0")
    case True
    then have "\<not> (bit m k \<and> bit nf k)" by (metis bit_0_eq bit_and_iff bot_apply bot_bool_def)
    then show ?thesis using True forwards_mask by fastforce
  next
    case False
    show ?thesis
    proof (cases "?mm = 0")
      case True
      then have "\<not> (bit (bytemask (lsq st i)) k \<and> bit m k \<and> bit nf k)"
        by (metis bit_0_eq bit_and_iff bot_apply bot_bool_def)
      then show ?thesis using False True Cons.IH [of nf fwd st] forwards_mask
        by (fastforce simp: Let_def forwards_Cons)
    next
      case mm: False
      define st1 where "st1 = (if load_match st l i then upd_lsq i (\<lambda>e. e\<lparr>byterdy := byterdy e OR ?mm,
          lsq_ex := (if lsq_state e = LSQ_WRITEBACK \<or> lsq_wtbki st = Some i then True else lsq_ex e)\<rparr>) st else st)"
      define nf1 where "nf1 = (if store_match st1 l i then nf AND NOT ?mm else nf)"
      have run: "forward_store l m (i # is) nf fwd st = forward_store l m is nf1 (fwd \<or> load_match st l i) st1"
        using False mm unfolding st1_def nf1_def by (simp add: Let_def)
      have frame: "load_match st1 l x = load_match st l x" "store_match st1 l x = store_match st l x"
        "bytemask (lsq st1 x) = bytemask (lsq st x)" for x
        by (simp_all add: st1_def load_match_def store_match_def upd_lsq_def)
      have b: "bit (byterdy (lsq st1 j)) k \<longleftrightarrow> bit (byterdy (lsq st j)) k \<or>
          (i = j \<and> load_match st l j \<and> bit m k \<and> bit nf k \<and> bit (bytemask (lsq st j)) k)"
        by (auto simp: st1_def upd_lsq_def bit_simps)
      have n: "bit nf1 k \<longleftrightarrow> bit nf k \<and> \<not> (bit m k \<and> store_match st l i \<and> bit (bytemask (lsq st i)) k)"
        by (auto simp: nf1_def frame bit_simps dest: bit_imp_le_length)
      have "forwards st1 l j k is m nf1 = forwards st l j k is m nf1"
        by (rule forwards_frame) (simp_all add: frame)
      also have "\<dots> \<longleftrightarrow> \<not> (store_match st l i \<and> bit (bytemask (lsq st i)) k) \<and> forwards st l j k is m nf"
        using n by (auto simp: forwards_def)
      finally show ?thesis unfolding run Cons.IH b forwards_Cons by blast
    qed
  qed
qed simp

section \<open>Properties\<close>

text \<open>C31. A cache answers an intervention the same way wherever it is: the code that lets the local L1
  answer the entry which modifies copies (in the load-store queue), or which empties the copies of an
  L2 victim, has the effect of the acknowledgement that a remote L1 sends through the network.\<close>

theorem local_ack_as_remote:
  "local_modify_ack L1_status q st = ack_modify False L1_status q (cpuid st) st \<and>
   local_replace_ack L1_status q st = ack_replace False L1_status q (cpuid st) st"
  by (cases "L2_changed_blk (missq st q)"; cases "L2_replace_blk (missq st q)")
    (auto simp: local_modify_ack_def ack_modify_def local_replace_ack_def ack_replace_def Let_def
      set_ack_def clear_sent_def)

text \<open>A half-word store followed by a word load of the same double word; both have compared their tags.\<close>

definition store_load :: godson2_cpu where
  "store_load = (blank_cpu SHARED 0)\<lparr>lsq := (\<lambda>_. zero_lsq)
     (0 := zero_lsq\<lparr>lsq_state := LSQ_READCACHE, op_store := True, lsq_paddr := 0x40, bytemask := 0x3\<rparr>,
      1 := zero_lsq\<lparr>lsq_state := LSQ_READCACHE, op_load := True, lsq_paddr := 0x40, bytemask := 0xF\<rparr>),
     lsq_tail := 2\<rparr>"

lemma store_load_simps [simp]:
  "lsq store_load = (\<lambda>_. zero_lsq)
     (0 := zero_lsq\<lparr>lsq_state := LSQ_READCACHE, op_store := True, lsq_paddr := 0x40, bytemask := 0x3\<rparr>,
      1 := zero_lsq\<lparr>lsq_state := LSQ_READCACHE, op_load := True, lsq_paddr := 0x40, bytemask := 0xF\<rparr>)"
  "lsq_tail store_load = 2" "lsq_head store_load = 0" "lsq_head1 store_load = 0"
  "dcache store_load = small_cache SHARED" "cpuid store_load = 0"
  by (simp_all add: store_load_def blank_cpu_def)

text \<open>C24. A load that misses waits for exactly the bytes it needs and no older store provides: after its
  tag comparison a byte is ready if it is outside the load's mask or covered by a store between the load
  and the head that has compared its tag with the same double word.\<close>

theorem missing_load_waits:
  assumes "lsq_blk (lsq st l) = None" and "k < 8"
  shows "bit (byterdy (lsq (tag_load n l st) l)) k \<longleftrightarrow> \<not> bit (bytemask (lsq st l)) k \<or>
    (\<exists>i\<in>set (lsq_before n l ((lsq_head1 st + n - 1) mod n)). store_match st l i \<and> bit (bytemask (lsq st i)) k)"
proof -
  have spec: "lsq_blk (lsq (mark_spec is st) l) = lsq_blk (lsq st l)" for "is"
    by (auto simp: mark_spec_def upd_lsq_def split: option.splits)
  have bumps: "lsq (bump x st) = lsq st" for x st by (simp add: bump_def)
  show ?thesis
    using assms by (auto simp: tag_load_def upd_lsq_def Let_def bumps spec bit_simps search_stores_bit bit_255)
qed

theorem missing_load_waits_witness:
  "bit (byterdy (lsq (tag_load 8 1 store_load) 1)) 1 \<and> \<not> bit (byterdy (lsq (tag_load 8 1 store_load) 1)) 2"
proof -
  have "lsq_before 8 1 ((lsq_head1 store_load + 8 - 1) mod 8) = [0]"
    by (simp add: lsq_before_def upt_rec)
  then show ?thesis
    using missing_load_waits [of store_load 1 1 8] missing_load_waits [of store_load 1 2 8]
    by (simp add: store_match_def DWORD_MATCH_def zero_lsq_def)
qed

text \<open>C23. A store gives its bytes to the younger loads of the same double word that have compared their
  tags, and to nothing else: a byte of such a load becomes ready if both masks contain it and no store
  between the two writes it.\<close>

theorem store_forwards:
  assumes "j \<noteq> l"
  shows "bit (byterdy (lsq (tag_store n l st) j)) k \<longleftrightarrow> bit (byterdy (lsq st j)) k \<or>
    (\<exists>as bs. lsq_after n l (lsq_tail st) = as @ j # bs \<and> load_match st l j \<and>
       bit (bytemask (lsq st l)) k \<and> bit (bytemask (lsq st j)) k \<and>
       \<not> (\<exists>i\<in>set as. store_match st l i \<and> bit (bytemask (lsq st i)) k))"
proof -
  let ?r = "forward_store l (bytemask (lsq st l)) (lsq_after n l (lsq_tail st)) 0xFF False st"
  have "lsq (tag_store n l st) j = lsq (snd ?r) j"
    using assms by (simp add: tag_store_def upd_lsq_def Let_def bump_def split: prod.split)
  moreover have "forwards st l j k is (bytemask (lsq st l)) 0xFF \<longleftrightarrow> (\<exists>as bs. is = as @ j # bs \<and> load_match st l j \<and>
       bit (bytemask (lsq st l)) k \<and> bit (bytemask (lsq st j)) k \<and>
       \<not> (\<exists>i\<in>set as. store_match st l i \<and> bit (bytemask (lsq st i)) k))" for "is"
  proof -
    have "bit (bytemask (lsq st l)) k \<and> bit (0xFF :: 8 word) k \<longleftrightarrow> bit (bytemask (lsq st l)) k"
      using bit_imp_le_length [of "bytemask (lsq st l)" k] by (auto simp: bit_255)
    then show ?thesis unfolding forwards_def by (metis (no_types, lifting))
  qed
  ultimately show ?thesis by (simp only: forward_store_bit)
qed

theorem store_forwards_witness:
  "bit (byterdy (lsq (tag_store 8 0 store_load) 1)) 1 \<and> \<not> bit (byterdy (lsq (tag_store 8 0 store_load) 1)) 2"
proof -
  have after: "lsq_after 8 0 (lsq_tail store_load) = [1]"
    by (simp add: lsq_after_def ring_order_def upt_rec)
  have "load_match store_load 0 1" by (simp add: load_match_def DWORD_MATCH_def zero_lsq_def)
  then have "bit (byterdy (lsq (tag_store 8 0 store_load) 1)) 1"
    using store_forwards [of 1 0 8 store_load 1] after by (auto intro!: exI [of _ "[]"])
  moreover have "\<not> bit (byterdy (lsq (tag_store 8 0 store_load) 1)) 2"
    using store_forwards [of 1 0 8 store_load 2] by (simp add: zero_lsq_def)
  ultimately show ?thesis ..
qed

section \<open>A line that is taken away\<close>

text \<open>An entry of a store that has lost its line.\<close>

definition lost :: "md_addr_t \<Rightarrow> nat \<Rightarrow> godson2_cpu \<Rightarrow> bool" where
  "lost paddr i st \<longleftrightarrow> byterdy (lsq st i) = NOT (bytemask (lsq st i)) \<and> lsq_blk (lsq st i) = None"

definition store_in :: "md_addr_t \<Rightarrow> nat \<Rightarrow> godson2_cpu \<Rightarrow> bool" where
  "store_in paddr i st \<longleftrightarrow> op_store (lsq st i) \<and> lsq_state (lsq st i) \<ge> LSQ_READCACHE \<and>
     BLOCK_MATCH (lsq_paddr (lsq st i)) paddr"

definition loses :: "md_addr_t \<Rightarrow> nat \<Rightarrow> godson2_cpu \<Rightarrow> godson2_cpu \<Rightarrow> bool" where
  "loses paddr i st st' \<longleftrightarrow> (store_in paddr i st \<longrightarrow> store_in paddr i st' \<and> bytemask (lsq st' i) = bytemask (lsq st i)
     \<and> (lost paddr i st \<longrightarrow> lost paddr i st'))"

lemma intervene_entry_loses: "loses (rf_paddr p) i st (intervene_entry p j st)"
  by (auto simp: loses_def store_in_def lost_def intervene_entry_def lose_data_def spec_load_def upd_lsq_def
      bump_def Let_def)

lemma intervene_entry_lost: "store_in (rf_paddr p) i st \<Longrightarrow> lost (rf_paddr p) i (intervene_entry p i st)"
  by (auto simp: store_in_def lost_def intervene_entry_def lose_data_def upd_lsq_def Let_def)

lemma replace_entry_loses: "loses a i st (replace_entry a j st)"
  by (auto simp: loses_def store_in_def lost_def replace_entry_def lose_data_def spec_load_def upd_lsq_def
      bump_def Let_def)

lemma replace_entry_lost: "store_in a i st \<Longrightarrow> lost a i (replace_entry a i st)"
  by (auto simp: store_in_def lost_def replace_entry_def lose_data_def upd_lsq_def Let_def)

lemma fold_loses:
  assumes step: "\<And>j st. loses a i st (f j st)" and hit: "\<And>st. store_in a i st \<Longrightarrow> lost a i (f i st)"
  shows "store_in a i st \<Longrightarrow> i \<in> set is \<or> lost a i st \<Longrightarrow>
    store_in a i (fold f is st) \<and> lost a i (fold f is st) \<and>
    bytemask (lsq (fold f is st) i) = bytemask (lsq st i)"
proof (induction "is" arbitrary: st)
  case (Cons j "is")
  have "store_in a i (f j st)" "bytemask (lsq (f j st) i) = bytemask (lsq st i)"
    using step [of st j] Cons.prems(1) by (auto simp: loses_def)
  moreover have "i \<in> set is \<or> lost a i (f j st)"
    using step [of st j] hit Cons.prems by (auto simp: loses_def)
  ultimately show ?case using Cons.IH [of "f j st"] by simp
qed simp

lemma lsq_frame [simp]:
  "lsq (upd_mq q f st) = lsq st" "lsq (mark_dirty b st) = lsq st" "lsq (refill_return_to_free_list p st) = lsq st"
  by (simp_all add: upd_mq_def mark_dirty_def refill_return_to_free_list_def)

lemma ack_lsq:
  "local_modify_ack x q st = Some st' \<Longrightarrow> lsq st' = lsq st" "local_replace_ack x q st = Some st' \<Longrightarrow> lsq st' = lsq st"
  by (auto simp: local_modify_ack_def local_replace_ack_def Let_def split: if_splits bind_splits)

lemma intervention_answer_lsq: "intervention_answer p st = Some st' \<Longrightarrow> lsq st' = lsq st"
  by (auto simp: intervention_answer_def Let_def dest: ack_lsq split: if_splits)



text \<open>C32. An intervention that finds the line makes the L1 transition: it reports the old state, returns
  data exactly for a modified line, leaves the line shared or invalid, and changes no other block. An
  \<open>INVALIDATE\<close> aborts for a line that is exclusive or modified.\<close>

theorem intervention_transition:
  assumes "rf_intervention p" and "\<not> rf_replace p" and "find_line (dcache (cpus s c)) (rf_paddr p) = Some b"
    and "rf_req p \<in> {INTERVENTION_SHD, INTERVENTION_EXC, INVALIDATE}"
    and "old = blk_status (get_blk (dcache (cpus s c)) b)"
  shows "case packet_dcache c p s of
      None \<Rightarrow> rf_req p = INVALIDATE \<and> (old = EXCLUSIVE \<or> old = MODIFIED)
    | Some (p', s') \<Rightarrow> rf_blk p' = Some b \<and> rf_cache_status p' = old \<and>
        (rf_ack p' = ACK_DATA \<longleftrightarrow> old = MODIFIED) \<and>
        get_blk (dcache (cpus s' c)) b = (get_blk (dcache (cpus s c)) b)
          \<lparr>blk_status := (if rf_req p = INTERVENTION_SHD then SHARED else INVALID)\<rparr> \<and>
        (\<forall>q. q \<noteq> b \<longrightarrow> get_blk (dcache (cpus s' c)) q = get_blk (dcache (cpus s c)) q)"
  using assms by (auto simp: packet_dcache_def intervention_shared_def intervention_exclusive_def
      invalidate_def upd_cpu_def set_status_def Let_def)

theorem intervention_transition_witness:
  "case packet_dcache 0 (blank_packet\<lparr>rf_intervention := True, rf_req := INTERVENTION_SHD, rf_paddr := 0x40\<rparr>)
      (blank_sys MODIFIED) of
     None \<Rightarrow> False
   | Some (p', s') \<Rightarrow> rf_ack p' = ACK_DATA \<and> blk_status (get_blk (dcache (cpus s' 0)) (2, 0)) = SHARED"
proof -
  let ?p = "blank_packet\<lparr>rf_intervention := True, rf_req := INTERVENTION_SHD, rf_paddr := 0x40\<rparr>"
  have line: "find_line (dcache (cpus (blank_sys MODIFIED) 0)) (rf_paddr ?p) = Some (2, 0)"
    by (simp add: find_line_def cache2mem_init_def memq_init_free_list_def refill_init_free_list_def
        blank_cpu_def small_cache_def get_blk_def blank_blk_def CACHE_SET_def CACHE_TAG_def)
  have m: "blk_status (get_blk (dcache (cpus (blank_sys MODIFIED) 0)) (2, 0)) = MODIFIED"
    by (simp add: cache2mem_init_def memq_init_free_list_def refill_init_free_list_def
        blank_cpu_def small_cache_def get_blk_def blank_blk_def)
  show ?thesis
    using intervention_transition [OF _ _ line _ refl] m by (auto simp: blank_packet_def split: option.splits)
qed

end
