(* ===== verification/System.thy ===== *)
theory System
  imports Lsq
begin

unbundle bit_operations_syntax

text \<open>
  The simulation loop (\<open>cpu_execute\<close> and \<open>sim_main\<close> of simulate.c) for cores that run no program: such
  a core still is the home of a part of the memory, so its cycle moves the memory queue, the router, the
  miss queue and the load-store queue. The event handlers the queue calls back are put together, the
  interface of the event queue is interpreted on them, and the order in which the cores run is shown.
\<close>

section \<open>The cycle of a core\<close>

text \<open>The pipeline of a core that runs a program (\<open>active\<close>) is outside the model: \<open>None\<close>.\<close>

definition cpu_execute :: "tick_t \<Rightarrow> nat \<Rightarrow> 'z sys_scheme \<Rightarrow> 'z sys_scheme option" where
  "cpu_execute now c s =
     (if active (cpus s c) then None
      else do { s \<leftarrow> (if perfect_cache s then Some s
                     else do { let s = upd_cpu c (check_memq (mem_read_first_delay s) (mem_read_interval_delay s)
                                 (mem_write_delay s)) s;
                               s \<leftarrow> noc_stage c s;
                               s \<leftarrow> cache2mem c s;
                               lsq_stage c s });
                map_option snd (eventq_queue_callback (now + period (cpus s c)) Fn_cpu_execute (int c) s) })"

text \<open>The functions behind the callbacks. A core or a channel outside the arrays is not defined.\<close>

definition core_arg :: "int \<Rightarrow> 'z sys_scheme \<Rightarrow> (nat \<Rightarrow> 'a option) \<Rightarrow> 'a option" where
  "core_arg c s f = (if 0 \<le> c \<and> c < int (total_cpus s) then f (nat c) else None)"

definition channel_args ::
  "int \<Rightarrow> int \<Rightarrow> int \<Rightarrow> int \<Rightarrow> 'z sys_scheme \<Rightarrow> (nat \<Rightarrow> nat \<Rightarrow> nat \<Rightarrow> nat \<Rightarrow> 'a option) \<Rightarrow> 'a option" where
  "channel_args x y t d s f =
     (if 0 \<le> x \<and> 0 \<le> y \<and> x + y * int (mesh_width s) < int (total_cpus s) \<and>
         0 \<le> t \<and> t < int NUM_TYPES \<and> 0 \<le> d \<and> d < int NUM_DIRECTIONS
      then f (nat x) (nat y) (nat t) (nat d) else None)"

definition call_event ::
  "event_fn \<Rightarrow> tick_t \<Rightarrow> inputbuffer option \<Rightarrow> int list \<Rightarrow> 'z sys_scheme \<Rightarrow> 'z sys_scheme option" where
  "call_event fn now data args s =
     (case fn of
        Fn_cpu_execute \<Rightarrow> (case args of [c] \<Rightarrow> core_arg c s (\<lambda>c. cpu_execute now c s) | _ \<Rightarrow> None)
      | Fn_update_credit \<Rightarrow> (case args of
          [x, y, t, d] \<Rightarrow> channel_args x y t d s (\<lambda>x y t d. update_credit x y t d s) | _ \<Rightarrow> None)
      | Fn_flit_arrive \<Rightarrow> (case (data, args) of
          (Some pk, [x, y, t, d]) \<Rightarrow> channel_args x y t d s (\<lambda>x y t d. flit_arrive pk x y t d s) | _ \<Rightarrow> None)
      | Fn_scache_probe \<Rightarrow> (case args of
          [c, req, q, a] \<Rightarrow> core_arg c s (\<lambda>c. scache_probe c req (nat q) (word_of_int a) s) | _ \<Rightarrow> None)
      | Fn_scache_refill \<Rightarrow> (case args of [c, q] \<Rightarrow> core_arg c s (\<lambda>c. scache_refill c (nat q) s) | _ \<Rightarrow> None)
      | Fn_scache_writeback \<Rightarrow> (case args of
          [c, rc, req, a, inst] \<Rightarrow>
            core_arg c s (\<lambda>c. scache_writeback c (nat rc) req (word_of_int a) (inst \<noteq> 0) s) | _ \<Rightarrow> None)
      | _ \<Rightarrow> None)"

text \<open>\<open>sim_main\<close> after \<open>cpu_init\<close>: every core queues its first cycle, then the queue is served.\<close>

definition start_cores :: "'z sys_scheme \<Rightarrow> 'z sys_scheme option" where
  "start_cores s =
     fold_opt (\<lambda>i s. map_option snd (eventq_queue_callback 0 Fn_cpu_execute (int i) s)) [0..<total_cpus s] s"

definition sim_main :: "'z sys_scheme \<Rightarrow> 'z sys_scheme option" where
  "sim_main s = start_cores s \<bind> eventq_service_events call_event"

section \<open>Every step is clocked\<close>

lemmas clocked_bind = steps_bind [OF transp_clocked]
lemmas clocked_from = steps_from [OF transp_clocked]
lemmas clocked_fold = steps_fold [OF reflp_clocked transp_clocked]

lemma clocked_cpu:
  "(\<And>st'. f (cpus s c) = Some st' \<Longrightarrow> period st' = period (cpus s c)) \<Longrightarrow> steps clocked s (on_cpu c f s)"
  unfolding steps_def by (auto intro: clocked_on_cpu)

lemma period_fold: "(\<And>i st. period (f i st) = period st) \<Longrightarrow> period (fold f is st) = period st"
  by (induction "is" arbitrary: st) auto

lemma check_memq_loop_period: "period (check_memq_loop f d w q st) = period st"
  by (induction q arbitrary: st) (simp_all add: Let_def memq_return_to_free_list_def)

lemma check_memq_period: "period (check_memq f d w st) = period st"
  by (simp add: check_memq_def check_memq_loop_period)

lemma clocked_event_steps:
  "\<not> is_cpu_execute act \<Longrightarrow> (forward_time s \<Longrightarrow> sim_cycle s \<le> whn) \<Longrightarrow> steps clocked s (map_option snd (QUEUE_EVENT whn act s))"
  unfolding steps_def by (auto intro: clocked_event)

lemma clocked_send_credit: "steps clocked s (send_credit c src dirs type s)"
proof -
  have wire: "sim_cycle s \<le> sim_cycle s + wire_delay" by (simp add: wire_delay_def)
  then show ?thesis
    unfolding send_credit_def Let_def eventq_queue_callback4_def
    by (intro steps_if) (simp_all add: clocked_event_steps)
qed

lemma clocked_depart: "steps clocked s (depart_cpu c pk type out s)"
  unfolding depart_cpu_def by (rule clocked_cpu) auto

lemma home_enter_period:
  "home_request n pk st = Some st' \<Longrightarrow> period st' = period st"
  "home_writeback m pk st = Some st' \<Longrightarrow> period st' = period st"
  "home_intervention n pk st = Some st' \<Longrightarrow> period st' = period st"
  by (auto simp: home_request_def home_writeback_def home_intervention_def bind_eq_Some_conv Let_def
      reserve_wtbkq_Some dest!: period_steps)

lemma mark_dirty_period [simp]: "period (mark_dirty p st) = period st"
  by (simp add: mark_dirty_def)

lemma ack_period:
  "ack_modify inst x q from st = Some st' \<Longrightarrow> period st' = period st"
  "ack_replace inst x q from st = Some st' \<Longrightarrow> period st' = period st"
  "local_modify_ack x q st = Some st' \<Longrightarrow> period st' = period st"
  "local_replace_ack x q st = Some st' \<Longrightarrow> period st' = period st"
  by ((cases "L2_changed_blk (missq st q)"; cases "L2_replace_blk (missq st q)");
    fastforce simp: ack_modify_def ack_replace_def local_modify_ack_def local_replace_ack_def Let_def split: if_splits)+

lemma home_ack_period: "home_ack pk st = Some st' \<Longrightarrow> period st' = period st"
  by (auto simp: home_ack_def Let_def dest: ack_period period_steps split: if_splits)

lemma clocked_home_enter: "steps clocked s (home_enter pk x y s)"
  unfolding home_enter_def Let_def
  by (intro steps_if steps_simps(1) clocked_cpu)
    (auto dest: home_enter_period home_ack_period)

lemma clocked_stats: "clocked s (traverse_stats c pk type (add_latency pk type s))" "clocked s (traverse_stats c pk type s)"
  by (simp_all add: traverse_stats_def add_latency_def comp_def) (rule clocked_trans [OF clocked_upd_cpu clocked_upd_cpu]; simp)

lemma clocked_traverse_home: "steps clocked s (traverse_home c type s)"
  unfolding traverse_home_def Let_def
  apply (rule steps_option)
   apply simp
  apply (rule clocked_bind, rule clocked_home_enter)
  apply (rule clocked_bind, rule clocked_depart)
  apply (rule clocked_from, rule clocked_stats, rule clocked_send_credit)
  done

lemma clocked_traverse_dir: "steps clocked s (traverse_dir c type out ok x y d dirs s)"
  unfolding traverse_dir_def eventq_queue_callbackpointer4_def
  apply (rule steps_option)
   apply simp
  apply (rule steps_if)
   apply (rule clocked_bind, rule clocked_event_steps)
     apply simp
    apply (simp add: wire_delay_def)
   apply (rule clocked_bind, rule clocked_depart)
   apply (rule clocked_from, rule clocked_stats, rule clocked_send_credit)
  apply simp
  done

lemma clocked_noc_stage: "steps clocked s (noc_stage c s)"
  unfolding noc_stage_def flit_traverse_def crossbar_switch_def arbitrate_def traverse_type_def Let_def
  apply (rule clocked_bind)
   apply (rule clocked_fold)
   apply (rule clocked_bind, rule clocked_traverse_home)
   apply (rule clocked_fold)
   apply (simp only: case_prod_beta, rule clocked_traverse_dir)
  apply simp
  apply (rule clocked_cpu)
  apply auto
  done

section \<open>The load-store queue\<close>

lemma entry_period:
  "period (replace_entry a i st) = period st" "period (intervene_entry p i st) = period st"
  "period (refill_entry p i st) = period st"
  by (simp_all add: replace_entry_def intervene_entry_def refill_entry_def Let_def)

lemma packet_tagcmp_period: "packet_tagcmp n p st = Some st' \<Longrightarrow> period st' = period st"
  by (auto simp: packet_tagcmp_def tag_replace_def tag_intervention_def tag_refill_def intervention_answer_def
      refill_return_to_free_list_def period_fold entry_period Let_def dest!: ack_period
      split: if_splits)

lemma dcache_write_period: "dcache_write st = Some (b, st') \<Longrightarrow> period st' = period st"
  by (auto simp: dcache_write_def Let_def bind_eq_Some_conv split: if_splits option.splits)

lemma mark_spec_period [simp]: "period (mark_spec is st) = period st"
  by (simp add: mark_spec_def split: option.split)

lemma forward_store_period: "period (snd (forward_store l m is nf fwd st)) = period st"
proof (induction "is" arbitrary: nf fwd st)
  case (Cons i "is")
  then show ?case by (simp add: Let_def)
qed simp

lemma tag_op_period:
  "period (tag_load n l st) = period st" "period (tag_store n l st) = period st" "period (count_access l st) = period st"
  using forward_store_period [of l "bytemask (lsq st l)" "lsq_after n l (lsq_tail st)" "0xFF" False st]
  by (auto simp add: tag_load_def tag_store_def count_access_def Let_def split: prod.split)

lemma op_tagcmp_period: "op_tagcmp n l st = Some st' \<Longrightarrow> period st' = period st"
  by (auto simp: op_tagcmp_def Let_def bind_eq_Some_conv tag_op_period)

lemma dtagcmp_period: "dtagcmp n st = Some st' \<Longrightarrow> period st' = period st"
  by (auto simp: dtagcmp_def dest: packet_tagcmp_period op_tagcmp_period split: option.splits)

lemma queue_writeback_period: "queue_writeback now st = Some st' \<Longrightarrow> period st' = period st"
  by (auto simp: queue_writeback_def eventq_queue_event_def Let_def bind_eq_Some_conv split: option.splits if_splits)

lemma free_entry_period: "free_entry i st = Some st' \<Longrightarrow> period st' = period st"
  by (auto simp: free_entry_def fetch_return_to_free_list_def)

lemma commit_free_period: "commit_free n st = Some st' \<Longrightarrow> period st' = period st"
  using fold_opt_invariant [where P = "\<lambda>x. period x = period st" and f = free_entry and s = st]
  by (auto simp: commit_free_def Let_def free_entry_period)

lemma retire_loads_period: "period (snd (retire_loads n k i st)) = period st"
  by (induction k arbitrary: i st) simp_all

lemma commit_head_period: "period (commit_head n b st) = period st"
  using retire_loads_period [of n 3 "(lsq_head st + 1) mod n" "upd_lsq (lsq_head st) (\<lambda>e. e\<lparr>lsq_state := LSQ_DELAY1\<rparr>) st"]
  by (auto simp add: commit_head_def Let_def split: prod.split)

lemma memaddr_period: "memaddr_step st = Some st' \<Longrightarrow> period st' = period st"
  by (auto simp: memaddr_step_def Let_def split: option.splits)

lemma cache_probe_period: "period (snd (snd (cache_probe w b a pa st))) = period st"
  by (simp add: cache_probe_def Let_def split: option.split)

lemma intervention_period:
  "period (snd (snd (snd (intervention_shared a st)))) = period st"
  "period (snd (snd (snd (intervention_exclusive a st)))) = period st"
  "invalidate a st = Some (x, y, st') \<Longrightarrow> period st' = period st"
  by (auto simp: intervention_shared_def intervention_exclusive_def invalidate_def Let_def
      split: option.splits if_splits)

lemma clocked_packet_dcache: "steps2 clocked s (packet_dcache c p s)"
  unfolding steps2_def
proof (intro allI impI)
  fix p' s' assume run: "packet_dcache c p s = Some (p', s')"
  consider "rf_replace p" | "\<not> rf_replace p" "rf_intervention p" | "\<not> rf_replace p" "\<not> rf_intervention p" by blast
  then show "clocked s s'"
  proof cases
    case 1
    then obtain blk t
      where r: "replace_block c Dcache (- 1) (rf_paddr p) (rf_req p) False False (rf_cache_status p) s = Some (blk, t)"
      and s': "s' = upd_cpu c (\<lambda>st. st\<lparr>replace_delay := 2\<rparr>) t"
      using run by (auto simp: packet_dcache_def)
    show ?thesis unfolding s' by (rule clocked_trans [OF clocked_replace_block [OF r] clocked_upd_cpu]) simp
  next
    case 2
    then obtain st where "s' = upd_cpu c (\<lambda>_. st\<lparr>replace_delay := 2\<rparr>) s" "period st = period (cpus s c)"
      using run intervention_period(1,2) [of "rf_paddr p" "cpus s c"] intervention_period(3)
      by (auto simp: packet_dcache_def Let_def split: if_splits prod.splits) 
    then show ?thesis by simp
  next
    case 3
    then show ?thesis using run by (auto simp: packet_dcache_def Let_def)
  qed
qed

lemma clocked_dcache_step: "steps clocked s (dcache_step c s)"
proof -
  let ?t = "upd_cpu c (\<lambda>st. if replace_delay st > 0 then st\<lparr>replace_delay := replace_delay st - 1\<rparr> else st) s"
  have op: "clocked t t'" if "op_dcache c l t = Some t'" for l t t'
    using that
    by (auto simp: op_dcache_def Let_def case_prod_beta cache_probe_period)
  show ?thesis
    unfolding dcache_step_def Let_def
    apply (rule clocked_from [of _ ?t])
     apply simp
    apply (rule steps_option)
     apply (rule steps_option)
      apply simp
     apply (simp add: steps_def op)
    unfolding steps_def map_option_eq_Some
    apply (intro allI impI, elim exE conjE)
    apply (clarsimp)
    apply (drule steps2D [OF clocked_packet_dcache])
    apply (erule clocked_trans)
    apply simp
    done
qed

lemma clocked_lsq_stage: "steps clocked s (lsq_stage c s)"
proof -
  have "period st' = period st"
    if "(do { (written, st) \<leftarrow> dcache_write (select_miss n (select_wtbk n st)); st \<leftarrow> dtagcmp n st;
              st \<leftarrow> queue_writeback now st; map_option (commit_head n written) (commit_free n st) }) = Some st'"
    for n now st st'
    using that
    by (auto simp: bind_eq_Some_conv commit_head_period dest!: dcache_write_period dtagcmp_period
        queue_writeback_period commit_free_period) (simp add: select_miss_def select_wtbk_def)
  then show ?thesis
    unfolding lsq_stage_def Let_def
    by (intro clocked_bind clocked_cpu clocked_dcache_step) (blast, erule memaddr_period)
qed

section \<open>The handlers as the event queue sees them\<close>

lemma clocked_cache2mem: "steps clocked s (cache2mem c s)"
  using kept_cache2mem [of c s] by (simp add: steps_def kept_def)

text \<open>A cycle is a clocked run and the event for the next cycle.\<close>

lemma cpu_execute_Some:
  assumes "cpu_execute now c s = Some s'"
  shows "\<exists>t i. clocked s t \<and> QUEUE_EVENT (now + period (cpus s c)) (EventCallback Fn_cpu_execute (int c)) t = Some (i, s')"
proof -
  let ?run = "\<lambda>s. if perfect_cache s then Some s
      else do { let s = upd_cpu c (check_memq (mem_read_first_delay s) (mem_read_interval_delay s) (mem_write_delay s)) s;
                s \<leftarrow> noc_stage c s; s \<leftarrow> cache2mem c s; lsq_stage c s }"
  obtain t where t: "?run s = Some t"
    "map_option snd (eventq_queue_callback (now + period (cpus t c)) Fn_cpu_execute (int c) t) = Some s'"
    using assms by (auto simp: cpu_execute_def bind_eq_Some_conv Let_def split: if_splits)
  have "steps clocked s (?run s)"
    unfolding Let_def
    apply (rule steps_if)
     apply simp
    apply (rule clocked_from, rule clocked_upd_cpu, rule check_memq_period)
    apply (rule clocked_bind, rule clocked_noc_stage)
    apply (rule clocked_bind, rule clocked_cache2mem)
    apply (rule clocked_lsq_stage)
    done
  then have "clocked s t" using t(1) by (rule stepsD)
  then show ?thesis using t(2) by (auto simp: eventq_queue_callback_def clocked_def)
qed

lemma scache_period:
  "scache_probe_cpu n now req q a st = Some st' \<Longrightarrow> period st' = period st"
  "scache_refill_cpu n q st = Some st' \<Longrightarrow> period st' = period st"
  "scache_writeback_cpu rc req a inst st = Some st' \<Longrightarrow> period st' = period st"
  using cpu_total_scache_probe [of n now req q a st st' "Suc q"]
  by (auto simp: scache_refill_cpu_def scache_writeback_cpu_def Let_def
      dest: cpu_total_period period_steps split: option.splits if_splits)

lemma clocked_handler:
  assumes "call_event fn now data args s = Some s'" and "fn \<noteq> Fn_cpu_execute"
  shows "clocked s s'"
proof -
  have u: "steps clocked s (update_credit x y t d s)" for x y t d
    unfolding update_credit_def Let_def by (rule clocked_cpu) (auto simp: Let_def split: if_splits)
  have f: "steps clocked s (flit_arrive pk x y t d s)" for pk x y t d
    unfolding flit_arrive_def Let_def by (rule clocked_cpu) (auto split: if_splits)
  have p: "steps clocked s (scache_probe c req q a s)" "steps clocked s (scache_refill c q s)"
    "steps clocked s (scache_writeback c rc req a inst s)" for c req q a rc inst
    unfolding scache_probe_def scache_refill_def scache_writeback_def
    by (rule clocked_cpu, erule scache_period)+
  show ?thesis
    using assms u f p
    by (auto simp: call_event_def core_arg_def channel_args_def steps_def
        split: event_fn.splits list.splits option.splits if_splits)
qed

lemma cpu_execute_ok:
  assumes "forward_time s" and "queue_ok s" and "sim_cycle s = now" and "cpu_execute now c s = Some s'"
  shows "forward_time s' \<and> queue_ok s' \<and> sim_cycle s' = sim_cycle s"
proof -
  obtain t i where t: "clocked s t"
    "QUEUE_EVENT (now + period (cpus s c)) (EventCallback Fn_cpu_execute (int c)) t = Some (i, s')"
    using cpu_execute_Some [OF assms(4)] by blast
  have "sim_cycle s' = sim_cycle t" "cpus s' = cpus t" using QUEUE_EVENT_inserts [OF t(2)] by auto
  moreover have "queue_ok s'"
    by (rule QUEUE_EVENT_ok [OF _ t(2)]) (use t(1) assms in \<open>auto simp: clocked_def forward_time_def\<close>)
  ultimately show ?thesis using t(1) assms(1) by (simp add: clocked_def forward_time_def)
qed

interpretation ev: event_handlers call_event forward_time
proof unfold_locales
  fix s :: "'a sys_scheme" and now fn data args s'
  assume ok: "forward_time s" "queue_ok s" "sim_cycle s = now" and run: "call_event fn now data args s = Some s'"
  show "forward_time s' \<and> queue_ok s' \<and> sim_cycle s' = sim_cycle s"
  proof (cases "fn = Fn_cpu_execute")
    case True
    then obtain c where "cpu_execute now c s = Some s'"
      using run by (auto simp: call_event_def core_arg_def split: list.splits if_splits)
    with ok show ?thesis by (rule cpu_execute_ok)
  next
    case False
    from clocked_handler [OF run this] ok show ?thesis by (simp add: clocked_def forward_time_def)
  qed
qed (simp_all add: forward_time_def)

section \<open>The cores run in turn\<close>

text \<open>The pending cycles: first those of the cores from \<open>k\<close> on at time \<open>t\<close>, then those of the cores
  before \<open>k\<close>, one period later.\<close>

definition turn :: "tick_t \<Rightarrow> nat \<Rightarrow> tick_t \<times> inputbuffer eventq_action" where
  "turn t c = (t, EventCallback Fn_cpu_execute (int c))"

definition lockstep :: "tick_t \<Rightarrow> tick_t \<Rightarrow> nat \<Rightarrow> 'z sys_scheme \<Rightarrow> bool" where
  "lockstep p t k s \<longleftrightarrow> map (\<lambda>e. (ev_when e, ev_action e)) (exec_events s) =
     map (turn t) [k..<total_cpus s] @ map (turn (t + p)) [0..<k]"

definition paced :: "tick_t \<Rightarrow> 'z sys_scheme \<Rightarrow> bool" where
  "paced p s \<longleftrightarrow> 0 \<le> p \<and> (\<forall>c. period (cpus s c) = p) \<and> queue_ok s"

lemma paced_forward: "paced p s \<Longrightarrow> forward_time s"
  by (simp add: paced_def forward_time_def)

lemma lockstep_wrap: "lockstep p t (total_cpus s) s = lockstep p (t + p) 0 s"
  by (simp add: lockstep_def)

lemma lockstep_cong: "exec_events s' = exec_events s \<Longrightarrow> total_cpus s' = total_cpus s \<Longrightarrow> lockstep p t k s' = lockstep p t k s"
  by (simp add: lockstep_def)

text \<open>A new cycle that is not before any pending one goes to the end.\<close>

lemma exec_events_append:
  assumes "queue_ok s" and "QUEUE_EVENT whn (EventCallback Fn_cpu_execute c) s = Some (i, s')"
    and "\<And>e. e \<in> set (exec_events s) \<Longrightarrow> ev_when e \<le> whn"
  shows "map (\<lambda>e. (ev_when e, ev_action e)) (exec_events s') =
    map (\<lambda>e. (ev_when e, ev_action e)) (exec_events s) @ [(whn, EventCallback Fn_cpu_execute c)]"
proof -
  let ?early = "\<lambda>ev. ev_when ev \<le> whn" and ?x = "\<lambda>e. is_cpu_execute (ev_action e)"
  obtain fresh free where f: "(case eventq_free s of [] \<Rightarrow> (zero_desc, []) | d # ds \<Rightarrow> (d, ds)) = (fresh, free)"
    by (rule prod.exhaust)
  define new where "new = fresh\<lparr>ev_when := whn, ev_id := next_ID s, ev_action := EventCallback Fn_cpu_execute c\<rparr>"
  have new: "ev_when new = whn" "ev_action new = EventCallback Fn_cpu_execute c"
    "eventq_pending s' = insert_event ?early new (eventq_pending s)"
    using assms(2) by (auto simp: QUEUE_EVENT_def Let_def f new_def split: if_splits)
  have late: "\<not> ?x e" if "e \<in> set (dropWhile ?early (eventq_pending s))" for e
  proof
    assume x: "?x e"
    have sorted: "sorted_queue (eventq_pending s)" using assms(1) by (simp add: queue_ok_def)
    from that have "dropWhile ?early (eventq_pending s) \<noteq> []" by (metis empty_iff list.set(1))
    then obtain d ds where d: "dropWhile ?early (eventq_pending s) = d # ds" by (auto simp only: neq_Nil_conv)
    then have "\<not> ?early d" by (metis hd_dropWhile list.distinct(1) list.sel(1))
    moreover have "sorted_queue (d # ds)"
      using sorted unfolding sorted_queue_def d [symmetric] by (metis sorted_wrt_append takeWhile_dropWhile_id)
    then have "ev_when d \<le> ev_when e" using that d sorted_queue_head [of d ds e] by auto
    moreover have "ev_when e \<le> whn"
      using assms(3) [of e] x that by (auto simp: exec_events_def dest: set_dropWhileD)
    ultimately show False by simp
  qed
  then have "filter ?x (dropWhile ?early (eventq_pending s)) = []" by (simp add: filter_empty_conv)
  then have "exec_events s' = exec_events s @ [new]"
    unfolding exec_events_def new(3) insert_event_append
    by (metis (no_types, lifting) append_Nil2 filter.simps(2) filter_append is_cpu_execute.simps(1) new(2) takeWhile_dropWhile_id)
  then show ?thesis using new by simp
qed

lemma lockstep_times:
  assumes "lockstep p t k s" and "0 \<le> p" and "k \<le> total_cpus s" and "e \<in> set (exec_events s)"
  shows "ev_when e \<le> t + p"
proof -
  have "(ev_when e, ev_action e) \<in> set (map (\<lambda>e. (ev_when e, ev_action e)) (exec_events s))"
    using assms(4) by auto
  then show ?thesis using assms(1,2) unfolding lockstep_def by (auto simp: turn_def)
qed

lemma action_clocked:
  assumes "EXECUTE_ACTION call_event act now s = Some s'" and "\<not> is_cpu_execute act"
  shows "clocked s s'"
proof -
  have call: "clocked s s'" if "call_event fn now data args s = Some s'" "fn \<noteq> Fn_cpu_execute \<or> length args \<noteq> 1" for fn data args
  proof (cases "fn = Fn_cpu_execute")
    case True
    then show ?thesis using that by (auto simp: call_event_def split: list.splits)
  next
    case False
    then show ?thesis using that(1) clocked_handler by blast
  qed
  have "clocked s (s\<lparr>ev_bitmaps := b\<rparr>)" "clocked s (s\<lparr>ev_flags := g\<rparr>)" for b g
    by (simp_all add: clocked_def exec_events_def forward_time_def)
  with call assms show ?thesis by (cases act) (auto split: if_splits)
qed

text \<open>One turn of the service loop: another event, or the cycle of core \<open>k\<close>.\<close>

lemma lockstep_turn:
  assumes "paced p s" and "lockstep p t k s" and "k < total_cpus s" and "service_one call_event s = Some s'"
  shows "paced p s' \<and> total_cpus s' = total_cpus s \<and>
    (lockstep p t k s' \<or> (sim_cycle s' = t \<and> lockstep p t (Suc k) s'))"
proof -
  obtain e es where pending: "eventq_pending s = e # es"
    using assms(2,3) by (cases "eventq_pending s") (auto simp: lockstep_def exec_events_def)
  let ?t = "s\<lparr>sim_cycle := ev_when e, eventq_pending := es, eventq_free := e # eventq_free s\<rparr>"
  have run: "EXECUTE_ACTION call_event (ev_action e) (ev_when e) ?t = Some s'"
    using assms(4) pending by (simp add: service_one_def)
  have paced: "paced p ?t" using assms(1) queue_ok_advance(1) [OF _ pending] by (simp add: paced_def)
  have queue: "queue_ok s'"
    using ev.service_one_ok [OF paced_forward [OF assms(1)] _ assms(4)] assms(1) by (simp add: paced_def)
  have clocked: "paced p s' \<and> total_cpus s' = total_cpus s \<and> exec_events s' = exec_events ?t" if "clocked ?t s'"
    using that paced queue by (simp add: paced_def clocked_def)
  show ?thesis
  proof (cases "is_cpu_execute (ev_action e)")
    case False
    have "clocked ?t s'" by (rule action_clocked [OF run False])
    moreover have "exec_events ?t = exec_events s" using False pending by (simp add: exec_events_def)
    ultimately show ?thesis using clocked assms(2) lockstep_cong by metis
  next
    case True
    have head: "exec_events s = e # exec_events ?t" using True pending by (simp add: exec_events_def)
    then have e: "ev_when e = t" "ev_action e = EventCallback Fn_cpu_execute (int k)"
      and rest: "map (\<lambda>e. (ev_when e, ev_action e)) (exec_events ?t) =
        map (turn t) [Suc k..<total_cpus s] @ map (turn (t + p)) [0..<k]"
      using assms(2,3) by (auto simp: lockstep_def turn_def upt_conv_Cons)
    have "cpu_execute t k ?t = Some s'"
      using run by (auto simp: e call_event_def core_arg_def split: if_splits)
    then obtain u i where u: "clocked ?t u"
      and q: "QUEUE_EVENT (t + p) (EventCallback Fn_cpu_execute (int k)) u = Some (i, s')"
      using cpu_execute_Some [of t k ?t s'] assms(1) by (auto simp: paced_def)
    have ut: "exec_events u = exec_events ?t" "total_cpus u = total_cpus s" "sim_cycle u = t" "paced p u"
      using u paced paced_forward [OF paced] e by (auto simp: clocked_def paced_def)
    have s': "total_cpus s' = total_cpus s" "sim_cycle s' = t" "cpus s' = cpus u"
      using QUEUE_EVENT_inserts [OF q] ut by auto
    have "map (\<lambda>e. (ev_when e, ev_action e)) (exec_events s') =
        map (\<lambda>e. (ev_when e, ev_action e)) (exec_events u) @ [(t + p, EventCallback Fn_cpu_execute (int k))]"
    proof (rule exec_events_append [OF _ q])
      show "queue_ok u" using ut(4) by (simp add: paced_def)
      show "ev_when x \<le> t + p" if "x \<in> set (exec_events u)" for x
        using lockstep_times [of p t k s x] assms(1-3) that ut(1) head by (auto simp: paced_def)
    qed
    then have "lockstep p t (Suc k) s'"
      unfolding lockstep_def ut(1) rest s'(1) by (simp add: turn_def)
    then show ?thesis using s' ut(4) queue by (simp add: paced_def)
  qed
qed

lemma start_cores_queued:
  assumes "paced p s" and "eventq_pending s = []" and "sim_cycle s = 0"
    and "fold_opt (\<lambda>i s. map_option snd (eventq_queue_callback 0 Fn_cpu_execute (int i) s)) [0..<j] s = Some u"
  shows "map (\<lambda>e. (ev_when e, ev_action e)) (exec_events u) = map (turn 0) [0..<j] \<and> paced p u \<and>
    sim_cycle u = 0 \<and> total_cpus u = total_cpus s"
  using assms(4)
proof (induction j arbitrary: u)
  case 0
  then show ?case using assms(1-3) by (simp add: exec_events_def)
next
  case (Suc j)
  then obtain v i where v: "fold_opt (\<lambda>i s. map_option snd (eventq_queue_callback 0 Fn_cpu_execute (int i) s)) [0..<j] s = Some v"
    and q: "QUEUE_EVENT 0 (EventCallback Fn_cpu_execute (int j)) v = Some (i, u)"
    by (auto simp: fold_opt_append bind_eq_Some_conv eventq_queue_callback_def split: option.splits)
  note IH = Suc.IH [OF v]
  have late: "ev_when e \<le> 0" if "e \<in> set (exec_events v)" for e
  proof -
    have "(ev_when e, ev_action e) \<in> set (map (turn 0) [0..<j])" using that IH by (metis (mono_tags) image_eqI list.set_map)
    then show ?thesis by (auto simp: turn_def)
  qed
  have ok: "queue_ok v" using IH by (simp add: paced_def)
  have "sim_cycle u = 0" "cpus u = cpus v" "total_cpus u = total_cpus s" using QUEUE_EVENT_inserts [OF q] IH by auto
  moreover have "queue_ok u" using QUEUE_EVENT_ok [OF ok q] IH by simp
  ultimately show ?case using exec_events_append [OF ok q late] IH by (simp add: turn_def paced_def)
qed

lemma lockstep_turns:
  "paced p s \<Longrightarrow> lockstep p t k s \<Longrightarrow> k < total_cpus s \<Longrightarrow> service_turns call_event m s = Some s' \<Longrightarrow>
   \<exists>t k. k < total_cpus s' \<and> total_cpus s' = total_cpus s \<and> lockstep p t k s'"
proof (induction m arbitrary: s t k)
  case (Suc m)
  then obtain u where u: "service_one call_event s = Some u" "service_turns call_event m u = Some s'"
    by (auto simp: bind_eq_Some_conv)
  note turn = lockstep_turn [OF Suc.prems(1-3) u(1)]
  then consider "lockstep p t k u" | "lockstep p t (Suc k) u" "Suc k < total_cpus u" | "lockstep p (t + p) 0 u"
    using Suc.prems(3) lockstep_wrap [of p t u] by (metis Suc_lessI)
  then show ?case
  proof cases
    case 1
    then show ?thesis using Suc.IH [OF _ 1 _ u(2)] turn Suc.prems(3) by simp
  next
    case 2
    then show ?thesis using Suc.IH [OF _ 2 u(2)] turn by simp
  next
    case 3
    then show ?thesis using Suc.IH [OF _ 3 _ u(2)] turn Suc.prems(3) by auto
  qed
qed auto


definition idle_sys :: sys where
  "idle_sys = (blank_sys 0)\<lparr>perfect_cache := True\<rparr>"


end
