(* ===== verification/Wavefront.thy ===== *)
theory Wavefront
  imports Arbitration
begin

text \<open>
  The alternative arbiter of noc_wf.c, a wave-front allocator: every input asks for all the outputs
  its buffered packets want, and the grants are handed out diagonal by diagonal, starting at a
  diagonal that moves on after each grant. The theory models the allocator and shows that its result
  is a maximal matching of inputs and outputs that keeps packets for the same output in order.
\<close>

section \<open>The allocator\<close>

abbreviation (input) WF_SEARCH_DEPTH :: nat where "WF_SEARCH_DEPTH \<equiv> 8"

definition select_dest_channel :: "inputbuffer \<Rightarrow> router_t \<Rightarrow> nat" where
  "select_dest_channel entry r =
     (let x = home_x r; y = home_y r
      in if dest_x entry = x then
           if dest_y entry = y then HOME else if dest_y entry > y then DOWN else UP
         else if dest_x entry < x then LEFT
         else RIGHT)"

text \<open>The search of one input buffer, over its slots in ring order: \<open>reqs\<close> holds the request entry of
  each output found so far and \<open>j\<close> their number.\<close>

fun wf_search ::
  "router_t \<Rightarrow> (nat \<Rightarrow> inputbuffer option) \<Rightarrow> nat list \<Rightarrow> nat
     \<Rightarrow> (nat \<Rightarrow> inputbuffer option) \<Rightarrow> (nat \<Rightarrow> inputbuffer option)" where
  "wf_search r inp [] j reqs = reqs"
| "wf_search r inp (pos # ps) j reqs =
     (if j < WF_SEARCH_DEPTH then
        (case inp pos of
           None \<Rightarrow> wf_search r inp ps j reqs
         | Some pk \<Rightarrow>
             (let d = select_dest_channel pk r
              in if reqs d = None then wf_search r inp ps (j + 1) (reqs(d := Some pk))
                 else wf_search r inp ps j reqs))
      else reqs)"

definition wf_reqs :: "nat \<Rightarrow> nat \<Rightarrow> router_t \<Rightarrow> nat \<Rightarrow> nat \<Rightarrow> inputbuffer option" where
  "wf_reqs n type r i =
     (if ingress_num r type i = 0 then (\<lambda>_. None)
      else wf_search r (ingress r type i) (ring_order (ingress_head r type i) n) 0 (\<lambda>_. None))"

text \<open>The inner loop body: the tokens \<open>row\<close> and \<open>col\<close> are the inputs and outputs already matched.\<close>

definition wf_cell ::
  "nat \<Rightarrow> (nat \<Rightarrow> nat \<Rightarrow> inputbuffer option) \<Rightarrow> nat \<Rightarrow> nat \<Rightarrow> nat set \<times> nat set \<times> router_t
     \<Rightarrow> nat set \<times> nat set \<times> router_t" where
  "wf_cell type reqs pri x = (\<lambda>(row, col, r).
     if ingress_num r type x = 0 then (row, col, r)
     else let y = (pri + NUM_DIRECTIONS - x) mod NUM_DIRECTIONS
          in if reqs x y \<noteq> None \<and> x \<notin> row \<and> y \<notin> col \<and>
                egress_credit r type y > (if type = REQ \<and> y = HOME then 1 else 0)
             then (insert x row, insert y col,
                   r\<lparr>egress_grant := (egress_grant r)(type := (egress_grant r type)(y := reqs x y)),
                     priority := (priority r)(type := (pri + 1) mod NUM_DIRECTIONS)\<rparr>)
             else (row, col, r))"

text \<open>The loop over the diagonals: \<open>pri\<close> starts at the priority of the channel type and moves on by one.\<close>

fun wf_diagonals ::
  "nat \<Rightarrow> (nat \<Rightarrow> nat \<Rightarrow> inputbuffer option) \<Rightarrow> nat \<Rightarrow> nat \<Rightarrow> nat set \<times> nat set \<times> router_t
     \<Rightarrow> nat set \<times> nat set \<times> router_t" where
  "wf_diagonals type reqs 0 pri z = z"
| "wf_diagonals type reqs (Suc k) pri z =
     wf_diagonals type reqs k ((pri + 1) mod NUM_DIRECTIONS)
       (fold (wf_cell type reqs pri) [0..<NUM_DIRECTIONS] z)"

definition wf_type :: "nat \<Rightarrow> (nat \<Rightarrow> nat \<Rightarrow> inputbuffer option) \<Rightarrow> router_t \<Rightarrow> router_t" where
  "wf_type type reqs r = snd (snd (wf_diagonals type reqs NUM_DIRECTIONS (priority r type) ({}, {}, r)))"

text \<open>\<open>None\<close>: the assertion that the search depth does not exceed the buffer size. The requests of all
  types are collected before the first grant.\<close>

definition wf_arbitrate_router :: "nat \<Rightarrow> router_t \<Rightarrow> router_t option" where
  "wf_arbitrate_router n r =
     (let r = clear_grants r; reqs = (\<lambda>type. wf_reqs n type r)
      in if WF_SEARCH_DEPTH \<le> n
         then Some (fold (\<lambda>type. wf_type type (reqs type)) [0..<NUM_TYPES] r) else None)"

definition wf_arbitrate :: "nat \<Rightarrow> 'z sys_scheme \<Rightarrow> 'z sys_scheme option" where
  "wf_arbitrate c s = on_cpu c (\<lambda>st. map_option (\<lambda>r. st\<lparr>router := r\<rparr>)
     (wf_arbitrate_router (router_ifq_size s) (router st))) s"

section \<open>The search\<close>

lemma select_dest_channel_wants: "wants r (select_dest_channel pk r) pk"
  by (simp add: select_dest_channel_def wants_def Let_def)

lemma select_dest_channel_less: "select_dest_channel pk r < NUM_DIRECTIONS"
  by (simp add: select_dest_channel_def Let_def)

lemma select_dest_channel_iff: "d < NUM_DIRECTIONS \<Longrightarrow> select_dest_channel pk r = d \<longleftrightarrow> wants r d pk"
  using wants_unique select_dest_channel_wants select_dest_channel_less by blast

text \<open>The oldest packet, in ring order, that asks for an output.\<close>

definition oldest_for :: "router_t \<Rightarrow> (nat \<Rightarrow> inputbuffer option) \<Rightarrow> nat list \<Rightarrow> nat \<Rightarrow> inputbuffer option" where
  "oldest_for r inp ps d =
     find (\<lambda>pk. select_dest_channel pk r = d) (List.map_filter inp ps)"

text \<open>There are only five outputs, so the depth limit of eight requests never stops the search.\<close>

lemma wf_search_oldest:
  assumes "dom reqs \<subseteq> {0..<NUM_DIRECTIONS}" and "j = card (dom reqs)"
  shows "wf_search r inp ps j reqs = (\<lambda>d. case reqs d of Some pk \<Rightarrow> Some pk | None \<Rightarrow> oldest_for r inp ps d)"
  using assms
proof (induction ps arbitrary: j reqs)
  case Nil
  then show ?case by (auto simp: oldest_for_def fun_eq_iff List.map_filter_simps split: option.split)
next
  case (Cons pos ps)
  have "card (dom reqs) \<le> card {0..<5::nat}" using Cons.prems(1) by (intro card_mono) auto
  then have j: "j < WF_SEARCH_DEPTH" using Cons.prems(2) by simp
  show ?case
  proof (cases "inp pos")
    case None
    then show ?thesis using Cons.IH [OF Cons.prems] j
      by (auto simp: oldest_for_def List.map_filter_simps fun_eq_iff split: option.split)
  next
    case (Some pk)
    let ?d = "select_dest_channel pk r"
    show ?thesis
    proof (cases "reqs ?d")
      case None
      have fin: "finite (dom reqs)" using Cons.prems(1) finite_subset by blast
      have "wf_search r inp ps (j + 1) (reqs(?d := Some pk)) =
          (\<lambda>d. case (reqs(?d := Some pk)) d of Some pk \<Rightarrow> Some pk | None \<Rightarrow> oldest_for r inp ps d)"
      proof (rule Cons.IH)
        have d: "dom (reqs(?d := Some pk)) = insert ?d (dom reqs)" "?d \<notin> dom reqs"
          using None by (auto simp del: fun_upd_apply)
        show "dom (reqs(?d := Some pk)) \<subseteq> {0..<NUM_DIRECTIONS}"
          unfolding d using Cons.prems(1) select_dest_channel_less [of pk r] by simp
        show "j + 1 = card (dom (reqs(?d := Some pk)))"
          unfolding d(1) using Cons.prems(2) fin d(2) by simp
      qed
      then show ?thesis using j Some None
        by (auto simp: oldest_for_def List.map_filter_simps fun_eq_iff split: option.split)
    next
      case (Some pk2)
      then show ?thesis using Cons.IH [OF Cons.prems] j \<open>inp pos = Some pk\<close>
        by (auto simp: oldest_for_def List.map_filter_simps fun_eq_iff split: option.split)
    qed
  qed
qed

lemma wf_reqs_oldest:
  "wf_reqs n type r i = (if ingress_num r type i = 0 then (\<lambda>_. None)
     else oldest_for r (ingress r type i) (ring_order (ingress_head r type i) n))"
  using wf_search_oldest [of "\<lambda>_. None" 0 r "ingress r type i" "ring_order (ingress_head r type i) n"]
  by (auto simp: wf_reqs_def fun_eq_iff)

lemma wf_reqs_wants:
  assumes "wf_reqs n type r x y = Some pk"
  shows "wants r y pk" and "ingress_num r type x \<noteq> 0" and "\<exists>pos<n. ingress r type x pos = Some pk"
proof -
  from assms have num: "ingress_num r type x \<noteq> 0"
    and old: "find (\<lambda>pk. select_dest_channel pk r = y)
        (List.map_filter (ingress r type x) (ring_order (ingress_head r type x) n)) = Some pk"
    by (auto simp: wf_reqs_oldest oldest_for_def split: if_splits)
  from old have y: "select_dest_channel pk r = y"
    and mem: "pk \<in> set (List.map_filter (ingress r type x) (ring_order (ingress_head r type x) n))"
    by (auto simp: find_Some_iff)
  show "wants r y pk" using y select_dest_channel_wants by blast
  show "ingress_num r type x \<noteq> 0" by (rule num)
  show "\<exists>pos<n. ingress r type x pos = Some pk"
    using mem set_ring_order [of "ingress_head r type x" n] by (auto simp: List.map_filter_def)
qed
section \<open>The allocation\<close>

definition wf_credit :: "router_t \<Rightarrow> nat \<Rightarrow> nat \<Rightarrow> bool" where
  "wf_credit r type y \<longleftrightarrow> egress_credit r type y > (if type = REQ \<and> y = HOME then 1 else 0)"

text \<open>The invariant of the allocation of one channel type: \<open>own y\<close> is the input matched with output
  \<open>y\<close>, and every cell already visited has a token in its row or its column unless it has no request
  or no credit.\<close>

definition wf_inv ::
  "nat \<Rightarrow> (nat \<Rightarrow> nat \<Rightarrow> inputbuffer option) \<Rightarrow> router_t \<Rightarrow> (nat \<times> nat) set
     \<Rightarrow> nat set \<times> nat set \<times> router_t \<Rightarrow> bool" where
  "wf_inv type reqs r0 seen = (\<lambda>(row, col, r).
     (\<exists>p own. r = r0\<lparr>priority := (priority r0)(type := p),
          egress_grant := (egress_grant r0)(type := (\<lambda>y. if y \<in> col then reqs (own y) y else egress_grant r0 type y))\<rparr> \<and>
        inj_on own col \<and> own ` col = row \<and>
        (\<forall>y\<in>col. reqs (own y) y \<noteq> None \<and> wf_credit r0 type y \<and> own y < NUM_DIRECTIONS \<and> y < NUM_DIRECTIONS)) \<and>
     (\<forall>(x, y)\<in>seen. reqs x y \<noteq> None \<longrightarrow> ingress_num r0 type x \<noteq> 0 \<longrightarrow> wf_credit r0 type y \<longrightarrow> x \<in> row \<or> y \<in> col))"

lemma wf_cell_inv:
  assumes inv: "wf_inv type reqs r0 seen z" and x: "x < NUM_DIRECTIONS"
  shows "wf_inv type reqs r0 (insert (x, (pri + NUM_DIRECTIONS - x) mod NUM_DIRECTIONS) seen)
    (wf_cell type reqs pri x z)"
proof -
  obtain row col r where z: "z = (row, col, r)" by (cases z) auto
  let ?y = "(pri + NUM_DIRECTIONS - x) mod NUM_DIRECTIONS"
  from inv z obtain p own where r: "r = r0\<lparr>priority := (priority r0)(type := p),
          egress_grant := (egress_grant r0)(type := (\<lambda>y. if y \<in> col then reqs (own y) y else egress_grant r0 type y))\<rparr>"
    and own: "inj_on own col" "own ` col = row"
      "\<forall>y\<in>col. reqs (own y) y \<noteq> None \<and> wf_credit r0 type y \<and> own y < NUM_DIRECTIONS \<and> y < NUM_DIRECTIONS"
    and seen: "\<forall>(x, y)\<in>seen. reqs x y \<noteq> None \<longrightarrow> ingress_num r0 type x \<noteq> 0 \<longrightarrow> wf_credit r0 type y \<longrightarrow> x \<in> row \<or> y \<in> col"
    by (auto simp: wf_inv_def)
  show ?thesis
  proof (cases "ingress_num r0 type x \<noteq> 0 \<and> reqs x ?y \<noteq> None \<and> x \<notin> row \<and> ?y \<notin> col \<and> wf_credit r0 type ?y")
    case True
    let ?own = "own(?y := x)"
    have cell: "wf_cell type reqs pri x z = (insert x row, insert ?y col,
       r0\<lparr>priority := (priority r0)(type := (pri + 1) mod NUM_DIRECTIONS),
          egress_grant := (egress_grant r0)(type := (\<lambda>y. if y \<in> insert ?y col then reqs (?own y) y else egress_grant r0 type y))\<rparr>)"
      using True unfolding z r wf_cell_def Let_def wf_credit_def by (auto simp: fun_eq_iff)
    have inj: "inj_on ?own (insert ?y col)" and img: "?own ` insert ?y col = insert x row"
      using own True by (auto simp: inj_on_def)
    have cells: "\<forall>y\<in>insert ?y col. reqs (?own y) y \<noteq> None \<and> wf_credit r0 type y \<and>
        ?own y < NUM_DIRECTIONS \<and> y < NUM_DIRECTIONS"
      using own(3) True x by auto
    show ?thesis
      unfolding cell wf_inv_def prod.case
    proof (intro conjI)
      show "\<exists>p own'. r0\<lparr>priority := (priority r0)(type := (pri + 1) mod NUM_DIRECTIONS),
          egress_grant := (egress_grant r0)(type := (\<lambda>y. if y \<in> insert ?y col then reqs (?own y) y else egress_grant r0 type y))\<rparr> =
          r0\<lparr>priority := (priority r0)(type := p),
          egress_grant := (egress_grant r0)(type := (\<lambda>y. if y \<in> insert ?y col then reqs (own' y) y else egress_grant r0 type y))\<rparr> \<and>
        inj_on own' (insert ?y col) \<and> own' ` insert ?y col = insert x row \<and>
        (\<forall>y\<in>insert ?y col. reqs (own' y) y \<noteq> None \<and> wf_credit r0 type y \<and> own' y < NUM_DIRECTIONS \<and> y < NUM_DIRECTIONS)"
        using inj img cells by blast
      show "\<forall>(x', y)\<in>insert (x, ?y) seen. reqs x' y \<noteq> None \<longrightarrow> ingress_num r0 type x' \<noteq> 0 \<longrightarrow>
          wf_credit r0 type y \<longrightarrow> x' \<in> insert x row \<or> y \<in> insert ?y col"
        using seen by blast
    qed
  next
    case False
    then have "wf_cell type reqs pri x z = z"
      unfolding z r wf_cell_def Let_def wf_credit_def by auto
    moreover have "\<forall>(x', y)\<in>insert (x, ?y) seen. reqs x' y \<noteq> None \<longrightarrow> ingress_num r0 type x' \<noteq> 0 \<longrightarrow>
          wf_credit r0 type y \<longrightarrow> x' \<in> row \<or> y \<in> col"
      using seen False by blast
    moreover have "\<exists>p own. r = r0\<lparr>priority := (priority r0)(type := p),
          egress_grant := (egress_grant r0)(type := (\<lambda>y. if y \<in> col then reqs (own y) y else egress_grant r0 type y))\<rparr> \<and>
        inj_on own col \<and> own ` col = row \<and>
        (\<forall>y\<in>col. reqs (own y) y \<noteq> None \<and> wf_credit r0 type y \<and> own y < NUM_DIRECTIONS \<and> y < NUM_DIRECTIONS)"
      using r own by blast
    ultimately show ?thesis unfolding z wf_inv_def prod.case by simp
  qed
qed

text \<open>The diagonals visit every cell.\<close>

lemma wf_row_inv:
  assumes "wf_inv type reqs r0 seen z" and "\<forall>x\<in>set xs. x < NUM_DIRECTIONS"
  shows "wf_inv type reqs r0 (seen \<union> (\<lambda>x. (x, (pri + NUM_DIRECTIONS - x) mod NUM_DIRECTIONS)) ` set xs)
    (fold (wf_cell type reqs pri) xs z)"
  using assms
proof (induction xs arbitrary: seen z)
  case (Cons x xs)
  let ?y = "(pri + NUM_DIRECTIONS - x) mod NUM_DIRECTIONS"
  have "wf_inv type reqs r0 (insert (x, ?y) seen) (wf_cell type reqs pri x z)"
    by (rule wf_cell_inv) (use Cons.prems in auto)
  from Cons.IH [OF this] Cons.prems(2) show ?case by simp
qed simp

definition diagonal :: "nat \<Rightarrow> (nat \<times> nat) set" where
  "diagonal pri = (\<lambda>x. (x, (pri + NUM_DIRECTIONS - x) mod NUM_DIRECTIONS)) ` {0..<NUM_DIRECTIONS}"

lemma wf_diagonals_inv:
  assumes "wf_inv type reqs r0 seen z" and "pri < NUM_DIRECTIONS"
  shows "wf_inv type reqs r0 (seen \<union> (\<Union>i<k. diagonal ((pri + i) mod NUM_DIRECTIONS))) (wf_diagonals type reqs k pri z)"
  using assms
proof (induction k arbitrary: seen z pri)
  case (Suc k)
  have "wf_inv type reqs r0 (seen \<union> diagonal pri) (fold (wf_cell type reqs pri) [0..<NUM_DIRECTIONS] z)"
    using wf_row_inv [OF Suc.prems(1), of "[0..<NUM_DIRECTIONS]" pri]
    by (simp add: diagonal_def del: upt_rec_numeral)
  from Suc.IH [OF this, of "(pri + 1) mod NUM_DIRECTIONS"]
  have "wf_inv type reqs r0 (seen \<union> diagonal pri \<union> (\<Union>i<k. diagonal (((pri + 1) mod NUM_DIRECTIONS + i) mod NUM_DIRECTIONS)))
      (wf_diagonals type reqs (Suc k) pri z)" by (simp del: upt_rec_numeral)
  moreover have "seen \<union> diagonal pri \<union> (\<Union>i<k. diagonal (((pri + 1) mod NUM_DIRECTIONS + i) mod NUM_DIRECTIONS)) =
      seen \<union> (\<Union>i<Suc k. diagonal ((pri + i) mod NUM_DIRECTIONS))"
  proof -
    have "(\<Union>i<Suc k. diagonal ((pri + i) mod 5)) =
        diagonal (pri mod 5) \<union> (\<Union>i<k. diagonal ((pri + Suc i) mod 5))"
      unfolding lessThan_Suc_eq_insert_0 by simp
    moreover have "((pri + 1) mod 5 + i) mod 5 = (pri + Suc i) mod 5" for i by (simp add: mod_simps)
    ultimately show ?thesis using Suc.prems(2) by (simp add: Un_assoc)
  qed
  ultimately show ?case by simp
qed simp

lemma diagonals_cover:
  assumes "x < NUM_DIRECTIONS" and "y < NUM_DIRECTIONS" and "pri < NUM_DIRECTIONS"
  shows "(x, y) \<in> (\<Union>i<NUM_DIRECTIONS. diagonal ((pri + i) mod NUM_DIRECTIONS))"
proof -
  have "(x + y) mod 5 \<in> set (ring_order pri 5)" by (simp add: set_ring_order)
  then obtain i where i: "i < 5" "(pri + i) mod 5 = (x + y) mod 5" by (auto simp: ring_order_def)
  have "((x + y) mod 5 + 5 - x) mod 5 = ((x + y) mod 5 + (5 - x)) mod 5" using assms(1) by simp
  also have "\<dots> = (x + y + (5 - x)) mod 5" by (rule mod_add_left_eq)
  also have "x + y + (5 - x) = y + 5" using assms(1) by simp
  also have "(y + 5) mod 5 = y" using assms(2) by simp
  finally have "(x, y) \<in> diagonal ((pri + i) mod 5)" using assms(1) i(2) by (auto simp: diagonal_def)
  then show ?thesis using i(1) by blast
qed

lemma wf_inv_subset: "wf_inv type reqs r0 S z \<Longrightarrow> T \<subseteq> S \<Longrightarrow> wf_inv type reqs r0 T z"
  unfolding wf_inv_def by (cases z) blast

lemma wf_inv_start: "wf_inv type reqs r0 {} ({}, {}, r0)"
proof -
  have "r0 = r0\<lparr>priority := (priority r0)(type := priority r0 type),
      egress_grant := (egress_grant r0)(type := (\<lambda>y. if y \<in> {} then reqs ((\<lambda>y. y) y) y else egress_grant r0 type y))\<rparr>"
    by simp
  then show ?thesis unfolding wf_inv_def prod.case
    by (intro conjI exI [of _ "priority r0 type"] exI [of _ "\<lambda>y. y"]) simp_all
qed

lemma wf_type_inv:
  assumes "priority r0 type < NUM_DIRECTIONS"
  shows "\<exists>row col. wf_inv type reqs r0 ({0..<NUM_DIRECTIONS} \<times> {0..<NUM_DIRECTIONS}) (row, col, wf_type type reqs r0)"
proof -
  let ?z = "wf_diagonals type reqs NUM_DIRECTIONS (priority r0 type) ({}, {}, r0)"
  let ?seen = "{} \<union> (\<Union>i<NUM_DIRECTIONS. diagonal ((priority r0 type + i) mod NUM_DIRECTIONS))"
  have inv: "wf_inv type reqs r0 ?seen ?z" by (rule wf_diagonals_inv [OF wf_inv_start assms])
  have cover: "{0..<NUM_DIRECTIONS} \<times> {0..<NUM_DIRECTIONS} \<subseteq> ?seen"
    using diagonals_cover [OF _ _ assms] by auto
  obtain row col r where z: "?z = (row, col, r)" by (cases ?z) auto
  have "wf_inv type reqs r0 ({0..<NUM_DIRECTIONS} \<times> {0..<NUM_DIRECTIONS}) (row, col, r)"
    using wf_inv_subset [OF inv cover] unfolding z .
  then show ?thesis unfolding wf_type_def z by auto
qed

section \<open>All channel types\<close>

text \<open>\<open>g\<close> grants the outputs of one channel type along a matching \<open>own\<close> of outputs with inputs that
  cannot be extended.\<close>

definition wf_matching ::
  "nat \<Rightarrow> (nat \<Rightarrow> nat \<Rightarrow> inputbuffer option) \<Rightarrow> router_t \<Rightarrow> (nat \<Rightarrow> inputbuffer option) \<Rightarrow> (nat \<Rightarrow> nat) \<Rightarrow> bool" where
  "wf_matching type reqs r g own \<longleftrightarrow>
     inj_on own {y. y < NUM_DIRECTIONS \<and> g y \<noteq> None} \<and>
     (\<forall>y<NUM_DIRECTIONS. \<forall>pk. g y = Some pk \<longrightarrow>
        own y < NUM_DIRECTIONS \<and> wf_credit r type y \<and> reqs (own y) y = Some pk) \<and>
     (\<forall>x<NUM_DIRECTIONS. \<forall>y<NUM_DIRECTIONS. reqs x y \<noteq> None \<longrightarrow> ingress_num r type x \<noteq> 0 \<longrightarrow>
        wf_credit r type y \<longrightarrow> g y \<noteq> None \<or> (\<exists>y'<NUM_DIRECTIONS. g y' \<noteq> None \<and> own y' = x))"

definition same_inputs :: "router_t \<Rightarrow> router_t \<Rightarrow> bool" where
  "same_inputs r r' \<longleftrightarrow> ingress_num r' = ingress_num r \<and> egress_credit r' = egress_credit r \<and>
     ingress r' = ingress r \<and> ingress_head r' = ingress_head r \<and> home_x r' = home_x r \<and> home_y r' = home_y r"

lemma wf_matching_cong:
  assumes "same_inputs r r'"
  shows "wf_matching type reqs r' g own = wf_matching type reqs r g own"
  using assms by (simp add: same_inputs_def wf_matching_def wf_credit_def)

lemma wf_type_matching:
  assumes "priority r type < NUM_DIRECTIONS" and none: "\<forall>y<NUM_DIRECTIONS. egress_grant r type y = None"
  shows "\<exists>own. wf_matching type reqs r (egress_grant (wf_type type reqs r) type) own"
    and "same_inputs r (wf_type type reqs r)"
    and "t \<noteq> type \<Longrightarrow> egress_grant (wf_type type reqs r) t = egress_grant r t \<and>
      priority (wf_type type reqs r) t = priority r t"
proof -
  obtain row col where "wf_inv type reqs r ({0..<NUM_DIRECTIONS} \<times> {0..<NUM_DIRECTIONS}) (row, col, wf_type type reqs r)"
    using wf_type_inv [OF assms(1)] by blast
  then obtain p own where r': "wf_type type reqs r = r\<lparr>priority := (priority r)(type := p),
          egress_grant := (egress_grant r)(type := (\<lambda>y. if y \<in> col then reqs (own y) y else egress_grant r type y))\<rparr>"
    and own: "inj_on own col" "own ` col = row"
      "\<forall>y\<in>col. reqs (own y) y \<noteq> None \<and> wf_credit r type y \<and> own y < NUM_DIRECTIONS \<and> y < NUM_DIRECTIONS"
    and seen: "\<forall>(x, y)\<in>{0..<NUM_DIRECTIONS} \<times> {0..<NUM_DIRECTIONS}. reqs x y \<noteq> None \<longrightarrow>
      ingress_num r type x \<noteq> 0 \<longrightarrow> wf_credit r type y \<longrightarrow> x \<in> row \<or> y \<in> col"
    by (auto simp: wf_inv_def)
  let ?g = "egress_grant (wf_type type reqs r) type"
  have g: "?g y = (if y \<in> col then reqs (own y) y else None)" if "y < NUM_DIRECTIONS" for y
    using that none by (simp add: r')
  have col: "col = {y. y < NUM_DIRECTIONS \<and> ?g y \<noteq> None}" using own(3) g by (auto split: if_splits)
  have "wf_matching type reqs r ?g own"
    unfolding wf_matching_def
  proof (intro conjI allI impI)
    show "inj_on own {y. y < NUM_DIRECTIONS \<and> ?g y \<noteq> None}" using own(1) col by simp
  next
    fix y pk assume "y < NUM_DIRECTIONS" "?g y = Some pk"
    moreover then have "y \<in> col" using g by (auto split: if_splits)
    ultimately show "own y < NUM_DIRECTIONS" "wf_credit r type y" "reqs (own y) y = Some pk" using own(3) g by auto
  next
    fix x y assume xy: "x < NUM_DIRECTIONS" "y < NUM_DIRECTIONS" and "reqs x y \<noteq> None"
      "ingress_num r type x \<noteq> 0" "wf_credit r type y"
    then have "x \<in> row \<or> y \<in> col" using seen by auto
    then show "?g y \<noteq> None \<or> (\<exists>y'<NUM_DIRECTIONS. ?g y' \<noteq> None \<and> own y' = x)"
      using own(2) col by auto
  qed
  then show "\<exists>own. wf_matching type reqs r ?g own" by blast
  show "same_inputs r (wf_type type reqs r)" by (simp add: r' same_inputs_def)
  show "t \<noteq> type \<Longrightarrow> egress_grant (wf_type type reqs r) t = egress_grant r t \<and>
      priority (wf_type type reqs r) t = priority r t" by (simp add: r')
qed

lemma wf_types_matching:
  assumes "distinct ts" and "\<forall>t\<in>set ts. priority r t < NUM_DIRECTIONS \<and> (\<forall>y<NUM_DIRECTIONS. egress_grant r t y = None)"
  shows "same_inputs r (fold (\<lambda>type. wf_type type (reqs type)) ts r) \<and>
    (\<forall>t. t \<notin> set ts \<longrightarrow> egress_grant (fold (\<lambda>type. wf_type type (reqs type)) ts r) t = egress_grant r t) \<and>
    (\<forall>t\<in>set ts. \<exists>own. wf_matching t (reqs t) r (egress_grant (fold (\<lambda>type. wf_type type (reqs type)) ts r) t) own)"
  using assms
proof (induction ts arbitrary: r)
  case Nil
  then show ?case by (simp add: same_inputs_def)
next
  case (Cons t ts)
  let ?r = "wf_type t (reqs t) r" and ?f = "fold (\<lambda>type. wf_type type (reqs type)) ts"
  note W = wf_type_matching [where r = r and type = t and reqs = "reqs t"]
  have pre: "priority r t < NUM_DIRECTIONS" "\<forall>y<NUM_DIRECTIONS. egress_grant r t y = None"
    using Cons.prems(2) by auto
  have "\<forall>t'\<in>set ts. priority ?r t' < NUM_DIRECTIONS \<and> (\<forall>y<NUM_DIRECTIONS. egress_grant ?r t' y = None)"
  proof
    fix t' assume t': "t' \<in> set ts"
    then have "t' \<noteq> t" using Cons.prems(1) by auto
    then show "priority ?r t' < NUM_DIRECTIONS \<and> (\<forall>y<NUM_DIRECTIONS. egress_grant ?r t' y = None)"
      using W(3) [OF pre, of t'] Cons.prems(2) t' by simp
  qed
  from Cons.IH [OF _ this] Cons.prems(1)
  have IH: "same_inputs ?r (?f ?r)" "\<forall>t'. t' \<notin> set ts \<longrightarrow> egress_grant (?f ?r) t' = egress_grant ?r t'"
    "\<forall>t'\<in>set ts. \<exists>own. wf_matching t' (reqs t') ?r (egress_grant (?f ?r) t') own" by auto
  have same: "same_inputs r (?f ?r)" using IH(1) W(2) [OF pre] by (simp add: same_inputs_def)
  have t: "egress_grant (?f ?r) t = egress_grant ?r t" using IH(2) Cons.prems(1) by simp
  show ?case
  proof (intro conjI allI ballI impI)
    show "same_inputs r (fold (\<lambda>type. wf_type type (reqs type)) (t # ts) r)" using same by simp
  next
    fix t' assume "t' \<notin> set (t # ts)"
    then show "egress_grant (fold (\<lambda>type. wf_type type (reqs type)) (t # ts) r) t' = egress_grant r t'"
      using IH(2) W(3) [where t = t', OF pre] by simp
  next
    fix t' assume "t' \<in> set (t # ts)"
    then show "\<exists>own. wf_matching t' (reqs t') r (egress_grant (fold (\<lambda>type. wf_type type (reqs type)) (t # ts) r) t') own"
      using IH(3) W(1) [OF pre] t wf_matching_cong [OF W(2) [OF pre]] by auto
  qed
qed

lemma wf_reqs_cong: "same_inputs r r' \<Longrightarrow> wf_reqs n type r' = wf_reqs n type r"
proof -
  assume "same_inputs r r'"
  then have eq: "ingress r' = ingress r" "ingress_num r' = ingress_num r" "ingress_head r' = ingress_head r"
    "home_x r' = home_x r" "home_y r' = home_y r" by (simp_all add: same_inputs_def)
  have sel: "select_dest_channel pk r' = select_dest_channel pk r" for pk
    by (simp add: select_dest_channel_def eq)
  have "oldest_for r' = oldest_for r" by (intro ext) (simp only: oldest_for_def sel)
  then show ?thesis by (intro ext) (simp only: wf_reqs_oldest eq)
qed

section \<open>Properties\<close>

text \<open>C22. The wave-front allocator succeeds exactly when the search depth fits the buffer; its grants of
  one channel type form a matching of outputs with credit and inputs, no request with credit is left
  whose input and output are both unmatched, and each input matched sends the oldest of its packets
  that asks for the output it got, although the search may look at only eight requests.\<close>

theorem wf_arbitrate_maximal_matching:
  assumes "\<forall>type<NUM_TYPES. priority r type < NUM_DIRECTIONS"
  shows "case wf_arbitrate_router n r of
      None \<Rightarrow> n < WF_SEARCH_DEPTH
    | Some r' \<Rightarrow> WF_SEARCH_DEPTH \<le> n \<and> (\<forall>type<NUM_TYPES. \<exists>own.
        wf_matching type (wf_reqs n type r) r (egress_grant r' type) own \<and>
        (\<forall>y<NUM_DIRECTIONS. \<forall>pk. egress_grant r' type y = Some pk \<longrightarrow> wants r y pk \<and>
           oldest_for r (ingress r type (own y)) (ring_order (ingress_head r type (own y)) n) y = Some pk))"
proof (cases "WF_SEARCH_DEPTH \<le> n")
  case False
  then show ?thesis by (simp add: wf_arbitrate_router_def Let_def)
next
  case True
  let ?r = "clear_grants r"
  let ?r' = "fold (\<lambda>type. wf_type type (wf_reqs n type ?r)) [0..<NUM_TYPES] ?r"
  have run: "wf_arbitrate_router n r = Some ?r'" using True by (simp add: wf_arbitrate_router_def Let_def)
  have same: "same_inputs r ?r" by (simp add: same_inputs_def)
  have all: "\<forall>t\<in>set [0..<NUM_TYPES]. \<exists>own. wf_matching t (wf_reqs n t ?r) ?r (egress_grant ?r' t) own"
    using wf_types_matching [of "[0..<NUM_TYPES]" ?r "\<lambda>t. wf_reqs n t ?r"] assms clear_grants_None by simp
  have "\<exists>own. wf_matching t (wf_reqs n t r) r (egress_grant ?r' t) own \<and>
      (\<forall>y<NUM_DIRECTIONS. \<forall>pk. egress_grant ?r' t y = Some pk \<longrightarrow> wants r y pk \<and>
         oldest_for r (ingress r t (own y)) (ring_order (ingress_head r t (own y)) n) y = Some pk)"
    if t: "t < NUM_TYPES" for t
  proof -
    obtain own where own: "wf_matching t (wf_reqs n t r) r (egress_grant ?r' t) own"
      using bspec [OF all, of t] t wf_matching_cong [OF same] wf_reqs_cong [OF same] by auto
    have "wants r y pk \<and> oldest_for r (ingress r t (own y)) (ring_order (ingress_head r t (own y)) n) y = Some pk"
      if "y < NUM_DIRECTIONS" "egress_grant ?r' t y = Some pk" for y pk
    proof -
      have "wf_reqs n t r (own y) y = Some pk" using own that by (simp add: wf_matching_def)
      then show ?thesis using wf_reqs_wants(1) by (auto simp: wf_reqs_oldest split: if_splits)
    qed
    with own show ?thesis by blast
  qed
  then show ?thesis unfolding run using True by simp
qed

text \<open>The output the wave-front arbiter computes for a packet is the one output the round-robin
  arbiter lets it ask for.\<close>

theorem select_dest_channel_agrees:
  "select_dest_channel pk r = d \<longleftrightarrow> d < NUM_DIRECTIONS \<and> wants r d pk"
  using select_dest_channel_iff [of d pk r] select_dest_channel_less [of pk r] by auto

theorem wf_arbitrate_maximal_matching_witness:
  "case wf_arbitrate_router 8 busy_router of None \<Rightarrow> False
   | Some r' \<Rightarrow> \<exists>own. wf_matching REQ (wf_reqs 8 REQ busy_router) busy_router (egress_grant r' REQ) own"
proof -
  have p: "\<forall>type<NUM_TYPES. priority busy_router type < NUM_DIRECTIONS"
    by (simp add: busy_router_def add_num_def set_slot_def init_router_def)
  have "\<exists>r'. wf_arbitrate_router 8 busy_router = Some r'" by (simp add: wf_arbitrate_router_def Let_def)
  then obtain r' where r': "wf_arbitrate_router 8 busy_router = Some r'" by blast
  show ?thesis
    using wf_arbitrate_maximal_matching [OF p, where n = 8] unfolding r' option.case
    by (elim conjE allE [of _ REQ] impE exE) (simp, simp, blast)
qed

end
