(* ===== verification/Specmem.thy ===== *)
theory Specmem
  imports Insts
begin

unbundle bit_operations_syntax

text \<open>
  The memory of a mis-speculated path (\<open>spec_mem_access\<close> and the store part of \<open>tracer_recover\<close>, decode.c):
  wrong-path stores go to a hash table of eight-byte buckets, each marked with the speculation level it
  was allocated at, and loads look there before they read the target memory. A bucket's data is the
  eight bytes of \<open>data[0]\<close> and \<open>data[1]\<close>, which is how both the host buffer and the bucket are accessed;
  host and target byte order agree (no \<open>MD_CROSS_ENDIAN\<close>). The table is shown to implement a map from
  addresses to a level and eight bytes.
\<close>

section \<open>Access\<close>

definition STORE_HASH_SIZE :: nat where "STORE_HASH_SIZE = 32"

definition HASH_ADDR :: "md_addr_t \<Rightarrow> nat" where
  "HASH_ADDR a = unat ((drop_bit 24 a XOR drop_bit 16 a XOR drop_bit 8 a XOR a) AND 31)"

definition MD_VALID_ADDR :: "pipeline \<Rightarrow> md_addr_t \<Rightarrow> bool" where
  "MD_VALID_ADDR st a \<longleftrightarrow>
     ld_text_base st \<le> a \<and> a < ld_text_base st + ld_text_size st \<or>
     ld_data_base st \<le> a \<and> a < ld_stack_base st"

text \<open>\<open>MEM_READ\<close> at a type of \<open>n\<close> bytes; \<open>None\<close> when the object would leave its page.\<close>

definition MEM_READ :: "mem_t \<Rightarrow> md_addr_t \<Rightarrow> nat \<Rightarrow> (8 word list \<times> mem_t) option" where
  "MEM_READ mem addr n =
     (case MEM_PAGE mem addr of
        (None, mem) \<Rightarrow> Some (replicate n 0, mem)
      | (Some _, mem) \<Rightarrow>
          (case MEM_PAGE mem addr of
             (None, mem) \<Rightarrow> None
           | (Some page, mem) \<Rightarrow>
               if MEM_OFFSET addr + n \<le> length (host_pages mem ! page)
               then Some (take n (drop (MEM_OFFSET addr) (host_pages mem ! page)), mem) else None))"

text \<open>The search keeps the last bucket of the chain that matches, since \<open>level\<close> starts at zero again for
  every bucket.\<close>

definition ent_hit :: "md_addr_t \<Rightarrow> spec_mem_ent \<Rightarrow> bool" where
  "ent_hit addr e \<longleftrightarrow> ent_addr e = addr \<and> 0 < ent_level e"

definition newest_ent :: "md_addr_t \<Rightarrow> spec_mem_ent list \<Rightarrow> nat option" where
  "newest_ent addr es = find (\<lambda>i. ent_hit addr (es ! i)) (rev [0..<length es])"

text \<open>A new bucket at the head of the chain, from the free list or from \<open>calloc\<close>.\<close>

definition alloc_ent :: "md_addr_t \<Rightarrow> pipeline \<Rightarrow> pipeline" where
  "alloc_ent addr st =
     (let i = HASH_ADDR addr
      in st\<lparr>bucket_free_list := tl (bucket_free_list st),
            store_htable := (store_htable st)(i :=
              \<lparr>ent_addr = addr, ent_level = spec_level st, ent_data = replicate 8 0\<rparr> # store_htable st i)\<rparr>)"

definition write_ent :: "nat \<Rightarrow> nat \<Rightarrow> 8 word list \<Rightarrow> pipeline \<Rightarrow> pipeline" where
  "write_ent i k bs st =
     (let e = store_htable st i ! k
      in st\<lparr>store_htable := (store_htable st)(i := (store_htable st i)
            [k := e\<lparr>ent_data := bs @ drop (length bs) (ent_data e)\<rparr>])\<rparr>)"

text \<open>A read from the target memory: a double word is read as two words.\<close>

definition read_target :: "nat \<Rightarrow> md_addr_t \<Rightarrow> pipeline \<Rightarrow> (8 word list \<times> pipeline) option" where
  "read_target n addr st =
     (if n = 8
      then do { (u, m) \<leftarrow> MEM_READ (target_mem st) addr 4;
                (v, m) \<leftarrow> MEM_READ m (addr + 4) 4;
                Some (u @ v, st\<lparr>target_mem := m\<rparr>) }
      else map_option (\<lambda>(u, m). (u, st\<lparr>target_mem := m\<rparr>)) (MEM_READ (target_mem st) addr n))"

definition spec_mem_access ::
  "pipeline \<Rightarrow> mem_cmd \<Rightarrow> md_addr_t \<Rightarrow> 8 word list \<Rightarrow> int \<Rightarrow> (md_fault_type \<times> 8 word list \<times> pipeline) option" where
  "spec_mem_access st cmd addr p nbytes =
     (let n = nat nbytes; i = HASH_ADDR addr
      in if int (length p) < nbytes then None
         else if (nbytes AND (nbytes - 1)) \<noteq> 0 \<or> addr AND word_of_int (nbytes - 1) \<noteq> 0
         then Some (md_fault_none, replicate n 0 @ drop n p, st)
         else if \<not> ((ld_text_base st \<le> addr \<and> addr < ld_text_base st + ld_text_size st \<and> cmd = Read) \<or>
                    MD_VALID_ADDR st addr)
         then Some (md_fault_none, replicate n 0 @ drop n p, st)
         else
           (let found = newest_ent addr (store_htable st i);
                st = (if found = None \<and> cmd = Write then alloc_ent addr st else st);
                ent = (if found = None \<and> cmd = Write then Some 0 else found)
            in if n \<notin> {1, 2, 4, 8} then None
               else case cmd of
                 Read \<Rightarrow>
                   (case ent of
                      Some k \<Rightarrow> Some (md_fault_none, take n (ent_data (store_htable st i ! k)) @ drop n p, st)
                    | None \<Rightarrow> map_option (\<lambda>(u, st). (md_fault_none, u @ drop n p, st)) (read_target n addr st))
               | Write \<Rightarrow>
                   map_option (\<lambda>k. (md_fault_none, p, write_ent i k (take n p) st)) ent))"

section \<open>Recovery\<close>

fun release_bucket ::
  "nat \<Rightarrow> spec_mem_ent list \<Rightarrow> spec_mem_ent list \<Rightarrow> spec_mem_ent list \<Rightarrow> spec_mem_ent list \<times> spec_mem_ent list" where
  "release_bucket level [] free head = (free, head)"
| "release_bucket level (e # es) free head =
     (if level \<le> ent_level e then release_bucket level es (e # free) head
      else release_bucket level es free (e # head))"

definition recover_chain :: "nat \<Rightarrow> nat \<Rightarrow> pipeline \<Rightarrow> pipeline" where
  "recover_chain level i st =
     (let (free, head) = release_bucket level (store_htable st i) (bucket_free_list st) []
      in st\<lparr>store_htable := (store_htable st)(i := head), bucket_free_list := free\<rparr>)"

definition recover_stores :: "nat \<Rightarrow> pipeline \<Rightarrow> pipeline" where
  "recover_stores level st = fold (recover_chain level) [0..<STORE_HASH_SIZE] st"

section \<open>The table as a map\<close>

text \<open>What the table stands for: a level and eight bytes for some addresses. A well-formed table has one
  bucket for an address, in the chain of its hash value.\<close>

definition spec_map :: "pipeline \<Rightarrow> md_addr_t \<Rightarrow> (nat \<times> 8 word list) option" where
  "spec_map st a =
     map_option (\<lambda>e. (ent_level e, ent_data e)) (find (\<lambda>e. ent_addr e = a) (store_htable st (HASH_ADDR a)))"

definition chain_ok :: "nat \<Rightarrow> spec_mem_ent list \<Rightarrow> bool" where
  "chain_ok i es \<longleftrightarrow> distinct (map ent_addr es) \<and>
     (\<forall>e\<in>set es. HASH_ADDR (ent_addr e) = i \<and> 0 < ent_level e \<and> length (ent_data e) = 8)"

definition htable_ok :: "pipeline \<Rightarrow> bool" where
  "htable_ok st \<longleftrightarrow> (\<forall>i. chain_ok i (store_htable st i))"

definition accessible :: "pipeline \<Rightarrow> md_addr_t \<Rightarrow> int \<Rightarrow> bool" where
  "accessible st a n \<longleftrightarrow> n \<in> {1, 2, 4, 8} \<and> a AND word_of_int (n - 1) = 0 \<and> MD_VALID_ADDR st a"

text \<open>The level and the data a store to an address starts from.\<close>

definition store_base :: "pipeline \<Rightarrow> md_addr_t \<Rightarrow> nat \<times> 8 word list" where
  "store_base st a = (case spec_map st a of None \<Rightarrow> (spec_level st, replicate 8 0) | Some x \<Rightarrow> x)"

lemma HASH_ADDR_less: "HASH_ADDR a < STORE_HASH_SIZE"
proof -
  have "(drop_bit 24 a XOR drop_bit 16 a XOR drop_bit 8 a XOR a) AND 31 \<le> (31 :: 32 word)"
    by (rule word_and_le1)
  then have "HASH_ADDR a \<le> unat (31 :: 32 word)"
    by (simp only: HASH_ADDR_def word_le_nat_alt)
  then show ?thesis by (simp add: STORE_HASH_SIZE_def)
qed

lemma htable_ok_chain: "htable_ok st \<Longrightarrow> chain_ok i (store_htable st i)"
  by (simp add: htable_ok_def)

lemma find_rev_upt:
  assumes "k < n" "P k" "\<And>j. k < j \<Longrightarrow> j < n \<Longrightarrow> \<not> P j"
  shows "find P (rev [0..<n]) = Some k"
  using assms
proof (induction n)
  case (Suc n)
  then show ?case by (cases "k = n") (auto simp: less_Suc_eq)
qed simp

lemma newest_ent_None: "(newest_ent a es = None) = (\<forall>e\<in>set es. \<not> ent_hit a e)"
  by (simp add: newest_ent_def find_None_iff) (metis in_set_conv_nth)

lemma newest_ent_Some:
  assumes "chain_ok i es" "newest_ent a es = Some k"
  shows "k < length es" and "ent_addr (es ! k) = a" and "find (\<lambda>e. ent_addr e = a) es = Some (es ! k)"
proof -
  from assms(2) show k: "k < length es" and a: "ent_addr (es ! k) = a"
    by (auto simp: newest_ent_def find_Some_iff ent_hit_def rev_nth)
  have "\<not> ent_addr (es ! j) = a" if "j < k" for j
    using that k a assms(1) by (auto simp: chain_ok_def distinct_conv_nth)
  with k a show "find (\<lambda>e. ent_addr e = a) es = Some (es ! k)"
    by (auto simp: find_Some_iff)
qed

lemma newest_ent_map:
  assumes "htable_ok st"
  shows "(newest_ent a (store_htable st (HASH_ADDR a)) = None) = (spec_map st a = None)"
    and "newest_ent a (store_htable st (HASH_ADDR a)) = Some k \<Longrightarrow>
      spec_map st a = Some (ent_level (store_htable st (HASH_ADDR a) ! k), ent_data (store_htable st (HASH_ADDR a) ! k))"
proof -
  note ok = htable_ok_chain [OF assms, of "HASH_ADDR a"]
  show "(newest_ent a (store_htable st (HASH_ADDR a)) = None) = (spec_map st a = None)"
    using ok by (auto simp: newest_ent_None spec_map_def find_None_iff ent_hit_def chain_ok_def)
  show "newest_ent a (store_htable st (HASH_ADDR a)) = Some k \<Longrightarrow>
      spec_map st a = Some (ent_level (store_htable st (HASH_ADDR a) ! k), ent_data (store_htable st (HASH_ADDR a) ! k))"
    using newest_ent_Some [OF ok] by (simp add: spec_map_def)
qed

text \<open>Only the table and the free list differ.\<close>

definition no_table :: "pipeline \<Rightarrow> pipeline" where
  "no_table st = st\<lparr>store_htable := (\<lambda>_. []), bucket_free_list := []\<rparr>"

definition only_table :: "pipeline \<Rightarrow> pipeline \<Rightarrow> bool" where
  "only_table st st' \<longleftrightarrow> no_table st' = no_table st"

lemma only_table_refl [simp]: "only_table st st"
  by (simp add: only_table_def)

lemma only_table_trans: "only_table a b \<Longrightarrow> only_table b c \<Longrightarrow> only_table a c"
  by (simp add: only_table_def)

lemma only_table_upd [simp]: "only_table st (st\<lparr>store_htable := t, bucket_free_list := f\<rparr>)"
  by (simp add: only_table_def no_table_def)

lemma only_table_fields:
  assumes "only_table st st'"
  shows "target_mem st' = target_mem st" "spec_level st' = spec_level st" "MD_VALID_ADDR st' a = MD_VALID_ADDR st a"
    "accessible st' a n = accessible st a n"
proof -
  have e: "f st' = f st" if "\<And>s. f (no_table s) = f s" for f :: "pipeline \<Rightarrow> 'a"
    using assms that by (metis only_table_def)
  show "target_mem st' = target_mem st" "spec_level st' = spec_level st"
    by (rule e, simp add: no_table_def)+
  show v: "MD_VALID_ADDR st' a = MD_VALID_ADDR st a" for a
    by (rule e) (simp add: no_table_def MD_VALID_ADDR_def)
  show "accessible st' a n = accessible st a n"
    by (simp add: accessible_def v)
qed

lemma only_table_ops: "only_table st (alloc_ent a st)" "only_table st (write_ent i k bs st)"
  by (simp_all add: only_table_def no_table_def alloc_ent_def write_ent_def Let_def)

text \<open>Allocation and writing, on the map.\<close>

lemma chain_ok_Cons:
  "chain_ok i (e # es) \<longleftrightarrow> chain_ok i es \<and> ent_addr e \<notin> ent_addr ` set es \<and> HASH_ADDR (ent_addr e) = i \<and>
     0 < ent_level e \<and> length (ent_data e) = 8"
  by (auto simp: chain_ok_def)

lemma alloc_ent_map:
  assumes ok: "htable_ok st" and new: "spec_map st a = None" and l: "0 < spec_level st"
  shows "htable_ok (alloc_ent a st)"
    and "spec_map (alloc_ent a st) = (spec_map st)(a \<mapsto> (spec_level st, replicate 8 0))"
proof -
  from new have "a \<notin> ent_addr ` set (store_htable st (HASH_ADDR a))"
    by (auto simp: spec_map_def find_None_iff)
  then show "htable_ok (alloc_ent a st)"
    using ok l by (auto simp: htable_ok_def alloc_ent_def Let_def chain_ok_Cons)
  show "spec_map (alloc_ent a st) = (spec_map st)(a \<mapsto> (spec_level st, replicate 8 0))"
    by (rule ext) (simp add: spec_map_def alloc_ent_def Let_def)
qed

lemma find_addr_update:
  assumes "chain_ok i es" "k < length es" "ent_addr e = ent_addr (es ! k)"
  shows "find (\<lambda>x. ent_addr x = b) (es[k := e]) =
    (if b = ent_addr e then Some e else find (\<lambda>x. ent_addr x = b) es)"
  using assms
proof (induction es arbitrary: k)
  case (Cons x es)
  then show ?case
    by (cases k) (auto simp: chain_ok_Cons nth_mem)
qed simp

lemma write_ent_map:
  assumes ok: "htable_ok st" and k: "k < length (store_htable st i)" and i: "i = HASH_ADDR a"
    and a: "ent_addr (store_htable st i ! k) = a" and n: "length bs \<le> 8"
  defines "e \<equiv> store_htable st i ! k"
  shows "htable_ok (write_ent i k bs st)"
    and "spec_map (write_ent i k bs st) =
      (spec_map st)(a \<mapsto> (ent_level e, bs @ drop (length bs) (ent_data e)))"
proof -
  note c = htable_ok_chain [OF ok, of i]
  let ?e = "e\<lparr>ent_data := bs @ drop (length bs) (ent_data e)\<rparr>"
  have mem: "e \<in> set (store_htable st i)" using k by (simp add: e_def)
  have "map ent_addr ((store_htable st i)[k := ?e]) = map ent_addr (store_htable st i)"
    using k by (intro nth_equalityI) (auto simp: nth_list_update e_def nth_map split: if_splits)
  moreover have "\<forall>x\<in>set ((store_htable st i)[k := ?e]). HASH_ADDR (ent_addr x) = i \<and> 0 < ent_level x \<and>
      length (ent_data x) = 8"
    using c mem n by (auto simp: chain_ok_def dest!: set_update_subset_insert [THEN subsetD])
  ultimately have "chain_ok i ((store_htable st i)[k := ?e])"
    using c by (simp add: chain_ok_def)
  then show "htable_ok (write_ent i k bs st)"
    using ok by (simp add: htable_ok_def write_ent_def Let_def e_def)
  have "find (\<lambda>x. ent_addr x = b) ((store_htable st i)[k := ?e]) =
      (if b = a then Some ?e else find (\<lambda>x. ent_addr x = b) (store_htable st i))" for b
    using find_addr_update [OF c k, of ?e b] a by (simp add: e_def)
  then show "spec_map (write_ent i k bs st) =
      (spec_map st)(a \<mapsto> (ent_level e, bs @ drop (length bs) (ent_data e)))"
    by (intro ext) (simp add: spec_map_def write_ent_def Let_def e_def i)
qed

text \<open>A read within a page delivers the bytes of the memory.\<close>

lemma MEM_fields_unat:
  "MEM_OFFSET a = unat a mod 4096" "MEM_PTAB_SET a = unat a div 4096 mod 32768"
  "unat (MEM_PTAB_TAG a) = unat a div 134217728"
proof -
  have m: "(0xFFF :: 32 word) = mask 12" "(0x7FFF :: 32 word) = mask 15"
    by (simp_all add: mask_eq_decr_exp)
  show "MEM_OFFSET a = unat a mod 4096" "MEM_PTAB_SET a = unat a div 4096 mod 32768"
    by (simp_all only: MEM_OFFSET_def MEM_PTAB_SET_def m take_bit_eq_mask [symmetric])
      (simp_all only: unsigned_take_bit_eq unat_drop_bit_eq, simp_all add: take_bit_eq_mod drop_bit_eq_div)
  show "unat (MEM_PTAB_TAG a) = unat a div 134217728"
    by (simp only: MEM_PTAB_TAG_def unat_drop_bit_eq, simp add: drop_bit_eq_div)
qed

lemma MEM_fields_step:
  assumes "MEM_OFFSET a + k < 4096"
  shows "MEM_PTAB_SET (a + of_nat k) = MEM_PTAB_SET a" and "MEM_PTAB_TAG (a + of_nat k) = MEM_PTAB_TAG a"
    and "MEM_OFFSET (a + of_nat k) = MEM_OFFSET a + k"
proof -
  have a: "unat a < 4294967296" using unsigned_less [of a] by simp
  have off: "unat a mod 4096 + k < 4096" using assms by (simp add: MEM_fields_unat)
  then have k: "k < 4096" by simp
  have eq: "unat a = 4096 * (unat a div 4096) + unat a mod 4096" by simp
  have "(unat a + k) div 4096 = unat a div 4096 \<and> (unat a + k) mod 4096 = unat a mod 4096 + k"
    using off by (subst (1 3) eq) (simp only: add.assoc div_mult_self4 mod_mult_self4, simp)
  then have page: "(unat a + k) div 4096 = unat a div 4096"
    and rest: "(unat a + k) mod 4096 = unat a mod 4096 + k" by simp_all
  have "unat a + k < 4096 * (unat a div 4096) + 4096" using off eq by linarith
  moreover have "unat a div 4096 < 1048576" using a by (simp add: less_mult_imp_div_less)
  ultimately have "unat a + k < 4294967296" by linarith
  then have sum: "unat (a + of_nat k) = unat a + k"
    using k by (simp add: unat_word_ariths unat_of_nat take_bit_eq_mod)
  have big: "x div 134217728 = x div 4096 div 32768" for x :: nat
    by (simp flip: div_mult2_eq)
  show "MEM_OFFSET (a + of_nat k) = MEM_OFFSET a + k"
    by (simp add: MEM_fields_unat sum rest)
  show "MEM_PTAB_SET (a + of_nat k) = MEM_PTAB_SET a"
    by (simp add: MEM_fields_unat sum page)
  show "MEM_PTAB_TAG (a + of_nat k) = MEM_PTAB_TAG a"
    by (simp add: word_unat_eq_iff MEM_fields_unat sum big page)
qed

lemma MEM_READ_spec:
  assumes ok: "mem_ok m" and n: "MEM_OFFSET a + n \<le> 4096"
  shows "\<exists>m'. MEM_READ m a n = Some (bytes_at (mem_byte m) a n, m') \<and> mem_ok m' \<and> mem_byte m' = mem_byte m"
proof -
  obtain r m1 where 1: "MEM_PAGE m a = (r, m1)" by (cases "MEM_PAGE m a")
  from MEM_PAGE_spec [OF ok 1] have m1: "r = page_lookup m a" "mem_ok m1"
    "page_lookup m1 = page_lookup m" "host_pages m1 = host_pages m" by auto
  obtain r2 m2 where 2: "MEM_PAGE m1 a = (r2, m2)" by (cases "MEM_PAGE m1 a")
  from MEM_PAGE_spec [OF m1(2) 2] m1 have m2: "r2 = page_lookup m a" "mem_ok m2"
    "page_lookup m2 = page_lookup m" "host_pages m2 = host_pages m" by auto
  have same: "page_lookup m (a + of_nat k) = page_lookup m a" if "k < n" for k
    using MEM_fields_step [of a k] that n by (simp add: page_lookup_def)
  show ?thesis
  proof (cases "page_lookup m a")
    case None
    have "bytes_at (mem_byte m) a n = replicate n 0"
      by (rule nth_equalityI) (simp_all add: bytes_at_def mem_byte_def same None)
    then have "MEM_READ m a n = Some (bytes_at (mem_byte m) a n, m1)"
      using 1 m1(1) None by (simp add: MEM_READ_def)
    then show ?thesis using m1 mem_byte_cong by blast
  next
    case (Some g)
    from page_lookup_entry [OF Some] ok have "g < length (host_pages m)" by (auto simp: mem_ok_def)
    then have len: "length (host_pages m ! g) = 4096" using ok by (simp add: mem_ok_def MD_PAGE_SIZE_def)
    have "bytes_at (mem_byte m) a n = take n (drop (MEM_OFFSET a) (host_pages m ! g))"
      by (rule nth_equalityI)
        (use n in \<open>simp_all add: bytes_at_def mem_byte_def same Some len MEM_fields_step(3)\<close>)
    then have "MEM_READ m a n = Some (bytes_at (mem_byte m) a n, m2)"
      using 1 2 m1(1) m2(1,4) Some len n by (simp add: MEM_READ_def)
    then show ?thesis using m2 mem_byte_cong by blast
  qed
qed

text \<open>Aligned accesses stay in a page.\<close>

lemma aligned_offset:
  assumes "a AND word_of_int (n - 1) = 0" "n \<in> {1, 2, 4, 8}"
  shows "MEM_OFFSET a + nat n \<le> 4096"
proof -
  from assms(2) obtain k where k: "n = 2 ^ k" "k \<le> 3"
    by (elim insertE) (use zero_le in \<open>force intro: that [of 0] that [of 1] that [of 2] that [of 3]\<close>)+
  then have "(word_of_int (n - 1) :: 32 word) = mask k"
    by (simp add: mask_eq_decr_exp)
  with assms(1) have "take_bit k a = 0" by (simp add: take_bit_eq_mask)
  then have "unat (take_bit k a) = 0" by simp
  then have "take_bit k (unat a) = 0" by (simp only: unsigned_take_bit_eq)
  then have "unat a mod 2 ^ k = 0" by (simp only: take_bit_eq_mod)
  moreover have "(4096 :: nat) = 2 ^ k * 2 ^ (12 - k)"
    using k(2) by (simp flip: power_add)
  ultimately obtain q where q: "unat a mod 4096 = 2 ^ k * q"
    by (metis dvd_def dvd_mod_iff dvd_triv_left mod_0_imp_dvd dvdE dvd_mod)
  have "2 ^ k * q < 2 ^ k * 2 ^ (12 - k)"
    using q \<open>(4096 :: nat) = _\<close> by (metis mod_less_divisor zero_less_numeral)
  then have "q + 1 \<le> 2 ^ (12 - k)" by simp
  then have "2 ^ k * (q + 1) \<le> 4096"
    using \<open>(4096 :: nat) = _\<close> by (metis mult_le_mono2)
  then show ?thesis using q k(1) by (simp add: MEM_fields_unat nat_power_eq)
qed

lemma bytes_at_append: "bytes_at f a (m + n) = bytes_at f a m @ bytes_at f (a + of_nat m) n"
  by (rule nth_equalityI) (auto simp: bytes_at_def nth_append algebra_simps)

lemma read_target_spec:
  assumes ok: "mem_ok (target_mem st)" and n: "n \<in> {1, 2, 4, 8}" and a: "a AND word_of_int (n - 1) = 0"
  shows "\<exists>m. read_target (nat n) a st = Some (bytes_at (mem_byte (target_mem st)) a (nat n), st\<lparr>target_mem := m\<rparr>) \<and>
    mem_ok m \<and> mem_byte m = mem_byte (target_mem st)"
proof (cases "n = 8")
  case False
  with MEM_READ_spec [OF ok aligned_offset [OF a n]] n show ?thesis
    by (auto simp: read_target_def)
next
  case True
  with aligned_offset [OF a n] have off: "MEM_OFFSET a + 4 \<le> 4096" "MEM_OFFSET a + 4 + 4 \<le> 4096" by auto
  from MEM_READ_spec [OF ok off(1)] obtain m1 where
    1: "MEM_READ (target_mem st) a 4 = Some (bytes_at (mem_byte (target_mem st)) a 4, m1)" "mem_ok m1"
      "mem_byte m1 = mem_byte (target_mem st)" by blast
  have "MEM_OFFSET (a + 4) + 4 \<le> 4096" using MEM_fields_step(3) [of a 4] off by simp
  from MEM_READ_spec [OF 1(2) this] obtain m2 where
    2: "MEM_READ m1 (a + 4) 4 = Some (bytes_at (mem_byte m1) (a + 4) 4, m2)" "mem_ok m2"
      "mem_byte m2 = mem_byte m1" by blast
  have "bytes_at f a 8 = bytes_at f a 4 @ bytes_at f (a + 4) 4" for f
    using bytes_at_append [of f a 4 4] by simp
  then show ?thesis using 1 2 True by (auto simp: read_target_def)
qed

text \<open>Recovery, chain by chain.\<close>

lemma release_bucket_eq:
  "release_bucket l es free head =
     (rev (filter (\<lambda>e. l \<le> ent_level e) es) @ free, rev (filter (\<lambda>e. ent_level e < l) es) @ head)"
  by (induction es arbitrary: free head) auto

lemma recover_chain_eq:
  "recover_chain l i st = st\<lparr>
     store_htable := (store_htable st)(i := rev (filter (\<lambda>e. ent_level e < l) (store_htable st i))),
     bucket_free_list := rev (filter (\<lambda>e. l \<le> ent_level e) (store_htable st i)) @ bucket_free_list st\<rparr>"
  by (simp add: recover_chain_def release_bucket_eq)

lemma recover_fold:
  "store_htable (fold (recover_chain l) [0..<n] st) =
     (\<lambda>i. if i < n then rev (filter (\<lambda>e. ent_level e < l) (store_htable st i)) else store_htable st i)"
  by (induction n) (auto simp: recover_chain_eq less_Suc_eq)

lemma recover_stores_other: "only_table st (recover_stores l st)"
proof -
  have "only_table st (fold (recover_chain l) is st)" for "is"
    by (induction "is" arbitrary: st) (auto simp: recover_chain_eq intro: only_table_trans only_table_upd)
  then show ?thesis by (simp add: recover_stores_def)
qed

definition bucket_total :: "pipeline \<Rightarrow> nat" where
  "bucket_total st =
     length (bucket_free_list st) + sum_list (map (\<lambda>i. length (store_htable st i)) [0..<STORE_HASH_SIZE])"

lemma length_filter_split:
  "length (filter P xs) + length (filter (\<lambda>x. \<not> P x) xs) = length xs"
  by (rule sum_length_filter_compl)

lemma recover_total: "bucket_total (recover_stores l st) = bucket_total st"
proof -
  let ?r = "\<lambda>n. fold (recover_chain l) [0..<n] st"
  have half: "length (filter (\<lambda>e. l \<le> ent_level e) es) + length (filter (\<lambda>e. ent_level e < l) es) = length es" for es
    using length_filter_split [of "\<lambda>e. l \<le> ent_level e" es] by (simp add: not_le)
  have "length (bucket_free_list (?r n)) + sum_list (map (\<lambda>i. length (store_htable (?r n) i)) [0..<n]) =
      length (bucket_free_list st) + sum_list (map (\<lambda>i. length (store_htable st i)) [0..<n])" for n
  proof (induction n)
    case (Suc n)
    have tab: "store_htable (?r n) n = store_htable st n" by (simp add: recover_fold)
    have "map (\<lambda>i. length (store_htable (?r (Suc n)) i)) [0..<n] = map (\<lambda>i. length (store_htable (?r n) i)) [0..<n]"
      by (simp add: recover_chain_eq [of l n "?r n"])
    note arg_cong [OF this, of sum_list]
    moreover have "length (store_htable (?r (Suc n)) n) = length (filter (\<lambda>e. ent_level e < l) (store_htable st n))"
      "length (bucket_free_list (?r (Suc n))) =
         length (filter (\<lambda>e. l \<le> ent_level e) (store_htable st n)) + length (bucket_free_list (?r n))"
      using tab by (simp_all add: recover_chain_eq [of l n "?r n"])
    moreover have "sum_list (map g [0..<Suc n]) = sum_list (map g [0..<n]) + g n" for g :: "nat \<Rightarrow> nat"
      by simp
    note this [of "\<lambda>i. length (store_htable (?r (Suc n)) i)"] this [of "\<lambda>i. length (store_htable st i)"]
    ultimately show ?case
      using Suc half [of "store_htable st n"] by linarith
  qed simp
  then show ?thesis by (simp add: bucket_total_def recover_stores_def)
qed

lemma find_append_option: "find P (xs @ ys) = (case find P xs of None \<Rightarrow> find P ys | Some x \<Rightarrow> Some x)"
  by (induction xs) auto

lemma find_key_None: "(find (\<lambda>x. f x = a) xs = None) = (a \<notin> f ` set xs)"
  by (auto simp: find_None_iff)

lemma find_rev_distinct:
  assumes "distinct (map f xs)"
  shows "find (\<lambda>x. f x = a) (rev xs) = find (\<lambda>x. f x = a) xs"
  using assms
proof (induction xs)
  case (Cons x xs)
  then have "f x = a \<Longrightarrow> find (\<lambda>x. f x = a) xs = None" by (auto simp: find_key_None)
  with Cons show ?case by (auto simp: find_append_option split: option.split)
qed simp

lemma find_filter_distinct:
  assumes "distinct (map f xs)"
  shows "find (\<lambda>x. f x = a) (filter P xs) =
    (case find (\<lambda>x. f x = a) xs of None \<Rightarrow> None | Some x \<Rightarrow> if P x then Some x else None)"
  using assms
proof (induction xs)
  case (Cons x xs)
  then have "f x = a \<Longrightarrow> find (\<lambda>x. f x = a) xs = None" by (auto simp: find_key_None)
  with Cons show ?case by (auto split: option.splits)
qed simp

lemma recover_stores_map:
  assumes ok: "htable_ok st"
  shows "htable_ok (recover_stores l st)"
    and "spec_map (recover_stores l st) a =
      (case spec_map st a of None \<Rightarrow> None | Some (k, d) \<Rightarrow> if k < l then Some (k, d) else None)"
proof -
  have tab: "store_htable (recover_stores l st) i =
      (if i < STORE_HASH_SIZE then rev (filter (\<lambda>e. ent_level e < l) (store_htable st i)) else store_htable st i)" for i
    by (simp add: recover_stores_def recover_fold)
  have "distinct (map ent_addr (filter P (store_htable st i)))" for P i
    using ok by (simp add: htable_ok_def chain_ok_def distinct_map_filter)
  then show "htable_ok (recover_stores l st)"
    using ok by (auto simp: htable_ok_def chain_ok_def tab rev_map [symmetric])
  have dis: "distinct (map ent_addr (store_htable st (HASH_ADDR a)))"
    using ok by (simp add: htable_ok_def chain_ok_def)
  have "distinct (map ent_addr (filter P (store_htable st (HASH_ADDR a))))" for P
    using dis by (rule distinct_map_filter)
  then show "spec_map (recover_stores l st) a =
      (case spec_map st a of None \<Rightarrow> None | Some (k, d) \<Rightarrow> if k < l then Some (k, d) else None)"
    using HASH_ADDR_less [of a] dis
    by (simp add: spec_map_def tab find_rev_distinct find_filter_distinct split: option.split)
qed

section \<open>Loads and stores\<close>

lemma size_aligned: "n \<in> {1, 2, 4, 8 :: int} \<Longrightarrow> n AND (n - 1) = 0"
  by auto

lemma spec_mem_access_aligned:
  assumes "accessible st a n" "n \<le> int (length p)"
  shows "spec_mem_access st Read a p n =
      (case newest_ent a (store_htable st (HASH_ADDR a)) of
         Some k \<Rightarrow> Some (md_fault_none, take (nat n) (ent_data (store_htable st (HASH_ADDR a) ! k)) @ drop (nat n) p, st)
       | None \<Rightarrow> map_option (\<lambda>(u, st). (md_fault_none, u @ drop (nat n) p, st)) (read_target (nat n) a st))"
    and "spec_mem_access st Write a p n = Some (md_fault_none, p,
      (case newest_ent a (store_htable st (HASH_ADDR a)) of
         Some k \<Rightarrow> write_ent (HASH_ADDR a) k (take (nat n) p) st
       | None \<Rightarrow> write_ent (HASH_ADDR a) 0 (take (nat n) p) (alloc_ent a st)))"
proof -
  have n: "n \<in> {1, 2, 4, 8}" "nat n \<in> {1, 2, 4, 8}" and al: "a AND word_of_int (n - 1) = 0"
    and v: "MD_VALID_ADDR st a"
    using assms(1) by (auto simp: accessible_def)
  note facts = assms(2) size_aligned [OF n(1)] al v n(2)
  show "spec_mem_access st Read a p n =
      (case newest_ent a (store_htable st (HASH_ADDR a)) of
         Some k \<Rightarrow> Some (md_fault_none, take (nat n) (ent_data (store_htable st (HASH_ADDR a) ! k)) @ drop (nat n) p, st)
       | None \<Rightarrow> map_option (\<lambda>(u, st). (md_fault_none, u @ drop (nat n) p, st)) (read_target (nat n) a st))"
    using facts by (auto simp: spec_mem_access_def Let_def split: option.split)
  show "spec_mem_access st Write a p n = Some (md_fault_none, p,
      (case newest_ent a (store_htable st (HASH_ADDR a)) of
         Some k \<Rightarrow> write_ent (HASH_ADDR a) k (take (nat n) p) st
       | None \<Rightarrow> write_ent (HASH_ADDR a) 0 (take (nat n) p) (alloc_ent a st)))"
    using facts by (simp add: spec_mem_access_def Let_def split: option.split)
qed

lemma spec_read:
  assumes ok: "htable_ok st" "mem_ok (target_mem st)" and acc: "accessible st a n" and p: "n \<le> int (length p)"
  shows "\<exists>m. spec_mem_access st Read a p n = Some (md_fault_none,
      (case spec_map st a of Some (k, d) \<Rightarrow> take (nat n) d | None \<Rightarrow> bytes_at (mem_byte (target_mem st)) a (nat n))
        @ drop (nat n) p, st\<lparr>target_mem := m\<rparr>) \<and>
    mem_ok m \<and> mem_byte m = mem_byte (target_mem st)"
proof -
  have n: "n \<in> {1, 2, 4, 8}" and al: "a AND word_of_int (n - 1) = 0"
    using acc by (auto simp: accessible_def)
  note run = spec_mem_access_aligned(1) [OF acc p]
  show ?thesis
  proof (cases "newest_ent a (store_htable st (HASH_ADDR a))")
    case None
    with newest_ent_map(1) [OF ok(1), of a] have "spec_map st a = None" by simp
    with None run read_target_spec [OF ok(2) n al] show ?thesis by auto
  next
    case (Some k)
    have "st\<lparr>target_mem := target_mem st\<rparr> = st" by simp
    with Some run newest_ent_map(2) [OF ok(1) Some] ok(2) show ?thesis
      by (intro exI [of _ "target_mem st"]) simp
  qed
qed

lemma spec_write:
  assumes ok: "htable_ok st" and l: "0 < spec_level st" and acc: "accessible st a n" and p: "n \<le> int (length p)"
    and base: "store_base st a = (k, d)"
  shows "\<exists>st'. spec_mem_access st Write a p n = Some (md_fault_none, p, st') \<and> only_table st st' \<and> htable_ok st' \<and>
      spec_map st' = (spec_map st)(a \<mapsto> (k, take (nat n) p @ drop (nat n) d))"
proof -
  have "n \<in> {1, 2, 4, 8}" using acc by (simp add: accessible_def)
  then have len: "length (take (nat n) p) = nat n" "length (take (nat n) p) \<le> 8" using p by auto
  note run = spec_mem_access_aligned(2) [OF acc p]
  show ?thesis
  proof (cases "newest_ent a (store_htable st (HASH_ADDR a))")
    case None
    with newest_ent_map(1) [OF ok, of a] have new: "spec_map st a = None" by simp
    let ?s = "alloc_ent a st"
    have hd: "0 < length (store_htable ?s (HASH_ADDR a))" "ent_addr (store_htable ?s (HASH_ADDR a) ! 0) = a"
      "ent_data (store_htable ?s (HASH_ADDR a) ! 0) = replicate 8 0"
      "ent_level (store_htable ?s (HASH_ADDR a) ! 0) = spec_level st"
      by (simp_all add: alloc_ent_def Let_def)
    note w = write_ent_map [OF alloc_ent_map(1) [OF ok new l] hd(1) refl hd(2) len(2)]
    have "only_table st (write_ent (HASH_ADDR a) 0 (take (nat n) p) ?s)"
      by (rule only_table_trans [OF only_table_ops(1) only_table_ops(2)])
    then show ?thesis
      using run None w base new len(1) unfolding alloc_ent_map(2) [OF ok new l] hd store_base_def
      by auto
  next
    case (Some i)
    from newest_ent_map(2) [OF ok Some] base
    have kd: "k = ent_level (store_htable st (HASH_ADDR a) ! i)" "d = ent_data (store_htable st (HASH_ADDR a) ! i)"
      by (simp_all add: store_base_def)
    note at = newest_ent_Some [OF htable_ok_chain [OF ok] Some]
    note w = write_ent_map [OF ok at(1) refl at(2) len(2)]
    show ?thesis
      using run Some w len(1) only_table_ops(2) unfolding kd by auto
  qed
qed

section \<open>Properties\<close>

text \<open>C25. On the wrong path, a store is private: it changes neither the target memory nor the entry of any
  other address, and afterwards a load of the same address and size returns the bytes that were stored. A
  load of an address that has no bucket returns the bytes of the target memory.\<close>

theorem spec_store_load:
  assumes ok: "htable_ok st" "mem_ok (target_mem st)" and l: "0 < spec_level st"
    and acc: "accessible st a n" and p: "n \<le> int (length p)" and q: "n \<le> int (length q)"
    and b: "accessible st b k" "k \<le> int (length q)" "b \<noteq> a" "spec_map st b = None"
  shows "\<exists>st'. spec_mem_access st Write a p n = Some (md_fault_none, p, st') \<and>
      target_mem st' = target_mem st \<and> htable_ok st' \<and>
      (\<forall>c. c \<noteq> a \<longrightarrow> spec_map st' c = spec_map st c) \<and>
      map_option (\<lambda>(f, u, _). (f, u)) (spec_mem_access st' Read a q n) =
        Some (md_fault_none, take (nat n) p @ drop (nat n) q) \<and>
      map_option (\<lambda>(f, u, _). (f, u)) (spec_mem_access st' Read b q k) =
        Some (md_fault_none, bytes_at (mem_byte (target_mem st)) b (nat k) @ drop (nat k) q)"
proof -
  obtain lev d where base: "store_base st a = (lev, d)" by (cases "store_base st a")
  from spec_write [OF ok(1) l acc p base] obtain st' where
    run: "spec_mem_access st Write a p n = Some (md_fault_none, p, st')" "only_table st st'" "htable_ok st'"
      "spec_map st' = (spec_map st)(a \<mapsto> (lev, take (nat n) p @ drop (nat n) d))" by blast
  note f = only_table_fields [OF run(2)]
  have m: "mem_ok (target_mem st')" and acc': "accessible st' a n" "accessible st' b k"
    using ok(2) acc b(1) by (simp_all add: f)
  have "take (nat n) (take (nat n) p @ drop (nat n) d) = take (nat n) p"
    using p by (auto simp: take_append)
  with spec_read [OF run(3) m acc'(1) q] spec_read [OF run(3) m acc'(2) b(2)] run b(3,4) show ?thesis
    by (auto simp: f)
qed

text \<open>An empty table at level 1, and what a store of \<open>AA BB CC DD\<close> leaves.\<close>

definition spec_start :: pipeline where
  "spec_start = blank_pipe\<lparr>spec_level := 1\<rparr>"

definition spec_stored :: pipeline where
  "spec_stored = spec_start\<lparr>store_htable := (\<lambda>_. [])(20 :=
     [\<lparr>ent_addr = 0x10000004, ent_level = 1, ent_data = [0xAA, 0xBB, 0xCC, 0xDD, 0, 0, 0, 0]\<rparr>])\<rparr>"

lemma spec_start_ok: "htable_ok spec_start" "mem_ok (target_mem spec_start)" "spec_level spec_start = 1"
    "accessible spec_start 0x10000004 4" "accessible spec_start 0x10000008 8" "spec_map spec_start a = None"
  by (simp_all add: spec_start_def blank_pipe_def htable_ok_def chain_ok_def mem_ok_create accessible_def
    MD_VALID_ADDR_def spec_map_def)

lemma spec_stored_ok: "htable_ok spec_stored"
    "spec_map spec_stored 0x10000004 = Some (1, [0xAA, 0xBB, 0xCC, 0xDD, 0, 0, 0, 0])"
  by (simp_all add: spec_stored_def spec_start_def blank_pipe_def htable_ok_def chain_ok_def HASH_ADDR_def
    spec_map_def drop_bit_eq_div)

theorem spec_store_load_witness:
  "\<exists>st'. spec_mem_access spec_start Write 0x10000004 [1, 2, 3, 4] 4 = Some (md_fault_none, [1, 2, 3, 4], st') \<and>
    map_option (\<lambda>(f, u, _). (f, u)) (spec_mem_access st' Read 0x10000004 [0, 0, 0, 0, 0, 0, 0, 0] 4) =
      Some (md_fault_none, [1, 2, 3, 4, 0, 0, 0, 0])"
  using spec_store_load [of spec_start "0x10000004" 4 "[1, 2, 3, 4]" "[0, 0, 0, 0, 0, 0, 0, 0]" "0x10000008" 8]
    spec_start_ok by auto

text \<open>C26. Recovery to a level releases exactly the buckets allocated at that level or a deeper one: every other
  address keeps its entry, no bucket is lost, and nothing but the table and the free list changes.\<close>

theorem recover_stores_releases:
  assumes "htable_ok st"
  shows "htable_ok (recover_stores l st) \<and>
    spec_map (recover_stores l st) a =
      (case spec_map st a of None \<Rightarrow> None | Some (k, d) \<Rightarrow> if k < l then Some (k, d) else None) \<and>
    bucket_total (recover_stores l st) = bucket_total st \<and> only_table st (recover_stores l st)"
  using recover_stores_map [OF assms] recover_total recover_stores_other by blast

theorem recover_stores_releases_witness:
  "spec_map (recover_stores 1 spec_stored) 0x10000004 = None \<and>
   spec_map (recover_stores 2 spec_stored) 0x10000004 = Some (1, [0xAA, 0xBB, 0xCC, 0xDD, 0, 0, 0, 0]) \<and>
   bucket_total (recover_stores 1 spec_stored) = 1"
proof -
  have "bucket_total spec_stored = 1"
    by (simp add: bucket_total_def spec_stored_def spec_start_def blank_pipe_def STORE_HASH_SIZE_def upt_rec)
  then show ?thesis
    using recover_stores_releases [OF spec_stored_ok(1), of 1 "0x10000004"]
      recover_stores_releases [OF spec_stored_ok(1), of 2 "0x10000004"] spec_stored_ok(2) by simp
qed

text \<open>A bucket keeps the level it was allocated at: a store on a deeper wrong path to an address that has a
  bucket of a shallower one stays in that bucket, and a recovery that squashes the store leaves its data
  for the loads of the surviving path.\<close>

theorem deeper_store_survives:
  assumes ok: "htable_ok st" "mem_ok (target_mem st)" and l: "j < k" "k \<le> spec_level st"
    and shallow: "spec_map st a = Some (j, d)"
    and acc: "accessible st a n" and p: "n \<le> int (length p)" and q: "n \<le> int (length q)"
  shows "\<exists>st'. spec_mem_access st Write a p n = Some (md_fault_none, p, st') \<and>
      map_option (\<lambda>(f, u, _). (f, u)) (spec_mem_access (recover_stores k st') Read a q n) =
        Some (md_fault_none, take (nat n) p @ drop (nat n) q)"
proof -
  have base: "store_base st a = (j, d)" using shallow by (simp add: store_base_def)
  from spec_write [OF ok(1) _ acc p base] l obtain st' where
    run: "spec_mem_access st Write a p n = Some (md_fault_none, p, st')" "only_table st st'" "htable_ok st'"
      "spec_map st' = (spec_map st)(a \<mapsto> (j, take (nat n) p @ drop (nat n) d))" by auto
  have only: "only_table st (recover_stores k st')"
    using only_table_trans [OF run(2) recover_stores_other] .
  note f = only_table_fields [OF only]
  have "spec_map (recover_stores k st') a = Some (j, take (nat n) p @ drop (nat n) d)"
    using recover_stores_map(2) [OF run(3), of k a] run(4) l by simp
  moreover have "take (nat n) (take (nat n) p @ drop (nat n) d) = take (nat n) p"
    using p by (auto simp: take_append)
  moreover have "mem_ok (target_mem (recover_stores k st'))" "accessible (recover_stores k st') a n"
    using ok(2) acc by (simp_all add: f)
  ultimately show ?thesis
    using run(1) spec_read [OF recover_stores_map(1) [OF run(3)], of k a n q] q by auto
qed

theorem deeper_store_survives_witness:
  "\<exists>st'. spec_mem_access (spec_stored\<lparr>spec_level := 3\<rparr>) Write 0x10000004 [1, 2, 3, 4] 4 =
      Some (md_fault_none, [1, 2, 3, 4], st') \<and>
    map_option (\<lambda>(f, u, _). (f, u)) (spec_mem_access (recover_stores 2 st') Read 0x10000004 [0, 0, 0, 0] 4) =
      Some (md_fault_none, [1, 2, 3, 4])"
proof -
  let ?s = "spec_stored\<lparr>spec_level := 3\<rparr>"
  have "htable_ok ?s" "spec_map ?s 0x10000004 = Some (1, [0xAA, 0xBB, 0xCC, 0xDD, 0, 0, 0, 0])"
    using spec_stored_ok by (simp_all add: htable_ok_def spec_map_def)
  moreover have "mem_ok (target_mem ?s)" "accessible ?s 0x10000004 4" "spec_level ?s = 3"
    by (simp_all add: spec_stored_def spec_start_def blank_pipe_def mem_ok_create accessible_def MD_VALID_ADDR_def)
  ultimately show ?thesis
    using deeper_store_survives [of ?s 1 2 "0x10000004" _ 4 "[1, 2, 3, 4]" "[0, 0, 0, 0]"] by simp
qed

end
