(* ===== verification/Tracer.thy ===== *)
theory Tracer
  imports Specmem Lsq
begin

unbundle bit_operations_syntax

text \<open>
  The register and memory state an instruction changes when it is decoded (decode.c), and its recovery:
  the accessors \<open>GPR\<close> ... \<open>SET_FCC\<close>, \<open>__READ_SPECMEM\<close>, \<open>__WRITE_SPECMEM\<close> with \<open>SAVE_OLD\<close>, the levels of
  mis-speculation (\<open>prepare_level\<close>), the create vector that names the producer of every register, and
  \<open>tracer_recover\<close> with \<open>recover_data\<close> (commit.c). On the right path (level 0) an accessor saves the old value
  in the instruction before it writes; on a wrong path it works on the copy of its level. \<open>None\<close> is a failed
  assertion or an access outside an array. The assignments to \<open>regn\<close> and \<open>regv\<close>, which only \<open>CROSS_VERIFY\<close>
  reads, are left out.
\<close>

section \<open>Registers of the current level\<close>

definition upd_pipe :: "(pipeline \<Rightarrow> pipeline) \<Rightarrow> godson2_cpu \<Rightarrow> godson2_cpu" where
  "upd_pipe f st = st\<lparr>pipe := f (pipe st)\<rparr>"

definition upd_inst :: "nat \<Rightarrow> (inst_descript \<Rightarrow> inst_descript) \<Rightarrow> godson2_cpu \<Rightarrow> godson2_cpu" where
  "upd_inst rs f st = st\<lparr>insts := (insts st)(rs := f (insts st rs))\<rparr>"

definition GPR :: "nat \<Rightarrow> pipeline \<Rightarrow> 32 word" where
  "GPR n p = (if spec_level p \<noteq> 0 then spec_regs_R p (spec_level p) n else regs_R p n)"

text \<open>The single-precision view \<open>f\<close> and the integer view \<open>l\<close> of a floating-point register are the same word.\<close>

definition FPR_L :: "nat \<Rightarrow> pipeline \<Rightarrow> 32 word" where
  "FPR_L n p = (if spec_level p \<noteq> 0 then spec_regs_F p (spec_level p) n else regs_F p n)"

definition FPR_D :: "nat \<Rightarrow> pipeline \<Rightarrow> 32 word \<times> 32 word" where
  "FPR_D n p = (FPR_L (2 * (n div 2)) p, FPR_L (2 * (n div 2) + 1) p)"

definition ctrl_regs :: "pipeline \<Rightarrow> md_ctrl_t" where
  "ctrl_regs p = (if spec_level p \<noteq> 0 then spec_regs_C p (spec_level p) else regs_C p)"

definition HI :: "pipeline \<Rightarrow> 32 word" where "HI p = hi (ctrl_regs p)"
definition LO :: "pipeline \<Rightarrow> 32 word" where "LO p = lo (ctrl_regs p)"
definition FCC :: "pipeline \<Rightarrow> 32 word" where "FCC p = fcc (ctrl_regs p)"

text \<open>\<open>SAVE_OLD\<close>: the next of the three slots of \<open>temp_save\<close>.\<close>

definition no_save :: saved_value where
  "no_save = \<lparr>save_t = 0, save_n = 0, save_addr = 0, save_l = 0, save_f = 0, save_d = (0, 0)\<rparr>"

definition SAVE_OLD :: "saved_value \<Rightarrow> nat \<Rightarrow> godson2_cpu \<Rightarrow> godson2_cpu option" where
  "SAVE_OLD v rs st =
     (if length (rs_temp_save (insts st rs)) < 3
      then Some (upd_inst rs (\<lambda>i. i\<lparr>rs_temp_save := rs_temp_save i @ [v]\<rparr>) st) else None)"

text \<open>The pattern all setters follow: on a wrong path write the copy of the level, else save and write.\<close>

definition save_and_set ::
  "(pipeline \<Rightarrow> saved_value) \<Rightarrow> (pipeline \<Rightarrow> pipeline) \<Rightarrow> (nat \<Rightarrow> pipeline \<Rightarrow> pipeline) \<Rightarrow> nat \<Rightarrow> godson2_cpu
     \<Rightarrow> godson2_cpu option" where
  "save_and_set old put put_spec rs st =
     (let p = pipe st
      in if spec_level p \<noteq> 0 then Some (upd_pipe (put_spec (spec_level p)) st)
         else map_option (upd_pipe put) (SAVE_OLD (old p) rs st))"

definition SET_GPR :: "nat \<Rightarrow> 32 word \<Rightarrow> nat \<Rightarrow> godson2_cpu \<Rightarrow> godson2_cpu option" where
  "SET_GPR n v = save_and_set (\<lambda>p. no_save\<lparr>save_t := 0, save_n := n, save_l := regs_R p n\<rparr>)
     (\<lambda>p. p\<lparr>regs_R := (regs_R p)(n := v)\<rparr>)
     (\<lambda>l p. p\<lparr>spec_regs_R := (spec_regs_R p)(l := (spec_regs_R p l)(n := v))\<rparr>)"

definition SET_FPR_L :: "nat \<Rightarrow> 32 word \<Rightarrow> nat \<Rightarrow> godson2_cpu \<Rightarrow> godson2_cpu option" where
  "SET_FPR_L n v = save_and_set (\<lambda>p. no_save\<lparr>save_t := 2, save_n := n, save_f := regs_F p n\<rparr>)
     (\<lambda>p. p\<lparr>regs_F := (regs_F p)(n := v)\<rparr>)
     (\<lambda>l p. p\<lparr>spec_regs_F := (spec_regs_F p)(l := (spec_regs_F p l)(n := v))\<rparr>)"

definition put_double :: "nat \<Rightarrow> 32 word \<times> 32 word \<Rightarrow> (nat \<Rightarrow> 32 word) \<Rightarrow> nat \<Rightarrow> 32 word" where
  "put_double k v f = f(2 * k := fst v, 2 * k + 1 := snd v)"

definition SET_FPR_D :: "nat \<Rightarrow> 32 word \<times> 32 word \<Rightarrow> nat \<Rightarrow> godson2_cpu \<Rightarrow> godson2_cpu option" where
  "SET_FPR_D n v = (let k = n div 2 in
     save_and_set (\<lambda>p. no_save\<lparr>save_t := 3, save_n := k, save_d := (regs_F p (2 * k), regs_F p (2 * k + 1))\<rparr>)
     (\<lambda>p. p\<lparr>regs_F := put_double k v (regs_F p)\<rparr>)
     (\<lambda>l p. p\<lparr>spec_regs_F := (spec_regs_F p)(l := put_double k v (spec_regs_F p l))\<rparr>))"

definition SET_HI :: "32 word \<Rightarrow> nat \<Rightarrow> godson2_cpu \<Rightarrow> godson2_cpu option" where
  "SET_HI v = save_and_set (\<lambda>p. no_save\<lparr>save_t := 4, save_l := hi (regs_C p)\<rparr>)
     (\<lambda>p. p\<lparr>regs_C := (regs_C p)\<lparr>hi := v\<rparr>\<rparr>)
     (\<lambda>l p. p\<lparr>spec_regs_C := (spec_regs_C p)(l := (spec_regs_C p l)\<lparr>hi := v\<rparr>)\<rparr>)"

definition SET_LO :: "32 word \<Rightarrow> nat \<Rightarrow> godson2_cpu \<Rightarrow> godson2_cpu option" where
  "SET_LO v = save_and_set (\<lambda>p. no_save\<lparr>save_t := 5, save_l := lo (regs_C p)\<rparr>)
     (\<lambda>p. p\<lparr>regs_C := (regs_C p)\<lparr>lo := v\<rparr>\<rparr>)
     (\<lambda>l p. p\<lparr>spec_regs_C := (spec_regs_C p)(l := (spec_regs_C p l)\<lparr>lo := v\<rparr>)\<rparr>)"

definition SET_FCC :: "32 word \<Rightarrow> nat \<Rightarrow> godson2_cpu \<Rightarrow> godson2_cpu option" where
  "SET_FCC v = save_and_set (\<lambda>p. no_save\<lparr>save_t := 6, save_l := fcc (regs_C p)\<rparr>)
     (\<lambda>p. p\<lparr>regs_C := (regs_C p)\<lparr>fcc := v\<rparr>\<rparr>)
     (\<lambda>l p. p\<lparr>spec_regs_C := (spec_regs_C p)(l := (spec_regs_C p l)\<lparr>fcc := v\<rparr>)\<rparr>)"

text \<open>A word and its four bytes in memory, least significant first.\<close>

definition word_bytes :: "32 word \<Rightarrow> 8 word list" where
  "word_bytes w = map (\<lambda>i. ucast (drop_bit (8 * i) w)) [0..<4]"

fun bytes_word :: "8 word list \<Rightarrow> 32 word" where
  "bytes_word [] = 0"
| "bytes_word (b # bs) = ucast b OR push_bit 8 (bytes_word bs)"

definition READ_SPECMEM ::
  "md_addr_t \<Rightarrow> nat \<Rightarrow> godson2_cpu \<Rightarrow> (md_fault_type \<times> 8 word list \<times> godson2_cpu) option" where
  "READ_SPECMEM addr n st =
     (if spec_level (pipe st) \<noteq> 0
      then map_option (\<lambda>(f, bs, p). (f, bs, st\<lparr>pipe := p\<rparr>))
             (spec_mem_access (pipe st) Read addr (replicate n 0) (int n))
      else map_option (\<lambda>(f, bs, m). (f, bs, upd_pipe (\<lambda>p. p\<lparr>target_mem := m\<rparr>) st))
             (mem_access (target_mem (pipe st)) Read addr (replicate n 0) (int n)))"

text \<open>A store saves the whole aligned word it is in.\<close>

definition WRITE_SPECMEM ::
  "md_addr_t \<Rightarrow> 8 word list \<Rightarrow> nat \<Rightarrow> godson2_cpu \<Rightarrow> (md_fault_type \<times> godson2_cpu) option" where
  "WRITE_SPECMEM addr bs rs st =
     (if spec_level (pipe st) \<noteq> 0
      then map_option (\<lambda>(f, _, p). (f, st\<lparr>pipe := p\<rparr>))
             (spec_mem_access (pipe st) Write addr bs (int (length bs)))
      else do { let base = addr AND NOT 3;
                (_, w, m) \<leftarrow> mem_access (target_mem (pipe st)) Read base [0, 0, 0, 0] 4;
                st \<leftarrow> SAVE_OLD (no_save\<lparr>save_t := 1, save_addr := base, save_l := bytes_word w\<rparr>) rs st;
                (f, _, m) \<leftarrow> mem_access m Write addr bs (int (length bs));
                Some (f, upd_pipe (\<lambda>p. p\<lparr>target_mem := m\<rparr>) st) })"

section \<open>Levels and the create vector\<close>

definition MAX_ODEPS :: nat where "MAX_ODEPS = 2"

definition prepare_create_vector :: "nat \<Rightarrow> pipeline \<Rightarrow> pipeline" where
  "prepare_create_vector l p = p\<lparr>create_vector := (create_vector p)(l + 1 := create_vector p l)\<rparr>"

definition prepare_level :: "pipeline \<Rightarrow> pipeline option" where
  "prepare_level p =
     (let l = spec_level p
      in if brq_ifq_size p < l + 1 then None
         else Some (prepare_create_vector l
           (if l \<noteq> 0
            then p\<lparr>spec_regs_R := (spec_regs_R p)(l + 1 := spec_regs_R p l),
                   spec_regs_F := (spec_regs_F p)(l + 1 := spec_regs_F p l),
                   spec_regs_C := (spec_regs_C p)(l + 1 := spec_regs_C p l)\<rparr>
            else p\<lparr>spec_regs_R := (spec_regs_R p)(1 := regs_R p),
                   spec_regs_F := (spec_regs_F p)(1 := regs_F p),
                   spec_regs_C := (spec_regs_C p)(1 := regs_C p)\<rparr>)))"

definition tracer_init :: "pipeline \<Rightarrow> pipeline" where
  "tracer_init p = p\<lparr>spec_level := 0, spec_regs_R := (\<lambda>_ _. 0), spec_regs_F := (\<lambda>_ _. 0),
     spec_regs_C := (\<lambda>_. \<lparr>hi = 0, lo = 0, fcc = 0\<rparr>),
     store_htable := (\<lambda>i. if i < STORE_HASH_SIZE then [] else store_htable p i)\<rparr>"

definition cv_init :: "pipeline \<Rightarrow> pipeline" where
  "cv_init p = p\<lparr>create_vector := (\<lambda>_ _. None)\<rparr>"

definition decode_stage_init :: "pipeline \<Rightarrow> pipeline" where
  "decode_stage_init p =
     cv_init (tracer_init (p\<lparr>decode_data := (\<lambda>_. 0), decode_num := 0, decode_head := 0, decode_tail := 0\<rparr>))"

definition clear_create_vector :: "pipeline \<Rightarrow> pipeline" where
  "clear_create_vector p = p\<lparr>create_vector := (create_vector p)(0 := (\<lambda>_. None))\<rparr>"

text \<open>An operand waits for the instruction that the create vector names, on that instruction's list; register
  \<open>0\<close> is \<open>NA\<close>. \<open>None\<close>: no free link.\<close>

definition roq_link_idep :: "nat \<Rightarrow> nat \<Rightarrow> nat \<Rightarrow> godson2_cpu \<Rightarrow> godson2_cpu option" where
  "roq_link_idep rs idep_num idep_name st =
     (case (if idep_name = 0 then None else create_vector (pipe st) (spec_level (pipe st)) idep_name) of
        None \<Rightarrow> Some (upd_inst rs (\<lambda>i. i\<lparr>rs_idep_ready := (rs_idep_ready i)(idep_num := True)\<rparr>) st)
      | Some (head_rs, onum) \<Rightarrow>
          let st = upd_inst rs (\<lambda>i. i\<lparr>rs_idep_ready := (rs_idep_ready i)(idep_num := False)\<rparr>) st
          in if rslink_free st = 0 then None
             else let link = \<lparr>link_rs = rs, link_tag = rs_tag (insts st rs), link_when = 0, link_seq = 0,
                              link_opnum = idep_num\<rparr>
                  in Some ((upd_inst head_rs (\<lambda>i. i\<lparr>rs_odep_list := (rs_odep_list i)
                       (onum := link # rs_odep_list i onum)\<rparr>) st)\<lparr>rslink_free := rslink_free st - 1\<rparr>))"

definition roq_install_odep :: "nat \<Rightarrow> nat \<Rightarrow> nat \<Rightarrow> godson2_cpu \<Rightarrow> godson2_cpu" where
  "roq_install_odep rs odep_num odep_name st =
     (let st = upd_inst rs (\<lambda>i. i\<lparr>rs_onames := (rs_onames i)(odep_num := odep_name),
                 rs_odep_list := (rs_odep_list i)(odep_num := [])\<rparr>) st
      in if odep_name = 0 then st
         else upd_pipe (\<lambda>p. p\<lparr>create_vector := (create_vector p)(spec_level p :=
                (create_vector p (spec_level p))(odep_name \<mapsto> (rs, odep_num)))\<rparr>) st)"

text \<open>The \<open>do\<close> loop of \<open>update_create_vector\<close> over the levels, up to the first that names another producer.\<close>

fun clear_creator :: "nat \<times> nat \<Rightarrow> nat \<Rightarrow> nat list \<Rightarrow> pipeline \<Rightarrow> pipeline" where
  "clear_creator c name [] p = p"
| "clear_creator c name (l # ls) p =
     (if create_vector p l name = Some c
      then clear_creator c name ls
             (p\<lparr>create_vector := (create_vector p)(l := (create_vector p l)(name := None))\<rparr>)
      else p)"

definition forget_output :: "nat \<Rightarrow> nat \<Rightarrow> godson2_cpu \<Rightarrow> godson2_cpu" where
  "forget_output rs k st =
     (let i = insts st rs
      in if rs_onames i k \<noteq> 0
         then upd_pipe (\<lambda>p. clear_creator (rs, k) (rs_onames i k)
                (rs_spec_level i # [rs_spec_level i + 1..<spec_level p + 1]) p) st
         else st)"

definition update_create_vector :: "nat \<Rightarrow> godson2_cpu \<Rightarrow> godson2_cpu" where
  "update_create_vector rs st = fold (forget_output rs) [0..<MAX_ODEPS] st"

section \<open>Recovery\<close>

text \<open>The \<open>switch\<close> of \<open>recover_data\<close>: one saved value back to where it came from.\<close>

definition restore_one :: "saved_value \<Rightarrow> pipeline \<Rightarrow> pipeline option" where
  "restore_one v p =
     (let n = save_n v; t = save_t v
      in if t = 0 then if n < 32 then Some (p\<lparr>regs_R := (regs_R p)(n := save_l v)\<rparr>) else None
         else if t = 1 then map_option (\<lambda>(_, _, m). p\<lparr>target_mem := m\<rparr>)
           (mem_access (target_mem p) Write (save_addr v) (word_bytes (save_l v)) 4)
         else if t = 2 then if n < 32 then Some (p\<lparr>regs_F := (regs_F p)(n := save_f v)\<rparr>) else None
         else if t = 3 then if n < 32 then Some (p\<lparr>regs_F := put_double n (save_d v) (regs_F p)\<rparr>) else None
         else if t = 4 then Some (p\<lparr>regs_C := (regs_C p)\<lparr>hi := save_l v\<rparr>\<rparr>)
         else if t = 5 then Some (p\<lparr>regs_C := (regs_C p)\<lparr>lo := save_l v\<rparr>\<rparr>)
         else if t = 6 then Some (p\<lparr>regs_C := (regs_C p)\<lparr>fcc := save_l v\<rparr>\<rparr>)
         else if t = 7 then if n < 32 then Some (p\<lparr>regs_F := (regs_F p)(n := save_l v)\<rparr>) else None
         else None)"

definition recover_data :: "nat \<Rightarrow> godson2_cpu \<Rightarrow> godson2_cpu option" where
  "recover_data rs st =
     (if rs_spec_level (insts st rs) \<noteq> 0 then Some st
      else map_option (\<lambda>p. st\<lparr>pipe := p\<rparr>) (fold_opt restore_one (rs_temp_save (insts st rs)) (pipe st)))"

text \<open>The lists of waiting instructions of \<open>rs\<close> go back to the free links.\<close>

definition free_odeps :: "nat \<Rightarrow> godson2_cpu \<Rightarrow> godson2_cpu" where
  "free_odeps rs st =
     fold (\<lambda>k st. (upd_inst rs (\<lambda>i. i\<lparr>rs_odep_list := (rs_odep_list i)(k := [])\<rparr>) st)
         \<lparr>rslink_free := rslink_free st + length (rs_odep_list (insts st rs) k)\<rparr>) [0..<MAX_ODEPS] st"

definition squash_tag :: "nat \<Rightarrow> godson2_cpu \<Rightarrow> godson2_cpu" where
  "squash_tag rs = upd_inst rs (\<lambda>i. i\<lparr>rs_tag := rs_tag i + 1\<rparr>)"

text \<open>The loops that empty the fetch and the decode queue, \<open>n\<close> entries from position \<open>i\<close>.\<close>

fun squash_fetch :: "nat \<Rightarrow> nat \<Rightarrow> godson2_cpu \<Rightarrow> godson2_cpu" where
  "squash_fetch 0 i st = st"
| "squash_fetch (Suc n) i st =
     (let rs = fetch_data (pipe st) i;
          st = squash_tag rs (fetch_return_to_free_list rs st)
      in squash_fetch n ((i + 1) mod fetch_ifq_size (pipe st))
           (upd_pipe (\<lambda>p. p\<lparr>fetch_num := fetch_num p - 1\<rparr>) st))"

fun squash_decode :: "nat \<Rightarrow> nat \<Rightarrow> godson2_cpu \<Rightarrow> godson2_cpu option" where
  "squash_decode 0 i st = Some st"
| "squash_decode (Suc n) i st =
     (let rs = decode_data (pipe st) i
      in do { st \<leftarrow> recover_data rs (free_odeps rs st);
              let st = fetch_return_to_free_list rs (squash_tag rs st);
              squash_decode n ((i + decode_ifq_size (pipe st) - 1) mod decode_ifq_size (pipe st))
                (upd_pipe (\<lambda>p. p\<lparr>decode_num := decode_num p - 1\<rparr>) st) })"

definition tracer_recover :: "nat \<Rightarrow> md_addr_t \<Rightarrow> godson2_cpu \<Rightarrow> godson2_cpu option" where
  "tracer_recover level recover_pc st =
     (let st = upd_pipe (\<lambda>p. recover_stores level (p\<lparr>spec_level := level\<rparr>)) st;
          st = squash_fetch (nat (fetch_num (pipe st))) (fetch_head (pipe st)) st;
          st = upd_pipe (\<lambda>p. p\<lparr>fetch_tail := 0, fetch_head := 0, fetch_reg_PC := recover_pc\<rparr>) st;
          st = (if irep_state (irepbuf st) = IREP_MISS then st\<lparr>irepbuf := (irepbuf st)\<lparr>irep_state := IREP_EMPTY\<rparr>\<rparr>
                else st);
          size = decode_ifq_size (pipe st)
      in do { st \<leftarrow> squash_decode (nat (decode_num (pipe st))) ((decode_tail (pipe st) + size - 1) mod size) st;
              Some (upd_pipe (\<lambda>p. p\<lparr>decode_tail := 0, decode_head := 0, need_to_correct_pc := False,
                entering_spec := False, last_is_branch := False, is_jump := False\<rparr>) st) })"

section \<open>The architectural state\<close>

text \<open>Registers and memory of the right path as one map from locations to values.\<close>

datatype location = Gpr nat | Fpr nat | HiReg | LoReg | FccReg | MemByte md_addr_t

fun arch :: "pipeline \<Rightarrow> location \<Rightarrow> 32 word" where
  "arch p (Gpr n) = regs_R p n"
| "arch p (Fpr n) = regs_F p n"
| "arch p HiReg = hi (regs_C p)"
| "arch p LoReg = lo (regs_C p)"
| "arch p FccReg = fcc (regs_C p)"
| "arch p (MemByte a) = ucast (mem_byte (target_mem p) a)"

text \<open>The rest of the pipeline state.\<close>

definition no_arch :: "pipeline \<Rightarrow> pipeline" where
  "no_arch p = p\<lparr>regs_R := (\<lambda>_. 0), regs_F := (\<lambda>_. 0), regs_C := \<lparr>hi = 0, lo = 0, fcc = 0\<rparr>, target_mem := mem_create\<rparr>"

lemma no_arch_fields:
  assumes "no_arch p' = no_arch p"
  shows "spec_level p' = spec_level p" "decode_data p' = decode_data p" "decode_ifq_size p' = decode_ifq_size p"
    "decode_num p' = decode_num p" "roq p' = roq p" "roq_ifq_size p' = roq_ifq_size p" "roq_num p' = roq_num p"
    "spec_map p' = spec_map p" "fetch_num p' = fetch_num p" "fetch_reg_PC p' = fetch_reg_PC p"
    "entering_spec p' = entering_spec p" "create_vector p' = create_vector p"
proof -
  have e: "f p' = f p" if "\<And>q. f (no_arch q) = f q" for f :: "pipeline \<Rightarrow> 'a"
    using assms that by metis
  show "spec_level p' = spec_level p" "decode_data p' = decode_data p" "decode_ifq_size p' = decode_ifq_size p"
    "decode_num p' = decode_num p" "roq p' = roq p" "roq_ifq_size p' = roq_ifq_size p" "roq_num p' = roq_num p"
    "fetch_num p' = fetch_num p" "fetch_reg_PC p' = fetch_reg_PC p" "entering_spec p' = entering_spec p"
    "create_vector p' = create_vector p"
    by (rule e, simp add: no_arch_def)+
  show "spec_map p' = spec_map p" by (rule e) (simp add: no_arch_def spec_map_def fun_eq_iff)
qed

text \<open>Where a saved value belongs, and what it writes back.\<close>

definition locs :: "saved_value \<Rightarrow> location set" where
  "locs v = (let t = save_t v; n = save_n v
     in if t = 0 then {Gpr n} else if t = 1 then {MemByte (save_addr v + of_nat i) |i. i < 4}
        else if t = 2 \<or> t = 7 then {Fpr n} else if t = 3 then {Fpr (2 * n), Fpr (2 * n + 1)}
        else if t = 4 then {HiReg} else if t = 5 then {LoReg} else if t = 6 then {FccReg} else {})"

fun saved :: "saved_value \<Rightarrow> location \<Rightarrow> 32 word" where
  "saved v (Gpr n) = save_l v"
| "saved v (Fpr n) = (if save_t v = 2 then save_f v else if save_t v = 3 then
     (if even n then fst (save_d v) else snd (save_d v)) else save_l v)"
| "saved v (MemByte a) = ucast (word_bytes (save_l v) ! unat (a - save_addr v))"
| "saved v _ = save_l v"

definition restored :: "saved_value \<Rightarrow> (location \<Rightarrow> 32 word) \<Rightarrow> location \<Rightarrow> 32 word" where
  "restored v A = override_on A (saved v) (locs v)"

definition save_ok :: "saved_value \<Rightarrow> bool" where
  "save_ok v \<longleftrightarrow> save_t v < 8 \<and> (save_t v \<in> {0, 2, 3, 7} \<longrightarrow> save_n v < 32) \<and>
     (save_t v = 1 \<longrightarrow> save_addr v AND 3 = 0)"

lemma word_bytes_word: "length bs = 4 \<Longrightarrow> word_bytes (bytes_word bs) = bs"
proof -
  assume "length bs = 4"
  then obtain a b c d where bs: "bs = [a, b, c, d]"
    by (auto simp: length_Suc_conv eval_nat_numeral)
  show ?thesis
    unfolding bs word_bytes_def
    by (simp add: upt_rec) (intro conjI bit_word_eqI; auto simp: bit_simps dest: bit_imp_le_length)
qed

lemma length_word_bytes [simp]: "length (word_bytes w) = 4"
  by (simp add: word_bytes_def)

lemma arch_upd [simp]:
  "arch (p\<lparr>regs_R := (regs_R p)(n := v)\<rparr>) = (arch p)(Gpr n := v)"
  "arch (p\<lparr>regs_F := (regs_F p)(n := v)\<rparr>) = (arch p)(Fpr n := v)"
  "arch (p\<lparr>regs_F := put_double n d (regs_F p)\<rparr>) = (arch p)(Fpr (2 * n) := fst d, Fpr (2 * n + 1) := snd d)"
  "arch (p\<lparr>regs_C := (regs_C p)\<lparr>hi := v\<rparr>\<rparr>) = (arch p)(HiReg := v)"
  "arch (p\<lparr>regs_C := (regs_C p)\<lparr>lo := v\<rparr>\<rparr>) = (arch p)(LoReg := v)"
  "arch (p\<lparr>regs_C := (regs_C p)\<lparr>fcc := v\<rparr>\<rparr>) = (arch p)(FccReg := v)"
  by (rule ext, rename_tac x, case_tac x, simp_all add: put_double_def)+

lemma restored_reg:
  "save_t v = 0 \<Longrightarrow> restored v A = A(Gpr (save_n v) := save_l v)"
  "save_t v = 2 \<Longrightarrow> restored v A = A(Fpr (save_n v) := save_f v)"
  "save_t v = 3 \<Longrightarrow> restored v A = A(Fpr (2 * save_n v) := fst (save_d v), Fpr (2 * save_n v + 1) := snd (save_d v))"
  "save_t v = 4 \<Longrightarrow> restored v A = A(HiReg := save_l v)"
  "save_t v = 5 \<Longrightarrow> restored v A = A(LoReg := save_l v)"
  "save_t v = 6 \<Longrightarrow> restored v A = A(FccReg := save_l v)"
  "save_t v = 7 \<Longrightarrow> restored v A = A(Fpr (save_n v) := save_l v)"
  by (auto simp: restored_def locs_def override_on_def fun_eq_iff Let_def)

text \<open>What one restoration does to the architectural state and nothing else.\<close>

lemma put_bytes_word:
  assumes "length bs = 4"
  shows "put_bytes bs a f b = (if \<exists>i<4. b = a + of_nat i then bs ! unat (b - a) else f b)"
proof (cases "\<exists>i<4. b = a + of_nat i")
  case True
  then obtain i where i: "i < 4" "b = a + of_nat i" by blast
  then have "unat (b - a) = i" by (simp add: unat_of_nat take_bit_eq_mod)
  with i assms show ?thesis
    using put_bytes_at [of bs i a f] assms by auto
next
  case False
  then show ?thesis using assms by (auto intro!: put_bytes_other)
qed

lemma restore_one_arch:
  assumes ok: "mem_ok (target_mem p)" and v: "save_ok v"
  shows "\<exists>p'. restore_one v p = Some p' \<and> mem_ok (target_mem p') \<and> arch p' = restored v (arch p) \<and>
    no_arch p' = no_arch p"
proof (cases "save_t v = 1")
  case True
  have al: "save_addr v AND word_of_int (4 - 1) = 0" using v True by (simp add: save_ok_def)
  from mem_access_Write [OF ok _ _ al, of "word_bytes (save_l v)"] obtain m where
    m: "mem_access (target_mem p) Write (save_addr v) (word_bytes (save_l v)) 4 =
        Some (md_fault_none, word_bytes (save_l v), m)" "mem_ok m"
      "mem_byte m = put_bytes (take (nat 4) (word_bytes (save_l v))) (save_addr v) (mem_byte (target_mem p))"
    by auto
  have "arch (p\<lparr>target_mem := m\<rparr>) x = restored v (arch p) x" for x
    using True by (cases x) (auto simp: restored_def locs_def override_on_def m(3) put_bytes_word)
  then show ?thesis using True m by (auto simp: restore_one_def no_arch_def)
next
  case False
  have t: "save_t v \<in> {0, 2, 3, 4, 5, 6, 7}" and n: "save_t v \<in> {0, 2, 3, 7} \<Longrightarrow> save_n v < 32"
    using v False by (auto simp: save_ok_def)
  show ?thesis
    using t n ok by (elim insertE emptyE) (simp_all add: restore_one_def restored_reg Let_def no_arch_def)
qed

section \<open>The writes of an instruction\<close>

text \<open>The state changes an instruction of mips.def is composed of.\<close>

datatype reg_write =
    W_GPR nat "32 word" | W_FPR nat "32 word" | W_FPR_D nat "32 word \<times> 32 word"
  | W_HI "32 word" | W_LO "32 word" | W_FCC "32 word" | W_MEM md_addr_t "8 word list"

fun perform :: "reg_write \<Rightarrow> nat \<Rightarrow> godson2_cpu \<Rightarrow> godson2_cpu option" where
  "perform (W_GPR n v) = SET_GPR n v"
| "perform (W_FPR n v) = SET_FPR_L n v"
| "perform (W_FPR_D n v) = SET_FPR_D n v"
| "perform (W_HI v) = SET_HI v"
| "perform (W_LO v) = SET_LO v"
| "perform (W_FCC v) = SET_FCC v"
| "perform (W_MEM a bs) = (\<lambda>rs st. map_option snd (WRITE_SPECMEM a bs rs st))"

text \<open>Locations a write may change; a store counts for its whole word.\<close>

fun write_locs :: "reg_write \<Rightarrow> location set" where
  "write_locs (W_GPR n v) = {Gpr n}"
| "write_locs (W_FPR n v) = {Fpr n}"
| "write_locs (W_FPR_D n v) = {Fpr (2 * (n div 2)), Fpr (2 * (n div 2) + 1)}"
| "write_locs (W_HI v) = {HiReg}"
| "write_locs (W_LO v) = {LoReg}"
| "write_locs (W_FCC v) = {FccReg}"
| "write_locs (W_MEM a bs) = {MemByte ((a AND NOT 3) + of_nat i) |i. i < 4}"

fun write_ok :: "reg_write \<Rightarrow> bool" where
  "write_ok (W_GPR n v) = (n < 32)"
| "write_ok (W_FPR n v) = (n < 32)"
| "write_ok (W_FPR_D n v) = (n < 32)"
| "write_ok (W_MEM a bs) = (length bs \<in> {1, 2, 4})"
| "write_ok _ = True"

lemma word_part:
  fixes a :: "32 word"
  assumes "a AND word_of_int (int n - 1) = 0" "n \<in> {1, 2, 4}" "i < n"
  shows "\<exists>j<4. a + of_nat i = (a AND NOT 3) + of_nat j"
proof -
  have split: "a = (a AND NOT 3) + (a AND 3)"
  proof -
    have "(a AND NOT 3) + (a AND 3) = (a AND NOT 3) OR (a AND 3)"
      by (rule disjunctive_add) (simp add: bit_simps)
    also have "\<dots> = a" by (rule bit_word_eqI) (auto simp: bit_simps)
    finally show ?thesis by simp
  qed
  define r where "r = unat (a AND 3)"
  have m: "(3 :: 32 word) = mask 2" by (simp add: mask_eq_decr_exp)
  have r: "r = unat a mod 4"
    by (simp only: r_def m take_bit_eq_mask [symmetric] unsigned_take_bit_eq) (simp add: take_bit_eq_mod)
  have "r + i < 4"
  proof -
    have "n = 1 \<or> n = 2 \<and> unat a mod 2 = 0 \<or> n = 4 \<and> unat a mod 4 = 0"
    proof -
      have "unat a mod 2 = 0" if "a AND 1 = 0"
        using arg_cong [OF that, of unat] by (simp add: and_one_eq unat_mod)
      moreover have "unat a mod 4 = 0" if "a AND 3 = 0"
        using that r r_def by simp
      ultimately show ?thesis using assms(1,2) by auto
    qed
    then show ?thesis using assms(3) r by presburger
  qed
  moreover have "a + of_nat i = (a AND NOT 3) + of_nat (r + i)"
    by (subst split) (simp add: r_def)
  ultimately show ?thesis by blast
qed

text \<open>One write on the right path leaves a saved value that undoes it.\<close>

definition logged :: "nat \<Rightarrow> godson2_cpu \<Rightarrow> godson2_cpu \<Rightarrow> saved_value \<Rightarrow> bool" where
  "logged rs st st' v \<longleftrightarrow> save_ok v \<and>
     insts st' = (insts st)(rs := (insts st rs)\<lparr>rs_temp_save := rs_temp_save (insts st rs) @ [v]\<rparr>) \<and>
     restored v (arch (pipe st')) = arch (pipe st) \<and> mem_ok (target_mem (pipe st')) \<and>
     spec_level (pipe st') = spec_level (pipe st)"

lemma save_and_set_logged:
  assumes "spec_level (pipe st) = 0" "mem_ok (target_mem (pipe st))"
    and run: "save_and_set old put puts rs st = Some st'"
    and keep: "target_mem (put (pipe st)) = target_mem (pipe st)" "spec_level (put (pipe st)) = spec_level (pipe st)"
    and old: "save_ok (old (pipe st))" "restored (old (pipe st)) (arch (put (pipe st))) = arch (pipe st)"
  shows "logged rs st st' (old (pipe st))"
  using assms by (auto simp: save_and_set_def Let_def SAVE_OLD_def upd_pipe_def upd_inst_def logged_def split: if_splits)

lemma fun_upd_self: "f(x := a, x := f x) = f" "f(x := a, y := b, x := f x, y := f y) = f"
  by auto

lemma store_logged:
  assumes lev: "spec_level (pipe st) = 0" and ok: "mem_ok (target_mem (pipe st))" and bs: "length bs \<in> {1, 2, 4}"
    and run: "WRITE_SPECMEM a bs rs st = Some (f, st')"
  shows "\<exists>v. locs v = write_locs (W_MEM a bs) \<and> logged rs st st' v"
proof -
  let ?p = "pipe st" and ?base = "a AND NOT 3"
  let ?old = "bytes_at (mem_byte (target_mem ?p)) ?base 4"
  let ?v = "no_save\<lparr>save_t := 1, save_addr := ?base, save_l := bytes_word ?old\<rparr>"
  have al: "?base AND word_of_int (4 - 1) = 0" by (rule bit_word_eqI) (auto simp: bit_simps)
  from mem_access_Read [OF ok _ _ al, of "[0, 0, 0, 0]"] obtain m where
    m: "mem_access (target_mem ?p) Read ?base [0, 0, 0, 0] 4 = Some (md_fault_none, ?old, m)"
      "mem_ok m" "mem_byte m = mem_byte (target_mem ?p)" by auto
  from run lev m(1) obtain q m' st1 where
    st1: "SAVE_OLD ?v rs st = Some st1" and w: "mem_access m Write a bs (int (length bs)) = Some (f, q, m')"
    and st': "st' = upd_pipe (\<lambda>p. p\<lparr>target_mem := m'\<rparr>) st1"
    by (auto simp: WRITE_SPECMEM_def Let_def split: if_splits bind_splits)
  from st1 have i: "st1 = upd_inst rs (\<lambda>i. i\<lparr>rs_temp_save := rs_temp_save i @ [?v]\<rparr>) st"
    by (simp add: SAVE_OLD_def split: if_splits)
  have other: "mem_byte m' b = mem_byte m b" if "b \<notin> {?base + of_nat j |j. j < 4}" for b
  proof (cases "f = md_fault_none")
    case False
    then show ?thesis using mem_access_ok(4) [OF m(2) w] by simp
  next
    case True
    then have aligned: "a AND word_of_int (int (length bs) - 1) = 0"
      using w by (auto simp: mem_access_def split: if_splits)
    from mem_access_Write [OF m(2) _ _ aligned, of bs] bs w
    have "mem_byte m' = put_bytes bs a (mem_byte m)" by auto
    moreover have "b \<noteq> a + of_nat i" if "i < length bs" for i
      using word_part [OF aligned bs that] \<open>b \<notin> _\<close> by auto
    ultimately show ?thesis by (simp add: put_bytes_other)
  qed
  have "restored ?v (arch (pipe st')) x = arch (pipe st) x" for x
  proof (cases x)
    case (MemByte b)
    show ?thesis
    proof (cases "b \<in> {?base + of_nat j |j. j < 4}")
      case True
      then obtain j where j: "j < 4" "b = ?base + of_nat j" by blast
      then have "unat (b - ?base) = j" by (simp add: unat_of_nat take_bit_eq_mod)
      then have "saved ?v x = arch (pipe st) x"
        using j MemByte by (simp add: word_bytes_word bytes_at_def)
      moreover have "x \<in> locs ?v" using MemByte True by (simp add: locs_def no_save_def)
      ultimately show ?thesis by (simp add: restored_def override_on_def)
    next
      case False
      then have "x \<notin> locs ?v" using MemByte by (simp add: locs_def no_save_def)
      then show ?thesis
        using MemByte other [OF False] m(3) by (simp add: restored_def st' i upd_pipe_def upd_inst_def)
    qed
  qed (auto simp: restored_def override_on_def locs_def no_save_def st' i upd_pipe_def upd_inst_def)
  moreover have "save_ok ?v" using al by (simp add: save_ok_def no_save_def)
  moreover have "mem_ok m'" by (rule mem_access_ok(1) [OF m(2) w])
  ultimately have "logged rs st st' ?v"
    by (auto simp: logged_def st' i upd_pipe_def upd_inst_def)
  moreover have "locs ?v = write_locs (W_MEM a bs)" by (simp add: locs_def no_save_def)
  ultimately show ?thesis by blast
qed

lemma write_logged:
  assumes "spec_level (pipe st) = 0" "mem_ok (target_mem (pipe st))" "write_ok w"
    and run: "perform w rs st = Some st'"
  shows "\<exists>v. locs v = write_locs w \<and> logged rs st st' v"
proof (cases w)
  case (W_MEM a bs)
  then show ?thesis using assms store_logged by fastforce
next
  case (W_GPR n v)
  let ?v = "no_save\<lparr>save_t := 0, save_n := n, save_l := regs_R (pipe st) n\<rparr>"
  have "logged rs st st' ?v"
    by (rule save_and_set_logged [OF assms(1,2) run [unfolded W_GPR perform.simps SET_GPR_def]])
      (use assms(3) W_GPR in \<open>auto simp: save_ok_def restored_reg no_save_def fun_upd_self fun_eq_iff\<close>)
  moreover have "locs ?v = write_locs w" by (simp add: W_GPR locs_def no_save_def)
  ultimately show ?thesis by blast
next
  case (W_FPR n v)
  let ?v = "no_save\<lparr>save_t := 2, save_n := n, save_f := regs_F (pipe st) n\<rparr>"
  have "logged rs st st' ?v"
    by (rule save_and_set_logged [OF assms(1,2) run [unfolded W_FPR perform.simps SET_FPR_L_def]])
      (use assms(3) W_FPR in \<open>auto simp: save_ok_def restored_reg no_save_def fun_upd_self fun_eq_iff\<close>)
  moreover have "locs ?v = write_locs w" by (simp add: W_FPR locs_def no_save_def)
  ultimately show ?thesis by blast
next
  case (W_FPR_D n v)
  let ?v = "no_save\<lparr>save_t := 3, save_n := n div 2,
      save_d := (regs_F (pipe st) (2 * (n div 2)), regs_F (pipe st) (2 * (n div 2) + 1))\<rparr>"
  have "logged rs st st' ?v"
    by (rule save_and_set_logged [OF assms(1,2) run [unfolded W_FPR_D perform.simps SET_FPR_D_def Let_def]])
      (use assms(3) W_FPR_D in \<open>auto simp: save_ok_def restored_reg no_save_def fun_upd_self fun_eq_iff\<close>)
  moreover have "locs ?v = write_locs w" by (simp add: W_FPR_D locs_def no_save_def Let_def)
  ultimately show ?thesis by blast
next
  case (W_HI v)
  let ?v = "no_save\<lparr>save_t := 4, save_l := hi (regs_C (pipe st))\<rparr>"
  have "logged rs st st' ?v"
    by (rule save_and_set_logged [OF assms(1,2) run [unfolded W_HI perform.simps SET_HI_def]])
      (use assms(3) W_HI in \<open>auto simp: save_ok_def restored_reg no_save_def fun_upd_self fun_eq_iff\<close>)
  moreover have "locs ?v = write_locs w" by (simp add: W_HI locs_def no_save_def)
  ultimately show ?thesis by blast
next
  case (W_LO v)
  let ?v = "no_save\<lparr>save_t := 5, save_l := lo (regs_C (pipe st))\<rparr>"
  have "logged rs st st' ?v"
    by (rule save_and_set_logged [OF assms(1,2) run [unfolded W_LO perform.simps SET_LO_def]])
      (use assms(3) W_LO in \<open>auto simp: save_ok_def restored_reg no_save_def fun_upd_self fun_eq_iff\<close>)
  moreover have "locs ?v = write_locs w" by (simp add: W_LO locs_def no_save_def)
  ultimately show ?thesis by blast
next
  case (W_FCC v)
  let ?v = "no_save\<lparr>save_t := 6, save_l := fcc (regs_C (pipe st))\<rparr>"
  have "logged rs st st' ?v"
    by (rule save_and_set_logged [OF assms(1,2) run [unfolded W_FCC perform.simps SET_FCC_def]])
      (use assms(3) W_FCC in \<open>auto simp: save_ok_def restored_reg no_save_def fun_upd_self fun_eq_iff\<close>)
  moreover have "locs ?v = write_locs w" by (simp add: W_FCC locs_def no_save_def)
  ultimately show ?thesis by blast
qed

lemma write_defined:
  assumes "spec_level (pipe st) = 0" "mem_ok (target_mem (pipe st))" "length (rs_temp_save (insts st rs)) < 3"
  shows "\<exists>st'. perform w rs st = Some st'"
proof (cases w)
  case (W_MEM a bs)
  let ?base = "a AND NOT 3"
  have al: "?base AND word_of_int (4 - 1) = 0" by (rule bit_word_eqI) (auto simp: bit_simps)
  from mem_access_Read [OF assms(2) _ _ al, of "[0, 0, 0, 0]"] obtain w m where
    m: "mem_access (target_mem (pipe st)) Read ?base [0, 0, 0, 0] 4 = Some (md_fault_none, w, m)" "mem_ok m" by auto
  from mem_access_defined [OF m(2), of "int (length bs)" bs Write a] obtain r where
    "mem_access m Write a bs (int (length bs)) = Some r" by auto
  with m(1) assms W_MEM show ?thesis
    by (cases r) (simp add: WRITE_SPECMEM_def SAVE_OLD_def Let_def)
qed (use assms in \<open>simp_all add: SET_GPR_def SET_FPR_L_def SET_FPR_D_def SET_HI_def SET_LO_def SET_FCC_def
  save_and_set_def SAVE_OLD_def Let_def\<close>)

text \<open>A sequence of writes, and its undoing from the first saved value to the last. The order matters as
  soon as two writes hit the same location.\<close>

definition perform_all :: "reg_write list \<Rightarrow> nat \<Rightarrow> godson2_cpu \<Rightarrow> godson2_cpu option" where
  "perform_all ws rs = fold_opt (\<lambda>w. perform w rs) ws"

definition disjoint_writes :: "reg_write list \<Rightarrow> bool" where
  "disjoint_writes ws \<longleftrightarrow>
     (\<forall>i<length ws. \<forall>j<length ws. i \<noteq> j \<longrightarrow> write_locs (ws ! i) \<inter> write_locs (ws ! j) = {})"

lemma writes_logged:
  assumes "spec_level (pipe st) = 0" "mem_ok (target_mem (pipe st))" "list_all write_ok ws"
    and "perform_all ws rs st = Some st'"
  shows "\<exists>vs. map locs vs = map write_locs ws \<and> list_all save_ok vs \<and>
    insts st' = (insts st)(rs := (insts st rs)\<lparr>rs_temp_save := rs_temp_save (insts st rs) @ vs\<rparr>) \<and>
    foldr restored vs (arch (pipe st')) = arch (pipe st) \<and> mem_ok (target_mem (pipe st')) \<and>
    spec_level (pipe st') = 0"
  using assms
proof (induction ws arbitrary: st)
  case Nil
  then show ?case by (intro exI [of _ "[]"]) (simp add: perform_all_def)
next
  case (Cons w ws)
  from Cons.prems(4) obtain s1 where s1: "perform w rs st = Some s1" "perform_all ws rs s1 = Some st'"
    by (auto simp: perform_all_def split: option.splits)
  from write_logged [OF Cons.prems(1,2) _ s1(1)] Cons.prems(3) obtain v where
    v: "locs v = write_locs w" "logged rs st s1 v" by auto
  note l = v(2) [unfolded logged_def]
  have "spec_level (pipe s1) = 0" "mem_ok (target_mem (pipe s1))" "list_all write_ok ws"
    using l Cons.prems by simp_all
  from Cons.IH [OF this s1(2)] obtain vs where
    vs: "map locs vs = map write_locs ws" "list_all save_ok vs"
      "insts st' = (insts s1)(rs := (insts s1 rs)\<lparr>rs_temp_save := rs_temp_save (insts s1 rs) @ vs\<rparr>)"
      "foldr restored vs (arch (pipe st')) = arch (pipe s1)" "mem_ok (target_mem (pipe st'))"
      "spec_level (pipe st') = 0" by blast
  from l have "insts s1 = (insts st)(rs := (insts st rs)\<lparr>rs_temp_save := rs_temp_save (insts st rs) @ [v]\<rparr>)"
    by blast
  with vs(3) have "insts st' = (insts st)(rs := (insts st rs)\<lparr>rs_temp_save := rs_temp_save (insts st rs) @ v # vs\<rparr>)"
    by simp
  then show ?case using v(1) vs l by (intro exI [of _ "v # vs"]) (simp del: fun_upd_apply)
qed

lemma restored_commute: "locs u \<inter> locs v = {} \<Longrightarrow> restored u \<circ> restored v = restored v \<circ> restored u"
  by (auto simp: fun_eq_iff restored_def override_on_def)

lemma fold_restored:
  assumes "map locs vs = map write_locs ws" "disjoint_writes ws"
  shows "fold restored vs = foldr restored vs"
proof (rule foldr_fold [symmetric])
  fix u v assume "u \<in> set vs" "v \<in> set vs"
  then obtain i j where ij: "i < length vs" "j < length vs" "u = vs ! i" "v = vs ! j"
    by (auto simp: in_set_conv_nth)
  show "restored v \<circ> restored u = restored u \<circ> restored v"
  proof (cases "i = j")
    case False
    have "locs (vs ! k) = write_locs (ws ! k)" if "k < length vs" for k
      using that assms(1) by (metis length_map nth_map)
    moreover have "length vs = length ws" using assms(1) by (metis length_map)
    ultimately have "locs v \<inter> locs u = {}"
      using False ij assms(2) by (simp add: disjoint_writes_def)
    then show ?thesis by (rule restored_commute)
  qed (use ij in simp)
qed

text \<open>What \<open>recover_data\<close> does to the architectural state, whatever was saved.\<close>

definition undo_inst :: "inst_descript \<Rightarrow> (location \<Rightarrow> 32 word) \<Rightarrow> location \<Rightarrow> 32 word" where
  "undo_inst i A = (if rs_spec_level i \<noteq> 0 then A else fold restored (rs_temp_save i) A)"

lemma restore_fold:
  assumes "mem_ok (target_mem p)" "list_all save_ok vs"
  shows "\<exists>p'. fold_opt restore_one vs p = Some p' \<and> mem_ok (target_mem p') \<and>
    arch p' = fold restored vs (arch p) \<and>
    no_arch p' = no_arch p"
  using assms
proof (induction vs arbitrary: p)
  case (Cons v vs)
  from restore_one_arch [of p v] Cons.prems obtain q where
    q: "restore_one v p = Some q" "mem_ok (target_mem q)" "arch q = restored v (arch p)"
      "no_arch q = no_arch p" by auto
  from Cons.IH [OF q(2)] Cons.prems obtain r where
    r: "fold_opt restore_one vs q = Some r" "mem_ok (target_mem r)" "arch r = fold restored vs (arch q)"
      "no_arch r = no_arch q" by auto
  then show ?case using q by simp
qed simp

text \<open>Recovery of one instruction.\<close>

definition savings_ok :: "(nat \<Rightarrow> inst_descript) \<Rightarrow> nat \<Rightarrow> bool" where
  "savings_ok I rs \<longleftrightarrow> list_all save_ok (rs_temp_save (I rs))"

lemma recover_data_arch:
  assumes ok: "mem_ok (target_mem (pipe st))" and s: "savings_ok (insts st) rs"
  shows "\<exists>p'. recover_data rs st = Some (st\<lparr>pipe := p'\<rparr>) \<and> mem_ok (target_mem p') \<and>
    arch p' = undo_inst (insts st rs) (arch (pipe st)) \<and>
    no_arch p' = no_arch (pipe st)"
proof (cases "rs_spec_level (insts st rs) = 0")
  case True
  with restore_fold [OF ok, of "rs_temp_save (insts st rs)"] s show ?thesis
    by (auto simp: recover_data_def savings_ok_def undo_inst_def)
next
  case False
  then have "recover_data rs st = Some (st\<lparr>pipe := pipe st\<rparr>)" by (simp add: recover_data_def)
  with False ok show ?thesis by (intro exI [of _ "pipe st"]) (simp add: undo_inst_def)
qed

text \<open>\<open>recover_data\<close> undoes an instruction of the right path: after any writes to different locations it
  runs without a failed assertion and every register and every byte of memory has its old value again.\<close>

theorem recover_data_undoes:
  assumes right: "spec_level (pipe st) = 0" "rs_spec_level (insts st rs) = 0" and ok: "mem_ok (target_mem (pipe st))"
    and start: "rs_temp_save (insts st rs) = []" and ws: "list_all write_ok ws" "disjoint_writes ws"
    and run: "perform_all ws rs st = Some st1"
  shows "\<exists>st2. recover_data rs st1 = Some st2 \<and> arch (pipe st2) = arch (pipe st)"
proof -
  from writes_logged [OF right(1) ok ws(1) run] obtain vs where
    vs: "map locs vs = map write_locs ws" "list_all save_ok vs"
      "insts st1 = (insts st)(rs := (insts st rs)\<lparr>rs_temp_save := rs_temp_save (insts st rs) @ vs\<rparr>)"
      "foldr restored vs (arch (pipe st1)) = arch (pipe st)" "mem_ok (target_mem (pipe st1))" by blast
  have "savings_ok (insts st1) rs" using vs(2,3) start by (simp add: savings_ok_def)
  from recover_data_arch [OF vs(5) this] fold_restored [OF vs(1) ws(2)] vs(3,4) right(2) start show ?thesis
    by (auto simp: undo_inst_def)
qed

lemma writes_defined:
  assumes "spec_level (pipe st) = 0" "mem_ok (target_mem (pipe st))" "list_all write_ok ws"
    and "length (rs_temp_save (insts st rs)) + length ws \<le> 3"
  shows "\<exists>st'. perform_all ws rs st = Some st'"
  using assms
proof (induction ws arbitrary: st)
  case (Cons w ws)
  then obtain s1 where s1: "perform w rs st = Some s1" using write_defined [of st rs w] by auto
  from write_logged [OF Cons.prems(1,2) _ s1] Cons.prems(3) obtain v where "logged rs st s1 v" by auto
  then have "\<exists>st'. perform_all ws rs s1 = Some st'"
    using Cons.prems by (intro Cons.IH) (auto simp: logged_def)
  then show ?case using s1 by (simp add: perform_all_def)
qed (simp add: perform_all_def)

theorem recover_data_undoes_witness:
  "\<exists>st1 st2. perform_all [W_GPR 4 7, W_MEM 0x10000002 [0xAA, 0xBB]] 3 (blank_cpu 0 0) = Some st1 \<and>
     recover_data 3 st1 = Some st2 \<and> arch (pipe st2) = arch (pipe (blank_cpu 0 0))"
proof -
  let ?st = "blank_cpu 0 0" and ?ws = "[W_GPR 4 7, W_MEM 0x10000002 [0xAA, 0xBB]]"
  have b: "spec_level (pipe ?st) = 0" "rs_spec_level (insts ?st 3) = 0" "target_mem (pipe ?st) = mem_create"
    "rs_temp_save (insts ?st 3) = []"
    by (simp_all add: blank_cpu_def blank_pipe_def blank_inst_def)
  have ok: "mem_ok (target_mem (pipe ?st))" by (simp add: b mem_ok_create)
  have d: "disjoint_writes ?ws" by (auto simp: disjoint_writes_def less_Suc_eq)
  have w: "list_all write_ok ?ws" by simp
  from writes_defined [OF b(1) ok w, of 3] b(4) obtain st1 where run: "perform_all ?ws 3 ?st = Some st1" by auto
  from recover_data_undoes [OF b(1,2) ok b(4) w d run] run show ?thesis by blast
qed

section \<open>Squashing the front end\<close>

text \<open>What squashing leaves alone: of an instruction everything but its tag and its lists, of a core
  everything but the instructions, the free lists, the instruction refill buffer and the pipeline.\<close>

definition core_inst :: "inst_descript \<Rightarrow> inst_descript" where
  "core_inst i = i\<lparr>rs_tag := 0, rs_odep_list := (\<lambda>_. [])\<rparr>"

definition core_rest :: "godson2_cpu \<Rightarrow> godson2_cpu" where
  "core_rest st = st\<lparr>insts := (\<lambda>_. blank_inst), fetch_inst_free := [], rslink_free := 0,
     irepbuf := (irepbuf st)\<lparr>irep_state := IREP_EMPTY\<rparr>, pipe := blank_pipe\<rparr>"

definition only_freed :: "godson2_cpu \<Rightarrow> godson2_cpu \<Rightarrow> bool" where
  "only_freed st st' \<longleftrightarrow> (\<forall>rs. core_inst (insts st' rs) = core_inst (insts st rs)) \<and> core_rest st' = core_rest st"

lemma only_freed_refl [simp]: "only_freed st st"
  by (simp add: only_freed_def)

lemma only_freed_trans: "only_freed a b \<Longrightarrow> only_freed b c \<Longrightarrow> only_freed a c"
  by (simp add: only_freed_def)

lemma core_inst_fields:
  assumes "core_inst i = core_inst j"
  shows "rs_temp_save i = rs_temp_save j" "rs_spec_level i = rs_spec_level j" "undo_inst i = undo_inst j"
proof -
  have "f (core_inst i) = f (core_inst j)" for f :: "inst_descript \<Rightarrow> 'a" using assms by simp
  from this [of rs_temp_save] this [of rs_spec_level]
  show "rs_temp_save i = rs_temp_save j" "rs_spec_level i = rs_spec_level j" by (simp_all add: core_inst_def)
  then show "undo_inst i = undo_inst j" by (simp add: undo_inst_def fun_eq_iff)
qed

lemma only_freed_log:
  assumes "only_freed st st'"
  shows "undo_inst (insts st' rs) = undo_inst (insts st rs)" "savings_ok (insts st') rs = savings_ok (insts st) rs"
  using assms core_inst_fields [of "insts st' rs" "insts st rs"] by (auto simp: only_freed_def savings_ok_def)

lemma only_freed_ops:
  "only_freed st (upd_pipe f st)" "only_freed st (st\<lparr>pipe := p\<rparr>)" "only_freed st (squash_tag rs st)"
  "only_freed st (fetch_return_to_free_list rs st)" "only_freed st (free_odeps rs st)"
  by (auto simp: only_freed_def upd_pipe_def squash_tag_def upd_inst_def fetch_return_to_free_list_def
    free_odeps_def MAX_ODEPS_def core_inst_def core_rest_def upt_rec)

lemma pipe_ops [simp]:
  "pipe (upd_pipe f st) = f (pipe st)" "pipe (squash_tag rs st) = pipe st" "pipe (upd_inst rs g st) = pipe st"
  "pipe (fetch_return_to_free_list rs st) = pipe st" "pipe (free_odeps rs st) = pipe st"
  by (simp_all add: upd_pipe_def squash_tag_def upd_inst_def fetch_return_to_free_list_def free_odeps_def
    MAX_ODEPS_def upt_rec)

lemma free_list_ops [simp]:
  "fetch_inst_free (upd_pipe f st) = fetch_inst_free st" "fetch_inst_free (squash_tag rs st) = fetch_inst_free st"
  "fetch_inst_free (fetch_return_to_free_list rs st) = fetch_inst_free st @ [rs]"
  "fetch_inst_free (free_odeps rs st) = fetch_inst_free st"
  by (simp_all add: upd_pipe_def squash_tag_def upd_inst_def fetch_return_to_free_list_def free_odeps_def
    MAX_ODEPS_def upt_rec)

text \<open>The entries of a ring, oldest first, and the positions a scan from the tail visits.\<close>

definition ring_slots :: "nat \<Rightarrow> nat \<Rightarrow> nat \<Rightarrow> nat list" where
  "ring_slots m h n = map (\<lambda>k. (h + k) mod m) [0..<n]"

fun back_slots :: "nat \<Rightarrow> nat \<Rightarrow> nat \<Rightarrow> nat list" where
  "back_slots m 0 i = []"
| "back_slots m (Suc n) i = i # back_slots m n ((i + m - 1) mod m)"

lemma ring_slots_Suc: "ring_slots m h (Suc n) = ring_slots m h n @ [(h + n) mod m]"
  by (simp add: ring_slots_def)

lemma ring_slots_head: "ring_slots m h (Suc n) = h mod m # ring_slots m (h + 1) n"
  by (simp add: ring_slots_def map_upt_Suc del: upt_Suc)

lemma ring_slots_mod: "ring_slots m (h mod m) n = ring_slots m h n"
  by (simp add: ring_slots_def mod_simps)

lemma mod_back: "0 < m \<Longrightarrow> ((h + 1) mod m + m - 1) mod m = h mod (m :: nat)"
  by (cases "(h + 1) mod m") (auto simp: mod_Suc split: if_splits)

lemma back_ring:
  "0 < m \<Longrightarrow> back_slots m n (((h + n) mod m + m - 1) mod m) = rev (ring_slots m h n)"
proof (induction n)
  case (Suc n)
  have "((h + Suc n) mod m + m - 1) mod m = (h + n) mod m"
    using mod_back [OF Suc.prems, of "h + n"] by simp
  with Suc show ?case by (simp add: ring_slots_Suc)
qed (simp add: ring_slots_def)

definition fetch_list :: "pipeline \<Rightarrow> nat list" where
  "fetch_list p = map (fetch_data p) (ring_slots (fetch_ifq_size p) (fetch_head p) (nat (fetch_num p)))"

definition decode_list :: "pipeline \<Rightarrow> nat list" where
  "decode_list p = map (decode_data p) (ring_slots (decode_ifq_size p) (decode_head p) (nat (decode_num p)))"

text \<open>The shape of the two queues.\<close>

definition front_ok :: "pipeline \<Rightarrow> bool" where
  "front_ok p \<longleftrightarrow> 0 < fetch_ifq_size p \<and> 0 < decode_ifq_size p \<and> 0 \<le> fetch_num p \<and> 0 \<le> decode_num p \<and>
     fetch_head p < fetch_ifq_size p \<and>
     decode_tail p = (decode_head p + nat (decode_num p)) mod decode_ifq_size p"

lemma squash_fetch_effect:
  assumes "0 < fetch_ifq_size (pipe st)" "i < fetch_ifq_size (pipe st)"
  shows "only_freed st (squash_fetch n i st) \<and>
    pipe (squash_fetch n i st) = (pipe st)\<lparr>fetch_num := fetch_num (pipe st) - int n\<rparr> \<and>
    fetch_inst_free (squash_fetch n i st) =
      fetch_inst_free st @ map (fetch_data (pipe st)) (ring_slots (fetch_ifq_size (pipe st)) i n)"
  using assms
proof (induction n arbitrary: i st)
  case 0
  then show ?case by (simp add: ring_slots_def)
next
  case (Suc n)
  let ?rs = "fetch_data (pipe st) i"
  let ?s = "upd_pipe (\<lambda>p. p\<lparr>fetch_num := fetch_num p - 1\<rparr>) (squash_tag ?rs (fetch_return_to_free_list ?rs st))"
  have f: "only_freed st ?s"
    by (meson only_freed_ops only_freed_trans)
  have step: "squash_fetch (Suc n) i st = squash_fetch n ((i + 1) mod fetch_ifq_size (pipe st)) ?s"
    by (simp add: Let_def)
  have "ring_slots k i (Suc n) = i # ring_slots k ((i + 1) mod k) n" if "i < k" for k
    using that by (simp only: ring_slots_head ring_slots_mod mod_less)
  then show ?case
    using Suc.IH [of ?s "(i + 1) mod fetch_ifq_size (pipe st)"] Suc.prems f unfolding step
    by (auto intro: only_freed_trans)
qed

lemma no_arch_decode_num: "no_arch (p\<lparr>decode_num := x\<rparr>) = (no_arch p)\<lparr>decode_num := x\<rparr>"
  by (simp add: no_arch_def)

lemma squash_decode_effect:
  assumes "mem_ok (target_mem (pipe st))" "\<forall>j\<in>set (back_slots (decode_ifq_size (pipe st)) n i).
      savings_ok (insts st) (decode_data (pipe st) j)"
  shows "\<exists>st'. squash_decode n i st = Some st' \<and> only_freed st st' \<and> mem_ok (target_mem (pipe st')) \<and>
    arch (pipe st') = fold (\<lambda>rs. undo_inst (insts st rs))
      (map (decode_data (pipe st)) (back_slots (decode_ifq_size (pipe st)) n i)) (arch (pipe st)) \<and>
    no_arch (pipe st') = (no_arch (pipe st))\<lparr>decode_num := decode_num (pipe st) - int n\<rparr> \<and>
    fetch_inst_free st' = fetch_inst_free st @ map (decode_data (pipe st)) (back_slots (decode_ifq_size (pipe st)) n i)"
  using assms
proof (induction n arbitrary: i st)
  case 0
  then show ?case by (simp add: no_arch_def)
next
  case (Suc n)
  let ?m = "decode_ifq_size (pipe st)" and ?rs = "decode_data (pipe st) i"
  let ?f = "free_odeps ?rs st"
  have f: "only_freed st ?f" by (rule only_freed_ops)
  have "savings_ok (insts ?f) ?rs" using Suc.prems(2) only_freed_log(2) [OF f] by simp
  from recover_data_arch [of ?f, OF _ this] Suc.prems(1) obtain p' where
    p': "recover_data ?rs ?f = Some (?f\<lparr>pipe := p'\<rparr>)" "mem_ok (target_mem p')"
      "arch p' = undo_inst (insts st ?rs) (arch (pipe st))"
      "no_arch p' = no_arch (pipe st)"
    using only_freed_log(1) [OF f] by auto
  let ?s = "upd_pipe (\<lambda>p. p\<lparr>decode_num := decode_num p - 1\<rparr>)
    (fetch_return_to_free_list ?rs (squash_tag ?rs (?f\<lparr>pipe := p'\<rparr>)))"
  have fs: "only_freed st ?s"
    using f only_freed_ops by (meson only_freed_trans)
  note nf = no_arch_fields [OF p'(4)]
  have step: "squash_decode (Suc n) i st = squash_decode n ((i + ?m - 1) mod ?m) ?s"
    using p'(1) by (simp add: nf Let_def)
  have "no_arch (pipe ?s) = (no_arch (pipe st))\<lparr>decode_num := decode_num (pipe st) - 1\<rparr>"
    by (simp add: no_arch_decode_num p'(4) nf(4))
  moreover have "arch (pipe ?s) = arch p'"
  proof
    fix x show "arch (pipe ?s) x = arch p' x" by (cases x) simp_all
  qed
  ultimately have s: "no_arch (pipe ?s) = (no_arch (pipe st))\<lparr>decode_num := decode_num (pipe st) - 1\<rparr>"
    "arch (pipe ?s) = undo_inst (insts st ?rs) (arch (pipe st))" using p'(3) by simp_all
  have keep: "decode_ifq_size (pipe ?s) = ?m" "decode_data (pipe ?s) = decode_data (pipe st)"
    "decode_num (pipe ?s) = decode_num (pipe st) - 1" "mem_ok (target_mem (pipe ?s))"
    "fetch_inst_free ?s = fetch_inst_free st @ [?rs]"
    using p'(2) by (simp_all add: nf free_odeps_def upd_inst_def MAX_ODEPS_def upt_rec)
  let ?rest = "back_slots ?m n ((i + ?m - 1) mod ?m)"
  have "\<forall>j\<in>set ?rest. savings_ok (insts ?s) (decode_data (pipe st) j)"
    using Suc.prems(2) only_freed_log(2) [OF fs] by simp
  with Suc.IH [of ?s "(i + ?m - 1) mod ?m"] keep obtain t where
    t: "squash_decode n ((i + ?m - 1) mod ?m) ?s = Some t" "only_freed ?s t" "mem_ok (target_mem (pipe t))"
      "arch (pipe t) = fold (\<lambda>rs. undo_inst (insts ?s rs)) (map (decode_data (pipe st)) ?rest) (arch (pipe ?s))"
      "no_arch (pipe t) = (no_arch (pipe ?s))\<lparr>decode_num := decode_num (pipe ?s) - int n\<rparr>"
      "fetch_inst_free t = fetch_inst_free ?s @ map (decode_data (pipe st)) ?rest"
    by auto
  have "squash_decode (Suc n) i st = Some t" using step t(1) by simp
  moreover have "only_freed st t" using fs t(2) by (rule only_freed_trans)
  moreover have "arch (pipe t) = fold (\<lambda>rs. undo_inst (insts st rs))
      (map (decode_data (pipe st)) (back_slots ?m (Suc n) i)) (arch (pipe st))"
    by (simp only: t(4) s(2) only_freed_log(1) [OF fs] back_slots.simps list.map fold_simps)
  moreover have "no_arch (pipe t) = (no_arch (pipe st))\<lparr>decode_num := decode_num (pipe st) - int (Suc n)\<rparr>"
    by (simp only: t(5) s(1) keep(3)) simp
  moreover have "fetch_inst_free t = fetch_inst_free st @ map (decode_data (pipe st)) (back_slots ?m (Suc n) i)"
    by (simp only: t(6) keep(5)) simp
  ultimately show ?case using t(3) by blast
qed

lemma only_table_eq:
  assumes "only_table p p'"
  shows "p' = p\<lparr>store_htable := store_htable p', bucket_free_list := bucket_free_list p'\<rparr>"
proof -
  have "p' = (no_table p')\<lparr>store_htable := store_htable p', bucket_free_list := bucket_free_list p'\<rparr>"
    by (simp add: no_table_def)
  also have "\<dots> = (no_table p)\<lparr>store_htable := store_htable p', bucket_free_list := bucket_free_list p'\<rparr>"
    using assms by (simp only: only_table_def)
  also have "\<dots> = p\<lparr>store_htable := store_htable p', bucket_free_list := bucket_free_list p'\<rparr>"
    by (simp add: no_table_def)
  finally show ?thesis .
qed

text \<open>The pipeline \<open>tracer_recover\<close> leaves, up to the architectural state.\<close>

definition front_reset :: "nat \<Rightarrow> md_addr_t \<Rightarrow> pipeline \<Rightarrow> pipeline" where
  "front_reset level pc p =
     (recover_stores level (p\<lparr>spec_level := level\<rparr>))\<lparr>fetch_num := 0, fetch_head := 0, fetch_tail := 0,
       fetch_reg_PC := pc, decode_num := 0, decode_head := 0, decode_tail := 0, need_to_correct_pc := False,
       entering_spec := False, last_is_branch := False, is_jump := False\<rparr>"

definition pending_ok :: "godson2_cpu \<Rightarrow> bool" where
  "pending_ok st \<longleftrightarrow> mem_ok (target_mem (pipe st)) \<and> front_ok (pipe st) \<and>
     (\<forall>rs\<in>set (decode_list (pipe st)). savings_ok (insts st) rs)"

lemma tracer_recover_effect:
  assumes "pending_ok st"
  shows "\<exists>st'. tracer_recover level pc st = Some st' \<and> only_freed st st' \<and> mem_ok (target_mem (pipe st')) \<and>
    arch (pipe st') = fold (\<lambda>rs. undo_inst (insts st rs)) (rev (decode_list (pipe st))) (arch (pipe st)) \<and>
    no_arch (pipe st') = no_arch (front_reset level pc (pipe st)) \<and>
    fetch_inst_free st' = fetch_inst_free st @ fetch_list (pipe st) @ rev (decode_list (pipe st))"
proof -
  note ok = assms [unfolded pending_ok_def front_ok_def]
  let ?p = "pipe st"
  define r where "r = recover_stores level (?p\<lparr>spec_level := level\<rparr>)"
  have "r = ?p\<lparr>spec_level := level, store_htable := store_htable r, bucket_free_list := bucket_free_list r\<rparr>"
    using only_table_eq [OF recover_stores_other] by (simp add: r_def)
  then obtain t f where r: "r = ?p\<lparr>spec_level := level, store_htable := t, bucket_free_list := f\<rparr>" by blast
  define s1 where "s1 = upd_pipe (\<lambda>p. recover_stores level (p\<lparr>spec_level := level\<rparr>)) st"
  define s2 where "s2 = squash_fetch (nat (fetch_num r)) (fetch_head r) s1"
  define s3 where "s3 = upd_pipe (\<lambda>p. p\<lparr>fetch_tail := 0, fetch_head := 0, fetch_reg_PC := pc\<rparr>) s2"
  define s4 where "s4 = (if irep_state (irepbuf s3) = IREP_MISS
    then s3\<lparr>irepbuf := (irepbuf s3)\<lparr>irep_state := IREP_EMPTY\<rparr>\<rparr> else s3)"
  have p1: "pipe s1 = r" and free1: "fetch_inst_free s1 = fetch_inst_free st"
    by (simp_all add: s1_def r_def)
  from squash_fetch_effect [of s1 "fetch_head r" "nat (fetch_num r)"] ok have
    2: "only_freed s1 s2" "pipe s2 = r\<lparr>fetch_num := 0\<rparr>"
      "fetch_inst_free s2 = fetch_inst_free st @ fetch_list ?p"
    unfolding p1 free1 s2_def [symmetric] by (simp_all add: r fetch_list_def)
  have p4: "pipe s4 = r\<lparr>fetch_num := 0, fetch_tail := 0, fetch_head := 0, fetch_reg_PC := pc\<rparr>"
    by (simp add: s4_def s3_def 2(2))
  have "only_freed s3 s4" by (auto simp: s4_def only_freed_def core_rest_def)
  moreover have "only_freed st s1" "only_freed s2 s3" by (simp_all only: s1_def s3_def only_freed_ops)
  ultimately have f4: "only_freed st s4" using 2(1) by (meson only_freed_trans)
  have free4: "fetch_inst_free s4 = fetch_inst_free st @ fetch_list ?p"
    by (simp add: s4_def s3_def 2(3))
  have arch4: "arch (pipe s4) = arch ?p"
  proof
    fix x show "arch (pipe s4) x = arch ?p x" by (cases x) (simp_all add: p4 r)
  qed
  have keep4: "decode_data (pipe s4) = decode_data ?p" "decode_ifq_size (pipe s4) = decode_ifq_size ?p"
    by (simp_all add: p4 r)
  let ?m = "decode_ifq_size ?p" and ?n = "nat (decode_num ?p)"
  let ?i = "(decode_tail ?p + ?m - 1) mod ?m"
  have slots: "back_slots ?m ?n ?i = rev (ring_slots ?m (decode_head ?p) ?n)"
    using ok back_ring [of ?m ?n "decode_head ?p"] by simp
  have visited: "map (decode_data ?p) (back_slots ?m ?n ?i) = rev (decode_list ?p)"
    by (simp only: slots decode_list_def rev_map)
  have "savings_ok (insts s4) (decode_data ?p j)" if "j \<in> set (back_slots ?m ?n ?i)" for j
  proof -
    have "decode_data ?p j \<in> set (decode_list ?p)"
      using that visited by (metis image_eqI set_map set_rev)
    then show ?thesis using ok only_freed_log(2) [OF f4] by blast
  qed
  then have "\<forall>j\<in>set (back_slots (decode_ifq_size (pipe s4)) ?n ?i). savings_ok (insts s4) (decode_data (pipe s4) j)"
    by (simp add: p4 r)
  moreover have "mem_ok (target_mem (pipe s4))" using ok by (simp add: p4 r)
  ultimately obtain s5 where
    5: "squash_decode ?n ?i s4 = Some s5" "only_freed s4 s5" "mem_ok (target_mem (pipe s5))"
      "arch (pipe s5) = fold (\<lambda>rs. undo_inst (insts s4 rs))
        (map (decode_data (pipe s4)) (back_slots (decode_ifq_size (pipe s4)) ?n ?i)) (arch (pipe s4))"
      "no_arch (pipe s5) = (no_arch (pipe s4))\<lparr>decode_num := decode_num (pipe s4) - int ?n\<rparr>"
      "fetch_inst_free s5 = fetch_inst_free s4 @
        map (decode_data (pipe s4)) (back_slots (decode_ifq_size (pipe s4)) ?n ?i)"
    using squash_decode_effect [of s4 ?n ?i] by blast
  define s6 where "s6 = upd_pipe (\<lambda>p. p\<lparr>decode_tail := 0, decode_head := 0, need_to_correct_pc := False,
    entering_spec := False, last_is_branch := False, is_jump := False\<rparr>) s5"
  have "tracer_recover level pc st = Some s6"
    using 5(1) unfolding tracer_recover_def Let_def s1_def [symmetric] p1 s2_def [symmetric] s3_def [symmetric]
      s4_def [symmetric] by (simp add: p4 r s6_def)
  moreover have "only_freed st s6"
    using f4 5(2) only_freed_ops(1) unfolding s6_def by (meson only_freed_trans)
  moreover have "arch (pipe s6) = arch (pipe s5)"
  proof
    fix x show "arch (pipe s6) x = arch (pipe s5) x" by (cases x) (simp_all add: s6_def)
  qed
  moreover have "arch (pipe s5) = fold (\<lambda>rs. undo_inst (insts st rs)) (rev (decode_list ?p)) (arch ?p)"
    using 5(4) unfolding keep4 visited arch4 only_freed_log(1) [OF f4] .
  moreover have "no_arch (pipe s6) = no_arch (front_reset level pc ?p)"
  proof -
    have reset: "no_arch (q\<lparr>decode_tail := 0, decode_head := 0, need_to_correct_pc := False,
        entering_spec := False, last_is_branch := False, is_jump := False\<rparr>) =
        (no_arch q)\<lparr>decode_tail := 0, decode_head := 0, need_to_correct_pc := False,
        entering_spec := False, last_is_branch := False, is_jump := False\<rparr>" for q
      by (simp add: no_arch_def)
    show ?thesis
      using ok by (simp add: s6_def reset 5(5) p4 front_reset_def r_def [symmetric]) (simp add: r no_arch_def)
  qed
  moreover have "fetch_inst_free s6 = fetch_inst_free st @ fetch_list ?p @ rev (decode_list ?p)"
    using 5(6) unfolding keep4 visited free4 by (simp add: s6_def)
  moreover have "mem_ok (target_mem (pipe s6))" using 5(3) by (simp add: s6_def)
  ultimately show ?thesis by auto
qed

text \<open>C17. \<open>tracer_recover\<close> returns with empty fetch and decode queues at the given level and program counter.
  The squashed instructions are back on the free list, the effects of the decoded ones are undone from the
  youngest to the oldest, and of the wrong-path stores those of shallower levels are left.\<close>

theorem tracer_recover_squashes:
  assumes "pending_ok st" and table: "htable_ok (pipe st)"
  shows "\<exists>st'. tracer_recover level pc st = Some st' \<and>
    fetch_num (pipe st') = 0 \<and> decode_num (pipe st') = 0 \<and> spec_level (pipe st') = level \<and>
    fetch_reg_PC (pipe st') = pc \<and> \<not> entering_spec (pipe st') \<and>
    fetch_inst_free st' = fetch_inst_free st @ fetch_list (pipe st) @ rev (decode_list (pipe st)) \<and>
    arch (pipe st') = foldr (\<lambda>rs. undo_inst (insts st rs)) (decode_list (pipe st)) (arch (pipe st)) \<and>
    spec_map (pipe st') a =
      (case spec_map (pipe st) a of None \<Rightarrow> None | Some (k, d) \<Rightarrow> if k < level then Some (k, d) else None)"
proof -
  from tracer_recover_effect [OF assms(1), of level pc] obtain st' where
    st': "tracer_recover level pc st = Some st'"
      "arch (pipe st') = fold (\<lambda>rs. undo_inst (insts st rs)) (rev (decode_list (pipe st))) (arch (pipe st))"
      "no_arch (pipe st') = no_arch (front_reset level pc (pipe st))"
      "fetch_inst_free st' = fetch_inst_free st @ fetch_list (pipe st) @ rev (decode_list (pipe st))" by blast
  let ?q = "(pipe st)\<lparr>spec_level := level\<rparr>"
  have q: "htable_ok ?q" "spec_map ?q = spec_map (pipe st)"
    using table by (simp_all add: htable_ok_def spec_map_def fun_eq_iff)
  have reset: "spec_map (front_reset level pc (pipe st)) = spec_map (recover_stores level ?q)"
    "spec_level (front_reset level pc (pipe st)) = level"
    using only_table_fields(2) [OF recover_stores_other, of level ?q]
    by (simp_all add: front_reset_def spec_map_def fun_eq_iff)
  note f = no_arch_fields [OF st'(3)]
  have "spec_map (pipe st') a =
      (case spec_map (pipe st) a of None \<Rightarrow> None | Some (k, d) \<Rightarrow> if k < level then Some (k, d) else None)"
    using recover_stores_map(2) [OF q(1), of level a] by (simp add: f reset q(2))
  then show ?thesis
    using st'(1,2,4) by (auto simp: f reset(2) foldr_conv_fold) (simp_all add: front_reset_def)
qed

text \<open>One decoded instruction that has overwritten register 4, which was 9.\<close>

definition one_decoded :: godson2_cpu where
  "one_decoded = (let st = blank_cpu 0 0 in st\<lparr>
     insts := (insts st)(3 := blank_inst\<lparr>rs_temp_save := [no_save\<lparr>save_n := 4, save_l := 9\<rparr>]\<rparr>),
     pipe := blank_pipe\<lparr>regs_R := (\<lambda>_. 7), decode_num := 1, decode_tail := 1, decode_data := (\<lambda>_. 3)\<rparr>\<rparr>)"

lemma one_decoded_ok:
  "pending_ok one_decoded" "htable_ok (pipe one_decoded)" "decode_list (pipe one_decoded) = [3]"
  by (simp_all add: one_decoded_def blank_cpu_def blank_pipe_def pending_ok_def front_ok_def decode_list_def
    ring_slots_def savings_ok_def save_ok_def no_save_def mem_ok_create htable_ok_def chain_ok_def)

theorem tracer_recover_squashes_witness:
  "\<exists>st'. tracer_recover 0 0x400100 one_decoded = Some st' \<and> regs_R (pipe st') 4 = 9 \<and> regs_R (pipe st') 5 = 7 \<and>
     fetch_inst_free st' = [3]"
proof -
  from tracer_recover_squashes [OF one_decoded_ok(1,2), of 0 "0x400100" 0] obtain st' where
    st': "tracer_recover 0 0x400100 one_decoded = Some st'"
      "fetch_inst_free st' = fetch_inst_free one_decoded @ fetch_list (pipe one_decoded) @ rev (decode_list (pipe one_decoded))"
      "arch (pipe st') = foldr (\<lambda>rs. undo_inst (insts one_decoded rs)) (decode_list (pipe one_decoded)) (arch (pipe one_decoded))"
    by blast
  have v: "restored (no_save\<lparr>save_n := 4, save_l := 9\<rparr>) A = A(Gpr 4 := 9)" for A
    by (simp add: restored_reg no_save_def)
  have "undo_inst (insts one_decoded 3) A = A(Gpr 4 := 9)" for A
    by (simp add: undo_inst_def one_decoded_def Let_def blank_inst_def v)
  with st'(3) have "arch (pipe st') = (arch (pipe one_decoded))(Gpr 4 := 9)"
    by (simp add: one_decoded_ok(3))
  then have "arch (pipe st') (Gpr 4) = 9" "arch (pipe st') (Gpr 5) = 7"
    by (simp_all add: one_decoded_def Let_def)
  moreover have "fetch_inst_free st' = [3]"
    using st'(2) by (simp add: one_decoded_ok(3) fetch_list_def ring_slots_def)
      (simp add: one_decoded_def Let_def blank_cpu_def blank_pipe_def)
  ultimately show ?thesis using st'(1) by simp
qed

section \<open>Levels\<close>

text \<open>The registers as an instruction of level \<open>k\<close> reads them.\<close>

definition level_regs :: "nat \<Rightarrow> pipeline \<Rightarrow> (nat \<Rightarrow> 32 word) \<times> (nat \<Rightarrow> 32 word) \<times> md_ctrl_t" where
  "level_regs k p = (if k = 0 then (regs_R p, regs_F p, regs_C p)
     else (spec_regs_R p k, spec_regs_F p k, spec_regs_C p k))"

lemma reads_level_regs:
  "GPR n p = fst (level_regs (spec_level p) p) n" "FPR_L n p = fst (snd (level_regs (spec_level p) p)) n"
  "HI p = hi (snd (snd (level_regs (spec_level p) p)))" "LO p = lo (snd (snd (level_regs (spec_level p) p)))"
  "FCC p = fcc (snd (snd (level_regs (spec_level p) p)))"
  by (simp_all add: GPR_def FPR_L_def HI_def LO_def FCC_def ctrl_regs_def level_regs_def)

lemma spec_mem_access_Write_only:
  "spec_mem_access p Write a bs n = Some (f, q, p') \<Longrightarrow> only_table p p'"
  by (auto simp: spec_mem_access_def Let_def split: if_splits option.splits
    intro: only_table_trans only_table_ops)

lemma level_regs_table:
  assumes "only_table p p'"
  shows "level_regs k p' = level_regs k p"
proof -
  have "level_regs k (no_table q) = level_regs k q" for q by (simp add: no_table_def level_regs_def)
  then show ?thesis using assms by (metis only_table_def)
qed

definition wrong_path_only :: "nat \<Rightarrow> godson2_cpu \<Rightarrow> godson2_cpu \<Rightarrow> bool" where
  "wrong_path_only k st st' \<longleftrightarrow> level_regs k (pipe st') = level_regs k (pipe st) \<and>
     target_mem (pipe st') = target_mem (pipe st) \<and> spec_level (pipe st') = spec_level (pipe st) \<and>
     insts st' = insts st"

lemma save_and_set_wrong_path:
  assumes "spec_level (pipe st) \<noteq> 0" "k \<noteq> spec_level (pipe st)" and run: "save_and_set old put puts rs st = Some st'"
    and "level_regs k (puts (spec_level (pipe st)) (pipe st)) = level_regs k (pipe st)"
    and "target_mem (puts (spec_level (pipe st)) (pipe st)) = target_mem (pipe st)"
    and "spec_level (puts (spec_level (pipe st)) (pipe st)) = spec_level (pipe st)"
  shows "wrong_path_only k st st'"
  using assms by (auto simp: save_and_set_def Let_def wrong_path_only_def upd_pipe_def)

lemma perform_wrong_path:
  assumes lev: "spec_level (pipe st) \<noteq> 0" "k \<noteq> spec_level (pipe st)" and run: "perform w rs st = Some st'"
  shows "wrong_path_only k st st'"
proof (cases w)
  case (W_MEM a bs)
  with run lev(1) obtain f q p' where "spec_mem_access (pipe st) Write a bs (int (length bs)) = Some (f, q, p')"
    and st': "st' = st\<lparr>pipe := p'\<rparr>" by (auto simp: WRITE_SPECMEM_def)
  from spec_mem_access_Write_only [OF this(1)] show ?thesis
    by (simp add: wrong_path_only_def st' level_regs_table only_table_fields)
next
  case (W_GPR n v)
  show ?thesis
    by (rule save_and_set_wrong_path [OF lev run [unfolded W_GPR perform.simps SET_GPR_def]])
      (use lev in \<open>simp_all add: level_regs_def\<close>)
next
  case (W_FPR n v)
  show ?thesis
    by (rule save_and_set_wrong_path [OF lev run [unfolded W_FPR perform.simps SET_FPR_L_def]])
      (use lev in \<open>simp_all add: level_regs_def\<close>)
next
  case (W_FPR_D n v)
  show ?thesis
    by (rule save_and_set_wrong_path [OF lev run [unfolded W_FPR_D perform.simps SET_FPR_D_def Let_def]])
      (use lev in \<open>simp_all add: level_regs_def\<close>)
next
  case (W_HI v)
  show ?thesis
    by (rule save_and_set_wrong_path [OF lev run [unfolded W_HI perform.simps SET_HI_def]])
      (use lev in \<open>simp_all add: level_regs_def\<close>)
next
  case (W_LO v)
  show ?thesis
    by (rule save_and_set_wrong_path [OF lev run [unfolded W_LO perform.simps SET_LO_def]])
      (use lev in \<open>simp_all add: level_regs_def\<close>)
next
  case (W_FCC v)
  show ?thesis
    by (rule save_and_set_wrong_path [OF lev run [unfolded W_FCC perform.simps SET_FCC_def]])
      (use lev in \<open>simp_all add: level_regs_def\<close>)
qed

lemma perform_all_wrong_path:
  assumes "spec_level (pipe st) \<noteq> 0" "k \<noteq> spec_level (pipe st)" "perform_all ws rs st = Some st'"
  shows "wrong_path_only k st st'"
  using assms
proof (induction ws arbitrary: st)
  case (Cons w ws)
  then obtain s1 where s1: "perform w rs st = Some s1" "perform_all ws rs s1 = Some st'"
    by (auto simp: perform_all_def split: option.splits)
  have "wrong_path_only k st s1" using perform_wrong_path [OF Cons.prems(1,2) s1(1)] .
  moreover have "wrong_path_only k s1 st'"
    using Cons.IH [OF _ _ s1(2)] Cons.prems calculation by (simp add: wrong_path_only_def)
  ultimately show ?case by (simp add: wrong_path_only_def)
qed (simp add: perform_all_def wrong_path_only_def)

text \<open>Entering a wrong path gives it a copy of the registers, and whatever an instruction writes there,
  the registers of every shallower level and the target memory stay as they were.\<close>

theorem wrong_path_isolated:
  assumes enter: "prepare_level (pipe st) = Some p" and k: "k \<le> spec_level (pipe st)"
    and st1: "st1 = st\<lparr>pipe := p\<lparr>spec_level := spec_level p + 1\<rparr>\<rparr>"
    and run: "perform_all ws rs st1 = Some st2"
  shows "level_regs (spec_level (pipe st1)) (pipe st1) = level_regs (spec_level (pipe st)) (pipe st) \<and>
    level_regs k (pipe st2) = level_regs k (pipe st) \<and> target_mem (pipe st2) = target_mem (pipe st) \<and>
    rs_temp_save (insts st2 rs) = rs_temp_save (insts st rs)"
proof -
  from enter have p: "spec_level p = spec_level (pipe st)" "target_mem p = target_mem (pipe st)"
    "level_regs j p = level_regs j (pipe st)" if "j \<le> spec_level (pipe st)" for j
    using that by (auto simp: prepare_level_def Let_def prepare_create_vector_def level_regs_def split: if_splits)
  have copy: "level_regs (spec_level (pipe st) + 1) p = level_regs (spec_level (pipe st)) (pipe st)"
    using enter by (auto simp: prepare_level_def Let_def prepare_create_vector_def level_regs_def split: if_splits)
  have up: "level_regs j (p\<lparr>spec_level := x\<rparr>) = level_regs j p" for j x by (simp add: level_regs_def)
  have "wrong_path_only k st1 st2"
    by (rule perform_all_wrong_path [OF _ _ run]) (use k p(1) in \<open>simp_all add: st1\<close>)
  then show ?thesis
    using p [of k] k copy up by (simp add: wrong_path_only_def st1)
qed

theorem wrong_path_isolated_witness:
  "\<exists>p st2. prepare_level blank_pipe = Some p \<and>
     perform_all [W_GPR 4 7] 3 (blank_cpu 0 0\<lparr>pipe := p\<lparr>spec_level := spec_level p + 1\<rparr>\<rparr>) = Some st2 \<and>
     GPR 4 (pipe st2) = 7 \<and> level_regs 0 (pipe st2) = level_regs 0 blank_pipe"
proof -
  obtain p where p: "prepare_level blank_pipe = Some p" "spec_level p = 0"
    by (simp add: prepare_level_def blank_pipe_def prepare_create_vector_def)
  let ?st1 = "blank_cpu 0 0\<lparr>pipe := p\<lparr>spec_level := spec_level p + 1\<rparr>\<rparr>"
  obtain st2 where run: "perform_all [W_GPR 4 7] 3 ?st1 = Some st2" "GPR 4 (pipe st2) = 7"
    using p(2) by (auto simp: perform_all_def SET_GPR_def save_and_set_def GPR_def)
  have "level_regs 0 (pipe st2) = level_regs 0 (pipe (blank_cpu 0 0))"
    using wrong_path_isolated [of "blank_cpu 0 0" p 0 ?st1 "[W_GPR 4 7]" 3 st2] p(1) run(1)
    by (simp add: blank_cpu_def)
  with p(1) run show ?thesis by (simp add: blank_cpu_def)
qed

end
