(* ===== verification/Producers.thy ===== *)
theory Producers
  imports Tracer
begin

unbundle bit_operations_syntax

text \<open>
  The create vector (decode.c) through the life of an instruction: an instruction that writes a register is
  its producer on consecutive speculation levels, starting with its own, until it completes and
  \<open>update_create_vector\<close> removes it from all of them.
\<close>

section \<open>Producers\<close>

text \<open>An instruction is the producer of a register on consecutive levels, starting with its own.\<close>

definition cv_ok :: "godson2_cpu \<Rightarrow> bool" where
  "cv_ok st \<longleftrightarrow> (\<forall>l\<le> spec_level (pipe st). \<forall>name rs k. create_vector (pipe st) l name = Some (rs, k) \<longrightarrow>
     name \<noteq> 0 \<and> k < MAX_ODEPS \<and> rs_onames (insts st rs) k = name \<and> rs_spec_level (insts st rs) \<le> l \<and>
     (\<forall>j. rs_spec_level (insts st rs) \<le> j \<longrightarrow> j \<le> l \<longrightarrow> create_vector (pipe st) j name = Some (rs, k)))"

lemma clear_creator_upt:
  "create_vector (clear_creator c name [a..<b] p) =
     (\<lambda>l m. if m = name \<and> a \<le> l \<and> l < b \<and> (\<forall>j. a \<le> j \<longrightarrow> j \<le> l \<longrightarrow> create_vector p j name = Some c)
       then None else create_vector p l m)"
proof (induction "b - a" arbitrary: a p)
  case 0
  then show ?case by (auto simp: fun_eq_iff)
next
  case (Suc n)
  then have ab: "a < b" "n = b - Suc a" by auto
  let ?p = "p\<lparr>create_vector := (create_vector p)(a := (create_vector p a)(name := None))\<rparr>"
  show ?case
  proof (cases "create_vector p a name = Some c")
    case True
    have run: "clear_creator c name [a..<b] p = clear_creator c name [Suc a..<b] ?p"
      using ab(1) True by (simp add: upt_conv_Cons)
    have all: "(\<forall>j. Suc a \<le> j \<longrightarrow> j \<le> l \<longrightarrow> create_vector ?p j name = Some c) =
        (\<forall>j. a \<le> j \<longrightarrow> j \<le> l \<longrightarrow> create_vector p j name = Some c)" if "a < l" for l
    proof -
      have "create_vector ?p j name = create_vector p j name" if "Suc a \<le> j" for j using that by simp
      then show ?thesis using True by (metis Suc_leD le_antisym not_less_eq_eq)
    qed
    have "create_vector (clear_creator c name [Suc a..<b] ?p) l m =
        (if m = name \<and> a \<le> l \<and> l < b \<and> (\<forall>j. a \<le> j \<longrightarrow> j \<le> l \<longrightarrow> create_vector p j name = Some c)
         then None else create_vector p l m)" for l m
    proof (cases "a < l")
      case a: True
      show ?thesis using a unfolding Suc.hyps(1) [OF ab(2)] all [OF a] by simp
    next
      case False
      then show ?thesis using ab(1) True unfolding Suc.hyps(1) [OF ab(2)] by (auto simp: le_eq_less_or_eq)
    qed
    then show ?thesis unfolding run by blast
  next
    case False
    then show ?thesis using ab by (auto simp: upt_conv_Cons fun_eq_iff)
  qed
qed

lemma clear_creator_other:
  "clear_creator c name ls p = p\<lparr>create_vector := create_vector (clear_creator c name ls p)\<rparr>"
  by (induction c name ls p rule: clear_creator.induct) simp_all

definition consecutive :: "pipeline \<Rightarrow> nat \<times> nat \<Rightarrow> nat \<Rightarrow> nat \<Rightarrow> bool" where
  "consecutive p c L name \<longleftrightarrow> (\<forall>l\<le> spec_level p. \<forall>m. create_vector p l m = Some c \<longrightarrow>
     m = name \<and> L \<le> l \<and> (\<forall>j. L \<le> j \<longrightarrow> j \<le> l \<longrightarrow> create_vector p j m = Some c))"

lemma clear_creator_levels:
  assumes c: "consecutive p c L name" and l: "l \<le> spec_level p"
  shows "create_vector (clear_creator c name (L # [L + 1..<spec_level p + 1]) p) l m =
    (if create_vector p l m = Some c then None else create_vector p l m)"
proof (cases "L \<le> spec_level p")
  case True
  then have "L # [L + 1..<spec_level p + 1] = [L..<spec_level p + 1]" by (simp add: upt_conv_Cons)
  then have run: "clear_creator c name (L # [L + 1..<spec_level p + 1]) p = clear_creator c name [L..<spec_level p + 1] p"
    by simp
  show ?thesis
  proof (cases "create_vector p l m = Some c")
    case named: True
    with c l have "m = name" "L \<le> l" "\<forall>j. L \<le> j \<longrightarrow> j \<le> l \<longrightarrow> create_vector p j name = Some c"
      unfolding consecutive_def by blast+
    then show ?thesis using l named unfolding run clear_creator_upt by simp
  next
    case other: False
    then have stop: "\<not> (m = name \<and> L \<le> l \<and> l < spec_level p + 1 \<and>
        (\<forall>j. L \<le> j \<longrightarrow> j \<le> l \<longrightarrow> create_vector p j name = Some c))" by blast
    show ?thesis by (simp only: run clear_creator_upt if_not_P [OF stop] if_not_P [OF other])
  qed
next
  case False
  with l have "l \<noteq> L" by simp
  moreover have "create_vector p l m \<noteq> Some c"
    using c l False unfolding consecutive_def by (meson le_trans)
  moreover have "[L + 1..<spec_level p + 1] = []" using False by simp
  ultimately show ?thesis by simp
qed

lemma cv_ok_consecutive:
  "cv_ok st \<Longrightarrow> consecutive (pipe st) (rs, k) (rs_spec_level (insts st rs)) (rs_onames (insts st rs) k)"
  unfolding cv_ok_def consecutive_def by blast

lemma consecutive_forget:
  assumes c: "consecutive p c L name" and lev: "spec_level q = spec_level p" and d: "d \<noteq> c"
    and eq: "\<And>l m. l \<le> spec_level p \<Longrightarrow>
      create_vector q l m = (if create_vector p l m = Some d then None else create_vector p l m)"
  shows "consecutive q c L name"
  unfolding consecutive_def lev
proof (intro allI impI)
  fix l m assume l: "l \<le> spec_level p" and "create_vector q l m = Some c"
  then have "create_vector p l m = Some c" using eq [OF l, of m] by (simp split: if_splits)
  with c l have f: "m = name" "L \<le> l" "\<And>j. L \<le> j \<Longrightarrow> j \<le> l \<Longrightarrow> create_vector p j m = Some c"
    unfolding consecutive_def by blast+
  have "create_vector q j m = Some c" if "L \<le> j" "j \<le> l" for j
    using eq [of j m] f(3) [OF that] that(2) l d by simp
  with f(1,2) show "m = name \<and> L \<le> l \<and> (\<forall>j. L \<le> j \<longrightarrow> j \<le> l \<longrightarrow> create_vector q j m = Some c)" by blast
qed

lemma cv_ok_forget:
  assumes ok: "cv_ok st"
    and eq: "\<And>l m. l \<le> spec_level (pipe st) \<Longrightarrow> create_vector p l m =
      (if \<exists>k. create_vector (pipe st) l m = Some (rs, k) then None else create_vector (pipe st) l m)"
    and lev: "spec_level p = spec_level (pipe st)"
  shows "cv_ok (st\<lparr>pipe := p\<rparr>)"
  unfolding cv_ok_def
proof (intro allI impI)
  fix l name r k
  assume l: "l \<le> spec_level (pipe (st\<lparr>pipe := p\<rparr>))" and new: "create_vector (pipe (st\<lparr>pipe := p\<rparr>)) l name = Some (r, k)"
  then have l': "l \<le> spec_level (pipe st)" by (simp add: lev)
  with eq [OF this, of name] new have old: "create_vector (pipe st) l name = Some (r, k)" and r: "r \<noteq> rs"
    by (auto split: if_splits)
  with ok l' have f: "name \<noteq> 0 \<and> k < MAX_ODEPS \<and> rs_onames (insts st r) k = name \<and> rs_spec_level (insts st r) \<le> l"
    and j: "\<And>j. rs_spec_level (insts st r) \<le> j \<Longrightarrow> j \<le> l \<Longrightarrow> create_vector (pipe st) j name = Some (r, k)"
    unfolding cv_ok_def by blast+
  have "create_vector p j name = Some (r, k)" if "rs_spec_level (insts st r) \<le> j" "j \<le> l" for j
    using eq [of j name] j [OF that] that(2) l' r by simp
  with f show "name \<noteq> 0 \<and> k < MAX_ODEPS \<and> rs_onames (insts (st\<lparr>pipe := p\<rparr>) r) k = name \<and>
      rs_spec_level (insts (st\<lparr>pipe := p\<rparr>) r) \<le> l \<and>
      (\<forall>j. rs_spec_level (insts (st\<lparr>pipe := p\<rparr>) r) \<le> j \<longrightarrow> j \<le> l \<longrightarrow>
         create_vector (pipe (st\<lparr>pipe := p\<rparr>)) j name = Some (r, k))" by simp
qed

text \<open>C28. When an instruction completes, no level of the running path names it as a producer any more, every
  other entry stays, and producers still cover consecutive levels.\<close>

theorem update_create_vector_forgets:
  assumes ok: "cv_ok st"
  shows "cv_ok (update_create_vector rs st) \<and>
    (\<forall>l\<le> spec_level (pipe st). \<forall>name. create_vector (pipe (update_create_vector rs st)) l name =
       (if \<exists>k. create_vector (pipe st) l name = Some (rs, k) then None else create_vector (pipe st) l name))"
proof -
  let ?i = "insts st rs" and ?p = "pipe st"
  let ?L = "rs_spec_level ?i # [rs_spec_level ?i + 1..<spec_level ?p + 1]"
  define C where "C k q = (if rs_onames ?i k \<noteq> 0 then clear_creator (rs, k) (rs_onames ?i k) ?L q else q)" for k q
  have other: "C k q = q\<lparr>create_vector := create_vector (C k q)\<rparr>" for k q
  proof (cases "rs_onames ?i k = 0")
    case False
    then have run: "C k q = clear_creator (rs, k) (rs_onames ?i k) ?L q" by (simp only: C_def) simp
    show ?thesis unfolding run by (rule clear_creator_other)
  qed (simp add: C_def)
  have lev: "spec_level (C k q) = spec_level q" for k q
    by (subst other) simp
  have step: "forget_output rs k (st\<lparr>pipe := q\<rparr>) = st\<lparr>pipe := C k q\<rparr>" if "spec_level q = spec_level ?p" for k q
    using that by (simp add: forget_output_def C_def upd_pipe_def Let_def del: clear_creator.simps upt.simps)
  have "[0..<MAX_ODEPS] = [0, 1]" by (simp add: MAX_ODEPS_def upt_rec)
  then have "update_create_vector rs st = forget_output rs 1 (forget_output rs 0 (st\<lparr>pipe := ?p\<rparr>))"
    unfolding update_create_vector_def by simp
  then have st': "update_create_vector rs st = st\<lparr>pipe := C 1 (C 0 ?p)\<rparr>"
    by (simp only: step lev)
  have one: "create_vector (C k q) l m = (if create_vector q l m = Some (rs, k) then None else create_vector q l m)"
    if "consecutive q (rs, k) (rs_spec_level ?i) (rs_onames ?i k)" "spec_level q = spec_level ?p" "l \<le> spec_level ?p"
      "rs_onames ?i k = 0 \<Longrightarrow> create_vector q l m \<noteq> Some (rs, k)" for k q l m
    using clear_creator_levels [OF that(1), of l m] that by (simp add: C_def)
  have named: "k < 2 \<and> m \<noteq> 0 \<and> rs_onames ?i k = m"
    if "l \<le> spec_level ?p" "create_vector ?p l m = Some (rs, k)" for l m k
    using ok that unfolding cv_ok_def MAX_ODEPS_def by blast
  have zero: "create_vector (C 0 ?p) l m = (if create_vector ?p l m = Some (rs, 0) then None else create_vector ?p l m)"
    if "l \<le> spec_level ?p" for l m
    by (rule one [OF cv_ok_consecutive [OF ok] refl that]) (use named [OF that, of m 0] in auto)
  have "consecutive (C 0 ?p) (rs, 1) (rs_spec_level ?i) (rs_onames ?i 1)"
    by (rule consecutive_forget [OF cv_ok_consecutive [OF ok] lev _ zero]) simp_all
  note second = one [OF this lev]
  have both: "create_vector (C 1 (C 0 ?p)) l m =
      (if \<exists>k. create_vector ?p l m = Some (rs, k) then None else create_vector ?p l m)"
    if l: "l \<le> spec_level ?p" for l m
  proof -
    have "create_vector (C 1 (C 0 ?p)) l m =
        (if create_vector (C 0 ?p) l m = Some (rs, 1) then None else create_vector (C 0 ?p) l m)"
    proof (rule second [OF l])
      assume "rs_onames ?i 1 = 0"
      then have "create_vector ?p l m \<noteq> Some (rs, 1)" using named [OF l, of m 1] by auto
      then show "create_vector (C 0 ?p) l m \<noteq> Some (rs, 1)" using zero [OF l, of m] by simp
    qed
    moreover have "(\<exists>k. create_vector ?p l m = Some (rs, k)) \<longleftrightarrow>
        create_vector ?p l m = Some (rs, 0) \<or> create_vector ?p l m = Some (rs, 1)"
      using named [OF l, of m] by (metis less_2_cases One_nat_def)
    ultimately show ?thesis using zero [OF l, of m] by simp
  qed
  have "cv_ok (st\<lparr>pipe := C 1 (C 0 ?p)\<rparr>)"
    by (rule cv_ok_forget [OF ok both]) (simp_all add: lev)
  then show ?thesis using both by (simp add: st' lev)
qed

lemma cv_okI:
  assumes "\<And>l name rs k. l \<le> spec_level (pipe st) \<Longrightarrow> create_vector (pipe st) l name = Some (rs, k) \<Longrightarrow>
     name \<noteq> 0 \<and> k < MAX_ODEPS \<and> rs_onames (insts st rs) k = name \<and> rs_spec_level (insts st rs) \<le> l \<and>
     (\<forall>j. rs_spec_level (insts st rs) \<le> j \<longrightarrow> j \<le> l \<longrightarrow> create_vector (pipe st) j name = Some (rs, k))"
  shows "cv_ok st"
  unfolding cv_ok_def using assms by blast

lemma cv_okD:
  assumes "cv_ok st" "l \<le> spec_level (pipe st)" "create_vector (pipe st) l name = Some (rs, k)"
  shows "name \<noteq> 0" "k < MAX_ODEPS" "rs_onames (insts st rs) k = name" "rs_spec_level (insts st rs) \<le> l"
    "rs_spec_level (insts st rs) \<le> j \<Longrightarrow> j \<le> l \<Longrightarrow> create_vector (pipe st) j name = Some (rs, k)"
  using assms unfolding cv_ok_def by blast+

lemma cv_ok_prepare:
  assumes ok: "cv_ok st" and p: "prepare_level (pipe st) = Some p"
  shows "cv_ok (st\<lparr>pipe := p\<lparr>spec_level := spec_level p + 1\<rparr>\<rparr>)"
proof (rule cv_okI)
  let ?s = "spec_level (pipe st)" and ?st = "st\<lparr>pipe := p\<lparr>spec_level := spec_level p + 1\<rparr>\<rparr>"
  from p have cv: "create_vector p = (create_vector (pipe st))(?s + 1 := create_vector (pipe st) ?s)"
    and lev: "spec_level p = ?s"
    by (auto simp: prepare_level_def prepare_create_vector_def Let_def split: if_splits)
  fix l name rs k assume l: "l \<le> spec_level (pipe ?st)" and e: "create_vector (pipe ?st) l name = Some (rs, k)"
  then have e': "create_vector (pipe st) (min l ?s) name = Some (rs, k)" "l \<le> ?s + 1"
    using lev by (auto simp: cv min_def le_Suc_eq split: if_splits)
  note d = cv_okD [OF ok _ e'(1), simplified]
  have "create_vector p j name = Some (rs, k)" if "rs_spec_level (insts st rs) \<le> j" "j \<le> l" for j
  proof -
    have "create_vector (pipe st) (min j ?s) name = Some (rs, k)"
      using d(4) d(5) [of "min j ?s"] that e'(2) by simp
    then show ?thesis using that(2) e'(2) by (auto simp: cv min_def split: if_splits)
  qed
  then show "name \<noteq> 0 \<and> k < MAX_ODEPS \<and> rs_onames (insts ?st rs) k = name \<and> rs_spec_level (insts ?st rs) \<le> l \<and>
     (\<forall>j. rs_spec_level (insts ?st rs) \<le> j \<longrightarrow> j \<le> l \<longrightarrow> create_vector (pipe ?st) j name = Some (rs, k))"
    using d(1-4) by simp
qed

lemma cv_ok_lower:
  assumes ok: "cv_ok st" and l: "l \<le> spec_level (pipe st)"
  shows "cv_ok (upd_pipe (\<lambda>p. p\<lparr>spec_level := l\<rparr>) st)"
proof (rule cv_okI)
  let ?st = "upd_pipe (\<lambda>p. p\<lparr>spec_level := l\<rparr>) st"
  fix i name rs k assume i: "i \<le> spec_level (pipe ?st)" and e: "create_vector (pipe ?st) i name = Some (rs, k)"
  have "i \<le> spec_level (pipe st)" "create_vector (pipe st) i name = Some (rs, k)" using i e l by simp_all
  note cv_okD [OF ok this]
  then show "name \<noteq> 0 \<and> k < MAX_ODEPS \<and> rs_onames (insts ?st rs) k = name \<and> rs_spec_level (insts ?st rs) \<le> i \<and>
     (\<forall>j. rs_spec_level (insts ?st rs) \<le> j \<longrightarrow> j \<le> i \<longrightarrow> create_vector (pipe ?st) j name = Some (rs, k))"
    by (simp add: upd_pipe_def)
qed

lemma cv_ok_install:
  assumes ok: "cv_ok st" and lev: "rs_spec_level (insts st rs) = spec_level (pipe st)" and k: "k < MAX_ODEPS"
    and fresh: "\<And>l m. l \<le> spec_level (pipe st) \<Longrightarrow> create_vector (pipe st) l m \<noteq> Some (rs, k)"
  shows "cv_ok (roq_install_odep rs k name st)"
proof (rule cv_okI)
  let ?st = "roq_install_odep rs k name st" and ?s = "spec_level (pipe st)"
  have i: "rs_spec_level (insts ?st r) = rs_spec_level (insts st r)"
    "rs_onames (insts ?st r) = (if r = rs then (rs_onames (insts st rs))(k := name) else rs_onames (insts st r))" for r
    by (simp_all add: roq_install_odep_def Let_def upd_inst_def upd_pipe_def)
  have cv: "create_vector (pipe ?st) j m =
      (if name \<noteq> 0 \<and> j = ?s \<and> m = name then Some (rs, k) else create_vector (pipe st) j m)" for j m
    by (simp add: roq_install_odep_def Let_def)
  fix l m r h assume l: "l \<le> spec_level (pipe ?st)" and e: "create_vector (pipe ?st) l m = Some (r, h)"
  have l': "l \<le> ?s" using l by (simp add: roq_install_odep_def Let_def split: if_splits)
  show "m \<noteq> 0 \<and> h < MAX_ODEPS \<and> rs_onames (insts ?st r) h = m \<and> rs_spec_level (insts ?st r) \<le> l \<and>
     (\<forall>j. rs_spec_level (insts ?st r) \<le> j \<longrightarrow> j \<le> l \<longrightarrow> create_vector (pipe ?st) j m = Some (r, h))"
  proof (cases "name \<noteq> 0 \<and> l = ?s \<and> m = name")
    case True
    then have "(r, h) = (rs, k)" using e cv by simp
    then show ?thesis using True k lev by (auto simp: i cv)
  next
    case False
    with e cv [of l m] have old: "create_vector (pipe st) l m = Some (r, h)" by (auto split: if_splits)
    note d = cv_okD [OF ok l' old]
    have "(r, h) \<noteq> (rs, k)" using old fresh [OF l'] by auto
    then have "rs_onames (insts ?st r) h = m" using d(3) by (auto simp: i)
    moreover have "create_vector (pipe ?st) j m = Some (r, h)" if "rs_spec_level (insts st r) \<le> j" "j \<le> l" for j
      using d(5) [OF that] False that(2) l' unfolding cv by auto
    ultimately show ?thesis using d(1,2,4) by (simp add: i)
  qed
qed

lemma cv_ok_clear:
  "spec_level (pipe st) = 0 \<Longrightarrow> cv_ok (upd_pipe clear_create_vector st)"
  by (simp add: cv_ok_def clear_create_vector_def)


lemma blank_cv: "cv_ok (blank_cpu 0 0)" "spec_level (pipe (blank_cpu 0 0)) = 0"
    "create_vector (pipe (blank_cpu 0 0)) l m = None" "rs_spec_level (insts (blank_cpu 0 0) rs) = 0"
  by (simp_all add: cv_ok_def blank_cpu_def blank_pipe_def blank_inst_def)


lemma installed_cv: "cv_ok (roq_install_odep 3 0 5 (blank_cpu 0 0))"
  by (rule cv_ok_install) (simp_all add: blank_cv MAX_ODEPS_def)

theorem update_create_vector_forgets_witness:
  "cv_ok (update_create_vector 3 (roq_install_odep 3 0 5 (blank_cpu 0 0))) \<and>
   create_vector (pipe (update_create_vector 3 (roq_install_odep 3 0 5 (blank_cpu 0 0)))) 0 5 = None"
  using update_create_vector_forgets [OF installed_cv, of 3] blank_cv(2)
  by (simp add: roq_install_odep_def Let_def)

end
