(* ===== verification/Resources.thy ===== *)
theory Resources
  imports Tracer
begin

text \<open>
  The functional units of a core (resource.c): the configuration \<open>fu_config\<close>, the pool \<open>res_create_pool\<close> builds
  from it, allocation of a unit to an instruction at the map stage and the timers that keep a unit busy.
  A unit is a number, its templates are the classes of operation it executes with their latencies; the
  template of an instruction is the pair of \<open>rs_fu_master\<close> and \<open>rs_fu_class\<close>. The stamp of the last allocation is
  a static variable that all cores share.
\<close>

section \<open>The pool\<close>

type_synonym res_template = "md_fu_class \<times> int \<times> int"
type_synonym res_desc = "nat \<times> res_template list"

text \<open>Quantity and templates: class, operation latency, issue latency.\<close>

definition fu_config :: "res_desc list" where
  "fu_config =
     [(1, [(IntALU, 1, 1), (IntBR, 1, 1)]),
      (1, [(IntALU, 1, 1), (IntMULT, 4, 1), (IntDIV, 13, 12)]),
      (1, [(RdPort, 4, 1), (WrPort, 4, 1)]),
      (1, [(FpBR, 3, 1), (FloatADD, 3, 1), (FloatCMP, 3, 1), (FloatCVT, 3, 1)]),
      (1, [(FloatMULT, 4, 1), (FloatDIV, 4, 1), (FloatSQRT, 4, 1)])]"

definition MAX_INSTS_PER_CLASS :: nat where "MAX_INSTS_PER_CLASS = 16"

text \<open>The instance table, and the units that can execute a class.\<close>

definition res_create_pool :: "res_desc list \<Rightarrow> res_template list list option" where
  "res_create_pool pool =
     (if list_ex (\<lambda>d. MAX_INSTS_PER_CLASS < fst d) pool then None
      else Some (concat (map (\<lambda>d. replicate (fst d) (snd d)) pool)))"

definition res_table :: "res_template list list \<Rightarrow> md_fu_class \<Rightarrow> nat list" where
  "res_table pool cl =
     concat (map (\<lambda>i. map (\<lambda>_. i) (filter (\<lambda>t. fst t = cl) (pool ! i))) [0..<length pool])"

definition fu_pool :: "res_template list list" where
  "fu_pool = the (res_create_pool fu_config)"

definition num_fu :: nat where "num_fu = length fu_pool"

definition resource_init :: "godson2_cpu \<Rightarrow> godson2_cpu" where
  "resource_init st = upd_pipe (\<lambda>p. p\<lparr>fu_busy := (\<lambda>_. False), fu_alloc_stamp := (\<lambda>_. 0)\<rparr>) (st\<lparr>res_busy := (\<lambda>_. 0)\<rparr>)"

section \<open>Allocation and release\<close>

text \<open>The first free unit of a class; the inner \<open>None\<close>: none is free.\<close>

definition res_get :: "md_fu_class \<Rightarrow> godson2_cpu \<Rightarrow> nat option option" where
  "res_get cl st =
     (if res_table fu_pool cl = [] then None else Some (find (\<lambda>i. res_busy st i = 0) (res_table fu_pool cl)))"

text \<open>The unit of the class that has not been allocated for the longest time.\<close>

definition res_alloc :: "md_fu_class \<Rightarrow> 32 word \<Rightarrow> godson2_cpu \<Rightarrow> (nat \<times> 32 word \<times> godson2_cpu) option" where
  "res_alloc cl stamp st =
     (case res_table fu_pool cl of
        [] \<Rightarrow> None
      | i # is \<Rightarrow>
          let older = (\<lambda>j fu. if fu_alloc_stamp (pipe st) j < fu_alloc_stamp (pipe st) fu then j else fu);
              fu = fold older is i
          in Some (fu, stamp + 1, upd_pipe (\<lambda>p. p\<lparr>fu_alloc_stamp := (fu_alloc_stamp p)(fu := stamp)\<rparr>) st))"

definition release_fu :: "godson2_cpu \<Rightarrow> godson2_cpu" where
  "release_fu st =
     fold (\<lambda>i st. if 0 < res_busy st i then st\<lparr>res_busy := (res_busy st)(i := res_busy st i - 1)\<rparr> else st) [0..<num_fu] st"

definition is_intq_op :: "md_opcode \<Rightarrow> bool" where
  "is_intq_op op \<longleftrightarrow> MD_OP_FUCLASS op \<in> {IntALU, IntBR, IntMULT, IntDIV, RdPort, WrPort}"

definition fu_oplat :: "nat \<Rightarrow> md_fu_class \<Rightarrow> int" where
  "fu_oplat i cl = (case find (\<lambda>t. fst t = cl) (fu_pool ! i) of None \<Rightarrow> 0 | Some t \<Rightarrow> fst (snd t))"

definition fu_issuelat :: "nat \<Rightarrow> md_fu_class \<Rightarrow> int" where
  "fu_issuelat i cl = (case find (\<lambda>t. fst t = cl) (fu_pool ! i) of None \<Rightarrow> 0 | Some t \<Rightarrow> snd (snd t))"

section \<open>Lemmas\<close>

lemma fu_pool_units:
  "fu_pool = map snd fu_config" "num_fu = 5"
  by (simp_all add: num_fu_def fu_pool_def res_create_pool_def fu_config_def MAX_INSTS_PER_CLASS_def)

lemma res_table_class: "i \<in> set (res_table fu_pool cl) \<longleftrightarrow> i < num_fu \<and> cl \<in> fst ` set (fu_pool ! i)"
  by (fastforce simp: res_table_def num_fu_def)

lemma oldest_fold:
  fixes f :: "nat \<Rightarrow> 32 word"
  shows "fold (\<lambda>j k. if f j < f k then j else k) is i \<in> set (i # is) \<and>
    (\<forall>j\<in>set (i # is). f (fold (\<lambda>j k. if f j < f k then j else k) is i) \<le> f j)"
proof (induction "is" arbitrary: i)
  case (Cons k ks)
  show ?case
    using Cons [of "if f k < f i then k else i"] by (cases "f k < f i") (auto intro: order_trans less_imp_le)
qed simp

text \<open>An instruction gets a unit that executes its class, one of those that were allocated longest ago, and
  nothing but the stamp of that unit changes; a class of operation no unit executes is refused.\<close>

theorem res_alloc_oldest:
  "(case res_alloc cl stamp st of
      None \<Rightarrow> \<forall>i<num_fu. cl \<notin> fst ` set (fu_pool ! i)
    | Some (fu, stamp', st') \<Rightarrow>
        fu < num_fu \<and> cl \<in> fst ` set (fu_pool ! fu) \<and>
        (\<forall>i<num_fu. cl \<notin> fst ` set (fu_pool ! i) \<or> fu_alloc_stamp (pipe st) fu \<le> fu_alloc_stamp (pipe st) i) \<and>
        stamp' = stamp + 1 \<and>
        st' = st\<lparr>pipe := (pipe st)\<lparr>fu_alloc_stamp := (fu_alloc_stamp (pipe st))(fu := stamp)\<rparr>\<rparr>)"
proof (cases "res_table fu_pool cl")
  case Nil
  then show ?thesis using res_table_class [of _ cl] by (auto simp: res_alloc_def)
next
  case (Cons i "is")
  define fu where "fu = fold (\<lambda>j k. if fu_alloc_stamp (pipe st) j < fu_alloc_stamp (pipe st) k then j else k) is i"
  have "fu \<in> set (res_table fu_pool cl)"
    and "\<forall>j\<in>set (res_table fu_pool cl). fu_alloc_stamp (pipe st) fu \<le> fu_alloc_stamp (pipe st) j"
    using oldest_fold [of "fu_alloc_stamp (pipe st)" "is" i] Cons by (auto simp: fu_def)
  moreover have "res_alloc cl stamp st = Some (fu, stamp + 1,
      st\<lparr>pipe := (pipe st)\<lparr>fu_alloc_stamp := (fu_alloc_stamp (pipe st))(fu := stamp)\<rparr>\<rparr>)"
    by (simp add: res_alloc_def Cons fu_def upd_pipe_def Let_def)
  ultimately show ?thesis by (auto simp: res_table_class)
qed

text \<open>Every operation of the program has a unit, except those of no class.\<close>

lemma res_alloc_some:
  assumes "cl \<noteq> FUClass_NA"
  obtains fu st' where "res_alloc cl stamp st = Some (fu, stamp + 1, st')" "fu < num_fu"
    "st' = st\<lparr>pipe := (pipe st)\<lparr>fu_alloc_stamp := (fu_alloc_stamp (pipe st))(fu := stamp)\<rparr>\<rparr>"
proof -
  have "\<exists>i<num_fu. cl \<in> fst ` set (fu_pool ! i)"
  proof -
    have "cl \<in> fst ` set (fu_pool ! 0) \<union> fst ` set (fu_pool ! 1) \<union> fst ` set (fu_pool ! 2) \<union> fst ` set (fu_pool ! 3) \<union>
      fst ` set (fu_pool ! 4)"
      using assms by (cases cl) (auto simp: fu_pool_units fu_config_def)
    then show ?thesis unfolding fu_pool_units(2) by (elim UnE) (rule exI, rule conjI [rotated], assumption, simp)+
  qed
  then show thesis
    using res_alloc_oldest [where cl = cl and stamp = stamp and st = st] that by (cases "res_alloc cl stamp st") auto
qed

end
