(* ===== verification/Issue.thy ===== *)
theory Issue
  imports Resources
begin

text \<open>
  Issue and write-back (issue.c, the first half of writeback.c): a ready queue per functional unit in program
  order, the issue of one instruction per unit and cycle, the queue of completion events, and the write-back
  that wakes the instructions waiting for a result. \<open>None\<close>: a panic, a failed assertion or no free link. A
  link is valid while its tag is the tag of its instruction. Sequence numbers are natural numbers. All cores
  have a data cache (\<open>st->dcache\<close> is never NULL). Printing and the fields for traces are left out.
\<close>

section \<open>Links\<close>

definition RSLINK_VALID :: "godson2_cpu \<Rightarrow> RS_link \<Rightarrow> bool" where
  "RSLINK_VALID st l \<longleftrightarrow> link_tag l = rs_tag (insts st (link_rs l))"

definition OPERANDS_READY :: "inst_descript \<Rightarrow> bool" where
  "OPERANDS_READY i \<longleftrightarrow> rs_idep_ready i 0 \<and> rs_idep_ready i 1 \<and> rs_idep_ready i 2"

text \<open>\<open>RSLINK_NEW\<close> takes a link from the free list, \<open>RSLINK_FREE\<close> returns one.\<close>

definition RSLINK_NEW :: "nat \<Rightarrow> godson2_cpu \<Rightarrow> (RS_link \<times> godson2_cpu) option" where
  "RSLINK_NEW rs st =
     (if rslink_free st = 0 then None
      else Some (\<lparr>link_rs = rs, link_tag = rs_tag (insts st rs), link_when = 0, link_seq = 0, link_opnum = 0\<rparr>,
                 st\<lparr>rslink_free := rslink_free st - 1\<rparr>))"

definition RSLINK_FREE :: "godson2_cpu \<Rightarrow> godson2_cpu" where
  "RSLINK_FREE st = st\<lparr>rslink_free := rslink_free st + 1\<rparr>"

section \<open>Ready queues\<close>

definition set_ready_queue :: "nat \<Rightarrow> RS_link list \<Rightarrow> godson2_cpu \<Rightarrow> godson2_cpu" where
  "set_ready_queue k q = upd_pipe (\<lambda>p. p\<lparr>ready_queue := (ready_queue p)(k := q)\<rparr>)"

definition readyq_enqueue :: "nat \<Rightarrow> godson2_cpu \<Rightarrow> godson2_cpu option" where
  "readyq_enqueue rs st =
     (let fu = rs_fu_master (insts st rs);
          st = upd_inst rs (\<lambda>i. i\<lparr>rs_queued := True\<rparr>) st
      in do { (l, st) \<leftarrow> RSLINK_NEW rs st;
              let l = l\<lparr>link_seq := rs_seq (insts st rs)\<rparr>;
              let older = (\<lambda>n. link_seq n < rs_seq (insts st rs));
              let q = ready_queue (pipe st) fu;
              Some (set_ready_queue fu (takeWhile older q @ l # dropWhile older q) st) })"

definition add_issue_num :: "bool \<Rightarrow> int \<Rightarrow> godson2_cpu \<Rightarrow> godson2_cpu" where
  "add_issue_num intq d =
     upd_pipe (\<lambda>p. if intq then p\<lparr>int_issue_num := int_issue_num p + d\<rparr> else p\<lparr>fp_issue_num := fp_issue_num p + d\<rparr>)"

definition issue_enqueue :: "nat \<Rightarrow> godson2_cpu \<Rightarrow> godson2_cpu option" where
  "issue_enqueue rs st =
     (let st = upd_inst rs (\<lambda>i. i\<lparr>rs_queued := True\<rparr>) st;
          st = add_issue_num (rs_in_intq (insts st rs)) 1 st
      in if rs_all_ready (insts st rs) then readyq_enqueue rs st else Some st)"

text \<open>The first valid entry of a ready queue; invalid ones before it are freed.\<close>

definition next_valid_node :: "nat \<Rightarrow> godson2_cpu \<Rightarrow> RS_link option \<times> godson2_cpu" where
  "next_valid_node k st =
     (let q = ready_queue (pipe st) k;
          squashed = takeWhile (\<lambda>l. \<not> RSLINK_VALID st l) q;
          rest = dropWhile (\<lambda>l. \<not> RSLINK_VALID st l) q
      in (case rest of [] \<Rightarrow> None | l # _ \<Rightarrow> Some l,
          set_ready_queue k rest (st\<lparr>rslink_free := rslink_free st + length squashed\<rparr>)))"

definition delete_node :: "RS_link \<Rightarrow> nat \<Rightarrow> godson2_cpu \<Rightarrow> godson2_cpu option" where
  "delete_node n k st =
     (let q = ready_queue (pipe st) k
      in if n \<in> set q then Some (RSLINK_FREE (set_ready_queue k (remove1 n q) st)) else None)"

definition issue_stage_init :: "godson2_cpu \<Rightarrow> godson2_cpu" where
  "issue_stage_init st =
     upd_pipe (\<lambda>p. p\<lparr>int_issue_num := 0, fp_issue_num := 0,
         ready_queue := (\<lambda>k. if k < num_fu then [] else ready_queue p k),
         next_issue_item := (\<lambda>k. if k < num_fu then None else next_issue_item p k)\<rparr>)
       (st\<lparr>counters := (\<lambda>c. case c of OfIssue (fu_inst_num k) \<Rightarrow> if k < num_fu then 0 else counters st c | _ \<Rightarrow> counters st c)\<rparr>)"

section \<open>The issue stage\<close>

text \<open>Access counters of the power model.\<close>

fun issue_counters :: "md_fu_class \<Rightarrow> counter list" where
  "issue_counters IntALU = [OfIssue fix_issue_access, OfIssue fix_add_access]"
| "issue_counters IntBR = [OfIssue fix_issue_access, OfIssue fix_br_access]"
| "issue_counters RdPort = [OfIssue fix_issue_access, OfIssue fix_mem_access]"
| "issue_counters WrPort = [OfIssue fix_issue_access, OfIssue fix_mem_access]"
| "issue_counters IntMULT = [OfIssue fix_issue_access, OfIssue fix_mult_access]"
| "issue_counters IntDIV = [OfIssue fix_issue_access, OfIssue fix_div_access]"
| "issue_counters FloatADD = [OfIssue fp_issue_access, OfIssue fp_add_access]"
| "issue_counters FpBR = [OfIssue fp_issue_access, OfIssue fp_br_access]"
| "issue_counters FloatCMP = [OfIssue fp_issue_access, OfIssue fp_cmp_access]"
| "issue_counters FloatCVT = [OfIssue fp_issue_access, OfIssue fp_cvt_access]"
| "issue_counters FloatMULT = [OfIssue fp_issue_access, OfIssue fp_mult_access]"
| "issue_counters FloatDIV = [OfIssue fp_issue_access, OfIssue fp_div_access]"
| "issue_counters _ = []"

text \<open>An instruction goes to its unit; a division sets the latencies of its template before they are used.\<close>

definition issue_inst :: "tick_t \<Rightarrow> nat \<Rightarrow> RS_link \<Rightarrow> godson2_cpu \<Rightarrow> godson2_cpu option" where
  "issue_inst now k node st =
     (let rs = link_rs node; i = insts st rs; m = rs_fu_master i; cl = rs_fu_class i
      in if m \<noteq> k then None
         else let st = upd_inst rs (\<lambda>i. i\<lparr>rs_issued := True, rs_queued := False\<rparr>) st;
                  st = (if cl = IntDIV then upd_pipe (\<lambda>p. p\<lparr>fu_busy := (fu_busy p)((m, cl) := True)\<rparr>) st else st);
                  oplat = (if cl = IntDIV then rs_div_delay i + 1 else fu_oplat m cl);
                  issuelat = (if cl = IntDIV then 1 else fu_issuelat m cl);
                  st = fold bump (issue_counters cl) st;
                  st = st\<lparr>res_busy := (res_busy st)(m := issuelat)\<rparr>
              in do { st \<leftarrow> (if F_MEM (rs_op i) then lsq_issue rs st else eventq_queue_event now rs (now + oplat) st);
                      delete_node node k
                        (add_issue_num (rs_in_intq i) (- 1) (bump (OfIssue (fu_inst_num k)) (bump (OfIssue sim_issue_insn) st))) })"

text \<open>The chosen entry of a unit: with bypass the first valid one of its queue, without bypass the one marked in
  the cycle before.\<close>

definition chosen_node :: "nat \<Rightarrow> godson2_cpu \<Rightarrow> RS_link option \<times> godson2_cpu" where
  "chosen_node k st =
     (if sim_has_bypass (pipe st) then next_valid_node k st
      else case next_issue_item (pipe st) k of
             Some l \<Rightarrow> if RSLINK_VALID st l then (Some l, st)
                       else (None, upd_pipe (\<lambda>p. p\<lparr>next_issue_item := (next_issue_item p)(k := None)\<rparr>) st)
           | None \<Rightarrow> (None, st))"

definition rechoose :: "nat \<Rightarrow> godson2_cpu \<Rightarrow> godson2_cpu" where
  "rechoose k st =
     (if sim_has_bypass (pipe st) then st
      else let (node, st) = next_valid_node k st;
               st = upd_pipe (\<lambda>p. p\<lparr>next_issue_item := (next_issue_item p)(k := node)\<rparr>) st
           in case node of None \<Rightarrow> st | Some l \<Rightarrow> upd_inst (link_rs l) (\<lambda>i. i\<lparr>rs_next_issue := True\<rparr>) st)"

definition issue_unit :: "tick_t \<Rightarrow> nat \<Rightarrow> godson2_cpu \<Rightarrow> godson2_cpu option" where
  "issue_unit now k st =
     (let (node, st) = chosen_node k st
      in do { st \<leftarrow> (case node of
                None \<Rightarrow> Some st
              | Some l \<Rightarrow>
                  let rs = link_rs l; i = insts st rs
                  in if \<not> OPERANDS_READY i \<or> \<not> rs_queued i \<or> rs_issued i \<or> rs_completed i then None
                     else map_option (upd_inst rs (\<lambda>i. i\<lparr>rs_next_issue := False\<rparr>))
                            (if res_busy st (rs_fu_master i) = 0 \<and> \<not> fu_busy (pipe st) (rs_fu_master i, rs_fu_class i)
                             then issue_inst now k l st else Some st));
              Some (rechoose k st) })"

definition issue_stage :: "tick_t \<Rightarrow> godson2_cpu \<Rightarrow> godson2_cpu option" where
  "issue_stage now st = fold_opt (issue_unit now) [0..<num_fu] st"

section \<open>Completion events\<close>

definition eventq_init :: "godson2_cpu \<Rightarrow> godson2_cpu" where
  "eventq_init st = st\<lparr>event_queue := []\<rparr>"

text \<open>The first due event of an instruction that has not been squashed; due events of squashed ones before it
  are dropped.\<close>

fun next_due :: "tick_t \<Rightarrow> (RS_link \<Rightarrow> bool) \<Rightarrow> RS_link list \<Rightarrow> RS_link list \<times> nat option" where
  "next_due now valid [] = ([], None)"
| "next_due now valid (e # es) =
     (if link_when e \<le> now then if valid e then (es, Some (link_rs e)) else next_due now valid es
      else (e # es, None))"

definition eventq_next_event :: "tick_t \<Rightarrow> godson2_cpu \<Rightarrow> nat option \<times> godson2_cpu" where
  "eventq_next_event now st =
     (let (q, r) = next_due now (RSLINK_VALID st) (event_queue st);
          st = st\<lparr>event_queue := q, rslink_free := rslink_free st + (length (event_queue st) - length q)\<rparr>
      in (r, case r of None \<Rightarrow> st
             | Some rs \<Rightarrow> upd_pipe (\<lambda>p. p\<lparr>fu_busy := (fu_busy p)
                 ((rs_fu_master (insts st rs), rs_fu_class (insts st rs)) := False)\<rparr>) st))"

section \<open>The write-back stage\<close>

text \<open>One waiting instruction of a result. The flag \<open>all_ready\<close> is set in the producer \<open>rs\<close>.\<close>

definition wake :: "nat \<Rightarrow> RS_link \<Rightarrow> godson2_cpu \<Rightarrow> godson2_cpu option" where
  "wake rs l st =
     (let w = link_rs l
      in map_option RSLINK_FREE
        (if \<not> RSLINK_VALID st l then Some st
         else if rs_idep_ready (insts st w) (link_opnum l) then None
         else let st = upd_inst w (\<lambda>i. i\<lparr>rs_idep_ready := (rs_idep_ready i)(link_opnum l := True)\<rparr>) st
              in if OPERANDS_READY (insts st w) \<and> rs_mapped (insts st w)
                 then readyq_enqueue w (upd_inst rs (\<lambda>i. i\<lparr>rs_all_ready := True\<rparr>) st) else Some st))"

definition broadcast :: "nat \<Rightarrow> nat \<Rightarrow> godson2_cpu \<Rightarrow> godson2_cpu option" where
  "broadcast rs k st =
     (if rs_onames (insts st rs) k = 0 then Some st
      else let st = update_create_vector rs st
           in map_option (upd_inst rs (\<lambda>i. i\<lparr>rs_odep_list := (rs_odep_list i)(k := [])\<rparr>))
                (fold_opt (wake rs) (rs_odep_list (insts st rs) k) st))"

definition complete :: "nat \<Rightarrow> godson2_cpu \<Rightarrow> godson2_cpu" where
  "complete rs st =
     (let op = rs_op (insts st rs)
      in if F_CTRL op then upd_inst rs (\<lambda>i. i\<lparr>rs_brcompleted := True\<rparr>) st
         else let st = upd_inst rs (\<lambda>i. i\<lparr>rs_completed := True\<rparr>) st;
                  st = (if F_ICOMP op then bump (OfRetire fix_wb_access) st
                        else if F_FCOMP op then bump (OfRetire fp_wb_access) st
                        else if F_MEM op then bump (OfRetire lsq_wb_access) (bump (OfRetire fix_wb_access) st) else st)
              in if F_MEM op then upd_lsq (rs_lsqid (insts st rs)) (\<lambda>e. e\<lparr>lsq_state := LSQ_WRITEBACK\<rparr>) st else st)"

definition writeback_inst :: "nat \<Rightarrow> godson2_cpu \<Rightarrow> godson2_cpu option" where
  "writeback_inst rs st =
     (let i = insts st rs
      in if \<not> OPERANDS_READY i \<or> rs_queued i \<or> \<not> rs_issued i \<or> rs_completed i then None
         else fold_opt (broadcast rs) [0..<MAX_ODEPS] (complete rs (bump (OfRetire sim_writeback_insn) st)))"

text \<open>Writing back adds no event, so the loop ends.\<close>

lemma event_queue_frame [simp]:
  "event_queue (upd_pipe f st) = event_queue st" "event_queue (upd_inst rs g st) = event_queue st"
  "event_queue (bump c st) = event_queue st" "event_queue (upd_lsq k h st) = event_queue st"
  "event_queue (RSLINK_FREE st) = event_queue st" "event_queue (set_ready_queue k q st) = event_queue st"
  by (simp_all add: upd_pipe_def upd_inst_def bump_def upd_lsq_def RSLINK_FREE_def set_ready_queue_def)

lemma readyq_enqueue_events: "readyq_enqueue rs st = Some st' \<Longrightarrow> event_queue st' = event_queue st"
  by (auto simp: readyq_enqueue_def RSLINK_NEW_def Let_def split: if_splits)

lemma wake_events: "wake rs l st = Some st' \<Longrightarrow> event_queue st' = event_queue st"
  using readyq_enqueue_events by (fastforce simp: wake_def Let_def split: if_splits)

lemma update_create_vector_events [simp]: "event_queue (update_create_vector rs st) = event_queue st"
  by (simp add: update_create_vector_def MAX_ODEPS_def forget_output_def upt_rec Let_def)

lemma fold_opt_keeps:
  assumes "\<And>x s s'. f x s = Some s' \<Longrightarrow> g s' = g s" and "fold_opt f xs s = Some s'"
  shows "g s' = g s"
  by (rule fold_opt_invariant [of xs "\<lambda>t. g t = g s" f s]) (use assms in \<open>auto simp: assms(1)\<close>)

lemma broadcast_events: "broadcast rs k st = Some st' \<Longrightarrow> event_queue st' = event_queue st"
  using fold_opt_keeps [of "wake rs" event_queue, OF wake_events]
  by (fastforce simp: broadcast_def Let_def split: if_splits)

lemma writeback_inst_events: "writeback_inst rs st = Some st' \<Longrightarrow> event_queue st' = event_queue st"
proof -
  have c: "event_queue (complete rs (bump (OfRetire sim_writeback_insn) st)) = event_queue st"
    by (simp add: complete_def Let_def)
  assume "writeback_inst rs st = Some st'"
  then have "fold_opt (broadcast rs) [0..<MAX_ODEPS] (complete rs (bump (OfRetire sim_writeback_insn) st)) = Some st'"
    by (simp add: writeback_inst_def Let_def split: if_splits)
  then show ?thesis
    using fold_opt_keeps [of "broadcast rs" event_queue, OF broadcast_events] c by fastforce
qed

lemma next_due_shorter: "next_due now v es = (q, Some rs) \<Longrightarrow> length q < length es"
  by (induction es) (auto split: if_splits)

lemma eventq_next_event_shorter:
  "eventq_next_event now st = (Some rs, st') \<Longrightarrow> length (event_queue st') < length (event_queue st)"
  using next_due_shorter [of now "RSLINK_VALID st" "event_queue st"]
  by (auto simp: eventq_next_event_def Let_def split: prod.splits)

function writeback_stage :: "tick_t \<Rightarrow> godson2_cpu \<Rightarrow> godson2_cpu option" where
  "writeback_stage now st =
     (case eventq_next_event now st of
        (None, st) \<Rightarrow> Some st
      | (Some rs, st) \<Rightarrow> (case writeback_inst rs st of None \<Rightarrow> None | Some st \<Rightarrow> writeback_stage now st))"
  by auto

termination
  by (relation "measure (\<lambda>(now, st). length (event_queue st))")
    (auto dest!: eventq_next_event_shorter [OF sym] dest: writeback_inst_events)

declare writeback_stage.simps [simp del]

end
