(* ===== verification/Bpred.thy ===== *)
theory Bpred
  imports Insts
begin

unbundle bit_operations_syntax

text \<open>
  The branch predictor (bpred.c): its creation, the two-level and the bimodal direction tables, the branch
  target buffer, the return-address stack, prediction at fetch (\<open>bpred_lookup_godson\<close>) and the original
  \<open>bpred_lookup\<close>, the update when a branch resolves, recovery, and the fast update of functional
  simulation. \<open>None\<close>: a call of \<open>fatal\<close> or \<open>panic\<close>, a NULL pointer or an access outside a table. The macros
  \<open>PARTIAL_BTB\<close> and \<open>RAS_BUG_COMPATIBLE\<close> are not defined in the sources. Sizes and indices are 32-bit words,
  the fields of the return-address stack integers; a block of zeroes from \<open>calloc\<close> has opcode number 0,
  which is \<open>OP_NA\<close>.
\<close>

section \<open>Creation\<close>

definition MAX_L1_SIZE :: "32 word" where "MAX_L1_SIZE = 1"

definition power_of_two :: "32 word \<Rightarrow> bool" where
  "power_of_two n \<longleftrightarrow> n \<noteq> 0 \<and> n AND (n - 1) = 0"

definition zero_btb :: bpred_btb_ent_t where
  "zero_btb = \<lparr>btb_addr = 0, btb_op = OP_NA, btb_target = 0, btb_prev = None, btb_next = None\<rparr>"

definition zero_dir :: "bpred_class \<Rightarrow> bpred_dir_t" where
  "zero_dir cl = \<lparr>dir_class = cl, bimod_size = 0, bimod_table = [], l1size = 0, l2size = 0, shift_width = 0,
     shift_mask = 0, xor_flag = 0, shiftregs = [], l2table = []\<rparr>"

definition zero_stats :: bpred_stats_t where
  "zero_stats = \<lparr>addr_hits = 0, dir_hits = 0, used_ras = 0, used_bimod = 0, used_2lev = 0, jr_hits = 0,
     jr_seen = 0, jr_non_ras_hits = 0, jr_non_ras_seen = 0, bp_misses = 0, lookups = 0, retstack_pops = 0,
     retstack_pushes = 0, ras_hits = 0\<rparr>"

text \<open>The counters of the bimodal table alternate between weakly not taken and weakly taken.\<close>

definition bpred_dir_create ::
  "bpred_class \<Rightarrow> 32 word \<Rightarrow> 32 word \<Rightarrow> 32 word \<Rightarrow> 32 word \<Rightarrow> bpred_dir_t option" where
  "bpred_dir_create cl l1 l2 width xr =
     (case cl of
        BPred2Level \<Rightarrow>
          if \<not> power_of_two l1 \<or> l1 > MAX_L1_SIZE \<or> \<not> power_of_two l2 \<or> width = 0 \<or> width > 30 then None
          else Some ((zero_dir cl)\<lparr>l1size := l1, l2size := l2, shift_width := width,
                 shift_mask := push_bit (unat width) 1 - 1, xor_flag := xr,
                 shiftregs := replicate (unat l1) 0, l2table := replicate (unat l2) 0\<rparr>)
      | BPred2bit \<Rightarrow>
          if \<not> power_of_two l1 then None
          else Some ((zero_dir cl)\<lparr>bimod_size := l1,
                 bimod_table := map (\<lambda>i. if even i then 1 else 2) [0..<unat l1]\<rparr>)
      | BPredTaken \<Rightarrow> Some (zero_dir cl)
      | BPredNotTaken \<Rightarrow> Some (zero_dir cl)
      | BPredComb \<Rightarrow> None)"

text \<open>The entries of a set are chained in both directions; with one entry per set nothing is initialised.\<close>

definition btb_create :: "nat \<Rightarrow> nat \<Rightarrow> bpred_btb_ent_t list" where
  "btb_create n_all assoc_n =
     (if assoc_n > 1
      then map (\<lambda>i. zero_btb\<lparr>btb_addr := 0xFFFFFFFF,
             btb_next := (if i mod assoc_n \<noteq> assoc_n - 1 then Some (i + 1) else None),
             btb_prev := (if i mod assoc_n \<noteq> 0 then Some (i - 1) else None)\<rparr>) [0..<n_all]
      else replicate n_all zero_btb)"

definition bpred_create ::
  "bpred_class \<Rightarrow> 32 word \<Rightarrow> 32 word \<Rightarrow> 32 word \<Rightarrow> 32 word \<Rightarrow> 32 word \<Rightarrow> 32 word \<Rightarrow> 32 word \<Rightarrow> 32 word
     \<Rightarrow> 32 word \<Rightarrow> bpred_t option" where
  "bpred_create cl bimod_n l1 l2 meta_n width xr n_sets n_assoc stack_n =
     (let p = \<lparr>bp_class = cl, bimod = None, twolev = None, meta = None, btb_sets = 0, btb_assoc = 0, btb_data = [],
               ras_size = 0, ras_tos = 0, ras_stack = [], bp_stats = zero_stats, bp_backup = zero_stats\<rparr>
      in do { p \<leftarrow> (case cl of
                BPredComb \<Rightarrow> do { b \<leftarrow> bpred_dir_create BPred2bit bimod_n 0 0 0;
                                 t \<leftarrow> bpred_dir_create BPred2Level l1 l2 width xr;
                                 m \<leftarrow> bpred_dir_create BPred2bit meta_n 0 0 0;
                                 Some (p\<lparr>bimod := Some b, twolev := Some t, meta := Some m\<rparr>) }
              | BPred2Level \<Rightarrow> map_option (\<lambda>t. p\<lparr>twolev := Some t\<rparr>) (bpred_dir_create cl l1 l2 width xr)
              | BPred2bit \<Rightarrow> map_option (\<lambda>b. p\<lparr>bimod := Some b\<rparr>) (bpred_dir_create cl bimod_n 0 0 0)
              | _ \<Rightarrow> Some p);
              if cl \<in> {BPredTaken, BPredNotTaken} then Some p
              else if \<not> power_of_two n_sets \<or> \<not> power_of_two n_assoc \<or> stack_n AND (stack_n - 1) \<noteq> 0 then None
              else Some (p\<lparr>btb_sets := n_sets, btb_assoc := n_assoc,
                     btb_data := btb_create (unat (n_sets * n_assoc)) (unat n_assoc),
                     ras_size := uint stack_n, ras_tos := uint stack_n - 1,
                     ras_stack := replicate (unat stack_n) zero_btb\<rparr>) })"

section \<open>Direction tables\<close>

definition MD_BR_SHIFT :: nat where "MD_BR_SHIFT = 2"

definition BIMOD_HASH :: "bpred_dir_t \<Rightarrow> md_addr_t \<Rightarrow> nat" where
  "BIMOD_HASH d addr = unat ((drop_bit 19 addr XOR drop_bit MD_BR_SHIFT addr) AND (bimod_size d - 1))"

text \<open>The eight counters of a fetch line are neighbours; the line is found by its address and the history.\<close>

definition l2_index :: "bpred_dir_t \<Rightarrow> md_addr_t \<Rightarrow> nat" where
  "l2_index d baddr =
     (let l2 = (drop_bit 5 baddr XOR shiftregs d ! 0) AND shift_mask d;
          l2 = push_bit 3 l2 + drop_bit 2 (baddr AND 0x1F)
      in unat (l2 AND (l2size d - 1)))"

text \<open>The counter's index in the table of the direction predictor, or NULL.\<close>

definition bpred_dir_lookup :: "bpred_dir_t \<Rightarrow> md_addr_t \<Rightarrow> nat option option" where
  "bpred_dir_lookup d baddr =
     (case dir_class d of
        BPred2Level \<Rightarrow> Some (Some (l2_index d baddr))
      | BPred2bit \<Rightarrow> Some (Some (BIMOD_HASH d baddr))
      | BPredTaken \<Rightarrow> Some None
      | BPredNotTaken \<Rightarrow> Some None
      | BPredComb \<Rightarrow> None)"

definition which_dir :: "dir_table \<Rightarrow> bpred_t \<Rightarrow> bpred_dir_t option" where
  "which_dir t p = (case t of InBimod \<Rightarrow> bimod p | InTwolev \<Rightarrow> twolev p | InMeta \<Rightarrow> meta p)"

definition set_dir :: "dir_table \<Rightarrow> bpred_dir_t \<Rightarrow> bpred_t \<Rightarrow> bpred_t" where
  "set_dir t d p = (case t of InBimod \<Rightarrow> p\<lparr>bimod := Some d\<rparr> | InTwolev \<Rightarrow> p\<lparr>twolev := Some d\<rparr>
     | InMeta \<Rightarrow> p\<lparr>meta := Some d\<rparr>)"

definition dir_counters :: "bpred_dir_t \<Rightarrow> 8 word list" where
  "dir_counters d = (if dir_class d = BPred2Level then l2table d else bimod_table d)"

text \<open>\<open>*p\<close> and \<open>*p = v\<close> for a pointer to a counter.\<close>

definition read_counter :: "dir_table \<times> nat \<Rightarrow> bpred_t \<Rightarrow> 8 word option" where
  "read_counter ptr p =
     (case which_dir (fst ptr) p of
        None \<Rightarrow> None
      | Some d \<Rightarrow> if snd ptr < length (dir_counters d) then Some (dir_counters d ! snd ptr) else None)"

definition write_counter :: "dir_table \<times> nat \<Rightarrow> 8 word \<Rightarrow> bpred_t \<Rightarrow> bpred_t option" where
  "write_counter ptr v p =
     (case which_dir (fst ptr) p of
        None \<Rightarrow> None
      | Some d \<Rightarrow>
          if snd ptr < length (dir_counters d)
          then Some (set_dir (fst ptr)
                 (if dir_class d = BPred2Level then d\<lparr>l2table := (l2table d)[snd ptr := v]\<rparr>
                  else d\<lparr>bimod_table := (bimod_table d)[snd ptr := v]\<rparr>) p)
          else None)"

text \<open>The counter is a \<open>char\<close>; it predicts taken from 2 on.\<close>

definition predicts_taken :: "8 word \<Rightarrow> bool" where
  "predicts_taken c \<longleftrightarrow> 2 \<le> sint c"

definition bump_stat :: "(bpred_stats_t \<Rightarrow> bpred_stats_t) \<Rightarrow> bpred_t \<Rightarrow> bpred_t" where
  "bump_stat f p = p\<lparr>bp_stats := f (bp_stats p)\<rparr>"

section \<open>Prediction at fetch\<close>

text \<open>The tag of an address and the first entry of its set.\<close>

definition btb_index :: "bpred_t \<Rightarrow> md_addr_t \<Rightarrow> 32 word" where
  "btb_index p a = drop_bit 5 a AND (btb_sets p - 1)"

definition btb_tag :: "bpred_t \<Rightarrow> md_addr_t \<Rightarrow> 32 word" where
  "btb_tag p a = drop_bit 5 a div btb_sets p"

text \<open>The search takes the first entry of the set with the tag; without one the predictor uses entry
  \<open>index + assoc - 1\<close>, with \<open>index\<close> the number of the set.\<close>

definition btb_find :: "bpred_t \<Rightarrow> md_addr_t \<Rightarrow> nat option" where
  "btb_find p a =
     (let i = unat (btb_index p a * btb_assoc p)
      in find (\<lambda>j. btb_addr (btb_data p ! j) = btb_tag p a) [i..<i + unat (btb_assoc p)])"

definition btb_entry :: "bpred_t \<Rightarrow> md_addr_t \<Rightarrow> nat" where
  "btb_entry p a =
     (if 1 < sint (btb_assoc p)
      then (case btb_find p a of Some j \<Rightarrow> j | None \<Rightarrow> unat (btb_index p a + btb_assoc p - 1))
      else unat (btb_index p a))"

definition bpred_lookup_godson ::
  "bpred_t \<Rightarrow> md_addr_t \<Rightarrow> bpred_update_t \<Rightarrow> (md_addr_t \<times> bpred_update_t \<times> bpred_t) option" where
  "bpred_lookup_godson p curpc u =
     (let p = bump_stat (\<lambda>s. s\<lparr>lookups := lookups s + 1\<rparr>) p;
          u = u\<lparr>dir_ras := False, pdir1 := None, pdir2 := None, pmeta := None\<rparr>
      in case bp_class p of
           BPred2Level \<Rightarrow>
             do { d \<leftarrow> twolev p;
                  k \<leftarrow> bpred_dir_lookup d curpc;
                  let j = btb_entry p curpc;
                  if j < length (btb_data p)
                  then Some (btb_target (btb_data p ! j), u\<lparr>pdir1 := map_option (Pair InTwolev) k\<rparr>, p)
                  else None }
         | BPredNotTaken \<Rightarrow> Some (curpc + 4, u, p)
         | _ \<Rightarrow> None)"

text \<open>A speculative update of the history register when a branch has been decoded.\<close>

definition decode_update_ghr :: "bpred_t \<Rightarrow> bool \<Rightarrow> bpred_t option" where
  "decode_update_ghr p predict =
     map_option (\<lambda>d. p\<lparr>twolev := Some (d\<lparr>shiftregs := (shiftregs d)
       [0 := (push_bit 1 (shiftregs d ! 0) OR of_bool predict) AND shift_mask d]\<rparr>)\<rparr>) (twolev p)"

section \<open>Prediction of one branch\<close>

text \<open>The direction part of \<open>bpred_lookup\<close> for a conditional branch.\<close>

definition lookup_dir ::
  "bpred_t \<Rightarrow> md_addr_t \<Rightarrow> bpred_update_t \<Rightarrow> (bpred_update_t \<times> bpred_t) option" where
  "lookup_dir p baddr u =
     (case bp_class p of
        BPredComb \<Rightarrow>
          do { db \<leftarrow> bimod p; dt \<leftarrow> twolev p; dm \<leftarrow> meta p;
               b \<leftarrow> bpred_dir_lookup db baddr; t \<leftarrow> bpred_dir_lookup dt baddr; m \<leftarrow> bpred_dir_lookup dm baddr;
               b \<leftarrow> b; t \<leftarrow> t; m \<leftarrow> m;
               bv \<leftarrow> read_counter (InBimod, b) p; tv \<leftarrow> read_counter (InTwolev, t) p;
               mv \<leftarrow> read_counter (InMeta, m) p;
               let u = u\<lparr>pmeta := Some (InMeta, m), dir_meta := predicts_taken mv,
                         dir_bimod := predicts_taken bv, dir_twolev := predicts_taken tv,
                         pdir1 := Some (if predicts_taken mv then (InTwolev, t) else (InBimod, b)),
                         pdir2 := Some (if predicts_taken mv then (InBimod, b) else (InTwolev, t))\<rparr>;
               let l1 = unat (drop_bit MD_BR_SHIFT baddr AND (l1size dt - 1));
               let reg = push_bit 1 (shiftregs dt ! l1) OR
                         of_bool (predicts_taken (if predicts_taken mv then tv else bv));
               Some (u, p\<lparr>twolev := Some (dt\<lparr>shiftregs := (shiftregs dt)
                 [l1 := reg AND (push_bit (unat (shift_width dt)) 1 - 1)]\<rparr>)\<rparr>) }
      | BPred2Level \<Rightarrow>
          do { d \<leftarrow> twolev p; k \<leftarrow> bpred_dir_lookup d baddr;
               Some (u\<lparr>pdir1 := map_option (Pair InTwolev) k\<rparr>, p) }
      | BPred2bit \<Rightarrow>
          do { d \<leftarrow> bimod p; k \<leftarrow> bpred_dir_lookup d baddr;
               Some (u\<lparr>pdir1 := map_option (Pair InBimod) k\<rparr>, p) }
      | _ \<Rightarrow> Some (u, p))"

text \<open>The target buffer as \<open>bpred_lookup\<close> reads it: entries of the set with the full address as tag.\<close>

definition btb_hit :: "bpred_t \<Rightarrow> md_addr_t \<Rightarrow> md_addr_t option" where
  "btb_hit p baddr =
     (let index = drop_bit MD_BR_SHIFT baddr AND (btb_sets p - 1)
      in if 1 < sint (btb_assoc p)
         then (let i = unat (index * btb_assoc p)
               in map_option (\<lambda>j. btb_target (btb_data p ! j))
                    (find (\<lambda>j. btb_addr (btb_data p ! j) = baddr) [i..<i + unat (btb_assoc p)]))
         else if btb_addr (btb_data p ! unat index) = baddr
              then Some (btb_target (btb_data p ! unat index)) else None)"

definition ras_pop :: "bpred_t \<Rightarrow> bpred_t" where
  "ras_pop p = bump_stat (\<lambda>s. s\<lparr>retstack_pops := retstack_pops s + 1\<rparr>)
     (p\<lparr>ras_tos := (ras_tos p + ras_size p - 1) mod ras_size p\<rparr>)"

definition ras_push :: "md_addr_t \<Rightarrow> bpred_t \<Rightarrow> bpred_t" where
  "ras_push ret p =
     (let t = (ras_tos p + 1) mod ras_size p
      in bump_stat (\<lambda>s. s\<lparr>retstack_pushes := retstack_pushes s + 1\<rparr>)
           (p\<lparr>ras_tos := t, ras_stack := (ras_stack p)[nat t := (ras_stack p ! nat t)\<lparr>btb_target := ret\<rparr>]\<rparr>))"

definition bpred_lookup ::
  "bpred_t \<Rightarrow> md_addr_t \<Rightarrow> md_addr_t \<Rightarrow> md_opcode \<Rightarrow> bool \<Rightarrow> bool \<Rightarrow> bpred_update_t \<Rightarrow> int
     \<Rightarrow> (md_addr_t \<times> bpred_update_t \<times> int \<times> bpred_t) option" where
  "bpred_lookup p baddr btarget op is_call is_return u recover_idx =
     (if \<not> F_CTRL op then Some (0, u, recover_idx, p)
      else
        let p = bump_stat (\<lambda>s. s\<lparr>lookups := lookups s + 1\<rparr>) p;
            u = u\<lparr>dir_ras := False, pdir1 := None, pdir2 := None, pmeta := None\<rparr>
        in if bp_class p = BPredTaken then Some (btarget, u, recover_idx, p)
           else if bp_class p = BPredNotTaken
           then Some (if F_UNCOND op then btarget else baddr + 4, u, recover_idx, p)
           else do { (u, p) \<leftarrow> (if F_UNCOND op then Some (u, p) else lookup_dir p baddr u);
                     let recover_idx = (if ras_size p \<noteq> 0 then ras_tos p else 0);
                     d \<leftarrow> twolev p;
                     let u = u\<lparr>recovery_shiftregs := shiftregs d\<rparr>;
                     if is_return \<and> ras_size p \<noteq> 0
                     then Some (btb_target (ras_stack p ! nat (ras_tos p)), u\<lparr>dir_ras := True\<rparr>,
                            ras_tos (ras_pop p), ras_pop p)
                     else do {
                       let p' = (if is_call \<and> ras_size p \<noteq> 0 then ras_push (baddr + 8) p else p);
                       let recover_idx = (if is_call \<and> ras_size p \<noteq> 0 then ras_tos p' else recover_idx);
                       if F_UNCOND op
                       then Some (case btb_hit p' baddr of Some t \<Rightarrow> t | None \<Rightarrow> 1, u, recover_idx, p')
                       else do { ptr \<leftarrow> pdir1 u;
                                 c \<leftarrow> read_counter ptr p';
                                 Some (case btb_hit p' baddr of
                                         None \<Rightarrow> if predicts_taken c then 1 else 0
                                       | Some t \<Rightarrow> if predicts_taken c then t else 0,
                                       u, recover_idx, p') } } })"

section \<open>Update and recovery\<close>

definition bpred_recover :: "bool \<Rightarrow> int \<Rightarrow> bpred_update_t \<Rightarrow> bpred_t \<Rightarrow> bpred_t option" where
  "bpred_recover perfect recover_idx u p =
     map_option (\<lambda>p. if perfect then p else p\<lparr>ras_tos := recover_idx\<rparr>)
       (if bp_class p = BPred2Level
        then map_option (\<lambda>d. p\<lparr>twolev := Some (d\<lparr>shiftregs := (shiftregs d)[0 := recovery_shiftregs u ! 0]\<rparr>)\<rparr>)
               (twolev p)
        else Some p)"

text \<open>The statistics at the start of \<open>bpred_update\<close>; the second component is the early return for a return
  that used the stack.\<close>

definition update_stats :: "inst_descript \<Rightarrow> bpred_stats_t \<Rightarrow> bpred_stats_t" where
  "update_stats i s =
     (let correct = \<not> rs_mis_predict i; u = rs_dir_update i;
          s = (if correct then s\<lparr>addr_hits := addr_hits s + 1\<rparr> else s);
          s = (if rs_pred_taken i = rs_br_taken i then s\<lparr>dir_hits := dir_hits s + 1\<rparr>
               else s\<lparr>bp_misses := bp_misses s + 1\<rparr>);
          s = (if dir_ras u
               then s\<lparr>used_ras := used_ras s + 1, ras_hits := ras_hits s + (if correct then 1 else 0)\<rparr>
               else if F_COND (rs_op i)
               then if dir_meta u then s\<lparr>used_2lev := used_2lev s + 1\<rparr> else s\<lparr>used_bimod := used_bimod s + 1\<rparr>
               else s)
      in if MD_IS_INDIR (rs_op i)
         then let s = s\<lparr>jr_seen := jr_seen s + 1, jr_hits := jr_hits s + (if correct then 1 else 0)\<rparr>
              in if \<not> dir_ras u
                 then s\<lparr>jr_non_ras_seen := jr_non_ras_seen s + 1,
                        jr_non_ras_hits := jr_non_ras_hits s + (if correct then 1 else 0)\<rparr>
                 else s
         else s)"

text \<open>The counter is written from the value that was read at the prediction.\<close>

definition next_counter :: "bool \<Rightarrow> 8 word \<Rightarrow> 8 word option" where
  "next_counter taken st =
     (if taken then if st \<noteq> 3 then Some (st + 1) else None
      else if st \<noteq> 0 then Some (st - 1) else None)"

definition update_btb :: "tick_t \<Rightarrow> md_addr_t \<Rightarrow> md_addr_t \<Rightarrow> md_opcode \<Rightarrow> bpred_t \<Rightarrow> bpred_t option" where
  "update_btb now baddr btarget op p =
     (let j = unat (btb_index p baddr * btb_assoc p + (word_of_int now AND (btb_assoc p - 1)))
      in if j < length (btb_data p)
         then Some (p\<lparr>btb_data := (btb_data p)[j := (btb_data p ! j)
                \<lparr>btb_op := op, btb_addr := btb_tag p baddr, btb_target := btarget\<rparr>]\<rparr>)
         else None)"

definition bpred_update :: "tick_t \<Rightarrow> bool \<Rightarrow> inst_descript \<Rightarrow> bpred_t \<Rightarrow> (inst_descript \<times> bpred_t) option" where
  "bpred_update now perfect i p =
     (let u = rs_dir_update i; op = rs_op i
      in if \<not> F_CTRL op then Some (i, p)
         else
           let p = bump_stat (update_stats i) p
           in if MD_IS_INDIR op \<and> dir_ras u \<or> bp_class p \<in> {BPredNotTaken, BPredTaken} \<or> perfect then Some (i, p)
              else do {
                let u = (if bp_class p \<in> {BPred2Level, BPredComb} \<and> rs_mis_predict i \<and> rs_bht_op i
                         then u\<lparr>recovery_shiftregs := (recovery_shiftregs u)[0 := recovery_shiftregs u ! 0 XOR 1]\<rparr>
                         else u);
                p \<leftarrow> (case if rs_bht_op i then pdir1 u else None of
                        None \<Rightarrow> Some p
                      | Some ptr \<Rightarrow> (case next_counter (rs_br_taken i) (dir_st u) of
                            None \<Rightarrow> Some p | Some v \<Rightarrow> write_counter ptr v p));
                p \<leftarrow> (if rs_mis_predict i \<and> rs_jr_op i \<and> \<not> dir_ras u
                      then update_btb now (rs_PC i) (rs_btarget i) op p else Some p);
                Some (i\<lparr>rs_dir_update := u\<rparr>, p) })"

definition bpred_backup_stats :: "bpred_t \<Rightarrow> bpred_t" where
  "bpred_backup_stats p = p\<lparr>bp_backup := bp_stats p\<rparr>"

definition bpred_restore_stats :: "bpred_t \<Rightarrow> bpred_t" where
  "bpred_restore_stats p = p\<lparr>bp_stats := bp_backup p\<rparr>"

text \<open>The counters \<open>jr_non_ras_hits\<close> and \<open>jr_non_ras_seen\<close> are not reset.\<close>

definition bpred_after_priming :: "bpred_t \<Rightarrow> bpred_t" where
  "bpred_after_priming p =
     p\<lparr>bp_stats := zero_stats\<lparr>jr_non_ras_hits := jr_non_ras_hits (bp_stats p),
                              jr_non_ras_seen := jr_non_ras_seen (bp_stats p)\<rparr>\<rparr>"

section \<open>Fast update\<close>

definition fast_counter :: "bool \<Rightarrow> 8 word \<Rightarrow> 8 word" where
  "fast_counter taken c =
     (if taken then if sint c < 3 then c + 1 else c else if 0 < sint c then c - 1 else c)"

text \<open>The history register is read with a mask of the table size only, not with the mask of its width.\<close>

definition fast_dir :: "md_addr_t \<Rightarrow> bool \<Rightarrow> bpred_t \<Rightarrow> bpred_t option" where
  "fast_dir baddr taken p =
     do { d \<leftarrow> twolev p;
          let l1 = unat (drop_bit MD_BR_SHIFT baddr AND (l1size d - 1));
          let hist = shiftregs d ! l1;
          let d = d\<lparr>shiftregs := (shiftregs d)[l1 := (push_bit 1 hist OR of_bool taken) AND shift_mask d]\<rparr>;
          let k = unat ((push_bit 3 (drop_bit 5 baddr XOR hist) + drop_bit 2 (baddr AND 31)) AND (l2size d - 1));
          if k < length (l2table d)
          then Some (p\<lparr>twolev := Some (d\<lparr>l2table := (l2table d)[k := fast_counter taken (l2table d ! k)]\<rparr>)\<rparr>)
          else None }"

text \<open>The search of the target buffer compares with the whole address although a tag is stored.\<close>

definition fast_btb_hit :: "bpred_t \<Rightarrow> md_addr_t \<Rightarrow> bool" where
  "fast_btb_hit p baddr =
     (let i = unat (btb_index p baddr * btb_assoc p)
      in list_ex (\<lambda>j. btb_addr (btb_data p ! j) = baddr) [i..<i + unat (btb_assoc p)])"

definition bpred_update_fast ::
  "tick_t \<Rightarrow> md_addr_t \<Rightarrow> md_addr_t \<Rightarrow> md_opcode \<Rightarrow> bool \<Rightarrow> bpred_t \<Rightarrow> bpred_t option" where
  "bpred_update_fast now baddr btarget op is_call p =
     do { p \<leftarrow> (if \<not> F_UNCOND op then fast_dir baddr (btarget \<noteq> baddr + 4) p
                else if is_call
                then if ras_size p = 0 then None
                     else (let t = (ras_tos p + 1) mod ras_size p
                           in Some (p\<lparr>ras_tos := t, ras_stack := (ras_stack p)
                                [nat t := (ras_stack p ! nat t)\<lparr>btb_target := baddr + 8\<rparr>]\<rparr>))
                else Some p);
          if MD_IS_INDIR op \<and> \<not> fast_btb_hit p baddr then update_btb now baddr btarget op p else Some p }"

section \<open>Well-formed predictors\<close>

text \<open>Tables of the configured sizes with two-bit counters, one history register, a target buffer of whole
  sets whose size does not overflow, and a top of stack inside the stack.\<close>

definition dir_ok :: "bpred_class \<Rightarrow> bpred_dir_t \<Rightarrow> bool" where
  "dir_ok cl d \<longleftrightarrow> dir_class d = cl \<and> (\<forall>c\<in>set (dir_counters d). c \<le> 3) \<and>
     (if cl = BPred2Level
      then length (l2table d) = unat (l2size d) \<and> l2size d \<noteq> 0 \<and> l1size d = 1 \<and> length (shiftregs d) = 1
      else length (bimod_table d) = unat (bimod_size d) \<and> bimod_size d \<noteq> 0)"

definition dirs_ok :: "bpred_t \<Rightarrow> bool" where
  "dirs_ok p \<longleftrightarrow> pred_option (dir_ok BPred2bit) (bimod p) \<and> pred_option (dir_ok BPred2Level) (twolev p) \<and>
     pred_option (dir_ok BPred2bit) (meta p) \<and>
     (bp_class p = BPred2Level \<longrightarrow> twolev p \<noteq> None)"

definition btb_ok :: "bpred_t \<Rightarrow> bool" where
  "btb_ok p \<longleftrightarrow> 0 < unat (btb_sets p) \<and> 0 < unat (btb_assoc p) \<and> unat (btb_sets p) * unat (btb_assoc p) < 2 ^ 31 \<and>
     length (btb_data p) = unat (btb_sets p) * unat (btb_assoc p)"

definition ras_ok :: "bpred_t \<Rightarrow> bool" where
  "ras_ok p \<longleftrightarrow> length (ras_stack p) = nat (ras_size p) \<and> 0 < ras_size p \<and> 0 \<le> ras_tos p \<and> ras_tos p < ras_size p"

definition bpred_ok :: "bpred_t \<Rightarrow> bool" where
  "bpred_ok p \<longleftrightarrow> dirs_ok p \<and> btb_ok p \<and> ras_ok p"

text \<open>An update record whose counter pointer is valid and whose remembered counter value is a counter.\<close>

definition ptr_ok :: "bpred_t \<Rightarrow> dir_table \<times> nat \<Rightarrow> bool" where
  "ptr_ok p ptr \<longleftrightarrow> (\<exists>d. which_dir (fst ptr) p = Some d \<and> snd ptr < length (dir_counters d))"

definition record_ok :: "bpred_t \<Rightarrow> bpred_update_t \<Rightarrow> bool" where
  "record_ok p u \<longleftrightarrow> pred_option (ptr_ok p) (pdir1 u) \<and> dir_st u \<le> 3"

lemma masked_less: "n \<noteq> 0 \<Longrightarrow> unat (x AND (n - 1)) < unat (n :: 32 word)"
proof -
  assume n: "n \<noteq> 0"
  have "unat (x AND (n - 1)) \<le> unat (n - 1)" by (simp only: word_le_nat_alt [symmetric] word_and_le1)
  also have "\<dots> < unat n" using n by (simp add: unat_minus_one unat_gt_0)
  finally show ?thesis .
qed

lemma btb_index_less: "btb_ok p \<Longrightarrow> unat (btb_index p a) < unat (btb_sets p)"
  by (auto simp: btb_index_def btb_ok_def intro: masked_less)

lemma btb_set_start:
  assumes "btb_ok p"
  shows "unat (btb_index p a * btb_assoc p) = unat (btb_index p a) * unat (btb_assoc p)"
    and "unat (btb_index p a) * unat (btb_assoc p) + unat (btb_assoc p) \<le> length (btb_data p)"
proof -
  have "Suc (unat (btb_index p a)) \<le> unat (btb_sets p)" using btb_index_less [OF assms, of a] by (rule Suc_leI)
  then have "Suc (unat (btb_index p a)) * unat (btb_assoc p) \<le> unat (btb_sets p) * unat (btb_assoc p)"
    by (rule mult_le_mono1)
  with assms show le: "unat (btb_index p a) * unat (btb_assoc p) + unat (btb_assoc p) \<le> length (btb_data p)"
    by (simp add: btb_ok_def)
  have "unat (btb_index p a) * unat (btb_assoc p) < 2 ^ 32"
    using le assms by (simp add: btb_ok_def)
  then show "unat (btb_index p a * btb_assoc p) = unat (btb_index p a) * unat (btb_assoc p)"
    by (simp add: unat_word_ariths)
qed

lemma btb_assoc_one:
  assumes "btb_ok p" "\<not> 1 < sint (btb_assoc p)"
  shows "btb_assoc p = 1"
proof -
  have "1 * unat (btb_assoc p) \<le> unat (btb_sets p) * unat (btb_assoc p)"
    using assms(1) by (intro mult_le_mono) (auto simp: btb_ok_def)
  then have small: "unat (btb_assoc p) < 2 ^ 31" using assms(1) unfolding btb_ok_def by linarith
  have e: "sint (btb_assoc p) = int (unat (btb_assoc p))"
  proof -
    have "sint (btb_assoc p) = signed_take_bit (LENGTH(32) - 1) (uint (btb_assoc p))"
      by (simp only: sint_uint One_nat_def)
    also have "\<dots> = uint (btb_assoc p)"
    proof (rule signed_take_bit_int_eq_self)
      have "0 \<le> uint (btb_assoc p)" by simp
      then show "- (2 ^ (LENGTH(32) - 1)) \<le> uint (btb_assoc p)" by (rule order_trans [rotated]) simp
      show "uint (btb_assoc p) < 2 ^ (LENGTH(32) - 1)"
        using small [folded of_nat_less_iff [where 'a=int]] by simp
    qed
    finally show ?thesis by (simp only: uint_nat)
  qed
  have "\<not> int 1 < int (unat (btb_assoc p))" using assms(2) unfolding e [symmetric] by simp
  then have "\<not> 1 < unat (btb_assoc p)" unfolding of_nat_less_iff .
  moreover have "0 < unat (btb_assoc p)" using assms(1) by (simp add: btb_ok_def)
  ultimately have "unat (btb_assoc p) = 1" by linarith
  then have "unat (btb_assoc p) = unat (1 :: 32 word)" by (simp only: unat_1)
  then show ?thesis by (simp only: word_unat_eq_iff)
qed

lemma btb_entry_less: "btb_ok p \<Longrightarrow> btb_entry p a < length (btb_data p)"
proof -
  assume ok: "btb_ok p"
  note start = btb_set_start [OF ok, of a]
  have i: "unat (btb_index p a) < unat (btb_sets p)" using ok by (rule btb_index_less)
  show ?thesis
  proof (cases "1 < sint (btb_assoc p)")
    case True
    have dflt: "unat (btb_index p a + btb_assoc p - 1) < length (btb_data p)"
    proof -
      have A: "0 < unat (btb_assoc p)" using ok by (simp add: btb_ok_def)
      have "unat (btb_index p a) + unat (btb_assoc p) \<le> unat (btb_index p a) * unat (btb_assoc p) + unat (btb_assoc p)"
        using A by simp
      then have le: "unat (btb_index p a) + unat (btb_assoc p) \<le> length (btb_data p)" using start(2) by linarith
      then have "unat (btb_index p a + btb_assoc p) = unat (btb_index p a) + unat (btb_assoc p)"
        using ok by (simp add: unat_word_ariths btb_ok_def)
      moreover have "btb_index p a + btb_assoc p \<noteq> 0" using calculation A by auto
      ultimately show ?thesis using le A by (simp add: unat_minus_one)
    qed
    show ?thesis
      using True dflt start
      by (auto simp: btb_entry_def btb_find_def Let_def find_Some_iff split: option.split)
  next
    case False
    then show ?thesis using btb_assoc_one [OF ok False] i ok by (simp add: btb_entry_def btb_ok_def)
  qed
qed

text \<open>What the operations keep: the classes and sizes of all tables.\<close>

definition dir_shape :: "bpred_dir_t \<Rightarrow> bpred_class \<times> nat" where
  "dir_shape d = (dir_class d, length (dir_counters d))"

definition same_shape :: "bpred_t \<Rightarrow> bpred_t \<Rightarrow> bool" where
  "same_shape p p' \<longleftrightarrow> bp_class p' = bp_class p \<and>
     (\<forall>t. map_option dir_shape (which_dir t p') = map_option dir_shape (which_dir t p)) \<and>
     btb_sets p' = btb_sets p \<and> btb_assoc p' = btb_assoc p \<and> length (btb_data p') = length (btb_data p) \<and>
     ras_size p' = ras_size p \<and> length (ras_stack p') = length (ras_stack p)"

lemma same_shape_refl [simp]: "same_shape p p"
  by (simp add: same_shape_def)

lemma same_shape_trans: "same_shape p q \<Longrightarrow> same_shape q r \<Longrightarrow> same_shape p r"
  by (simp add: same_shape_def)

lemma ptr_ok_shape: "same_shape p p' \<Longrightarrow> ptr_ok p ptr \<Longrightarrow> ptr_ok p' ptr"
proof -
  assume s: "same_shape p p'" and "ptr_ok p ptr"
  then obtain d where d: "which_dir (fst ptr) p = Some d" "snd ptr < length (dir_counters d)"
    by (auto simp: ptr_ok_def)
  from s have "map_option dir_shape (which_dir (fst ptr) p') = map_option dir_shape (which_dir (fst ptr) p)"
    by (simp add: same_shape_def)
  with d show ?thesis by (auto simp: ptr_ok_def dir_shape_def)
qed

lemma record_ok_shape: "same_shape p p' \<Longrightarrow> record_ok p u \<Longrightarrow> record_ok p' u"
  by (cases "pdir1 u") (auto simp: record_ok_def intro: ptr_ok_shape)

text \<open>One table replaced by a well-formed one of the same shape.\<close>

definition dir_ok_at :: "dir_table \<Rightarrow> bpred_dir_t \<Rightarrow> bool" where
  "dir_ok_at t = dir_ok (if t = InTwolev then BPred2Level else BPred2bit)"

lemma dirs_okD: "dirs_ok p \<Longrightarrow> which_dir t p = Some d \<Longrightarrow> dir_ok_at t d"
  by (cases t) (auto simp: dirs_ok_def which_dir_def dir_ok_at_def)

lemma set_dir_ok:
  assumes "bpred_ok p" "which_dir t p = Some d" "dir_ok_at t d'" "dir_shape d' = dir_shape d"
  shows "bpred_ok (set_dir t d' p) \<and> same_shape p (set_dir t d' p)"
proof -
  have "dirs_ok (set_dir t d' p)"
    using assms by (cases t) (auto simp: bpred_ok_def dirs_ok_def set_dir_def dir_ok_at_def)
  moreover have "map_option dir_shape (which_dir t' (set_dir t d' p)) = map_option dir_shape (which_dir t' p)" for t'
    using assms by (cases t; cases t') (auto simp: which_dir_def set_dir_def)
  ultimately show ?thesis using assms(1)
    by (cases t) (simp_all add: bpred_ok_def btb_ok_def ras_ok_def same_shape_def set_dir_def)
qed

lemma write_counter_ok:
  assumes "bpred_ok p" "ptr_ok p ptr" "v \<le> 3"
  shows "\<exists>p'. write_counter ptr v p = Some p' \<and> bpred_ok p' \<and> same_shape p p'"
proof -
  from assms(2) obtain d where d: "which_dir (fst ptr) p = Some d" "snd ptr < length (dir_counters d)"
    by (auto simp: ptr_ok_def)
  have ok: "dir_ok_at (fst ptr) d" using assms(1) d(1) by (auto simp: bpred_ok_def intro: dirs_okD)
  let ?d = "if dir_class d = BPred2Level then d\<lparr>l2table := (l2table d)[snd ptr := v]\<rparr>
    else d\<lparr>bimod_table := (bimod_table d)[snd ptr := v]\<rparr>"
  have "dir_ok_at (fst ptr) ?d"
    using ok assms(3) set_update_subset_insert [of "l2table d" "snd ptr" v]
      set_update_subset_insert [of "bimod_table d" "snd ptr" v]
    by (auto simp: dir_ok_at_def dir_ok_def dir_counters_def split: if_splits)
  moreover have "dir_shape ?d = dir_shape d" by (simp add: dir_shape_def dir_counters_def)
  ultimately show ?thesis
    using set_dir_ok [OF assms(1) d(1), of ?d] d by (simp add: write_counter_def)
qed

lemma bump_stat_ok [simp]: "bpred_ok (bump_stat f p) = bpred_ok p" "same_shape q (bump_stat f p) = same_shape q p"
  "which_dir t (bump_stat f p) = which_dir t p"
  by (simp_all add: bump_stat_def bpred_ok_def dirs_ok_def btb_ok_def ras_ok_def same_shape_def which_dir_def
      cong: dir_table.case_cong)

lemma bump_stat_record [simp]: "record_ok (bump_stat f p) u = record_ok p u"
proof -
  have "ptr_ok (bump_stat f p) = ptr_ok p" by (simp add: ptr_ok_def fun_eq_iff)
  then show ?thesis by (simp add: record_ok_def)
qed

lemma next_counter_le: "st \<le> 3 \<Longrightarrow> next_counter taken st = Some v \<Longrightarrow> v \<le> 3"
proof -
  assume "st \<le> 3" and n: "next_counter taken st = Some v"
  then have "unat st \<in> {0, 1, 2, 3}" by (auto simp: word_le_nat_alt)
  then have "st \<in> {0, 1, 2, 3}" by (auto simp: word_unat_eq_iff)
  with n show ?thesis by (auto simp: next_counter_def split: if_splits)
qed

lemma fast_counter_le: "c \<le> 3 \<Longrightarrow> fast_counter taken c \<le> 3"
proof -
  assume "c \<le> 3"
  then have "unat c \<in> {0, 1, 2, 3}" by (auto simp: word_le_nat_alt)
  then have "c \<in> {0, 1, 2, 3}" by (auto simp: word_unat_eq_iff)
  then show ?thesis by (auto simp: fast_counter_def)
qed

lemma update_btb_ok:
  assumes "bpred_ok p"
  shows "\<exists>p'. update_btb now a tgt op p = Some p' \<and> bpred_ok p' \<and> same_shape p p'"
proof -
  have ok: "btb_ok p" using assms by (simp add: bpred_ok_def)
  note start = btb_set_start [OF ok, of a]
  let ?w = "word_of_int now AND (btb_assoc p - 1)"
  have w: "unat ?w < unat (btb_assoc p)" using ok by (intro masked_less) (auto simp: btb_ok_def)
  have "unat (btb_index p a * btb_assoc p) + unat ?w < length (btb_data p)" using start w by linarith
  then have "unat (btb_index p a * btb_assoc p + ?w) < length (btb_data p)"
    by (rule le_less_trans [rotated]) (simp add: unat_word_ariths)
  then show ?thesis
    using assms by (auto simp: update_btb_def Let_def bpred_ok_def dirs_ok_def btb_ok_def ras_ok_def same_shape_def
      which_dir_def cong: dir_table.case_cong)
qed

text \<open>The two-level table of a well-formed two-level predictor.\<close>

lemma two_level:
  assumes "bpred_ok p" "bp_class p = BPred2Level"
  obtains d where "twolev p = Some d" "which_dir InTwolev p = Some d" "dir_ok_at InTwolev d" "dir_class d = BPred2Level"
    "l2size d \<noteq> 0" "length (l2table d) = unat (l2size d)" "length (shiftregs d) = 1" "l1size d = 1"
proof -
  from assms obtain d where d: "twolev p = Some d" "dir_ok BPred2Level d"
    by (auto simp: bpred_ok_def dirs_ok_def)
  then show thesis by (intro that [of d]) (auto simp: which_dir_def dir_ok_at_def dir_ok_def)
qed

lemma history_ok:
  assumes "bpred_ok p" "bp_class p = BPred2Level" "twolev p = Some d"
  shows "bpred_ok (p\<lparr>twolev := Some (d\<lparr>shiftregs := (shiftregs d)[k := h]\<rparr>)\<rparr>) \<and>
    same_shape p (p\<lparr>twolev := Some (d\<lparr>shiftregs := (shiftregs d)[k := h]\<rparr>)\<rparr>)"
proof -
  from two_level [OF assms(1,2)] assms(3) have d: "which_dir InTwolev p = Some d" "dir_ok_at InTwolev d" by auto
  have "bpred_ok (set_dir InTwolev (d\<lparr>shiftregs := (shiftregs d)[k := h]\<rparr>) p) \<and>
    same_shape p (set_dir InTwolev (d\<lparr>shiftregs := (shiftregs d)[k := h]\<rparr>) p)"
    by (rule set_dir_ok [OF assms(1) d(1)]) (use d(2) in \<open>simp_all add: dir_ok_at_def dir_ok_def dir_counters_def dir_shape_def\<close>)
  then show ?thesis by (simp add: set_dir_def)
qed

lemma l2_index_less: "l2size d \<noteq> 0 \<Longrightarrow> l2_index d a < unat (l2size d)"
  unfolding l2_index_def Let_def by (rule masked_less)

lemma bump_stat_fields [simp]:
  "twolev (bump_stat f p) = twolev p" "bp_class (bump_stat f p) = bp_class p" "btb_data (bump_stat f p) = btb_data p"
  "btb_sets (bump_stat f p) = btb_sets p" "btb_assoc (bump_stat f p) = btb_assoc p"
  by (simp_all add: bump_stat_def)

lemma bump_stat_btb [simp]:
  "btb_index (bump_stat f p) a = btb_index p a" "btb_tag (bump_stat f p) a = btb_tag p a"
  by (simp_all add: btb_index_def btb_tag_def)

lemma bump_stat_entry [simp]: "btb_entry (bump_stat f p) a = btb_entry p a"
  by (simp add: btb_entry_def btb_find_def split: option.split)

lemma lookup_godson_ok:
  assumes "bpred_ok p" "bp_class p = BPred2Level"
  shows "\<exists>t u' p'. bpred_lookup_godson p pc u = Some (t, u', p') \<and> bpred_ok p' \<and> same_shape p p' \<and>
    record_ok p' (u'\<lparr>dir_st := 0\<rparr>)"
proof -
  from two_level [OF assms] obtain d where d: "twolev p = Some d" "which_dir InTwolev p = Some d"
    "dir_class d = BPred2Level" "l2size d \<noteq> 0" "length (l2table d) = unat (l2size d)" by blast
  have "btb_entry p pc < length (btb_data p)" using assms by (simp add: bpred_ok_def btb_entry_less)
  moreover have "ptr_ok p (InTwolev, l2_index d pc)"
    using d by (simp add: ptr_ok_def dir_counters_def l2_index_less)
  ultimately show ?thesis
    using assms d by (simp add: bpred_lookup_godson_def Let_def bpred_dir_lookup_def) (simp add: record_ok_def ptr_ok_def)
qed

lemma decode_update_ghr_ok:
  assumes "bpred_ok p" "bp_class p = BPred2Level"
  shows "\<exists>p'. decode_update_ghr p b = Some p' \<and> bpred_ok p' \<and> same_shape p p'"
proof -
  from two_level [OF assms] obtain d where d: "twolev p = Some d" by blast
  then show ?thesis
    using history_ok [OF assms d, of 0 "(push_bit 1 (shiftregs d ! 0) OR of_bool b) AND shift_mask d"]
    by (simp add: decode_update_ghr_def)
qed

text \<open>An update first counts, then writes the direction counter, then perhaps the target buffer.\<close>

lemma write_counter_frame: "write_counter ptr v p = Some p' \<Longrightarrow> btb_data p' = btb_data p"
  by (auto simp: write_counter_def set_dir_def split: option.splits if_splits dir_table.splits)

lemma bpred_update_form:
  assumes "bpred_ok p" "record_ok p (rs_dir_update i)"
  shows "\<exists>q r u. bpred_ok q \<and> same_shape p q \<and> bpred_ok r \<and> same_shape p r \<and> btb_data r = btb_data p \<and>
    dir_ras u = dir_ras (rs_dir_update i) \<and>
    bpred_update now perfect i p =
    (if \<not> F_CTRL (rs_op i) then Some (i, p)
     else if MD_IS_INDIR (rs_op i) \<and> dir_ras (rs_dir_update i) \<or> bp_class q \<in> {BPredNotTaken, BPredTaken} \<or> perfect
     then Some (i, q)
     else do { p \<leftarrow> (if rs_mis_predict i \<and> rs_jr_op i \<and> \<not> dir_ras u
                     then update_btb now (rs_PC i) (rs_btarget i) (rs_op i) r else Some r);
               Some (i\<lparr>rs_dir_update := u\<rparr>, p) })"
proof -
  define q where "q = bump_stat (update_stats i) p"
  have q: "bpred_ok q" "same_shape p q" "record_ok q (rs_dir_update i)" "btb_data q = btb_data p"
    using assms by (simp_all add: q_def)
  define u where "u = (let u = rs_dir_update i in
    if bp_class q \<in> {BPred2Level, BPredComb} \<and> rs_mis_predict i \<and> rs_bht_op i
    then u\<lparr>recovery_shiftregs := (recovery_shiftregs u)[0 := recovery_shiftregs u ! 0 XOR 1]\<rparr> else u)"
  define w where "w = (case if rs_bht_op i then pdir1 u else None of
      None \<Rightarrow> Some q
    | Some ptr \<Rightarrow> (case next_counter (rs_br_taken i) (dir_st u) of
          None \<Rightarrow> Some q | Some v \<Rightarrow> write_counter ptr v q))"
  have u: "record_ok q u" "dir_ras u = dir_ras (rs_dir_update i)"
    using q(3) by (simp_all add: u_def record_ok_def Let_def)
  have "\<exists>r. w = Some r \<and> bpred_ok r \<and> same_shape q r \<and> btb_data r = btb_data q"
  proof (cases "rs_bht_op i \<and> pdir1 u \<noteq> None \<and> next_counter (rs_br_taken i) (dir_st u) \<noteq> None")
    case True
    then obtain ptr v where pv: "pdir1 u = Some ptr" "next_counter (rs_br_taken i) (dir_st u) = Some v" by auto
    have "ptr_ok q ptr" "v \<le> 3" using u(1) pv next_counter_le by (auto simp: record_ok_def)
    from write_counter_ok [OF q(1) this] obtain r where
      "write_counter ptr v q = Some r" "bpred_ok r" "same_shape q r" by blast
    then show ?thesis using write_counter_frame pv True by (simp add: w_def)
  next
    case False
    then have "w = Some q" by (auto simp: w_def split: option.splits)
    then show ?thesis using q(1) by simp
  qed
  then obtain r where r: "w = Some r" "bpred_ok r" "same_shape p r" "btb_data r = btb_data p"
    using q(2,4) same_shape_trans by auto
  have "bpred_update now perfect i p =
    (if \<not> F_CTRL (rs_op i) then Some (i, p)
     else if MD_IS_INDIR (rs_op i) \<and> dir_ras (rs_dir_update i) \<or> bp_class q \<in> {BPredNotTaken, BPredTaken} \<or> perfect
     then Some (i, q)
     else do { p \<leftarrow> w;
               p \<leftarrow> (if rs_mis_predict i \<and> rs_jr_op i \<and> \<not> dir_ras u
                     then update_btb now (rs_PC i) (rs_btarget i) (rs_op i) p else Some p);
               Some (i\<lparr>rs_dir_update := u\<rparr>, p) })"
    by (simp only: bpred_update_def Let_def q_def [symmetric] u_def w_def)
  then show ?thesis
    unfolding r(1) bind.bind_lunit
    by (intro exI [of _ q] exI [of _ r] exI [of _ u] conjI q(1,2) r(2-4) u(2))
qed

lemma bpred_update_ok:
  assumes "bpred_ok p" "record_ok p (rs_dir_update i)"
  shows "\<exists>i' p'. bpred_update now perfect i p = Some (i', p') \<and> bpred_ok p' \<and> same_shape p p'"
proof -
  from bpred_update_form [OF assms, of now perfect] obtain q r u where
    q: "bpred_ok q" "same_shape p q" and r: "bpred_ok r" "same_shape p r" and
    eq: "bpred_update now perfect i p =
    (if \<not> F_CTRL (rs_op i) then Some (i, p)
     else if MD_IS_INDIR (rs_op i) \<and> dir_ras (rs_dir_update i) \<or> bp_class q \<in> {BPredNotTaken, BPredTaken} \<or> perfect
     then Some (i, q)
     else do { p \<leftarrow> (if rs_mis_predict i \<and> rs_jr_op i \<and> \<not> dir_ras u
                     then update_btb now (rs_PC i) (rs_btarget i) (rs_op i) r else Some r);
               Some (i\<lparr>rs_dir_update := u\<rparr>, p) })" by blast
  from update_btb_ok [OF r(1)] r(2) obtain s where
    s: "update_btb now (rs_PC i) (rs_btarget i) (rs_op i) r = Some s" "bpred_ok s" "same_shape p s"
    using same_shape_trans by blast
  show ?thesis unfolding eq using assms(1) q r s by simp
qed

lemma bpred_recover_ok:
  assumes "bpred_ok p" "0 \<le> idx" "idx < ras_size p"
  shows "\<exists>p'. bpred_recover perfect idx u p = Some p' \<and> bpred_ok p' \<and> same_shape p p'"
proof -
  have tos: "bpred_ok (q\<lparr>ras_tos := idx\<rparr>) \<and> same_shape p (q\<lparr>ras_tos := idx\<rparr>)"
    if "bpred_ok q \<and> same_shape p q" for q
    using that assms by (auto simp: bpred_ok_def dirs_ok_def btb_ok_def ras_ok_def same_shape_def which_dir_def
      cong: dir_table.case_cong)
  show ?thesis
  proof (cases "bp_class p = BPred2Level")
    case True
    from two_level [OF assms(1) True] obtain d where d: "twolev p = Some d" by blast
    show ?thesis using tos history_ok [OF assms(1) True d] True d by (auto simp: bpred_recover_def)
  next
    case False
    then show ?thesis using tos [of p] assms(1) by (auto simp: bpred_recover_def)
  qed
qed

lemma fast_dir_ok:
  assumes "bpred_ok p" "bp_class p = BPred2Level"
  shows "\<exists>p'. fast_dir a taken p = Some p' \<and> bpred_ok p' \<and> same_shape p p'"
proof -
  from two_level [OF assms] obtain d where d: "twolev p = Some d" "which_dir InTwolev p = Some d" "dir_ok_at InTwolev d"
    "dir_class d = BPred2Level" "l2size d \<noteq> 0" "length (l2table d) = unat (l2size d)" by blast
  let ?k = "unat ((push_bit 3 (drop_bit 5 a XOR shiftregs d ! unat (drop_bit MD_BR_SHIFT a AND (l1size d - 1))) +
    drop_bit 2 (a AND 31)) AND (l2size d - 1))"
  have k: "?k < length (l2table d)" using masked_less [OF d(5)] d(6) by simp
  define d' where "d' h = d\<lparr>shiftregs := h, l2table := (l2table d)[?k := fast_counter taken (l2table d ! ?k)]\<rparr>" for h
  have "l2table d ! ?k \<le> 3" using d(3,4) k by (auto simp: dir_ok_at_def dir_ok_def dir_counters_def)
  then have "fast_counter taken (l2table d ! ?k) \<le> 3" by (rule fast_counter_le)
  then have "dir_ok_at InTwolev (d' h)" if "length h = 1" for h
    using d(3,4) that set_update_subset_insert [of "l2table d" ?k "fast_counter taken (l2table d ! ?k)"]
    by (auto simp: d'_def dir_ok_at_def dir_ok_def dir_counters_def)
  moreover have "dir_shape (d' h) = dir_shape d" for h by (simp add: d'_def dir_shape_def dir_counters_def)
  ultimately have "bpred_ok (set_dir InTwolev (d' h) p) \<and> same_shape p (set_dir InTwolev (d' h) p)" if "length h = 1" for h
    using set_dir_ok [OF assms(1) d(2)] that by blast
  moreover have "length (shiftregs d) = 1" using d(3,4) by (simp add: dir_ok_at_def dir_ok_def)
  ultimately show ?thesis using k d(1) by (simp add: fast_dir_def Let_def set_dir_def d'_def)
qed

lemma stack_ok:
  assumes "bpred_ok p" "0 \<le> t" "t < ras_size p"
  shows "bpred_ok (p\<lparr>ras_tos := t, ras_stack := (ras_stack p)[k := e]\<rparr>) \<and>
    same_shape p (p\<lparr>ras_tos := t, ras_stack := (ras_stack p)[k := e]\<rparr>)"
  using assms by (auto simp: bpred_ok_def dirs_ok_def btb_ok_def ras_ok_def same_shape_def which_dir_def
    cong: dir_table.case_cong)

lemma fast_update_ok:
  assumes ok: "bpred_ok p" and two: "bp_class p = BPred2Level"
  shows "\<exists>p'. bpred_update_fast now a tgt op is_call p = Some p' \<and> bpred_ok p' \<and> same_shape p p'"
proof -
  let ?t = "(ras_tos p + 1) mod ras_size p"
  let ?pushed = "p\<lparr>ras_tos := ?t, ras_stack := (ras_stack p)
      [nat ?t := (ras_stack p ! nat ?t)\<lparr>btb_target := a + 8\<rparr>]\<rparr>"
  have r: "0 < ras_size p" using ok by (simp add: bpred_ok_def ras_ok_def)
  then have t: "0 \<le> ?t" "?t < ras_size p" by simp_all
  have "\<exists>q. (if \<not> F_UNCOND op then fast_dir a (tgt \<noteq> a + 4) p else if is_call then Some ?pushed else Some p) = Some q \<and>
    bpred_ok q \<and> same_shape p q"
    using fast_dir_ok [OF ok two] stack_ok [OF ok t] ok by simp
  then obtain q where q: "(if \<not> F_UNCOND op then fast_dir a (tgt \<noteq> a + 4) p else if is_call then Some ?pushed else Some p) = Some q"
    "bpred_ok q" "same_shape p q" by blast
  from update_btb_ok [OF q(2)] q(3) obtain s where
    "update_btb now a tgt op q = Some s" "bpred_ok s" "same_shape p s" using same_shape_trans by blast
  then show ?thesis using q r by (auto simp: bpred_update_fast_def Let_def split: if_splits)
qed

text \<open>A predictor that has been created is well formed.\<close>

lemma power_of_two_pos: "power_of_two n \<Longrightarrow> 0 < unat n"
  by (simp add: power_of_two_def unat_gt_0)

lemma created_ok:
  assumes run: "bpred_create BPred2Level bimod_n l1 l2 meta_n width xr n_sets n_assoc stack_n = Some p"
    and btb: "unat n_sets * unat n_assoc < 2 ^ 31" and stack_n: "stack_n \<noteq> 0"
  shows "bpred_ok p \<and> bp_class p = BPred2Level"
proof -
  obtain d where d: "bpred_dir_create BPred2Level l1 l2 width xr = Some d"
    using run by (cases "bpred_dir_create BPred2Level l1 l2 width xr") (simp_all add: bpred_create_def Let_def)
  have n: "power_of_two n_sets" "power_of_two n_assoc"
    using run by (auto simp: bpred_create_def Let_def d split: if_splits)
  have p: "p = \<lparr>bp_class = BPred2Level, bimod = None, twolev = Some d, meta = None, btb_sets = n_sets, btb_assoc = n_assoc,
      btb_data = btb_create (unat (n_sets * n_assoc)) (unat n_assoc), ras_size = uint stack_n, ras_tos = uint stack_n - 1,
      ras_stack = replicate (unat stack_n) zero_btb, bp_stats = zero_stats, bp_backup = zero_stats\<rparr>"
    using run by (simp add: bpred_create_def Let_def d split: if_splits)
  have "dir_ok BPred2Level d"
  proof -
    have one: "l1 = 1" if "l1 \<le> 1" "l1 \<noteq> 0"
    proof -
      have "unat l1 = unat (1 :: 32 word)" using that by (simp add: word_le_nat_alt unat_eq_0 le_Suc_eq)
      then show ?thesis by (simp only: word_unat_eq_iff)
    qed
    from d have s: "l1 \<le> 1" "l1 \<noteq> 0" "l2 \<noteq> 0" and
      d': "d = (zero_dir BPred2Level)\<lparr>l1size := l1, l2size := l2, shift_width := width,
                 shift_mask := push_bit (unat width) 1 - 1, xor_flag := xr,
                 shiftregs := replicate (unat l1) 0, l2table := replicate (unat l2) 0\<rparr>"
      by (auto simp: bpred_dir_create_def MAX_L1_SIZE_def power_of_two_def not_less split: if_splits)
    show ?thesis using one [OF s(1,2)] s(3) by (simp add: d' dir_ok_def dir_counters_def zero_dir_def)
  qed
  moreover have "btb_ok p"
    using btb n power_of_two_pos by (auto simp: p btb_ok_def btb_create_def unat_word_ariths)
  moreover have "0 < uint stack_n" using stack_n by (simp add: less_le uint_0_iff eq_commute [of 0])
  then have "ras_ok p" by (simp add: p ras_ok_def)
  ultimately show ?thesis by (simp add: bpred_ok_def dirs_ok_def p)
qed

section \<open>Properties\<close>


text \<open>A small predictor: 16 counters, a target buffer of two sets of two entries, a stack of four.\<close>

definition small_pred :: bpred_t where
  "small_pred = the (bpred_create BPred2Level 0 1 16 0 1 0 2 2 4)"

lemma small_pred_eq:
  "bpred_create BPred2Level 0 1 16 0 1 0 2 2 4 = Some small_pred" "bp_class small_pred = BPred2Level"
  "ras_size small_pred = 4" "twolev small_pred \<noteq> None" "ras_tos small_pred = 3"
  by (simp_all add: small_pred_def bpred_create_def bpred_dir_create_def power_of_two_def MAX_L1_SIZE_def Let_def)

lemma small_pred_ok: "bpred_ok small_pred"
  using created_ok [OF small_pred_eq(1)] by simp

lemma blank_record: "record_ok p (rs_dir_update blank_inst)"
  by (simp add: record_ok_def blank_inst_def)




lemma line_slot: "drop_bit 2 (a AND 31) = take_bit 3 (drop_bit 2 (a :: 32 word))"
proof -
  have e: "a AND 31 = take_bit 5 a" unfolding take_bit_eq_mask by (simp add: mask_eq_decr_exp)
  show ?thesis unfolding e by (rule bit_word_eqI) (auto simp: bit_simps)
qed

lemma line_index:
  fixes w lo :: "32 word"
  assumes "m \<le> n + 3"
  shows "(push_bit 3 (w AND mask n) + take_bit 3 lo) AND mask m = (push_bit 3 w + take_bit 3 lo) AND mask m"
proof -
  have or: "push_bit 3 v + take_bit 3 lo = push_bit 3 v OR take_bit 3 lo" for v :: "32 word"
    by (rule disjunctive_add) (auto simp: bit_simps)
  show ?thesis using assms unfolding or by (intro bit_word_eqI) (auto simp: bit_simps)
qed

lemma fast_counter_next:
  assumes "c \<le> 3"
  shows "fast_counter taken c = (case next_counter taken c of None \<Rightarrow> c | Some v \<Rightarrow> v)"
proof -
  have "unat c \<in> {0, 1, 2, 3}" using assms by (auto simp: word_le_nat_alt)
  then have "c \<in> {0, 1, 2, 3}" by (auto simp: word_unat_eq_iff)
  then show ?thesis by (auto simp: fast_counter_def next_counter_def)
qed

text \<open>The fast update of functional simulation is the update of the pipeline with the right history: the
  counter it changes is the one the fetch of the branch's address looks up, and the history is the one a correct
  decode leaves, when the table holds no more than the counters of \<open>2 ^ width\<close> lines.\<close>

theorem fast_update_agrees:
  assumes p: "bpred_ok p" "bp_class p = BPred2Level" and d: "twolev p = Some d"
    and sz: "shift_mask d = mask n" "n \<le> 29" "l2size d = push_bit m 1" "m \<le> n + 3"
  shows "fast_dir a taken p = do {
    p' \<leftarrow> decode_update_ghr p taken;
    (_, u, _) \<leftarrow> bpred_lookup_godson p a v;
    ptr \<leftarrow> pdir1 u;
    c \<leftarrow> read_counter ptr p;
    case next_counter taken c of None \<Rightarrow> Some p' | Some c' \<Rightarrow> write_counter ptr c' p' }"
proof -
  from two_level [OF p] d have t: "dir_ok_at InTwolev d" "dir_class d = BPred2Level" "l2size d \<noteq> 0"
    "length (l2table d) = unat (l2size d)" "l1size d = 1" "which_dir InTwolev p = Some d" by auto
  let ?k = "l2_index d a" and ?h = "(shiftregs d)[0 := (push_bit 1 (shiftregs d ! 0) OR of_bool taken) AND shift_mask d]"
  have m: "l2size d - 1 = mask m" by (simp add: sz(3) mask_eq_decr_exp)
  have fast: "unat ((push_bit 3 (drop_bit 5 a XOR shiftregs d ! 0) + drop_bit 2 (a AND 31)) AND (l2size d - 1)) = ?k"
    unfolding l2_index_def Let_def m sz(1) line_slot line_index [OF sz(4)] by (rule refl)
  have sh: "l2size (d\<lparr>shiftregs := h\<rparr>) = l2size d" "l2table (d\<lparr>shiftregs := h\<rparr>) = l2table d" for h by simp_all
  have l1: "unat (drop_bit MD_BR_SHIFT a AND (l1size d - 1)) = 0" by (simp add: t(5))
  have k: "?k < length (l2table d)" using l2_index_less [OF t(3)] t(4) by simp
  then have c: "l2table d ! ?k \<le> 3" using t(1,2) by (auto simp: dir_ok_at_def dir_ok_def dir_counters_def)
  have "fast_dir a taken p =
    Some (p\<lparr>twolev := Some (d\<lparr>shiftregs := ?h, l2table := (l2table d)[?k := fast_counter taken (l2table d ! ?k)]\<rparr>)\<rparr>)"
    unfolding fast_dir_def d bind.bind_lunit Let_def l1 sh fast using k by (simp only: if_True)
  moreover have "decode_update_ghr p taken = Some (p\<lparr>twolev := Some (d\<lparr>shiftregs := ?h\<rparr>)\<rparr>)"
    by (simp add: decode_update_ghr_def d)
  moreover obtain tgt r q where lk: "bpred_lookup_godson p a v = Some (tgt, r, q)"
    using lookup_godson_ok [OF p, of a v] by blast
  moreover have "pdir1 r = Some (InTwolev, ?k)"
    using lk by (auto simp: bpred_lookup_godson_def Let_def p(2) d bpred_dir_lookup_def t(2) split: if_splits)
  moreover have "read_counter (InTwolev, ?k) p = Some (l2table d ! ?k)"
    using k t(2) by (simp add: read_counter_def t(6) dir_counters_def)
  moreover have "write_counter (InTwolev, ?k) c' (p\<lparr>twolev := Some (d\<lparr>shiftregs := ?h\<rparr>)\<rparr>) =
    Some (p\<lparr>twolev := Some (d\<lparr>shiftregs := ?h, l2table := (l2table d)[?k := c']\<rparr>)\<rparr>)" for c'
    using k t(2) by (simp add: write_counter_def which_dir_def dir_counters_def set_dir_def)
  ultimately show ?thesis
    unfolding fast_counter_next [OF c] by (cases "next_counter taken (l2table d ! ?k)") simp_all
qed

lemma small_pred_dir:
  "twolev small_pred = Some \<lparr>dir_class = BPred2Level, bimod_size = 0, bimod_table = [], l1size = 1, l2size = 16,
     shift_width = 1, shift_mask = 1, xor_flag = 0, shiftregs = [0], l2table = replicate 16 0\<rparr>"
  by (simp add: small_pred_def bpred_create_def bpred_dir_create_def power_of_two_def MAX_L1_SIZE_def Let_def zero_dir_def)

theorem fast_update_agrees_witness:
  "\<exists>p'. fast_dir 0x400100 True small_pred = Some p' \<and> read_counter (InTwolev, 0) p' = Some 1"
proof -
  have "fast_dir 0x400100 True small_pred = do {
    p' \<leftarrow> decode_update_ghr small_pred True;
    (_, u, _) \<leftarrow> bpred_lookup_godson small_pred 0x400100 (rs_dir_update blank_inst);
    ptr \<leftarrow> pdir1 u;
    c \<leftarrow> read_counter ptr small_pred;
    case next_counter True c of None \<Rightarrow> Some p' | Some c' \<Rightarrow> write_counter ptr c' p' }"
    by (rule fast_update_agrees [OF small_pred_ok small_pred_eq(2) small_pred_dir, of 1 4])
      (simp_all add: mask_eq_decr_exp)
  moreover obtain t r q where lk: "bpred_lookup_godson small_pred 0x400100 (rs_dir_update blank_inst) = Some (t, r, q)"
    using lookup_godson_ok [OF small_pred_ok small_pred_eq(2)] by blast
  moreover have "pdir1 r = Some (InTwolev, 0)"
    using lk by (auto simp: bpred_lookup_godson_def Let_def small_pred_eq(2) small_pred_dir bpred_dir_lookup_def
      l2_index_def split: if_splits)
  ultimately show ?thesis
    by (simp add: decode_update_ghr_def small_pred_dir read_counter_def write_counter_def which_dir_def dir_counters_def
      set_dir_def next_counter_def)
qed

section \<open>The return-address stack\<close>

text \<open>The youngest \<open>n\<close> addresses on the stack.\<close>

definition ras_top :: "bpred_t \<Rightarrow> nat \<Rightarrow> md_addr_t list" where
  "ras_top p n = map (\<lambda>k. btb_target (ras_stack p ! nat ((ras_tos p - int k) mod ras_size p))) [0..<n]"

lemma ras_frame [simp]:
  "ras_size (bump_stat f p) = ras_size p" "ras_tos (bump_stat f p) = ras_tos p" "ras_stack (bump_stat f p) = ras_stack p"
  "ras_size (ras_push r p) = ras_size p" "ras_size (ras_pop p) = ras_size p" "ras_stack (ras_pop p) = ras_stack p"
  by (simp_all add: bump_stat_def ras_push_def ras_pop_def Let_def)

lemma ras_ok_push: "ras_ok p \<Longrightarrow> ras_ok (ras_push r p)" and ras_ok_pop: "ras_ok p \<Longrightarrow> ras_ok (ras_pop p)"
  by (auto simp: ras_ok_def ras_push_def ras_pop_def Let_def bump_stat_def)

lemma mod_distinct:
  fixes m :: int
  assumes "0 < k" "int k < m"
  shows "(t - int k) mod m \<noteq> t mod m"
proof
  assume "(t - int k) mod m = t mod m"
  then have "m dvd int k" by (simp add: mod_eq_dvd_iff)
  then have "m \<le> int k" using assms by (intro zdvd_imp_le) auto
  then show False using assms by simp
qed

lemma ras_top_push:
  assumes ok: "ras_ok p" and n: "int n < ras_size p"
  shows "ras_top (ras_push r p) (Suc n) = r # ras_top p n"
proof -
  let ?m = "ras_size p" and ?t = "(ras_tos p + 1) mod ras_size p"
  have m: "0 < ?m" "length (ras_stack p) = nat ?m" using ok by (simp_all add: ras_ok_def)
  have t: "nat ?t < length (ras_stack p)" using m by (simp add: nat_less_iff)
  have tos: "ras_tos (ras_push r p) = ?t" and st: "ras_stack (ras_push r p) =
    (ras_stack p)[nat ?t := (ras_stack p ! nat ?t)\<lparr>btb_target := r\<rparr>]"
    by (simp_all add: ras_push_def Let_def bump_stat_def)
  have "btb_target (ras_stack (ras_push r p) ! nat ((?t - int (Suc k)) mod ?m)) =
      btb_target (ras_stack p ! nat ((ras_tos p - int k) mod ?m))" if "k < n" for k
  proof -
    have e: "(?t - int (Suc k)) mod ?m = (ras_tos p - int k) mod ?m"
      by (simp add: mod_simps algebra_simps)
    have "(ras_tos p + 1 - int (Suc k)) mod ?m \<noteq> (ras_tos p + 1) mod ?m"
      using that n by (intro mod_distinct) auto
    then have "nat ((ras_tos p - int k) mod ?m) \<noteq> nat ?t"
      using m(1) by (simp add: algebra_simps nat_eq_iff)
    then show ?thesis unfolding e st by (simp only: nth_list_update_neq not_sym)
  qed
  then have "map (\<lambda>k. btb_target (ras_stack (ras_push r p) ! nat ((?t - int (Suc k)) mod ?m))) [0..<n] = ras_top p n"
    by (simp add: ras_top_def)
  moreover have "btb_target (ras_stack (ras_push r p) ! nat (?t mod ?m)) = r" using t by (simp add: st)
  ultimately show ?thesis
    by (simp add: ras_top_def tos map_upt_Suc del: upt_Suc of_nat_Suc)
qed

lemma ras_top_pop:
  assumes "ras_ok p"
  shows "ras_top p (Suc n) = btb_target (ras_stack p ! nat (ras_tos p)) # ras_top (ras_pop p) n"
proof -
  let ?m = "ras_size p"
  have tos: "ras_tos (ras_pop p) = (ras_tos p + ?m - 1) mod ?m" by (simp add: ras_pop_def bump_stat_def)
  have "((ras_tos p + ?m - 1) mod ?m - int k) mod ?m = (ras_tos p - int (Suc k)) mod ?m" for k
  proof -
    have "((ras_tos p + ?m - 1) mod ?m - int k) mod ?m = (ras_tos p - int (Suc k) + ?m) mod ?m"
      by (simp only: mod_diff_left_eq) (simp add: algebra_simps)
    then show ?thesis by simp
  qed
  moreover have "nat (ras_tos p mod ?m) = nat (ras_tos p)" using assms by (simp add: ras_ok_def)
  ultimately show ?thesis
    by (simp add: ras_top_def tos map_upt_Suc del: upt_Suc of_nat_Suc)
qed

text \<open>Calls from the given addresses in order, and the targets predicted for \<open>n\<close> returns that follow.\<close>

fun calls :: "bpred_update_t \<Rightarrow> md_addr_t list \<Rightarrow> bpred_t \<Rightarrow> bpred_t option" where
  "calls u [] p = Some p"
| "calls u (a # as) p = do { (_, _, _, p) \<leftarrow> bpred_lookup p a 0 JAL True False u 0; calls u as p }"

fun returns :: "bpred_update_t \<Rightarrow> md_addr_t \<Rightarrow> nat \<Rightarrow> bpred_t \<Rightarrow> md_addr_t list option" where
  "returns u pc 0 p = Some []"
| "returns u pc (Suc n) p =
     do { (t, _, _, p) \<leftarrow> bpred_lookup p pc 0 JR False True u 0; ts \<leftarrow> returns u pc n p; Some (t # ts) }"

text \<open>What a lookup of a call and of a return does to the stack.\<close>

lemma call_pushes:
  assumes "bp_class p = BPred2Level" "twolev p \<noteq> None" "ras_ok p"
  shows "\<exists>t u' k p'. bpred_lookup p a 0 JAL True False u 0 = Some (t, u', k, p') \<and> bp_class p' = BPred2Level \<and>
    twolev p' \<noteq> None \<and> ras_ok p' \<and> ras_size p' = ras_size p \<and>
    (\<forall>n. int n < ras_size p \<longrightarrow> ras_top p' (Suc n) = (a + 8) # ras_top p n)"
proof -
  let ?q = "bump_stat (\<lambda>s. s\<lparr>lookups := lookups s + 1\<rparr>) p"
  have q: "ras_ok ?q" "ras_top ?q n = ras_top p n" for n
    using assms(3) by (simp_all add: ras_ok_def ras_top_def)
  have op: "F_CTRL JAL" "F_UNCOND JAL" by (simp_all add: F_CTRL_def F_UNCOND_def)
  have size: "ras_size p \<noteq> 0" using assms(3) by (simp add: ras_ok_def)
  have "bp_class (ras_push r ?q) = bp_class p" "twolev (ras_push r ?q) = twolev p" for r
    by (simp_all add: ras_push_def Let_def bump_stat_def)
  then show ?thesis
    using assms(1,2) op size ras_ok_push [OF q(1)] ras_top_push [OF q(1)] q(2)
    by (auto simp: bpred_lookup_def Let_def)
qed

lemma return_pops:
  assumes "bp_class p = BPred2Level" "twolev p \<noteq> None" "ras_ok p"
  shows "\<exists>u' k p'. bpred_lookup p a 0 JR False True u 0 = Some (btb_target (ras_stack p ! nat (ras_tos p)), u', k, p') \<and>
    bp_class p' = BPred2Level \<and> twolev p' \<noteq> None \<and> ras_ok p' \<and>
    (\<forall>n. ras_top p (Suc n) = btb_target (ras_stack p ! nat (ras_tos p)) # ras_top p' n)"
proof -
  let ?q = "bump_stat (\<lambda>s. s\<lparr>lookups := lookups s + 1\<rparr>) p"
  have q: "ras_ok ?q" "ras_top ?q n = ras_top p n" for n
    using assms(3) by (simp_all add: ras_ok_def ras_top_def)
  have op: "F_CTRL JR" "F_UNCOND JR" by (simp_all add: F_CTRL_def F_UNCOND_def)
  have size: "ras_size p \<noteq> 0" using assms(3) by (simp add: ras_ok_def)
  have "bp_class (ras_pop ?q) = bp_class p" "twolev (ras_pop ?q) = twolev p"
    by (simp_all add: ras_pop_def bump_stat_def)
  then show ?thesis
    using assms(1,2) op size ras_ok_pop [OF q(1)] ras_top_pop [OF q(1)] q(2)
    by (auto simp: bpred_lookup_def Let_def)
qed

lemma returns_top:
  assumes "bp_class p = BPred2Level" "twolev p \<noteq> None" "ras_ok p"
  shows "returns u pc n p = Some (ras_top p n)"
  using assms
proof (induction n arbitrary: p)
  case 0
  then show ?case by (simp add: ras_top_def)
next
  case (Suc n)
  from return_pops [OF Suc.prems, of pc u] obtain u' k p' where
    r: "bpred_lookup p pc 0 JR False True u 0 = Some (btb_target (ras_stack p ! nat (ras_tos p)), u', k, p')"
      "bp_class p' = BPred2Level" "twolev p' \<noteq> None" "ras_ok p'"
      "ras_top p (Suc n) = btb_target (ras_stack p ! nat (ras_tos p)) # ras_top p' n" by blast
  then show ?case using Suc.IH [OF r(2-4)] by simp
qed

lemma calls_top:
  assumes "bp_class p = BPred2Level" "twolev p \<noteq> None" "ras_ok p" "int (k + length as) \<le> ras_size p"
  shows "\<exists>q. calls u as p = Some q \<and> bp_class q = BPred2Level \<and> twolev q \<noteq> None \<and> ras_ok q \<and>
    ras_top q (length as + k) = rev (map (\<lambda>a. a + 8) as) @ ras_top p k"
  using assms
proof (induction as arbitrary: p k)
  case (Cons a as)
  from call_pushes [OF Cons.prems(1-3), of a u] obtain t u' j p' where
    p': "bpred_lookup p a 0 JAL True False u 0 = Some (t, u', j, p')" "bp_class p' = BPred2Level"
      "twolev p' \<noteq> None" "ras_ok p'" "ras_size p' = ras_size p"
      "\<forall>n. int n < ras_size p \<longrightarrow> ras_top p' (Suc n) = (a + 8) # ras_top p n" by blast
  from Cons.IH [OF p'(2-4), of "Suc k"] Cons.prems(4) p'(1,5,6) show ?case by auto
qed simp

text \<open>The return-address stack pairs nested calls and returns: after calls from any addresses, no more than
  the stack has entries, the returns that follow are predicted to the instructions behind the delay slots of the
  calls, youngest call first.\<close>

theorem nested_calls_return:
  assumes "bpred_ok p" "bp_class p = BPred2Level" "int (length as) \<le> ras_size p"
  shows "\<exists>q. calls u as p = Some q \<and> returns u pc (length as) q = Some (rev (map (\<lambda>a. a + 8) as))"
proof -
  from two_level [OF assms(1,2)] have "twolev p \<noteq> None" by auto
  moreover have "ras_ok p" using assms(1) by (simp add: bpred_ok_def)
  ultimately obtain q where q: "calls u as p = Some q" "bp_class q = BPred2Level" "twolev q \<noteq> None" "ras_ok q"
    "ras_top q (length as + 0) = rev (map (\<lambda>a. a + 8) as) @ ras_top p 0"
    using calls_top [of p 0 as u] assms(2,3) by auto
  then show ?thesis using returns_top [OF q(2-4), of u pc "length as"] by (simp add: ras_top_def)
qed

theorem nested_calls_return_witness:
  "\<exists>q. calls (rs_dir_update blank_inst) [0x400100, 0x400200, 0x400300] small_pred = Some q \<and>
     returns (rs_dir_update blank_inst) 0 3 q = Some [0x400308, 0x400208, 0x400108]"
  using nested_calls_return [OF small_pred_ok small_pred_eq(2), of "[0x400100, 0x400200, 0x400300]"
      "rs_dir_update blank_inst" 0]
  by (simp add: small_pred_eq(3) numeral_3_eq_3)

end
