(* ===== verification/Backend.thy ===== *)
theory Backend
  imports Issue Bpred
begin

unbundle bit_operations_syntax

text \<open>
  The in-order ends of the reorder queue: mapping (map.c), the resolution of branches with recovery from a
  misprediction (\<open>check_brq\<close>, \<open>brerr_recover\<close> in writeback.c), commit and the pipeline flush of a load that was
  issued too early (commit.c). \<open>None\<close>: a panic, a failed assertion, \<open>fatal\<close> or a NULL pointer. A core always
  has a branch predictor. Left out: printing, the fields for traces, \<open>bdrdy\<close> and \<open>last_commit_rs\<close>, which nothing
  else reads, and \<open>load_miss_penalty\<close>, which is never set.
\<close>

section \<open>Squashing one instruction\<close>

text \<open>What \<open>brerr_recover\<close> and \<open>pipeline_flush\<close> do to every entry they squash.\<close>

definition brq_pop_tail :: "nat \<Rightarrow> pipeline \<Rightarrow> pipeline" where
  "brq_pop_tail b p = p\<lparr>brq := (brq p)(b := None), brq_tail := (brq_tail p + brq_ifq_size p - 1) mod brq_ifq_size p,
     brq_num := brq_num p - 1\<rparr>"

definition free_rename :: "inst_descript \<Rightarrow> pipeline \<Rightarrow> pipeline" where
  "free_rename i p = p\<lparr>int_rename_reg_num := int_rename_reg_num p - rs_used_int_reg i,
     fp_rename_reg_num := fp_rename_reg_num p - rs_used_fp_reg i\<rparr>"

definition free_unit :: "inst_descript \<Rightarrow> pipeline \<Rightarrow> pipeline" where
  "free_unit i p = p\<lparr>fu_busy := (fu_busy p)((rs_fu_master i, rs_fu_class i) := False)\<rparr>"

definition squash_inst :: "nat \<Rightarrow> godson2_cpu \<Rightarrow> godson2_cpu option" where
  "squash_inst rs st =
     (let st = squash_tag rs (free_odeps rs st); i = insts st rs;
          st = upd_pipe (free_unit i) st;
          st = (if F_CTRL (rs_op i) then upd_pipe (brq_pop_tail (rs_brqid i)) st else st)
      in do { st \<leftarrow> (if F_MEM (rs_op i) then lsq_cancel_one (rs_lsqid i) st else Some st);
              let st = upd_pipe (free_rename i) st;
              Some (if rs_queued i then add_issue_num (rs_in_intq i) (- 1) st else st) })"

text \<open>The entry leaves the reorder queue at its tail end.\<close>

definition roq_drop :: "nat \<Rightarrow> nat \<Rightarrow> godson2_cpu \<Rightarrow> godson2_cpu" where
  "roq_drop rs k st =
     upd_pipe (\<lambda>p. p\<lparr>roq := (roq p)(k := None), roq_num := roq_num p - 1\<rparr>) (fetch_return_to_free_list rs st)"

definition roq_before :: "pipeline \<Rightarrow> nat \<Rightarrow> nat" where
  "roq_before p k = (k + (roq_ifq_size p - 1)) mod roq_ifq_size p"

section \<open>Recovery from a misprediction\<close>

text \<open>The loop from the youngest entry back to \<open>stop\<close>, \<open>n\<close> entries at most; the panics for an empty queue and at
  its head. The result has the slot of the last entry that was squashed.\<close>

fun squash_roq :: "nat \<Rightarrow> nat \<Rightarrow> nat \<Rightarrow> nat \<Rightarrow> godson2_cpu \<Rightarrow> (nat \<times> godson2_cpu) option" where
  "squash_roq 0 stop k prev st = (if k = stop then Some (prev, st) else None)"
| "squash_roq (Suc n) stop k prev st =
     (if k = stop then Some (prev, st)
      else if k = roq_head (pipe st) then None
      else case roq (pipe st) k of
             None \<Rightarrow> None
           | Some rs \<Rightarrow> do { st \<leftarrow> squash_inst rs st;
                           squash_roq n stop (roq_before (pipe st) k) k (roq_drop rs k st) })"

definition brerr_recover :: "nat \<Rightarrow> godson2_cpu \<Rightarrow> godson2_cpu option" where
  "brerr_recover rs st =
     (let i = insts st rs; p = pipe st;
          stop = (if \<not> rs_trap i \<and> \<not> F_CTRL_LIKELY (rs_op i) then (rs_roqid i + 1) mod roq_ifq_size p else rs_roqid i)
      in do { (prev, st) \<leftarrow> squash_roq (nat (roq_num p)) stop (roq_before p (roq_tail p)) (roq_tail p) st;
              let st = upd_pipe (\<lambda>p. p\<lparr>roq_tail := prev\<rparr>) st;
              st \<leftarrow> tracer_recover (rs_spec_level (insts st rs)) (rs_recover_PC (insts st rs)) st;
              b \<leftarrow> bpred_recover (pred_perfect (pipe st)) (rs_stack_recover_idx (insts st rs))
                     (rs_dir_update (insts st rs)) (pred (pipe st));
              Some (upd_pipe (\<lambda>p. p\<lparr>pred := b, ghr_valid := False\<rparr>) st) })"

text \<open>The oldest branch that has been executed: the entry where the scan stops, \<open>None\<close> for an empty slot.\<close>

fun find_executed :: "nat \<Rightarrow> nat \<Rightarrow> godson2_cpu \<Rightarrow> nat option" where
  "find_executed 0 b st = brq (pipe st) b"
| "find_executed (Suc n) b st =
     (case brq (pipe st) b of
        None \<Rightarrow> None
      | Some rs \<Rightarrow> if rs_brcompleted (insts st rs) then Some rs
                   else find_executed n ((b + 1) mod brq_ifq_size (pipe st)) st)"

definition count_branch :: "inst_descript \<Rightarrow> counter \<Rightarrow> counter \<Rightarrow> counter \<Rightarrow> godson2_cpu \<Rightarrow> godson2_cpu" where
  "count_branch i every bht jr st =
     (let st = bump every st in if rs_bht_op i then bump bht st else if rs_jr_op i then bump jr st else st)"

definition check_brq :: "tick_t \<Rightarrow> godson2_cpu \<Rightarrow> godson2_cpu option" where
  "check_brq now st =
     (let p = pipe st
      in case find_executed (nat (brq_num p + 1)) (brq_head p) st of
           None \<Rightarrow> Some st
         | Some rs \<Rightarrow>
             let i = insts st rs; slot = (rs_roqid i + 1) mod roq_ifq_size p
             in if rs_brcompleted i \<and> (\<not> rs_mis_predict i \<or> roq p slot \<noteq> None \<and> slot \<noteq> roq_head p)
                then let st = upd_inst rs (\<lambda>i. i\<lparr>rs_brcompleted := False, rs_completed := True\<rparr>) st
                     in do { (i, b) \<leftarrow> bpred_update now (pred_perfect p) (insts st rs) (pred p);
                             let st = upd_pipe (\<lambda>p. p\<lparr>pred := b\<rparr>) (upd_inst rs (\<lambda>_. i) st);
                             let st = count_branch i (OfRetire sim_brbus_count) (OfRetire sim_bht_count) (OfRetire sim_jr_count) st;
                             if rs_mis_predict i
                             then map_option (\<lambda>st. st\<lparr>istall := istall st OR BRANCH_STALL\<rparr>)
                                    (brerr_recover rs
                                      (count_branch i (OfRetire sim_brerr_count) (OfRetire sim_bhterr_count) (OfRetire sim_jrerr_count) st))
                             else Some st }
                else Some st)"

section \<open>Commit\<close>

definition count_commit :: "md_opcode \<Rightarrow> godson2_cpu \<Rightarrow> godson2_cpu" where
  "count_commit op st =
     (let st = bump (OfRetire commit_access) st; st = (if F_MEM op then bump (OfRetire lsq_commit_access) st else st)
      in if F_FCOMP op then bump (OfRetire fp_commit_access) st else bump (OfRetire fix_commit_access) st)"

text \<open>The loop of \<open>pipeline_flush\<close> from the youngest entry back; the accesses counted are those of the operation
  \<open>op\<close> that caused the flush.\<close>

fun flush_roq :: "md_opcode \<Rightarrow> nat \<Rightarrow> nat \<Rightarrow> godson2_cpu \<Rightarrow> godson2_cpu option" where
  "flush_roq op 0 k st = Some st"
| "flush_roq op (Suc n) k st =
     (case roq (pipe st) k of
        None \<Rightarrow> None
      | Some rs \<Rightarrow> do { st \<leftarrow> squash_inst rs st;
                      st \<leftarrow> recover_data rs (count_commit op st);
                      flush_roq op n (roq_before (pipe st) k) (roq_drop rs k st) })"

definition pipeline_flush :: "nat \<Rightarrow> godson2_cpu \<Rightarrow> godson2_cpu option" where
  "pipeline_flush rs st =
     (let i = insts st rs; k = roq_tail (pipe st)
      in do { st \<leftarrow> tracer_recover 0 (if rs_bd i then rs_PC i - 4 else rs_PC i) st;
              st \<leftarrow> flush_roq (rs_op i) (nat (roq_num (pipe st))) (roq_before (pipe st) k) st;
              let st = upd_pipe (\<lambda>p. clear_create_vector (p\<lparr>roq_head := 0, roq_tail := 0, ghr_valid := False\<rparr>)) st;
              Some (st\<lparr>istall := istall st OR BRANCH_STALL\<rparr>) })"

text \<open>The head of the reorder queue is complete and retires.\<close>

definition retire :: "nat \<Rightarrow> godson2_cpu \<Rightarrow> godson2_cpu option" where
  "retire rs st =
     (let i = insts st rs; op = rs_op i;
          st = (if F_MEM op then upd_lsq (rs_lsqid i) (\<lambda>e. e\<lparr>lsq_state := LSQ_COMMIT\<rparr>) st else st)
      in if F_CTRL op \<and> brq_head (pipe st) \<noteq> rs_brqid i then None
         else let st = (if F_CTRL op
                        then upd_pipe (\<lambda>p. p\<lparr>brq := (brq p)(brq_head p := None),
                               brq_head := (brq_head p + 1) mod brq_ifq_size p, brq_num := brq_num p - 1\<rparr>) st
                        else st);
                  st = count_commit op (upd_pipe (free_rename i) st);
                  st = upd_pipe (\<lambda>p. p\<lparr>roq := (roq p)(roq_head p := None),
                         roq_head := (roq_head p + 1) mod roq_ifq_size p, roq_num := roq_num p - 1\<rparr>) st;
                  st = bump (OfRetire sim_detail_insn) (bump (OfRetire sim_meas_insn) (bump (OfRetire sim_commit_insn) st));
                  st = (if op \<noteq> SPLITMUL \<and> op \<noteq> SPLITDIV then bump (OfRetire sim_pop_insn) st else st);
                  st = (if F_CTRL op then bump (OfRetire sim_num_branches) st else st);
                  st = st\<lparr>last_non_spec_rs := Some rs\<rparr>
              in if \<exists>k<MAX_ODEPS. rs_odep_list (insts st rs) k \<noteq> [] then None
                 else Some (if F_MEM op then st else fetch_return_to_free_list rs st))"

text \<open>\<open>n\<close> is what is left of \<open>commit_width\<close>, \<open>c\<close> the number of instructions committed so far. A load that was
  issued too early flushes the pipeline and ends the stage; so does the \<open>sdbbp\<close> instruction.\<close>

fun commit_loop :: "nat \<Rightarrow> nat \<Rightarrow> godson2_cpu \<Rightarrow> (nat \<times> godson2_cpu) option" where
  "commit_loop 0 c st = Some (c, st)"
| "commit_loop (Suc n) c st =
     (if roq_num (pipe st) \<le> 0 then Some (c, st)
      else case roq (pipe st) (roq_head (pipe st)) of
             None \<Rightarrow> None
           | Some rs \<Rightarrow>
               if rs_trap (insts st rs) then None
               else if \<not> rs_completed (insts st rs) then Some (c, st)
               else let st = squash_tag rs st; i = insts st rs
                    in if F_MEM (rs_op i) \<and> lsq_ex (lsq st (rs_lsqid i))
                       then map_option (\<lambda>st. (c, bump (OfRetire sim_missspec_load) st)) (pipeline_flush rs st)
                       else do { st \<leftarrow> retire rs st;
                                 if rs_IR i = 0x7000003F then Some (c + 1, st\<lparr>sdbbp := True\<rparr>)
                                 else commit_loop n (c + 1) st })"

definition commit_stage :: "godson2_cpu \<Rightarrow> (nat \<times> godson2_cpu) option" where
  "commit_stage st = commit_loop (nat (commit_width (pipe st))) 0 st"

section \<open>Mapping\<close>

definition map_stage_init :: "godson2_cpu \<Rightarrow> godson2_cpu" where
  "map_stage_init st =
     upd_pipe (\<lambda>p. p\<lparr>roq := (\<lambda>_. None), roq_num := 0, roq_head := 0, roq_tail := 0,
       brq_num := 0, brq_head := 0, brq_tail := 0, brq := (\<lambda>_. None),
       int_rename_reg_num := 0, fp_rename_reg_num := 0\<rparr>) (st\<lparr>rslink_free := 4096\<rparr>)"

definition map_full :: "nat \<Rightarrow> godson2_cpu \<Rightarrow> bool" where
  "map_full lsq_size st =
     (let p = pipe st
      in roq_num p + map_width p > int (roq_ifq_size p) \<or> brq_num p \<ge> int (brq_ifq_size p) - 1 \<or>
         lsq_num st + map_width p > int lsq_size \<or>
         int_issue_num p + map_width p > int_issue_ifq_size p \<or> fp_issue_num p + map_width p > fp_issue_ifq_size p \<or>
         int_rename_reg_num p + map_width p > int_rename_reg_size p \<or>
         fp_rename_reg_num p + map_width p > fp_rename_reg_size p)"

text \<open>The rename registers an instruction takes: integer, floating point.\<close>

definition rename_int :: "inst_descript \<Rightarrow> int" where
  "rename_int i = of_bool (rs_out1 i \<noteq> 0 \<and> (rs_out1 i < 32 \<or> rs_out1 i = DHI)) +
     of_bool (rs_out2 i \<noteq> 0 \<and> (rs_out2 i < 32 \<or> rs_out2 i = DLO))"

definition rename_fp :: "inst_descript \<Rightarrow> int" where
  "rename_fp i = of_bool (rs_out1 i \<noteq> 0 \<and> \<not> (rs_out1 i < 32 \<or> rs_out1 i = DHI)) +
     of_bool (rs_out2 i \<noteq> 0 \<and> \<not> (rs_out2 i < 32 \<or> rs_out2 i = DLO))"

definition take_rename :: "nat \<Rightarrow> godson2_cpu \<Rightarrow> godson2_cpu" where
  "take_rename rs st =
     (let i = insts st rs;
          st = (if rs_out1 i = 0 then st
                else if rs_out1 i < 32 \<or> rs_out1 i = DHI then bump (OfIssue fix_map_access) st else bump (OfIssue fp_map_access) st);
          st = upd_inst rs (\<lambda>i. i\<lparr>rs_used_int_reg := rename_int i, rs_used_fp_reg := rename_fp i\<rparr>) st
      in upd_pipe (\<lambda>p. p\<lparr>int_rename_reg_num := int_rename_reg_num p + rename_int i,
           fp_rename_reg_num := fp_rename_reg_num p + rename_fp i\<rparr>) st)"

definition enter_roq :: "nat \<Rightarrow> godson2_cpu \<Rightarrow> godson2_cpu" where
  "enter_roq rs st =
     (let t = roq_tail (pipe st)
      in upd_pipe (\<lambda>p. p\<lparr>roq := (roq p)(t := Some rs), roq_tail := (t + 1) mod roq_ifq_size p, roq_num := roq_num p + 1\<rparr>)
           (upd_inst rs (\<lambda>i. i\<lparr>rs_roqid := t\<rparr>) st))"

text \<open>The history register a recovery will restore: with the prediction of the last cycle's decode, if there is one.\<close>

definition read_ghr :: "pipeline \<Rightarrow> inst_descript \<Rightarrow> inst_descript option" where
  "read_ghr p i =
     (if bp_class (pred p) = BPred2Level
      then map_option (\<lambda>d. i\<lparr>rs_dir_update := (rs_dir_update i)\<lparr>recovery_shiftregs :=
             (recovery_shiftregs (rs_dir_update i))[0 :=
               (if ghr_valid p then push_bit 1 (shiftregs d ! 0) OR of_bool (ghr_predict p) else shiftregs d ! 0)]\<rparr>\<rparr>)
             (twolev (pred p))
      else Some i)"

definition enter_brq :: "nat \<Rightarrow> godson2_cpu \<Rightarrow> godson2_cpu option" where
  "enter_brq rs st =
     (let t = brq_tail (pipe st)
      in if F_CTRL (rs_op (insts st rs))
         then do { i \<leftarrow> read_ghr (pipe st) (insts st rs);
                   Some (upd_pipe (\<lambda>p. p\<lparr>brq := (brq p)(t := Some rs), brq_tail := (t + 1) mod brq_ifq_size p,
                       brq_num := brq_num p + 1\<rparr>) (upd_inst rs (\<lambda>_. i\<lparr>rs_brqid := t\<rparr>) st)) }
         else Some (upd_inst rs (\<lambda>i. i\<lparr>rs_brqid := t\<rparr>) st))"

definition take_unit :: "nat \<Rightarrow> 32 word \<Rightarrow> godson2_cpu \<Rightarrow> (32 word \<times> godson2_cpu) option" where
  "take_unit rs stamp st =
     (let i = insts st rs;
          cl = (if \<not> rs_trap i \<and> MD_OP_FUCLASS (rs_op i) \<noteq> FUClass_NA then MD_OP_FUCLASS (rs_op i) else IntALU)
      in map_option (\<lambda>(fu, stamp, st). (stamp, upd_inst rs (\<lambda>i. i\<lparr>rs_fu_master := fu, rs_fu_class := cl\<rparr>) st))
           (res_alloc cl stamp st))"

definition enter_queues :: "nat \<Rightarrow> nat \<Rightarrow> godson2_cpu \<Rightarrow> godson2_cpu option" where
  "enter_queues lsq_size rs st =
     (if rs_trap (insts st rs) then Some st
      else do { st \<leftarrow> issue_enqueue rs st;
                Some (if F_MEM (rs_op (insts st rs)) then bump (OfIssue lsq_map_access) (lsq_enqueue lsq_size rs st)
                      else upd_inst rs (\<lambda>i. i\<lparr>rs_lsqid := lsq_tail st\<rparr>) st) })"

definition map_inst :: "nat \<Rightarrow> nat \<Rightarrow> 32 word \<times> godson2_cpu \<Rightarrow> (32 word \<times> godson2_cpu) option" where
  "map_inst lsq_size rs s =
     (let (stamp, st) = s
      in do { st \<leftarrow> enter_brq rs (enter_roq rs (take_rename rs st));
              let st = upd_inst rs (\<lambda>i. i\<lparr>rs_all_ready := OPERANDS_READY i\<rparr>) st;
              (stamp, st) \<leftarrow> take_unit rs stamp st;
              let st = upd_inst rs (\<lambda>i. i\<lparr>rs_in_intq := is_intq_op (rs_op i)\<rparr>) st;
              st \<leftarrow> enter_queues lsq_size rs st;
              let st = upd_pipe (\<lambda>p. p\<lparr>decode_head := (decode_head p + 1) mod decode_ifq_size p,
                         decode_num := decode_num p - 1\<rparr>) st;
              Some (stamp, bump (OfIssue sim_map_insn) (upd_inst rs (\<lambda>i. i\<lparr>rs_mapped := True\<rparr>) st)) })"

text \<open>\<open>n\<close> is what is left of \<open>map_width\<close>.\<close>

fun map_loop :: "nat \<Rightarrow> nat \<Rightarrow> 32 word \<times> godson2_cpu \<Rightarrow> (32 word \<times> godson2_cpu) option" where
  "map_loop lsq_size 0 s = Some s"
| "map_loop lsq_size (Suc n) s =
     (if decode_num (pipe (snd s)) = 0 then Some s
      else do { s \<leftarrow> map_inst lsq_size (decode_data (pipe (snd s)) (decode_head (pipe (snd s)))) s;
                map_loop lsq_size n s })"

definition map_stage :: "nat \<Rightarrow> 32 word \<times> godson2_cpu \<Rightarrow> (32 word \<times> godson2_cpu) option" where
  "map_stage lsq_size s =
     (if map_full lsq_size (snd s) then Some s else map_loop lsq_size (nat (map_width (pipe (snd s)))) s)"

end
