(* ===== verification/Window.thy ===== *)
theory Window
  imports Backend
begin

text \<open>
  The reorder window: the instructions in the reorder queue, in program order, with the branch queue, the
  load-store queue and the counters of rename registers and issue queue slots that go with it. Mapping adds
  at its end, commit takes from its head, recovery cuts it behind a branch and a flush empties it; each keeps
  the queues and counters in step with the window.
\<close>

section \<open>Ring buffers\<close>

text \<open>A ring of \<open>m\<close> slots with \<open>n\<close> entries from \<open>h\<close> up to \<open>t\<close> that holds the list \<open>xs\<close>, oldest first, and nothing
  else.\<close>

definition ring_holds :: "nat \<Rightarrow> nat \<Rightarrow> int \<Rightarrow> nat \<Rightarrow> (nat \<Rightarrow> 'a option) \<Rightarrow> 'a list \<Rightarrow> bool" where
  "ring_holds m h n t f xs \<longleftrightarrow> h < m \<and> n = int (length xs) \<and> length xs \<le> m \<and> t = (h + length xs) mod m \<and>
     (\<forall>i<length xs. f ((h + i) mod m) = Some (xs ! i)) \<and>
     (\<forall>k<m. f k \<noteq> None \<longrightarrow> (\<exists>i<length xs. k = (h + i) mod m))"

lemma ring_holdsI:
  assumes "h < m" "n = int (length xs)" "length xs \<le> m" "t = (h + length xs) mod m"
    and "\<And>i. i < length xs \<Longrightarrow> f ((h + i) mod m) = Some (xs ! i)"
    and "\<And>k. k < m \<Longrightarrow> f k \<noteq> None \<Longrightarrow> \<exists>i<length xs. k = (h + i) mod m"
  shows "ring_holds m h n t f xs"
  using assms by (simp add: ring_holds_def)

lemma ring_holdsD:
  assumes "ring_holds m h n t f xs"
  shows "h < m" "n = int (length xs)" "length xs \<le> m" "t = (h + length xs) mod m"
  using assms by (simp_all add: ring_holds_def)

lemma ring_nth: "ring_holds m h n t f xs \<Longrightarrow> i < length xs \<Longrightarrow> f ((h + i) mod m) = Some (xs ! i)"
  by (simp add: ring_holds_def)

lemma ring_slot: "ring_holds m h n t f xs \<Longrightarrow> k < m \<Longrightarrow> f k \<noteq> None \<Longrightarrow> \<exists>i<length xs. k = (h + i) mod m"
  by (simp add: ring_holds_def)

lemma ring_pos_neq: "i < m \<Longrightarrow> j < m \<Longrightarrow> i \<noteq> j \<Longrightarrow> (h + i) mod m \<noteq> (h + j) mod (m :: nat)"
  using ring_inject [of h i m j] by fast

lemma ring_push:
  assumes r: "ring_holds m h n t f xs" and room: "length xs < m"
  shows "ring_holds m h (n + 1) ((t + 1) mod m) (f(t := Some x)) (xs @ [x])"
proof (rule ring_holdsI)
  note d = ring_holdsD [OF r]
  show "h < m" "n + 1 = int (length (xs @ [x]))" "length (xs @ [x]) \<le> m" using d room by simp_all
  show "(t + 1) mod m = (h + length (xs @ [x])) mod m" by (simp add: d(4) mod_simps)
  fix i assume i: "i < length (xs @ [x])"
  show "(f(t := Some x)) ((h + i) mod m) = Some ((xs @ [x]) ! i)"
  proof (cases "i = length xs")
    case True
    then show ?thesis by (simp add: d(4))
  next
    case False
    then have l: "i < length xs" using i by simp
    have "(h + i) mod m \<noteq> t" unfolding d(4) using l room by (intro ring_pos_neq) simp_all
    then show ?thesis using ring_nth [OF r l] l by (simp add: nth_append)
  qed
next
  fix k assume k: "k < m" "(f(t := Some x)) k \<noteq> None"
  show "\<exists>i<length (xs @ [x]). k = (h + i) mod m"
  proof (cases "k = t")
    case True
    then show ?thesis using ring_holdsD(4) [OF r] by (intro exI [of _ "length xs"]) simp
  next
    case False
    then have "f k \<noteq> None" using k(2) by simp
    from ring_slot [OF r k(1) this] obtain i where "i < length xs" "k = (h + i) mod m" by auto
    then show ?thesis by (intro exI [of _ i]) simp
  qed
qed

lemma ring_last:
  assumes r: "ring_holds m h n t f (xs @ [x])"
  shows "(t + (m - 1)) mod m = (h + length xs) mod m" "f ((h + length xs) mod m) = Some x"
    "ring_holds m h (n - 1) ((h + length xs) mod m) (f((h + length xs) mod m := None)) xs"
proof -
  note d = ring_holdsD [OF r]
  have "(t + (m - 1)) mod m = (h + length (xs @ [x]) + (m - 1)) mod m" unfolding d(4) by (simp only: mod_add_left_eq)
  also have "\<dots> = (h + length xs + m) mod m" using d(1) by (intro arg_cong [of _ _ "\<lambda>a. a mod m"]) simp
  finally show "(t + (m - 1)) mod m = (h + length xs) mod m" by simp
  show "f ((h + length xs) mod m) = Some x" using ring_nth [OF r, of "length xs"] by simp
  let ?t = "(h + length xs) mod m"
  show "ring_holds m h (n - 1) ?t (f(?t := None)) xs"
  proof (rule ring_holdsI)
    show "h < m" "n - 1 = int (length xs)" "length xs \<le> m" "?t = (h + length xs) mod m" using d by simp_all
    fix i assume i: "i < length xs"
    have "(h + i) mod m \<noteq> ?t" using i d(3) by (intro ring_pos_neq) simp_all
    then show "(f(?t := None)) ((h + i) mod m) = Some (xs ! i)"
      using ring_nth [OF r, of i] i by (simp add: nth_append)
  next
    fix k assume k: "k < m" "(f(?t := None)) k \<noteq> None"
    then have "k \<noteq> ?t" "f k \<noteq> None" by (auto split: if_splits)
    with ring_slot [OF r k(1)] obtain i where "i < Suc (length xs)" "k = (h + i) mod m" "i \<noteq> length xs" by auto
    then show "\<exists>i<length xs. k = (h + i) mod m" by (intro exI [of _ i]) simp
  qed
qed

lemma ring_first:
  assumes r: "ring_holds m h n t f (x # xs)"
  shows "f h = Some x" "ring_holds m ((h + 1) mod m) (n - 1) t (f(h := None)) xs"
proof -
  note d = ring_holdsD [OF r]
  have at: "((h + 1) mod m + i) mod m = (h + Suc i) mod m" for i by (simp add: mod_simps)
  show "f h = Some x" using ring_nth [OF r, of 0] d(1) by simp
  show "ring_holds m ((h + 1) mod m) (n - 1) t (f(h := None)) xs"
  proof (rule ring_holdsI)
    show "(h + 1) mod m < m" "n - 1 = int (length xs)" "length xs \<le> m" using d by simp_all
    show "t = ((h + 1) mod m + length xs) mod m" unfolding at using d(4) by simp
    fix i assume i: "i < length xs"
    have "(h + Suc i) mod m \<noteq> (h + 0) mod m" using i d(3) by (intro ring_pos_neq) simp_all
    then have "(h + Suc i) mod m \<noteq> h" using d(1) by simp
    then show "(f(h := None)) (((h + 1) mod m + i) mod m) = Some (xs ! i)"
      unfolding at using ring_nth [OF r, of "Suc i"] i by simp
  next
    fix k assume k: "k < m" "(f(h := None)) k \<noteq> None"
    then have "k \<noteq> h" "f k \<noteq> None" by (auto split: if_splits)
    with ring_slot [OF r k(1)] obtain i where i: "i < Suc (length xs)" "k = (h + i) mod m" by auto
    have "i \<noteq> 0" using i(2) \<open>k \<noteq> h\<close> d(1) by (cases i) simp_all
    then obtain j where "i = Suc j" by (cases i) simp_all
    then show "\<exists>i<length xs. k = ((h + 1) mod m + i) mod m"
      using i(1) by (intro exI [of _ j]) (simp only: at i(2) Suc_less_eq simp_thms)
  qed
qed

lemma ring_nonempty: "ring_holds m h n t f xs \<Longrightarrow> 0 < n \<longleftrightarrow> xs \<noteq> []"
  by (auto simp: ring_holds_def)

text \<open>Entries that know their position.\<close>

definition ring_ids :: "nat \<Rightarrow> nat \<Rightarrow> ('a \<Rightarrow> nat) \<Rightarrow> 'a list \<Rightarrow> bool" where
  "ring_ids m h idx xs \<longleftrightarrow> (\<forall>i<length xs. idx (xs ! i) = (h + i) mod m)"

lemma ring_ids_snoc: "ring_ids m h idx (xs @ [x]) \<longleftrightarrow> ring_ids m h idx xs \<and> idx x = (h + length xs) mod m"
  by (auto simp: ring_ids_def nth_append less_Suc_eq)

lemma ring_ids_Cons: "ring_ids m h idx (x # xs) \<longleftrightarrow> idx x = h mod m \<and> ring_ids m ((h + 1) mod m) idx xs"
proof -
  have "((h + 1) mod m + i) mod m = (h + Suc i) mod m" for i by (simp add: mod_simps)
  then show ?thesis by (auto simp: ring_ids_def nth_Cons split: nat.splits)
qed

lemma ring_ids_cong: "(\<And>x. x \<in> set xs \<Longrightarrow> idx x = idx' x) \<Longrightarrow> ring_ids m h idx xs = ring_ids m h idx' xs"
  by (simp add: ring_ids_def)

section \<open>The window\<close>

text \<open>What the window reads of an instruction.\<close>

definition inst_win :: "inst_descript \<Rightarrow> md_opcode \<times> nat \<times> nat \<times> nat \<times> int \<times> int \<times> bool \<times> bool" where
  "inst_win i = (rs_op i, rs_roqid i, rs_brqid i, rs_lsqid i, rs_used_int_reg i, rs_used_fp_reg i, rs_queued i, rs_in_intq i)"

definition branches :: "(nat \<Rightarrow> inst_descript) \<Rightarrow> nat list \<Rightarrow> nat list" where
  "branches I = filter (\<lambda>rs. F_CTRL (rs_op (I rs)))"

definition mem_ops :: "(nat \<Rightarrow> inst_descript) \<Rightarrow> nat list \<Rightarrow> nat list" where
  "mem_ops I = filter (\<lambda>rs. F_MEM (rs_op (I rs)))"

text \<open>The reorder queue with its tail at \<open>t\<close>, the branch queue, and the counters. The number of instructions in
  an issue queue is the number of queued ones.\<close>

definition roq_ok :: "nat \<Rightarrow> nat list \<Rightarrow> (nat \<Rightarrow> inst_descript) \<Rightarrow> pipeline \<Rightarrow> bool" where
  "roq_ok t rsl I p \<longleftrightarrow> distinct rsl \<and>
     ring_holds (roq_ifq_size p) (roq_head p) (roq_num p) t (roq p) rsl \<and>
     ring_ids (roq_ifq_size p) (roq_head p) (\<lambda>rs. rs_roqid (I rs)) rsl"

definition brq_ok :: "nat list \<Rightarrow> (nat \<Rightarrow> inst_descript) \<Rightarrow> pipeline \<Rightarrow> bool" where
  "brq_ok rsl I p \<longleftrightarrow>
     ring_holds (brq_ifq_size p) (brq_head p) (brq_num p) (brq_tail p) (brq p) (branches I rsl) \<and>
     ring_ids (brq_ifq_size p) (brq_head p) (\<lambda>rs. rs_brqid (I rs)) (branches I rsl)"

definition counts_ok :: "nat list \<Rightarrow> (nat \<Rightarrow> inst_descript) \<Rightarrow> pipeline \<Rightarrow> bool" where
  "counts_ok rsl I p \<longleftrightarrow>
     int_rename_reg_num p = (\<Sum>rs\<leftarrow>rsl. rs_used_int_reg (I rs)) \<and>
     fp_rename_reg_num p = (\<Sum>rs\<leftarrow>rsl. rs_used_fp_reg (I rs)) \<and>
     int_issue_num p = (\<Sum>rs\<leftarrow>rsl. of_bool (rs_queued (I rs) \<and> rs_in_intq (I rs))) \<and>
     fp_issue_num p = (\<Sum>rs\<leftarrow>rsl. of_bool (rs_queued (I rs) \<and> \<not> rs_in_intq (I rs)))"

text \<open>The memory operations of the window are in the last entries of the load-store queue, in order; entries
  before them belong to stores and loads that have been committed.\<close>

definition lsq_ok :: "nat \<Rightarrow> nat list \<Rightarrow> (nat \<Rightarrow> inst_descript) \<Rightarrow> (nat \<Rightarrow> lsq_entry) \<times> int \<times> nat \<Rightarrow> bool" where
  "lsq_ok n rsl I L \<longleftrightarrow> (case L of (q, num, t) \<Rightarrow>
     int (length (mem_ops I rsl)) \<le> num \<and> length (mem_ops I rsl) \<le> n \<and>
     (\<exists>b<n. t = (b + length (mem_ops I rsl)) mod n \<and> ring_ids n b (\<lambda>rs. rs_lsqid (I rs)) (mem_ops I rsl)) \<and>
     (\<forall>rs\<in>set (mem_ops I rsl). lsq_state (q (rs_lsqid (I rs))) \<noteq> LSQ_EMPTY))"

definition lsq_part :: "godson2_cpu \<Rightarrow> (nat \<Rightarrow> lsq_entry) \<times> int \<times> nat" where
  "lsq_part st = (lsq st, lsq_num st, lsq_tail st)"

definition window_at :: "nat \<Rightarrow> nat \<Rightarrow> nat list \<Rightarrow> godson2_cpu \<Rightarrow> bool" where
  "window_at t n rsl st \<longleftrightarrow> roq_ok t rsl (insts st) (pipe st) \<and> brq_ok rsl (insts st) (pipe st) \<and>
     counts_ok rsl (insts st) (pipe st) \<and> lsq_ok n rsl (insts st) (lsq_part st)"

definition window_ok :: "nat \<Rightarrow> nat list \<Rightarrow> godson2_cpu \<Rightarrow> bool" where
  "window_ok n rsl st \<longleftrightarrow> window_at (roq_tail (pipe st)) n rsl st"

text \<open>The window is a matter of these fields only.\<close>

definition pipe_win :: "pipeline \<Rightarrow> pipeline" where
  "pipe_win p = blank_pipe\<lparr>roq_ifq_size := roq_ifq_size p, roq_head := roq_head p, roq_num := roq_num p, roq := roq p,
     brq_ifq_size := brq_ifq_size p, brq_head := brq_head p, brq_num := brq_num p, brq_tail := brq_tail p, brq := brq p,
     int_rename_reg_num := int_rename_reg_num p, fp_rename_reg_num := fp_rename_reg_num p,
     int_issue_num := int_issue_num p, fp_issue_num := fp_issue_num p\<rparr>"

lemma pipe_win_fields:
  assumes "pipe_win p' = pipe_win p"
  shows "roq_ifq_size p' = roq_ifq_size p" "roq_head p' = roq_head p" "roq_num p' = roq_num p" "roq p' = roq p"
    "brq_ifq_size p' = brq_ifq_size p" "brq_head p' = brq_head p" "brq_num p' = brq_num p" "brq_tail p' = brq_tail p"
    "brq p' = brq p" "int_rename_reg_num p' = int_rename_reg_num p" "fp_rename_reg_num p' = fp_rename_reg_num p"
    "int_issue_num p' = int_issue_num p" "fp_issue_num p' = fp_issue_num p"
proof -
  have e: "f p' = f p" if "\<And>q. f (pipe_win q) = f q" for f :: "pipeline \<Rightarrow> 'a"
    using assms that by metis
  show "roq_ifq_size p' = roq_ifq_size p" "roq_head p' = roq_head p" "roq_num p' = roq_num p" "roq p' = roq p"
    "brq_ifq_size p' = brq_ifq_size p" "brq_head p' = brq_head p" "brq_num p' = brq_num p" "brq_tail p' = brq_tail p"
    "brq p' = brq p" "int_rename_reg_num p' = int_rename_reg_num p" "fp_rename_reg_num p' = fp_rename_reg_num p"
    "int_issue_num p' = int_issue_num p" "fp_issue_num p' = fp_issue_num p"
    by (rule e, simp add: pipe_win_def)+
qed

lemma inst_win_fields:
  assumes "inst_win i = inst_win j"
  shows "rs_op i = rs_op j" "rs_roqid i = rs_roqid j" "rs_brqid i = rs_brqid j" "rs_lsqid i = rs_lsqid j"
    "rs_used_int_reg i = rs_used_int_reg j" "rs_used_fp_reg i = rs_used_fp_reg j" "rs_queued i = rs_queued j"
    "rs_in_intq i = rs_in_intq j"
  using assms by (simp_all add: inst_win_def)

lemma inst_win_core: "core_inst i = core_inst j \<Longrightarrow> inst_win i = inst_win j"
proof -
  assume "core_inst i = core_inst j"
  then have "inst_win (core_inst i) = inst_win (core_inst j)" by simp
  then show ?thesis by (simp add: inst_win_def core_inst_def)
qed

lemma window_frame:
  assumes w: "window_at t n rsl st" and i: "\<And>rs. rs \<in> set rsl \<Longrightarrow> inst_win (insts st' rs) = inst_win (insts st rs)"
    and p: "pipe_win (pipe st') = pipe_win (pipe st)" and l: "lsq_part st' = lsq_part st"
  shows "window_at t n rsl st'"
proof -
  note f = inst_win_fields [OF i] and pf = pipe_win_fields [OF p]
  have sel: "branches (insts st') rsl = branches (insts st) rsl" "mem_ops (insts st') rsl = mem_ops (insts st) rsl"
    by (auto simp: branches_def mem_ops_def f intro!: filter_cong)
  have sub: "set (branches (insts st) rsl) \<subseteq> set rsl" "set (mem_ops (insts st) rsl) \<subseteq> set rsl"
    by (auto simp: branches_def mem_ops_def)
  have ids: "ring_ids a b (\<lambda>rs. g (insts st' rs)) xs = ring_ids a b (\<lambda>rs. g (insts st rs)) xs"
    if "\<And>rs. rs \<in> set rsl \<Longrightarrow> g (insts st' rs) = g (insts st rs)" "set xs \<subseteq> set rsl" for a b g xs
    by (rule ring_ids_cong) (use that in auto)
  have "roq_ok t rsl (insts st') (pipe st')"
    using w by (simp add: window_at_def roq_ok_def pf ids [where g = rs_roqid] f)
  moreover have "brq_ok rsl (insts st') (pipe st')"
    using w by (simp add: window_at_def brq_ok_def pf sel ids [where g = rs_brqid] f sub)
  moreover have "counts_ok rsl (insts st') (pipe st')"
    using w by (simp add: window_at_def counts_ok_def pf f cong: map_cong)
  moreover have "lsq_ok n rsl (insts st') (lsq_part st')"
    using w sub(2) by (auto simp: window_at_def lsq_ok_def l sel ids [where g = rs_lsqid] f split: prod.splits)
  ultimately show ?thesis by (simp add: window_at_def)
qed

section \<open>Squashing the youngest instruction\<close>

text \<open>What squashing an instruction does to the pipeline.\<close>

definition squash_pipe :: "inst_descript \<Rightarrow> pipeline \<Rightarrow> pipeline" where
  "squash_pipe i p =
     (let p = free_unit i p;
          p = (if F_CTRL (rs_op i) then brq_pop_tail (rs_brqid i) p else p);
          p = free_rename i p
      in if rs_queued i
         then if rs_in_intq i then p\<lparr>int_issue_num := int_issue_num p + - 1\<rparr> else p\<lparr>fp_issue_num := fp_issue_num p + - 1\<rparr>
         else p)"

definition cancel_lsq :: "inst_descript \<Rightarrow> (nat \<Rightarrow> lsq_entry) \<times> int \<times> nat \<Rightarrow> (nat \<Rightarrow> lsq_entry) \<times> int \<times> nat" where
  "cancel_lsq i L = (case L of (q, num, t) \<Rightarrow>
     if F_MEM (rs_op i) then (q(rs_lsqid i := (q (rs_lsqid i))\<lparr>lsq_state := LSQ_EMPTY\<rparr>), num - 1, rs_lsqid i) else L)"

definition same_insts :: "godson2_cpu \<Rightarrow> godson2_cpu \<Rightarrow> bool" where
  "same_insts st st' \<longleftrightarrow> (\<forall>rs. core_inst (insts st' rs) = core_inst (insts st rs))"

lemma same_insts_refl [simp]: "same_insts st st"
  and same_insts_trans: "same_insts a b \<Longrightarrow> same_insts b c \<Longrightarrow> same_insts a c"
  by (simp_all add: same_insts_def)

lemma core_inst_ops:
  "same_insts st (upd_pipe f st)" "same_insts st (squash_tag rs st)" "same_insts st (free_odeps rs st)"
  "same_insts st (roq_drop rs k st)" "same_insts st (add_issue_num b d st)"
  by (auto simp: same_insts_def upd_pipe_def squash_tag_def upd_inst_def free_odeps_def MAX_ODEPS_def core_inst_def
    roq_drop_def fetch_return_to_free_list_def add_issue_num_def upt_rec)

lemma lsq_cancel_one_eq:
  assumes "lsq_state (lsq st k) \<noteq> LSQ_EMPTY"
  shows "\<exists>st'. lsq_cancel_one k st = Some st' \<and> insts st' = insts st \<and> pipe st' = pipe st \<and>
    lsq_part st' = ((lsq st)(k := (lsq st k)\<lparr>lsq_state := LSQ_EMPTY\<rparr>), lsq_num st - 1, k) \<and>
    fetch_inst_free st' = fetch_inst_free st \<and> irepbuf st' = irepbuf st"
  using assms by (auto simp: lsq_cancel_one_def Let_def upd_lsq_def lsq_part_def)

lemma squash_inst_effect:
  assumes "F_MEM (rs_op (insts st rs)) \<Longrightarrow> lsq_state (lsq st (rs_lsqid (insts st rs))) \<noteq> LSQ_EMPTY"
  shows "\<exists>st'. squash_inst rs st = Some st' \<and> same_insts st st' \<and> pipe st' = squash_pipe (insts st rs) (pipe st) \<and>
    lsq_part st' = cancel_lsq (insts st rs) (lsq_part st) \<and> fetch_inst_free st' = fetch_inst_free st"
proof -
  let ?i = "insts st rs"
  define s where "s = squash_tag rs (free_odeps rs st)"
  have same: "same_insts st s" unfolding s_def by (blast intro: same_insts_trans core_inst_ops)
  then have "core_inst (insts s rs) = core_inst ?i" by (simp add: same_insts_def)
  then have "f (core_inst (insts s rs)) = f (core_inst ?i)" for f :: "inst_descript \<Rightarrow> 'b" by simp
  from this [of rs_op] this [of rs_lsqid] this [of rs_brqid] this [of rs_queued] this [of rs_in_intq] this [of rs_used_int_reg]
    this [of rs_used_fp_reg] this [of rs_fu_master] this [of rs_fu_class]
  have i: "rs_op (insts s rs) = rs_op ?i" "rs_lsqid (insts s rs) = rs_lsqid ?i" "rs_brqid (insts s rs) = rs_brqid ?i"
    "rs_queued (insts s rs) = rs_queued ?i" "rs_in_intq (insts s rs) = rs_in_intq ?i"
    "free_rename (insts s rs) = free_rename ?i" "free_unit (insts s rs) = free_unit ?i"
    by (simp_all add: core_inst_def free_rename_def free_unit_def fun_eq_iff)
  define u where "u = (let s = upd_pipe (free_unit ?i) s
    in if F_CTRL (rs_op ?i) then upd_pipe (brq_pop_tail (rs_brqid ?i)) s else s)"
  have u: "same_insts st u" "lsq_part u = lsq_part st" "fetch_inst_free u = fetch_inst_free st"
    "pipe u = (let p = free_unit ?i (pipe st) in if F_CTRL (rs_op ?i) then brq_pop_tail (rs_brqid ?i) p else p)"
    using same by (auto simp: u_def Let_def s_def same_insts_def upd_pipe_def lsq_part_def squash_tag_def upd_inst_def
      free_odeps_def MAX_ODEPS_def upt_rec)
  then have "lsq u = lsq st" by (simp add: lsq_part_def)
  then have "\<exists>v. (if F_MEM (rs_op ?i) then lsq_cancel_one (rs_lsqid ?i) u else Some u) = Some v \<and> insts v = insts u \<and>
    pipe v = pipe u \<and> lsq_part v = cancel_lsq ?i (lsq_part st) \<and> fetch_inst_free v = fetch_inst_free st"
    using lsq_cancel_one_eq [of u "rs_lsqid ?i"] assms u(2,3) by (auto simp: cancel_lsq_def lsq_part_def)
  then obtain v where v: "(if F_MEM (rs_op ?i) then lsq_cancel_one (rs_lsqid ?i) u else Some u) = Some v"
    "insts v = insts u" "pipe v = pipe u" "lsq_part v = cancel_lsq ?i (lsq_part st)" "fetch_inst_free v = fetch_inst_free st"
    by blast
  define w where "w = (let v = upd_pipe (free_rename ?i) v in if rs_queued ?i then add_issue_num (rs_in_intq ?i) (- 1) v else v)"
  have "squash_inst rs st = (if F_MEM (rs_op ?i) then lsq_cancel_one (rs_lsqid ?i) u else Some u) \<bind>
    (\<lambda>v. Some (let v = upd_pipe (free_rename ?i) v in if rs_queued ?i then add_issue_num (rs_in_intq ?i) (- 1) v else v))"
    by (simp only: squash_inst_def Let_def s_def [symmetric] i u_def)
  then have "squash_inst rs st = Some w" unfolding v(1) bind.bind_lunit w_def .
  moreover have "same_insts st w"
    using u(1) v(2) by (auto simp: same_insts_def w_def Let_def add_issue_num_def upd_pipe_def)
  moreover have "pipe w = squash_pipe ?i (pipe st)"
    using v(3) u(4) by (auto simp: w_def Let_def squash_pipe_def add_issue_num_def upd_pipe_def)
  moreover have "lsq_part w = lsq_part v" "fetch_inst_free w = fetch_inst_free v"
    by (auto simp: w_def Let_def add_issue_num_def upd_pipe_def lsq_part_def)
  ultimately show ?thesis using v(4,5) by auto
qed

lemma ring_ids_inject:
  assumes "ring_ids n b idx xs" "length xs \<le> n" "distinct xs" "x \<in> set xs" "y \<in> set xs" "idx x = idx y"
  shows "x = y"
proof -
  from assms(4,5) obtain i j where "i < length xs" "x = xs ! i" "j < length xs" "y = xs ! j" by (auto simp: in_set_conv_nth)
  moreover from this assms have "(b + i) mod n = (b + j) mod n" by (simp add: ring_ids_def)
  ultimately show ?thesis using ring_inject [of b i n j] assms(2) by simp
qed

text \<open>The window without its last entry. Dropping the entry and its slot is the same for the queue and for a
  tail that is moved later.\<close>

lemma roq_ok_last:
  assumes "roq_ok t (rsl @ [rs]) I p"
  shows "roq_before p t = (roq_head p + length rsl) mod roq_ifq_size p" "roq p (roq_before p t) = Some rs"
    "roq_ok (roq_before p t) rsl I (p\<lparr>roq := (roq p)(roq_before p t := None), roq_num := roq_num p - 1\<rparr>)"
proof -
  note r = ring_last [of "roq_ifq_size p" "roq_head p" "roq_num p" t "roq p" rsl rs]
  have ring: "ring_holds (roq_ifq_size p) (roq_head p) (roq_num p) t (roq p) (rsl @ [rs])"
    using assms by (simp add: roq_ok_def)
  show k: "roq_before p t = (roq_head p + length rsl) mod roq_ifq_size p"
    unfolding roq_before_def by (rule r(1) [OF ring])
  show "roq p (roq_before p t) = Some rs" unfolding k by (rule r(2) [OF ring])
  show "roq_ok (roq_before p t) rsl I (p\<lparr>roq := (roq p)(roq_before p t := None), roq_num := roq_num p - 1\<rparr>)"
    using r(3) [OF ring] assms by (simp add: roq_ok_def k ring_ids_snoc)
qed

lemma brq_ok_last:
  assumes "brq_ok (rsl @ [rs]) I p"
  shows "if F_CTRL (rs_op (I rs)) then brq_ok rsl I (brq_pop_tail (rs_brqid (I rs)) p) else brq_ok rsl I p"
proof (cases "F_CTRL (rs_op (I rs))")
  case True
  then have b: "branches I (rsl @ [rs]) = branches I rsl @ [rs]" by (simp add: branches_def)
  have ring: "ring_holds (brq_ifq_size p) (brq_head p) (brq_num p) (brq_tail p) (brq p) (branches I rsl @ [rs])"
    and id: "rs_brqid (I rs) = (brq_head p + length (branches I rsl)) mod brq_ifq_size p"
    and ids: "ring_ids (brq_ifq_size p) (brq_head p) (\<lambda>rs. rs_brqid (I rs)) (branches I rsl)"
    using assms by (simp_all add: brq_ok_def b ring_ids_snoc)
  note r = ring_last [OF ring]
  have m: "brq_head p < brq_ifq_size p" using ring by (rule ring_holdsD)
  then have "brq_tail p + brq_ifq_size p - 1 = brq_tail p + (brq_ifq_size p - 1)" by simp
  then show ?thesis
    using r True by (simp add: brq_ok_def brq_pop_tail_def id [symmetric] ids)
qed (use assms in \<open>simp add: brq_ok_def branches_def\<close>)

lemma counts_ok_last:
  assumes "counts_ok (rsl @ [rs]) I p" "p' = squash_pipe (I rs) p"
  shows "counts_ok rsl I p'"
  using assms by (auto simp: counts_ok_def squash_pipe_def Let_def free_unit_def free_rename_def brq_pop_tail_def)

lemma lsq_ok_last:
  assumes "lsq_ok n (rsl @ [rs]) I L" "distinct (rsl @ [rs])"
  shows "lsq_ok n rsl I (cancel_lsq (I rs) L)"
proof (cases "F_MEM (rs_op (I rs))")
  case True
  obtain q num t where L: "L = (q, num, t)" by (cases L) auto
  from True have m: "mem_ops I (rsl @ [rs]) = mem_ops I rsl @ [rs]" by (simp add: mem_ops_def)
  from assms(1) obtain b where b: "b < n" "ring_ids n b (\<lambda>rs. rs_lsqid (I rs)) (mem_ops I rsl @ [rs])"
    "length (mem_ops I rsl @ [rs]) \<le> n" "int (length (mem_ops I rsl @ [rs])) \<le> num"
    and alive: "\<forall>x\<in>set (mem_ops I rsl @ [rs]). lsq_state (q (rs_lsqid (I x))) \<noteq> LSQ_EMPTY"
    unfolding lsq_ok_def L m by auto
  have d: "distinct (mem_ops I rsl @ [rs])" using assms(2) by (auto simp: mem_ops_def)
  have "rs_lsqid (I x) \<noteq> rs_lsqid (I rs)" if "x \<in> set (mem_ops I rsl)" for x
    using ring_ids_inject [OF b(2,3) d, of x rs] that d by auto
  then have "\<forall>x\<in>set (mem_ops I rsl). lsq_state ((q(rs_lsqid (I rs) := (q (rs_lsqid (I rs)))\<lparr>lsq_state := LSQ_EMPTY\<rparr>))
      (rs_lsqid (I x))) \<noteq> LSQ_EMPTY" using alive by simp
  moreover have "rs_lsqid (I rs) = (b + length (mem_ops I rsl)) mod n" "ring_ids n b (\<lambda>rs. rs_lsqid (I rs)) (mem_ops I rsl)"
    using b(2) by (simp_all add: ring_ids_snoc)
  ultimately show ?thesis
    using True b by (auto simp: lsq_ok_def L cancel_lsq_def)
qed (use assms in \<open>simp add: lsq_ok_def mem_ops_def cancel_lsq_def split: prod.splits\<close>)

lemma squash_pipe_fields:
  "roq (squash_pipe i p) = roq p" "roq_ifq_size (squash_pipe i p) = roq_ifq_size p"
  "roq_head (squash_pipe i p) = roq_head p" "roq_num (squash_pipe i p) = roq_num p"
  "roq_tail (squash_pipe i p) = roq_tail p"
  by (simp_all add: squash_pipe_def Let_def free_unit_def free_rename_def brq_pop_tail_def)

lemma brq_ok_squash:
  "brq_ok rsl I (squash_pipe i p) =
    brq_ok rsl I (if F_CTRL (rs_op i) then brq_pop_tail (rs_brqid i) p else p)"
  by (simp add: squash_pipe_def Let_def free_unit_def free_rename_def brq_pop_tail_def brq_ok_def)

lemma lsq_ok_alive:
  "lsq_ok n rsl I L \<Longrightarrow> rs \<in> set rsl \<Longrightarrow> F_MEM (rs_op (I rs)) \<Longrightarrow> lsq_state (fst L (rs_lsqid (I rs))) \<noteq> LSQ_EMPTY"
  by (cases L) (simp add: lsq_ok_def mem_ops_def)

lemma window_atD:
  assumes "window_at t n rsl st"
  shows "roq_ok t rsl (insts st) (pipe st)" "brq_ok rsl (insts st) (pipe st)" "counts_ok rsl (insts st) (pipe st)"
    "lsq_ok n rsl (insts st) (lsq_part st)"
  using assms by (simp_all add: window_at_def)

text \<open>The youngest entry is squashed and leaves its slot.\<close>

lemma squash_youngest:
  assumes w: "window_at t n (rsl @ [rs]) st"
  shows "\<exists>st'. roq (pipe st) (roq_before (pipe st) t) = Some rs \<and> squash_inst rs st = Some st' \<and> same_insts st st' \<and>
    pipe st' = squash_pipe (insts st rs) (pipe st) \<and> fetch_inst_free st' = fetch_inst_free st \<and>
    window_at (roq_before (pipe st) t) n rsl (roq_drop rs (roq_before (pipe st) t) st')"
proof -
  note w' = window_atD [OF w]
  have "lsq_state (lsq st (rs_lsqid (insts st rs))) \<noteq> LSQ_EMPTY" if "F_MEM (rs_op (insts st rs))"
    using lsq_ok_alive [OF w'(4) _ that] by (simp add: lsq_part_def)
  from squash_inst_effect [of st rs, OF this] obtain st' where
    st': "squash_inst rs st = Some st'" "same_insts st st'" "pipe st' = squash_pipe (insts st rs) (pipe st)"
      "lsq_part st' = cancel_lsq (insts st rs) (lsq_part st)" "fetch_inst_free st' = fetch_inst_free st" by blast
  let ?k = "roq_before (pipe st) t" and ?I = "insts st"
  define u where "u = st'\<lparr>insts := ?I\<rparr>"
  have "window_at ?k n rsl (roq_drop rs ?k u)"
  proof -
    have pd: "pipe (roq_drop rs ?k u) = (squash_pipe (?I rs) (pipe st))
        \<lparr>roq := (roq (pipe st))(?k := None), roq_num := roq_num (pipe st) - 1\<rparr>"
      by (simp add: roq_drop_def u_def st'(3) squash_pipe_fields fetch_return_to_free_list_def upd_pipe_def)
    have other: "insts (roq_drop rs ?k u) = ?I" "lsq_part (roq_drop rs ?k u) = cancel_lsq (?I rs) (lsq_part st)"
      using st'(4) by (simp_all add: roq_drop_def u_def fetch_return_to_free_list_def upd_pipe_def lsq_part_def)
    have "roq_ok ?k rsl ?I (pipe (roq_drop rs ?k u))"
      using roq_ok_last(3) [OF w'(1)] unfolding pd by (simp add: roq_ok_def squash_pipe_fields)
    moreover have "brq_ok rsl ?I (pipe (roq_drop rs ?k u))"
    proof -
      have "brq_ok rsl ?I (squash_pipe (?I rs) (pipe st))"
        using brq_ok_last [OF w'(2)] by (simp add: brq_ok_squash split: if_splits)
      then show ?thesis unfolding pd by (simp add: brq_ok_def)
    qed
    moreover have "counts_ok rsl ?I (pipe (roq_drop rs ?k u))"
      using counts_ok_last [OF w'(3) refl] unfolding pd by (simp add: counts_ok_def)
    moreover have "lsq_ok n rsl ?I (cancel_lsq (?I rs) (lsq_part st))"
      using lsq_ok_last [OF w'(4)] w'(1) by (simp add: roq_ok_def)
    ultimately show ?thesis by (simp add: window_at_def other)
  qed
  then have "window_at ?k n rsl (roq_drop rs ?k st')"
  proof (rule window_frame)
    have "insts (roq_drop rs ?k st') = insts st'" "insts (roq_drop rs ?k u) = ?I"
      by (simp_all add: roq_drop_def u_def fetch_return_to_free_list_def upd_pipe_def)
    moreover have "inst_win (insts st' x) = inst_win (?I x)" for x
      using st'(2) inst_win_core by (metis same_insts_def)
    ultimately show "inst_win (insts (roq_drop rs ?k st') x) = inst_win (insts (roq_drop rs ?k u) x)" for x by simp
  qed (simp_all add: roq_drop_def u_def fetch_return_to_free_list_def upd_pipe_def lsq_part_def)
  moreover have "roq (pipe st) ?k = Some rs" by (rule roq_ok_last(2) [OF w'(1)])
  ultimately show ?thesis using st'(1,2,3,5) by (intro exI [of _ st'] conjI)
qed

section \<open>Recovery cuts the window\<close>

text \<open>What the loops over the reorder queue leave alone.\<close>

definition no_window :: "pipeline \<Rightarrow> pipeline" where
  "no_window p = p\<lparr>fu_busy := (\<lambda>_. False), brq := (\<lambda>_. None), brq_tail := 0, brq_num := 0, int_rename_reg_num := 0,
     fp_rename_reg_num := 0, int_issue_num := 0, fp_issue_num := 0, roq := (\<lambda>_. None), roq_num := 0, roq_tail := 0\<rparr>"

lemma no_window_ops:
  "no_window (squash_pipe i p) = no_window p" "no_window (p\<lparr>roq_tail := k\<rparr>) = no_window p"
  "no_window (p\<lparr>roq := f, roq_num := m\<rparr>) = no_window p"
  by (simp_all add: no_window_def squash_pipe_def Let_def free_unit_def brq_pop_tail_def free_rename_def)

lemma no_window_fields:
  assumes "no_window p' = no_window p"
  shows "arch p' = arch p" "target_mem p' = target_mem p" "front_ok p' = front_ok p" "decode_list p' = decode_list p"
    "fetch_list p' = fetch_list p" "pred p' = pred p" "pred_perfect p' = pred_perfect p" "roq_ifq_size p' = roq_ifq_size p"
    "roq_head p' = roq_head p" "brq_ifq_size p' = brq_ifq_size p"
proof -
  have e: "f p' = f p" if "\<And>q. f (no_window q) = f q" for f :: "pipeline \<Rightarrow> 'a"
    using assms that by metis
  show "arch p' = arch p"
  proof (rule e)
    fix q show "arch (no_window q) = arch q"
    proof
      fix x show "arch (no_window q) x = arch q x" by (cases x) (simp_all add: no_window_def)
    qed
  qed
  show "target_mem p' = target_mem p" "front_ok p' = front_ok p" "decode_list p' = decode_list p"
    "fetch_list p' = fetch_list p" "pred p' = pred p" "pred_perfect p' = pred_perfect p" "roq_ifq_size p' = roq_ifq_size p"
    "roq_head p' = roq_head p" "brq_ifq_size p' = brq_ifq_size p"
    by (rule e, simp add: no_window_def front_ok_def decode_list_def fetch_list_def)+
qed

lemma pipe_roq_drop: "pipe (roq_drop rs k st) = (pipe st)\<lparr>roq := (roq (pipe st))(k := None), roq_num := roq_num (pipe st) - 1\<rparr>"
  and free_roq_drop: "fetch_inst_free (roq_drop rs k st) = fetch_inst_free st @ [rs]"
  by (simp_all add: roq_drop_def fetch_return_to_free_list_def upd_pipe_def)

lemma roq_before_size: "roq_ifq_size p = roq_ifq_size q \<Longrightarrow> roq_before p k = roq_before q k"
  by (simp add: roq_before_def)

lemma squash_roq_effect:
  assumes "window_at t n (older @ rsl) st" "older \<noteq> []" "length rsl \<le> N"
    and "stop = (roq_head (pipe st) + (length older - 1)) mod roq_ifq_size (pipe st)"
  shows "\<exists>prev st'. squash_roq N stop (roq_before (pipe st) t) t st = Some (prev, st') \<and> window_at prev n older st' \<and>
    same_insts st st' \<and> no_window (pipe st') = no_window (pipe st) \<and>
    fetch_inst_free st' = fetch_inst_free st @ rev rsl"
  using assms
proof (induction rsl arbitrary: t st N rule: rev_induct)
  case Nil
  have "older = butlast older @ [last older]" using Nil.prems(2) by simp
  then have "roq_before (pipe st) t = stop"
    using roq_ok_last(1) [of t "butlast older" "last older" "insts st" "pipe st"] window_atD(1) [OF Nil.prems(1)] Nil.prems(4)
    by simp
  then have "squash_roq N stop (roq_before (pipe st) t) t st = Some (t, st)" by (cases N) simp_all
  then show ?case using Nil.prems(1) by simp
next
  case (snoc rs rsl)
  let ?k = "roq_before (pipe st) t" and ?m = "roq_ifq_size (pipe st)" and ?h = "roq_head (pipe st)"
  have w: "window_at t n ((older @ rsl) @ [rs]) st" using snoc.prems(1) by simp
  note r = roq_ok_last [OF window_atD(1) [OF w]]
  obtain M where N: "N = Suc M" using snoc.prems(3) by (cases N) simp_all
  from window_atD(1) [OF w] have len: "?h < ?m" "length ((older @ rsl) @ [rs]) \<le> ?m"
    by (auto simp: roq_ok_def dest: ring_holdsD)
  have pos: "0 < length older" using snoc.prems(2) by simp
  then have "length (older @ rsl) \<noteq> length older - 1" by (simp only: length_append)
  then have "?k \<noteq> stop" unfolding r(1) snoc.prems(4) using len by (intro ring_pos_neq) simp_all
  moreover have "?k \<noteq> ?h"
  proof -
    have "(?h + length (older @ rsl)) mod ?m \<noteq> (?h + 0) mod ?m" using len pos by (intro ring_pos_neq) simp_all
    then show ?thesis unfolding r(1) using len(1) by simp
  qed
  moreover from squash_youngest [OF w] obtain st1 where
    st1: "roq (pipe st) ?k = Some rs" "squash_inst rs st = Some st1" "same_insts st st1"
      "pipe st1 = squash_pipe (insts st rs) (pipe st)" "fetch_inst_free st1 = fetch_inst_free st"
      "window_at ?k n (older @ rsl) (roq_drop rs ?k st1)" by blast
  ultimately have step: "squash_roq N stop ?k t st = squash_roq M stop (roq_before (pipe st1) ?k) ?k (roq_drop rs ?k st1)"
    by (simp add: N)
  have nw: "no_window (pipe (roq_drop rs ?k st1)) = no_window (pipe st)"
    by (simp only: pipe_roq_drop no_window_ops st1(4))
  note f = no_window_fields [OF nw]
  have before: "roq_before (pipe st1) ?k = roq_before (pipe (roq_drop rs ?k st1)) ?k"
    by (rule roq_before_size) (simp add: pipe_roq_drop)
  have "stop = (roq_head (pipe (roq_drop rs ?k st1)) + (length older - 1)) mod roq_ifq_size (pipe (roq_drop rs ?k st1))"
    by (simp only: f snoc.prems(4))
  from snoc.IH [OF st1(6) snoc.prems(2) _ this, of M] obtain prev st' where
    IH: "squash_roq M stop (roq_before (pipe (roq_drop rs ?k st1)) ?k) ?k (roq_drop rs ?k st1) = Some (prev, st')"
      "window_at prev n older st'" "same_insts (roq_drop rs ?k st1) st'"
      "no_window (pipe st') = no_window (pipe (roq_drop rs ?k st1))"
      "fetch_inst_free st' = fetch_inst_free (roq_drop rs ?k st1) @ rev rsl"
    using snoc.prems(3) N by auto
  have "same_insts st st'" using st1(3) IH(3) core_inst_ops(4) same_insts_trans by blast
  moreover have "fetch_inst_free st' = fetch_inst_free st @ rev (rsl @ [rs])"
    using IH(5) by (simp add: free_roq_drop st1(5))
  ultimately show ?case
    using IH(1,2,4) unfolding step before nw by (intro exI [of _ prev] exI [of _ st'] conjI)
qed

text \<open>\<open>tracer_recover\<close> leaves the window alone.\<close>

lemma pipe_win_front_reset:
  "pipe_win (front_reset l pc p) = pipe_win p" "roq_tail (front_reset l pc p) = roq_tail p"
  "pred (front_reset l pc p) = pred p" "pred_perfect (front_reset l pc p) = pred_perfect p"
proof -
  obtain t f where "recover_stores l (p\<lparr>spec_level := l\<rparr>) = p\<lparr>spec_level := l, store_htable := t, bucket_free_list := f\<rparr>"
    using only_table_eq [OF recover_stores_other, of l "p\<lparr>spec_level := l\<rparr>"] by fastforce
  then show "pipe_win (front_reset l pc p) = pipe_win p" "roq_tail (front_reset l pc p) = roq_tail p"
    "pred (front_reset l pc p) = pred p" "pred_perfect (front_reset l pc p) = pred_perfect p"
    by (simp_all add: front_reset_def pipe_win_def)
qed

lemma no_arch_win:
  assumes "no_arch p' = no_arch p"
  shows "pipe_win p' = pipe_win p" "roq_tail p' = roq_tail p" "pred p' = pred p" "pred_perfect p' = pred_perfect p"
proof -
  have e: "f p' = f p" if "\<And>q. f (no_arch q) = f q" for f :: "pipeline \<Rightarrow> 'a"
    using assms that by metis
  show "pipe_win p' = pipe_win p" "roq_tail p' = roq_tail p" "pred p' = pred p" "pred_perfect p' = pred_perfect p"
    by (rule e, simp add: no_arch_def pipe_win_def)+
qed

lemma only_freed_win:
  assumes "only_freed st st'"
  shows "same_insts st st'" "lsq_part st' = lsq_part st" "istall st' = istall st"
proof -
  show "same_insts st st'" using assms by (simp add: only_freed_def same_insts_def)
  have e: "f (core_rest st') = f (core_rest st)" for f :: "godson2_cpu \<Rightarrow> 'a" using assms by (simp add: only_freed_def)
  from e [of lsq] e [of lsq_num] e [of lsq_tail] show "lsq_part st' = lsq_part st" by (simp add: core_rest_def lsq_part_def)
  from e [of istall] show "istall st' = istall st" by (simp add: core_rest_def)
qed

lemma window_same:
  assumes "window_at t n rsl st" "same_insts st st'" "pipe_win (pipe st') = pipe_win (pipe st)" "lsq_part st' = lsq_part st"
  shows "window_at t n rsl st'"
  using assms(1) _ assms(3,4)
proof (rule window_frame)
  fix rs show "inst_win (insts st' rs) = inst_win (insts st rs)"
    by (rule inst_win_core) (use assms(2) in \<open>simp add: same_insts_def\<close>)
qed

lemma tracer_recover_window:
  assumes "window_at t n rsl st" "pending_ok st"
  shows "\<exists>st'. tracer_recover level pc st = Some st' \<and> window_at t n rsl st' \<and> same_insts st st' \<and>
    roq_tail (pipe st') = roq_tail (pipe st) \<and> mem_ok (target_mem (pipe st')) \<and>
    arch (pipe st') = foldr (\<lambda>rs. undo_inst (insts st rs)) (decode_list (pipe st)) (arch (pipe st)) \<and>
    no_arch (pipe st') = no_arch (front_reset level pc (pipe st)) \<and>
    fetch_inst_free st' = fetch_inst_free st @ fetch_list (pipe st) @ rev (decode_list (pipe st))"
proof -
  from tracer_recover_effect [OF assms(2), of level pc] obtain st' where
    st': "tracer_recover level pc st = Some st'" "only_freed st st'" "mem_ok (target_mem (pipe st'))"
      "arch (pipe st') = fold (\<lambda>rs. undo_inst (insts st rs)) (rev (decode_list (pipe st))) (arch (pipe st))"
      "no_arch (pipe st') = no_arch (front_reset level pc (pipe st))"
      "fetch_inst_free st' = fetch_inst_free st @ fetch_list (pipe st) @ rev (decode_list (pipe st))" by blast
  note win = no_arch_win [OF st'(5), unfolded pipe_win_front_reset]
  have "window_at t n rsl st'"
    by (rule window_same [OF assms(1) only_freed_win(1) [OF st'(2)] win(1) only_freed_win(2) [OF st'(2)]])
  then show ?thesis
    using st' win only_freed_win(1) [OF st'(2)] by (intro exI [of _ st'] conjI) (simp_all add: foldr_conv_fold)
qed

end
