(* ===== verification/Recovery.thy ===== *)
theory Recovery
  imports Window
begin

text \<open>
  Recovery of the whole core: \<open>brerr_recover\<close> cuts the reorder window behind a mispredicted branch and its delay
  slot, \<open>pipeline_flush\<close> empties it and gives back the precise architectural state, and \<open>commit_stage\<close> retires
  from its head in program order.
\<close>

section \<open>Recovery from a misprediction\<close>

lemma bpred_recover_some:
  assumes "bp_class p = BPred2Level \<Longrightarrow> twolev p \<noteq> None"
  shows "\<exists>p'. bpred_recover perfect idx u p = Some p'"
  using assms by (auto simp: bpred_recover_def)

text \<open>The position in the window the recovery keeps: the branch, and its delay slot if it is not a branch-likely.\<close>

definition recovery_point :: "nat \<Rightarrow> inst_descript \<Rightarrow> nat" where
  "recovery_point j i = (if \<not> rs_trap i \<and> \<not> F_CTRL_LIKELY (rs_op i) then j + 2 else j + 1)"

text \<open>C4. Recovery from a mispredicted branch that is in the window, with its delay slot, returns: it keeps exactly the
  instructions up to the branch (for a branch-likely) or its delay slot, with the branch queue, the load-store
  queue, and the counters of rename registers and issue slots of just these; it squashes everything younger
  back to the free list, undoes the effects of the decoded instructions, and continues at the recovery PC on the
  branch's level.\<close>

theorem brerr_recover_keeps:
  assumes w: "window_ok n rsl st" and pend: "pending_ok st" and j: "j < length rsl" "rs = rsl ! j"
    and slot: "recovery_point j (insts st rs) \<le> length rsl"
    and b: "bp_class (pred (pipe st)) = BPred2Level \<longrightarrow> twolev (pred (pipe st)) \<noteq> None"
  shows "\<exists>st'. brerr_recover rs st = Some st' \<and>
    window_ok n (take (recovery_point j (insts st rs)) rsl) st' \<and>
    fetch_num (pipe st') = 0 \<and> decode_num (pipe st') = 0 \<and> \<not> ghr_valid (pipe st') \<and>
    spec_level (pipe st') = rs_spec_level (insts st rs) \<and> fetch_reg_PC (pipe st') = rs_recover_PC (insts st rs) \<and>
    arch (pipe st') = foldr (\<lambda>rs. undo_inst (insts st rs)) (decode_list (pipe st)) (arch (pipe st)) \<and>
    fetch_inst_free st' = fetch_inst_free st @ rev (drop (recovery_point j (insts st rs)) rsl) @
      fetch_list (pipe st) @ rev (decode_list (pipe st))"
proof -
  let ?i = "insts st rs" and ?p = "pipe st"
  let ?m = "recovery_point j ?i"
  define stop where "stop = (if \<not> rs_trap ?i \<and> \<not> F_CTRL_LIKELY (rs_op ?i)
    then (rs_roqid ?i + 1) mod roq_ifq_size ?p else rs_roqid ?i)"
  have roq: "roq_ok (roq_tail ?p) rsl (insts st) ?p" using w by (simp add: window_ok_def window_at_def)
  then have id: "rs_roqid ?i = (roq_head ?p + j) mod roq_ifq_size ?p"
    and num: "roq_num ?p = int (length rsl)" using j by (auto simp: roq_ok_def ring_ids_def dest: ring_holdsD)
  have m: "0 < ?m" "length (take ?m rsl) = ?m" using slot by (simp_all add: recovery_point_def)
  have stop: "stop = (roq_head ?p + (length (take ?m rsl) - 1)) mod roq_ifq_size ?p"
    by (simp only: m(2)) (simp add: stop_def id recovery_point_def mod_simps)
  have w1: "window_at (roq_tail ?p) n (take ?m rsl @ drop ?m rsl) st" using w by (simp add: window_ok_def)
  have ne: "take ?m rsl \<noteq> []" using m by auto
  from squash_roq_effect [OF w1 ne _ stop, of "nat (roq_num ?p)"] num obtain prev st1 where
    1: "squash_roq (nat (roq_num ?p)) stop (roq_before ?p (roq_tail ?p)) (roq_tail ?p) st = Some (prev, st1)"
      "window_at prev n (take ?m rsl) st1" "same_insts st st1" "no_window (pipe st1) = no_window ?p"
      "fetch_inst_free st1 = fetch_inst_free st @ rev (drop ?m rsl)" by auto
  note f1 = no_window_fields [OF 1(4)]
  define st2 where "st2 = upd_pipe (\<lambda>p. p\<lparr>roq_tail := prev\<rparr>) st1"
  have same2: "same_insts st st2" using 1(3) by (simp add: st2_def same_insts_def upd_pipe_def)
  have nw2: "no_window (pipe st2) = no_window ?p" by (simp add: st2_def no_window_ops 1(4))
  note f2 = no_window_fields [OF nw2]
  have w2: "window_at prev n (take ?m rsl) st2"
    by (rule window_same [OF 1(2)]) (simp_all add: st2_def same_insts_def upd_pipe_def pipe_win_def lsq_part_def)
  have core2: "core_inst (insts st2 x) = core_inst (insts st x)" for x using same2 by (simp add: same_insts_def)
  have undo2: "undo_inst (insts st2 x) = undo_inst (insts st x)" for x using core_inst_fields(3) [OF core2] .
  have pend2: "pending_ok st2"
    using pend core_inst_fields(1) [OF core2] by (simp add: pending_ok_def f2 savings_ok_def)
  have core: "g (insts st2 rs) = g ?i" if "\<And>i. g (core_inst i) = g i" for g :: "inst_descript \<Rightarrow> 'b"
    using core2 [of rs] that by metis
  have lev: "rs_spec_level (insts st2 rs) = rs_spec_level ?i" "rs_recover_PC (insts st2 rs) = rs_recover_PC ?i"
    by (rule core, simp add: core_inst_def)+
  from tracer_recover_window [OF w2 pend2, of "rs_spec_level ?i" "rs_recover_PC ?i"] obtain st3 where
    3: "tracer_recover (rs_spec_level ?i) (rs_recover_PC ?i) st2 = Some st3" "window_at prev n (take ?m rsl) st3"
      "same_insts st2 st3" "roq_tail (pipe st3) = roq_tail (pipe st2)"
      "arch (pipe st3) = foldr (\<lambda>rs. undo_inst (insts st2 rs)) (decode_list (pipe st2)) (arch (pipe st2))"
      "no_arch (pipe st3) = no_arch (front_reset (rs_spec_level ?i) (rs_recover_PC ?i) (pipe st2))"
      "fetch_inst_free st3 = fetch_inst_free st2 @ fetch_list (pipe st2) @ rev (decode_list (pipe st2))" by blast
  have pred3: "pred (pipe st3) = pred ?p"
    using no_arch_win(3) [OF 3(6)] by (simp add: pipe_win_front_reset f2)
  then obtain b' where b': "bpred_recover (pred_perfect (pipe st3)) (rs_stack_recover_idx (insts st3 rs))
      (rs_dir_update (insts st3 rs)) (pred (pipe st3)) = Some b'"
    using bpred_recover_some [of "pred ?p"] b by metis
  define st4 where "st4 = upd_pipe (\<lambda>p. p\<lparr>pred := b', ghr_valid := False\<rparr>) st3"
  have "brerr_recover rs st = Some st4"
    unfolding brerr_recover_def Let_def stop_def [symmetric] 1(1)
    by (simp add: st2_def [symmetric] lev 3(1) b' st4_def)
  moreover have "window_ok n (take ?m rsl) st4"
  proof -
    have "window_at prev n (take ?m rsl) st4"
      by (rule window_same [OF 3(2)]) (simp_all add: st4_def same_insts_def upd_pipe_def pipe_win_def lsq_part_def)
    moreover have "roq_tail (pipe st4) = prev" by (simp add: st4_def 3(4)) (simp add: st2_def)
    ultimately show ?thesis by (simp add: window_ok_def)
  qed
  moreover have "arch (pipe st4) = arch (pipe st3)"
  proof
    fix x show "arch (pipe st4) x = arch (pipe st3) x" by (cases x) (simp_all add: st4_def)
  qed
  moreover have "fetch_num (pipe st4) = 0" "decode_num (pipe st4) = 0" "spec_level (pipe st4) = rs_spec_level ?i"
    "fetch_reg_PC (pipe st4) = rs_recover_PC ?i"
    using no_arch_fields [OF 3(6)] only_table_fields [OF recover_stores_other]
    by (simp_all add: st4_def front_reset_def)
  moreover have "\<not> ghr_valid (pipe st4)" by (simp add: st4_def)
  moreover have "fetch_inst_free st2 = fetch_inst_free st1" by (simp add: st2_def)
  ultimately show ?thesis
    using 3(5,7) 1(5) by (simp add: undo2 f2) (simp add: st4_def)
qed

text \<open>A queue that holds a list from slot 0.\<close>

definition slots :: "'a list \<Rightarrow> nat \<Rightarrow> 'a option" where
  "slots xs k = (if k < length xs then Some (xs ! k) else None)"

lemma ring_slots: "length xs < m \<Longrightarrow> ring_holds m 0 (int (length xs)) (length xs) (slots xs) xs"
proof (rule ring_holdsI)
  fix k assume "k < m" "slots xs k \<noteq> None"
  then show "\<exists>i<length xs. k = (0 + i) mod m" by (intro exI [of _ k]) (simp add: slots_def split: if_splits)
qed (simp_all add: slots_def)

lemma ring_ids_Nil: "ring_ids m h idx []"
  by (simp add: ring_ids_def)

lemma lsq_ok_start:
  assumes "length (mem_ops I rsl) < n" "num = int (length (mem_ops I rsl))" "t = length (mem_ops I rsl)"
    and "ring_ids n 0 (\<lambda>rs. rs_lsqid (I rs)) (mem_ops I rsl)"
    and "\<forall>rs\<in>set (mem_ops I rsl). lsq_state (q (rs_lsqid (I rs))) \<noteq> LSQ_EMPTY"
  shows "lsq_ok n rsl I (q, num, t)"
  using assms by (auto simp: lsq_ok_def intro!: exI [of _ 0])

text \<open>A mispredicted branch (instruction 1), its delay slot and a younger load, all mapped.\<close>

definition three_mapped :: godson2_cpu where
  "three_mapped = (let st = blank_cpu 0 0 in st\<lparr>
     insts := (insts st)(
       1 := blank_inst\<lparr>rs_op := BEQ, rs_recover_PC := 0x400100, rs_mis_predict := True\<rparr>,
       2 := blank_inst\<lparr>rs_op := IntOp ADDU, rs_roqid := 1, rs_used_int_reg := 1, rs_queued := True, rs_in_intq := True\<rparr>,
       3 := blank_inst\<lparr>rs_op := LW, rs_roqid := 2, rs_used_int_reg := 1\<rparr>),
     lsq := (lsq st)(0 := (lsq st 0)\<lparr>lsq_state := LSQ_COMMIT\<rparr>), lsq_num := 1, lsq_tail := 1,
     pipe := blank_pipe\<lparr>roq_ifq_size := 4, roq_num := 3, roq_tail := 3, roq := slots [1, 2, 3],
       brq_ifq_size := 2, brq_num := 1, brq_tail := 1, brq := slots [1],
       int_rename_reg_num := 2, int_issue_num := 1\<rparr>\<rparr>)"

lemma three_mapped_ok: "window_ok 4 [1, 2, 3] three_mapped" "pending_ok three_mapped"
proof -
  note defs = three_mapped_def blank_cpu_def blank_pipe_def blank_inst_def Let_def
  have sel: "branches (insts three_mapped) [1, 2, 3] = [1]" "mem_ops (insts three_mapped) [1, 2, 3] = [3]"
    by (simp_all add: defs branches_def mem_ops_def F_CTRL_def F_UNCOND_def F_COND_def F_CTRL_LIKELY_def F_MEM_def)
  have r: "ring_holds 4 0 3 3 (slots [1, 2, 3 :: nat]) [1, 2, 3]" "ring_holds 2 0 1 1 (slots [1 :: nat]) [1]"
    using ring_slots [of "[1, 2, 3 :: nat]" 4] ring_slots [of "[1 :: nat]" 2] by (simp_all add: eval_nat_numeral)
  have "roq_ok 3 [1, 2, 3] (insts three_mapped) (pipe three_mapped)"
    unfolding roq_ok_def using r(1) by (simp add: defs ring_ids_Cons ring_ids_Nil)
  moreover have "brq_ok [1, 2, 3] (insts three_mapped) (pipe three_mapped)"
    unfolding brq_ok_def sel using r(2) by (simp add: defs ring_ids_Cons ring_ids_Nil)
  moreover have "counts_ok [1, 2, 3] (insts three_mapped) (pipe three_mapped)"
    by (simp add: counts_ok_def defs)
  moreover have "lsq_ok 4 [1, 2, 3] (insts three_mapped) (lsq_part three_mapped)"
    unfolding lsq_part_def by (rule lsq_ok_start; unfold sel; simp add: defs ring_ids_Cons ring_ids_Nil)
  moreover have "roq_tail (pipe three_mapped) = 3" by (simp add: defs)
  ultimately show "window_ok 4 [1, 2, 3] three_mapped" by (simp add: window_ok_def window_at_def)
  show "pending_ok three_mapped"
    by (simp add: defs pending_ok_def front_ok_def decode_list_def ring_slots_def mem_ok_create)
qed

theorem brerr_recover_keeps_witness:
  "\<exists>st'. brerr_recover 1 three_mapped = Some st' \<and> window_ok 4 [1, 2] st' \<and> fetch_reg_PC (pipe st') = 0x400100 \<and>
     fetch_inst_free st' = [3]"
proof -
  have i: "recovery_point 0 (insts three_mapped 1) = 2" "rs_recover_PC (insts three_mapped 1) = 0x400100"
    "bp_class (pred (pipe three_mapped)) = BPredNotTaken" "fetch_inst_free three_mapped = []"
    "fetch_list (pipe three_mapped) = []" "decode_list (pipe three_mapped) = []"
    by (simp_all add: three_mapped_def Let_def recovery_point_def blank_inst_def F_CTRL_LIKELY_def blank_cpu_def
      blank_pipe_def blank_pred_def fetch_list_def decode_list_def ring_slots_def)
  show ?thesis
    using brerr_recover_keeps [OF three_mapped_ok, of 0 1] i by (auto simp: numeral_2_eq_2)
qed

section \<open>The pipeline flush\<close>

lemma count_commit_frame [simp]:
  "insts (count_commit op st) = insts st" "pipe (count_commit op st) = pipe st" "lsq_part (count_commit op st) = lsq_part st"
  "fetch_inst_free (count_commit op st) = fetch_inst_free st"
  by (simp_all add: count_commit_def bump_def Let_def lsq_part_def)

lemma count_commit_same [simp]: "same_insts st (count_commit op st)"
  by (simp add: same_insts_def)

text \<open>The erased state of the pipeline a flush does not touch.\<close>

lemma no_arch_no_window: "no_arch (no_window p) = no_window (no_arch p)"
  by (simp add: no_arch_def no_window_def)

lemma recover_data_window:
  assumes "mem_ok (target_mem (pipe st))" "savings_ok (insts st) rs"
  shows "\<exists>st'. recover_data rs st = Some st' \<and> insts st' = insts st \<and> lsq_part st' = lsq_part st \<and>
    fetch_inst_free st' = fetch_inst_free st \<and> mem_ok (target_mem (pipe st')) \<and>
    arch (pipe st') = undo_inst (insts st rs) (arch (pipe st)) \<and> no_arch (pipe st') = no_arch (pipe st)"
  using recover_data_arch [OF assms] by (auto simp: lsq_part_def)

lemma flush_roq_effect:
  assumes "window_at t n rsl st" "mem_ok (target_mem (pipe st))" "\<forall>rs\<in>set rsl. savings_ok (insts st) rs"
  shows "\<exists>t' st'. flush_roq op (length rsl) (roq_before (pipe st) t) st = Some st' \<and> window_at t' n [] st' \<and>
    same_insts st st' \<and> mem_ok (target_mem (pipe st')) \<and> fetch_inst_free st' = fetch_inst_free st @ rev rsl \<and>
    arch (pipe st') = foldr (\<lambda>rs. undo_inst (insts st rs)) rsl (arch (pipe st)) \<and>
    no_arch (no_window (pipe st')) = no_arch (no_window (pipe st))"
  using assms
proof (induction rsl arbitrary: t st rule: rev_induct)
  case Nil
  then show ?case by auto
next
  case (snoc rs rsl)
  let ?k = "roq_before (pipe st) t"
  from squash_youngest [OF snoc.prems(1)] obtain st1 where
    1: "roq (pipe st) ?k = Some rs" "squash_inst rs st = Some st1" "same_insts st st1"
      "pipe st1 = squash_pipe (insts st rs) (pipe st)" "fetch_inst_free st1 = fetch_inst_free st"
      "window_at ?k n rsl (roq_drop rs ?k st1)" by blast
  have core1: "core_inst (insts st1 x) = core_inst (insts st x)" for x using 1(3) by (simp add: same_insts_def)
  have undo1: "undo_inst (insts st1 x) = undo_inst (insts st x)" and sav1: "savings_ok (insts st1) x = savings_ok (insts st) x" for x
    using core_inst_fields [OF core1] by (simp_all add: savings_ok_def)
  have nw1: "no_window (pipe st1) = no_window (pipe st)" by (simp only: 1(4) no_window_ops)
  note f1 = no_window_fields [OF nw1]
  have m1: "mem_ok (target_mem (pipe (count_commit op st1)))" using snoc.prems(2) by (simp add: f1)
  have s1: "savings_ok (insts (count_commit op st1)) rs" using snoc.prems(3) by (simp add: sav1)
  from recover_data_window [OF m1 s1] obtain st2 where
    2: "recover_data rs (count_commit op st1) = Some st2" "insts st2 = insts st1" "lsq_part st2 = lsq_part st1"
      "fetch_inst_free st2 = fetch_inst_free st1" "mem_ok (target_mem (pipe st2))"
      "arch (pipe st2) = undo_inst (insts st rs) (arch (pipe st))" "no_arch (pipe st2) = no_arch (pipe st1)"
    by (auto simp: undo1 f1)
  define st3 where "st3 = roq_drop rs ?k st2"
  have size: "roq_ifq_size (pipe st2) = roq_ifq_size (pipe st3)" by (simp add: st3_def pipe_roq_drop)
  have step: "flush_roq op (length (rsl @ [rs])) ?k st = flush_roq op (length rsl) (roq_before (pipe st3) ?k) st3"
    using 1(1,2) 2(1) by (simp add: st3_def roq_before_size [OF size [unfolded st3_def]])
  have rd: "no_arch (p\<lparr>roq := f, roq_num := x\<rparr>) = (no_arch p)\<lparr>roq := f, roq_num := x\<rparr>" for p f x by (simp add: no_arch_def)
  have a3: "arch (pipe st3) = arch (pipe st2)"
  proof
    fix x show "arch (pipe st3) x = arch (pipe st2) x" by (cases x) (simp_all add: st3_def pipe_roq_drop)
  qed
  have na: "no_arch (pipe st3) = no_arch (pipe (roq_drop rs ?k st1))"
    by (simp only: st3_def pipe_roq_drop rd 2(7) no_arch_fields(5,7) [OF 2(7)])
  have w3: "window_at ?k n rsl st3"
  proof (rule window_same [OF 1(6)])
    show "same_insts (roq_drop rs ?k st1) st3"
      by (simp add: same_insts_def st3_def roq_drop_def fetch_return_to_free_list_def upd_pipe_def 2(2))
    show "pipe_win (pipe st3) = pipe_win (pipe (roq_drop rs ?k st1))" by (rule no_arch_win(1) [OF na])
    show "lsq_part st3 = lsq_part (roq_drop rs ?k st1)"
      using 2(3) by (simp add: st3_def roq_drop_def fetch_return_to_free_list_def upd_pipe_def lsq_part_def)
  qed
  have same3: "same_insts st st3"
    using 1(3) 2(2) by (simp add: same_insts_def st3_def roq_drop_def fetch_return_to_free_list_def upd_pipe_def)
  have core3: "core_inst (insts st3 x) = core_inst (insts st x)" for x using same3 by (simp add: same_insts_def)
  have undo3: "undo_inst (insts st3 x) = undo_inst (insts st x)" and sav3: "savings_ok (insts st3) x = savings_ok (insts st) x" for x
    using core_inst_fields [OF core3] by (simp_all add: savings_ok_def)
  have m3: "mem_ok (target_mem (pipe st3))" using 2(5) by (simp add: st3_def pipe_roq_drop)
  from snoc.IH [OF w3 m3] snoc.prems(3) obtain t' st' where
    IH: "flush_roq op (length rsl) (roq_before (pipe st3) ?k) st3 = Some st'" "window_at t' n [] st'" "same_insts st3 st'"
      "mem_ok (target_mem (pipe st'))" "fetch_inst_free st' = fetch_inst_free st3 @ rev rsl"
      "arch (pipe st') = foldr (\<lambda>rs. undo_inst (insts st rs)) rsl (arch (pipe st3))"
      "no_arch (no_window (pipe st')) = no_arch (no_window (pipe st3))"
    by (auto simp: undo3 sav3)
  have "no_arch (no_window (pipe st3)) = no_arch (no_window (pipe st))"
    by (simp only: no_arch_no_window na) (simp only: no_arch_no_window [symmetric] pipe_roq_drop no_window_ops nw1)
  moreover have "fetch_inst_free st3 = fetch_inst_free st @ [rs]" by (simp add: st3_def free_roq_drop 2(4) 1(5))
  ultimately show ?case
    using IH same_insts_trans [OF same3 IH(3)] unfolding step
    by (intro exI [of _ t'] exI [of _ st'] conjI) (simp_all add: a3 2(6))
qed

lemma window_empty:
  assumes "window_at t n [] st" "roq_ifq_size (pipe st') = roq_ifq_size (pipe st)" "roq_num (pipe st') = roq_num (pipe st)"
    "roq (pipe st') = roq (pipe st)" "roq_head (pipe st') = 0" "roq_tail (pipe st') = 0"
    "brq_ok [] (insts st) (pipe st) = brq_ok [] (insts st') (pipe st')"
    "counts_ok [] (insts st) (pipe st) = counts_ok [] (insts st') (pipe st')" "lsq_part st' = lsq_part st"
  shows "window_ok n [] st'"
proof -
  note w = window_atD [OF assms(1)]
  have ring: "ring_holds (roq_ifq_size (pipe st)) (roq_head (pipe st)) (roq_num (pipe st)) t (roq (pipe st)) []"
    using w(1) by (simp add: roq_ok_def)
  have "roq_ok 0 [] (insts st') (pipe st')"
    using ring_holdsD [OF ring] ring_slot [OF ring] assms(2-5)
    by (auto simp: roq_ok_def ring_ids_def intro!: ring_holdsI)
  moreover have "lsq_ok n [] (insts st') (lsq_part st')"
    using w(4) by (simp add: assms(9) lsq_ok_def mem_ops_def ring_ids_def)
  ultimately show ?thesis using w(2,3) assms(6-8) by (simp add: window_ok_def window_at_def)
qed

lemma istall_frame:
  "pipe (st\<lparr>istall := x\<rparr>) = pipe st" "insts (st\<lparr>istall := x\<rparr>) = insts st" "lsq_part (st\<lparr>istall := x\<rparr>) = lsq_part st"
  "fetch_inst_free (st\<lparr>istall := x\<rparr>) = fetch_inst_free st"
  by (simp_all add: lsq_part_def)

lemma pipeline_flush_effect:
  assumes w: "window_ok n rsl st" and pend: "pending_ok st" and sav: "\<forall>r\<in>set rsl. savings_ok (insts st) r"
  shows "\<exists>st'. pipeline_flush rs st = Some st' \<and> window_ok n [] st' \<and>
    fetch_num (pipe st') = 0 \<and> decode_num (pipe st') = 0 \<and> \<not> ghr_valid (pipe st') \<and> spec_level (pipe st') = 0 \<and>
    fetch_reg_PC (pipe st') = (if rs_bd (insts st rs) then rs_PC (insts st rs) - 4 else rs_PC (insts st rs)) \<and>
    create_vector (pipe st') 0 = (\<lambda>_. None) \<and>
    arch (pipe st') = foldr (\<lambda>rs. undo_inst (insts st rs)) (rsl @ decode_list (pipe st)) (arch (pipe st)) \<and>
    fetch_inst_free st' = fetch_inst_free st @ fetch_list (pipe st) @ rev (rsl @ decode_list (pipe st))"
proof -
  let ?p = "pipe st" and ?pc = "if rs_bd (insts st rs) then rs_PC (insts st rs) - 4 else rs_PC (insts st rs)"
  from tracer_recover_window [OF w [unfolded window_ok_def] pend, of 0 ?pc] obtain st1 where
    1: "tracer_recover 0 ?pc st = Some st1" "window_at (roq_tail ?p) n rsl st1" "same_insts st st1"
      "mem_ok (target_mem (pipe st1))"
      "arch (pipe st1) = foldr (\<lambda>rs. undo_inst (insts st rs)) (decode_list ?p) (arch ?p)"
      "no_arch (pipe st1) = no_arch (front_reset 0 ?pc ?p)"
      "fetch_inst_free st1 = fetch_inst_free st @ fetch_list ?p @ rev (decode_list ?p)" by blast
  have core1: "core_inst (insts st1 x) = core_inst (insts st x)" for x using 1(3) by (simp add: same_insts_def)
  have undo1: "undo_inst (insts st1 x) = undo_inst (insts st x)" and sav1: "savings_ok (insts st1) x = savings_ok (insts st) x" for x
    using core_inst_fields [OF core1] by (simp_all add: savings_ok_def)
  have num: "nat (roq_num (pipe st1)) = length rsl" "roq_ifq_size (pipe st1) = roq_ifq_size ?p"
    using window_atD(1) [OF 1(2)] pipe_win_fields(1) [OF no_arch_win(1) [OF 1(6)]] pipe_win_fields(1) [OF pipe_win_front_reset(1)]
    by (auto simp: roq_ok_def dest: ring_holdsD)
  have sav': "\<forall>r\<in>set rsl. savings_ok (insts st1) r" using sav by (simp add: sav1)
  from flush_roq_effect [OF 1(2) 1(4) sav', of "rs_op (insts st rs)", unfolded undo1] obtain t' st2 where
    2: "flush_roq (rs_op (insts st rs)) (length rsl) (roq_before (pipe st1) (roq_tail ?p)) st1 = Some st2"
      "window_at t' n [] st2" "fetch_inst_free st2 = fetch_inst_free st1 @ rev rsl"
      "arch (pipe st2) = foldr (\<lambda>rs. undo_inst (insts st rs)) rsl (arch (pipe st1))"
      "no_arch (no_window (pipe st2)) = no_arch (no_window (pipe st1))" by blast
  define st3 where "st3 = upd_pipe (\<lambda>p. clear_create_vector (p\<lparr>roq_head := 0, roq_tail := 0, ghr_valid := False\<rparr>)) st2"
  define st4 where "st4 = st3\<lparr>istall := istall st3 OR BRANCH_STALL\<rparr>"
  have p4: "pipe st4 = clear_create_vector ((pipe st2)\<lparr>roq_head := 0, roq_tail := 0, ghr_valid := False\<rparr>)"
  proof -
    have "pipe st4 = pipe st3" unfolding st4_def by (rule istall_frame)
    also have "\<dots> = clear_create_vector ((pipe st2)\<lparr>roq_head := 0, roq_tail := 0, ghr_valid := False\<rparr>)"
      unfolding st3_def by (rule pipe_ops)
    finally show ?thesis .
  qed
  have run: "pipeline_flush rs st = Some st4"
    using 1(1) 2(1) by (simp add: pipeline_flush_def Let_def num(1) st3_def st4_def)
  have "window_ok n [] st4"
    by (rule window_empty [OF 2(2)])
      (simp_all add: p4 clear_create_vector_def brq_ok_def counts_ok_def branches_def lsq_part_def ring_ids_def,
        simp_all add: st4_def st3_def upd_pipe_def)
  moreover have "arch (pipe st4) = arch (pipe st2)"
  proof
    fix x show "arch (pipe st4) x = arch (pipe st2) x" by (cases x) (simp_all add: p4 clear_create_vector_def)
  qed
  moreover have e: "g (pipe st2) = g (front_reset 0 ?pc ?p)" if "\<And>q. g (no_arch (no_window q)) = g q" for g :: "pipeline \<Rightarrow> 'b"
    using 1(6) 2(5) that by (metis no_arch_no_window)
  have "fetch_num (pipe st2) = 0" "decode_num (pipe st2) = 0" "spec_level (pipe st2) = 0" "fetch_reg_PC (pipe st2) = ?pc"
    using e [of fetch_num] e [of decode_num] e [of spec_level] e [of fetch_reg_PC]
    by (simp_all add: no_arch_def no_window_def front_reset_def only_table_fields [OF recover_stores_other])
  moreover have "fetch_inst_free st4 = fetch_inst_free st2" by (simp add: st4_def st3_def)
  ultimately show ?thesis
    using run 1(5,7) 2(3,4) by (intro exI [of _ st4] conjI) (simp_all add: p4 clear_create_vector_def)
qed

text \<open>The writes of several instructions of the right path, in program order.\<close>

definition run_insts :: "(nat \<times> reg_write list) list \<Rightarrow> godson2_cpu \<Rightarrow> godson2_cpu option" where
  "run_insts = fold_opt (\<lambda>(rs, ws). perform_all ws rs)"

definition fresh_inst :: "godson2_cpu \<Rightarrow> nat \<times> reg_write list \<Rightarrow> bool" where
  "fresh_inst st x \<longleftrightarrow> rs_spec_level (insts st (fst x)) = 0 \<and> rs_temp_save (insts st (fst x)) = [] \<and>
     list_all write_ok (snd x) \<and> disjoint_writes (snd x)"

lemma run_insts_logged:
  assumes "spec_level (pipe st) = 0" "mem_ok (target_mem (pipe st))" "distinct (map fst xs)" "list_all (fresh_inst st) xs"
    and "run_insts xs st = Some st'"
  shows "(\<forall>x. x \<notin> fst ` set xs \<longrightarrow> insts st' x = insts st x) \<and> (\<forall>x\<in>fst ` set xs. savings_ok (insts st') x) \<and>
    foldr (\<lambda>x. undo_inst (insts st' x)) (map fst xs) (arch (pipe st')) = arch (pipe st)"
  using assms
proof (induction xs arbitrary: st)
  case Nil
  then show ?case by (simp add: run_insts_def)
next
  case (Cons x xs)
  obtain rs ws where x: "x = (rs, ws)" by (cases x) auto
  from Cons.prems(5) obtain s where s: "perform_all ws rs st = Some s" "run_insts xs s = Some st'"
    by (auto simp: run_insts_def x split: option.splits)
  have new: "rs_spec_level (insts st rs) = 0" "rs_temp_save (insts st rs) = []" "list_all write_ok ws" "disjoint_writes ws"
    using Cons.prems(4) by (simp_all add: fresh_inst_def x)
  from writes_logged [OF Cons.prems(1,2) new(3) s(1)] obtain vs where
    vs: "map locs vs = map write_locs ws" "list_all save_ok vs"
      "insts s = (insts st)(rs := (insts st rs)\<lparr>rs_temp_save := rs_temp_save (insts st rs) @ vs\<rparr>)"
      "foldr restored vs (arch (pipe s)) = arch (pipe st)" "mem_ok (target_mem (pipe s))" "spec_level (pipe s) = 0" by blast
  have rs: "rs \<notin> fst ` set xs" using Cons.prems(3) by (simp add: x)
  have "list_all (fresh_inst s) xs"
    using Cons.prems(4) rs by (force simp: list_all_iff fresh_inst_def vs(3))
  from Cons.IH [OF vs(6,5) _ this s(2)] Cons.prems(3) have
    IH: "\<And>y. y \<notin> fst ` set xs \<Longrightarrow> insts st' y = insts s y" "\<forall>y\<in>fst ` set xs. savings_ok (insts st') y"
      "foldr (\<lambda>x. undo_inst (insts st' x)) (map fst xs) (arch (pipe st')) = arch (pipe s)" by auto
  have i: "insts st' rs = (insts st rs)\<lparr>rs_temp_save := vs\<rparr>" using IH(1) [OF rs] by (simp add: vs(3) new(2))
  then have "undo_inst (insts st' rs) (arch (pipe s)) = arch (pipe st)"
    using new(1) vs(4) fold_restored [OF vs(1) new(4)] by (simp add: undo_inst_def)
  moreover have "savings_ok (insts st') rs" using vs(2) by (simp add: savings_ok_def i)
  ultimately show ?case using IH by (auto simp: x vs(3))
qed

text \<open>C1. A pipeline flush is precise. Let instructions of the right path have executed in program order from a state
  of the core, as decode executes them, each writing different locations, and let them be in the reorder queue
  and behind it in the decode queue. Then a flush returns, with every register and every byte of memory as it was
  before the oldest of them, an empty window, no rename register or issue slot in use, and fetch at the
  instruction that caused it (at the branch before, for a delay slot).\<close>

theorem flush_restores_precise_state:
  assumes start: "spec_level (pipe st0) = 0" "mem_ok (target_mem (pipe st0))" "distinct (map fst xs)"
      "list_all (fresh_inst st0) xs"
    and run: "run_insts xs st0 = Some st1"
    and now: "\<forall>x\<in>fst ` set xs. rs_temp_save (insts st x) = rs_temp_save (insts st1 x) \<and>
        rs_spec_level (insts st x) = rs_spec_level (insts st1 x)"
      "arch (pipe st) = arch (pipe st1)" "mem_ok (target_mem (pipe st))" "front_ok (pipe st)"
    and queues: "rsl @ decode_list (pipe st) = map fst xs" "window_ok n rsl st"
  shows "\<exists>st'. pipeline_flush rs st = Some st' \<and> arch (pipe st') = arch (pipe st0) \<and> window_ok n [] st' \<and>
    spec_level (pipe st') = 0 \<and>
    fetch_reg_PC (pipe st') = (if rs_bd (insts st rs) then rs_PC (insts st rs) - 4 else rs_PC (insts st rs))"
proof -
  note log = run_insts_logged [OF start run]
  have same: "undo_inst (insts st x) = undo_inst (insts st1 x)" "savings_ok (insts st) x"
    if "x \<in> set (rsl @ decode_list (pipe st))" for x
  proof -
    have "x \<in> fst ` set xs" using that unfolding queues(1) by simp
    then have "rs_temp_save (insts st x) = rs_temp_save (insts st1 x)" "rs_spec_level (insts st x) = rs_spec_level (insts st1 x)"
      "savings_ok (insts st1) x" using now(1) log by blast+
    then show "undo_inst (insts st x) = undo_inst (insts st1 x)" "savings_ok (insts st) x"
      by (simp_all add: undo_inst_def savings_ok_def fun_eq_iff)
  qed
  have pend: "pending_ok st" using now(3,4) same(2) by (simp add: pending_ok_def)
  have sav: "\<forall>r\<in>set rsl. savings_ok (insts st) r" using same(2) by simp
  from pipeline_flush_effect [OF queues(2) pend sav, of rs] obtain st' where
    st': "pipeline_flush rs st = Some st'" "window_ok n [] st'" "spec_level (pipe st') = 0"
      "fetch_reg_PC (pipe st') = (if rs_bd (insts st rs) then rs_PC (insts st rs) - 4 else rs_PC (insts st rs))"
      "arch (pipe st') = foldr (\<lambda>rs. undo_inst (insts st rs)) (rsl @ decode_list (pipe st)) (arch (pipe st))" by blast
  have "foldr (\<lambda>rs. undo_inst (insts st rs)) (rsl @ decode_list (pipe st)) A =
      foldr (\<lambda>rs. undo_inst (insts st1 rs)) (rsl @ decode_list (pipe st)) A" for A
    by (rule foldr_cong) (use same(1) in simp_all)
  then have "arch (pipe st') = arch (pipe st0)" using st'(5) log now(2) by (simp add: queues(1))
  then show ?thesis using st' by blast
qed

text \<open>Two instructions that have written registers 4 and 5, and the same with both in the reorder queue.\<close>

definition two_executed :: godson2_cpu where
  "two_executed = (blank_cpu 0 0)\<lparr>
     insts := (insts (blank_cpu 0 0))(1 := blank_inst\<lparr>rs_temp_save := [no_save\<lparr>save_n := 4\<rparr>]\<rparr>,
       2 := blank_inst\<lparr>rs_temp_save := [no_save\<lparr>save_n := 5\<rparr>]\<rparr>),
     pipe := blank_pipe\<lparr>regs_R := (\<lambda>_. 0)(4 := 7, 5 := 8)\<rparr>\<rparr>"

definition two_queued :: godson2_cpu where
  "two_queued = two_executed\<lparr>
     insts := (\<lambda>x. (insts two_executed x)\<lparr>rs_op := IntOp ADDU, rs_roqid := x - 1, rs_PC := 0x400000 + 4 * of_nat x\<rparr>),
     pipe := (pipe two_executed)\<lparr>roq_ifq_size := 4, roq_num := 2, roq_tail := 2, roq := slots [1, 2]\<rparr>\<rparr>"

lemma two_queued_ok:
  "run_insts [(1, [W_GPR 4 7]), (2, [W_GPR 5 8])] (blank_cpu 0 0) = Some two_executed"
  "window_ok 4 [1, 2] two_queued"
proof -
  note defs = two_queued_def two_executed_def blank_cpu_def blank_pipe_def blank_inst_def
  show "run_insts [(1, [W_GPR 4 7]), (2, [W_GPR 5 8])] (blank_cpu 0 0) = Some two_executed"
    by (simp add: run_insts_def perform_all_def SET_GPR_def save_and_set_def SAVE_OLD_def upd_inst_def upd_pipe_def
      two_executed_def blank_cpu_def blank_pipe_def blank_inst_def no_save_def fun_eq_iff)
  have sel: "branches (insts two_queued) [1, 2] = []" "mem_ops (insts two_queued) [1, 2] = []"
    by (simp_all add: defs branches_def mem_ops_def F_CTRL_def F_UNCOND_def F_COND_def F_CTRL_LIKELY_def F_MEM_def)
  have r: "ring_holds 4 0 2 2 (slots [1, 2 :: nat]) [1, 2]" "ring_holds 8 0 0 0 (\<lambda>_. None :: nat option) []"
    using ring_slots [of "[1, 2 :: nat]" 4] by (simp_all add: eval_nat_numeral) (rule ring_holdsI; simp)
  have "roq_ok 2 [1, 2] (insts two_queued) (pipe two_queued)"
    unfolding roq_ok_def using r(1) by (simp add: defs ring_ids_Cons ring_ids_Nil)
  moreover have "brq_ok [1, 2] (insts two_queued) (pipe two_queued)"
    unfolding brq_ok_def sel using r(2) by (simp add: defs ring_ids_Cons ring_ids_Nil)
  moreover have "counts_ok [1, 2] (insts two_queued) (pipe two_queued)"
    by (simp add: counts_ok_def defs)
  moreover have "lsq_ok 4 [1, 2] (insts two_queued) (lsq_part two_queued)"
    unfolding lsq_part_def by (rule lsq_ok_start; unfold sel; simp add: defs ring_ids_Cons ring_ids_Nil)
  moreover have "roq_tail (pipe two_queued) = 2" by (simp add: defs)
  ultimately show "window_ok 4 [1, 2] two_queued" by (simp add: window_ok_def window_at_def)
qed

theorem flush_restores_precise_state_witness:
  "\<exists>st'. run_insts [(1, [W_GPR 4 7]), (2, [W_GPR 5 8])] (blank_cpu 0 0) = Some two_executed \<and>
     pipeline_flush 1 two_queued = Some st' \<and> arch (pipe two_executed) (Gpr 4) = 7 \<and>
     arch (pipe st') = arch (pipe (blank_cpu 0 0)) \<and> window_ok 4 [] st' \<and> fetch_reg_PC (pipe st') = 0x400004"
proof -
  note defs = two_queued_def two_executed_def blank_cpu_def blank_pipe_def blank_inst_def
  let ?xs = "[(1, [W_GPR 4 7]), (2, [W_GPR 5 8])]"
  have start: "spec_level (pipe (blank_cpu 0 0)) = 0" "mem_ok (target_mem (pipe (blank_cpu 0 0)))"
    "list_all (fresh_inst (blank_cpu 0 0)) ?xs"
    by (simp_all add: blank_cpu_def blank_pipe_def blank_inst_def fresh_inst_def mem_ok_create disjoint_writes_def)
  have now: "\<forall>x\<in>fst ` set ?xs. rs_temp_save (insts two_queued x) = rs_temp_save (insts two_executed x) \<and>
      rs_spec_level (insts two_queued x) = rs_spec_level (insts two_executed x)"
    "mem_ok (target_mem (pipe two_queued))" "front_ok (pipe two_queued)" "decode_list (pipe two_queued) = []"
    by (simp_all add: defs mem_ok_create front_ok_def decode_list_def ring_slots_def)
  have "arch (pipe two_queued) l = arch (pipe two_executed) l" for l
    by (cases l) (simp_all add: two_queued_def)
  then have arch: "arch (pipe two_queued) = arch (pipe two_executed)" by blast
  have pc: "rs_PC (insts two_queued 1) = 0x400004" "\<not> rs_bd (insts two_queued 1)" "arch (pipe two_executed) (Gpr 4) = 7"
    by (simp_all add: defs)
  show ?thesis
    using flush_restores_precise_state [OF start(1,2) _ start(3) two_queued_ok(1) now(1) arch now(2,3) _ two_queued_ok(2), of 1]
      now(4) pc two_queued_ok(1) by auto
qed

end
