(* ===== verification/Opcodes.thy ===== *)
theory Opcodes
  imports Insts
begin

unbundle bit_operations_syntax

text \<open>
  Instruction words: the fields of mips.h, the list of definitions of mips.def as the decoder reads it, the
  table \<open>md_init_decoder\<close> (mips.c) builds from that list, and \<open>MD_SET_OPCODE\<close>. The table of every level
  starts right behind the last defined code of the level before it, so a selector beyond the last code of
  its level reads an entry of a following level. The configuration without \<open>SYSMODE_SUPPORT\<close> is modelled.
\<close>

section \<open>Fields\<close>

definition RS :: "32 word \<Rightarrow> nat" where "RS inst = unat (drop_bit 21 inst AND 0x1F)"
definition RT :: "32 word \<Rightarrow> nat" where "RT inst = unat (drop_bit 16 inst AND 0x1F)"
definition RD :: "32 word \<Rightarrow> nat" where "RD inst = unat (drop_bit 11 inst AND 0x1F)"
definition FD :: "32 word \<Rightarrow> nat" where "FD inst = unat (drop_bit 6 inst AND 0x1F)"
definition SHAMT :: "32 word \<Rightarrow> nat" where "SHAMT inst = unat (drop_bit 6 inst AND 0x1F)"

text \<open>\<open>FS\<close> and \<open>FT\<close> are \<open>RD\<close> and \<open>RT\<close>, the base register \<open>BS\<close> is \<open>RS\<close>, the offset \<open>OFS\<close> is \<open>IMM\<close>.\<close>

abbreviation (input) FS :: "32 word \<Rightarrow> nat" where "FS \<equiv> RD"
abbreviation (input) FT :: "32 word \<Rightarrow> nat" where "FT \<equiv> RT"
abbreviation (input) BS :: "32 word \<Rightarrow> nat" where "BS \<equiv> RS"

definition IMM :: "32 word \<Rightarrow> 32 word" where "IMM inst = scast (ucast inst :: 16 word)"
definition UIMM :: "32 word \<Rightarrow> 32 word" where "UIMM inst = inst AND 0xFFFF"
definition TARG :: "32 word \<Rightarrow> 32 word" where "TARG inst = inst AND 0x3FFFFFF"
abbreviation (input) OFS :: "32 word \<Rightarrow> 32 word" where "OFS \<equiv> IMM"

lemma field_less [simp]: "RS i < 32" "RT i < 32" "RD i < 32" "FD i < 32" "SHAMT i < 32"
proof -
  have "unat (w AND 0x1F) < 32" for w :: "32 word"
  proof -
    have "(0x1F :: 32 word) = mask 5" by (simp add: mask_eq_decr_exp)
    then have "unat (w AND 0x1F) = unat w mod 32"
      by (simp only: take_bit_eq_mask [symmetric] unsigned_take_bit_eq) (simp add: take_bit_eq_mod)
    then show ?thesis by simp
  qed
  then show "RS i < 32" "RT i < 32" "RD i < 32" "FD i < 32" "SHAMT i < 32"
    by (simp_all add: RS_def RT_def RD_def FD_def SHAMT_def)
qed

definition MD_NOP_INST :: "32 word" where "MD_NOP_INST = 0"

definition MD_IS_RETURN :: "md_opcode \<Rightarrow> 32 word \<Rightarrow> bool" where
  "MD_IS_RETURN op inst \<longleftrightarrow> op = JR \<and> RS inst = 31"

section \<open>The definitions of mips.def\<close>

datatype md_link = SPECIAL_INST | REGIMM_INST | COP1_INST | FPBR_INST | FPSP_INST | FPDP_INST | FPW_INST

datatype md_def = DEFINST md_opcode nat | DEFLINK md_link nat | CONNECT md_link

text \<open>The shift and the mask of a link, by which the next selector is taken from the instruction.\<close>

fun md_opshift :: "md_link \<Rightarrow> nat" where
  "md_opshift SPECIAL_INST = 0"
| "md_opshift REGIMM_INST = 16"
| "md_opshift COP1_INST = 21"
| "md_opshift FPBR_INST = 16"
| "md_opshift FPSP_INST = 0"
| "md_opshift FPDP_INST = 0"
| "md_opshift FPW_INST = 0"

fun md_opmask :: "md_link \<Rightarrow> 32 word" where
  "md_opmask SPECIAL_INST = 0x3F"
| "md_opmask REGIMM_INST = 0x1F"
| "md_opmask COP1_INST = 0x1F"
| "md_opmask FPBR_INST = 0x1F"
| "md_opmask FPSP_INST = 0x3F"
| "md_opmask FPDP_INST = 0x3F"
| "md_opmask FPW_INST = 0x3F"

definition first_level :: "md_def list" where
  "first_level = [
    DEFLINK SPECIAL_INST 0x00, DEFLINK REGIMM_INST 0x01, DEFLINK COP1_INST 0x11, DEFINST JUMP 0x02,
    DEFINST JAL 0x03, DEFINST BEQ 0x04, DEFINST BNE 0x05, DEFINST BLEZ 0x06, DEFINST BGTZ 0x07,
    DEFINST (IntOp ADDI) 0x08, DEFINST (IntOp ADDIU) 0x09, DEFINST (IntOp SLTI) 0x0a,
    DEFINST (IntOp SLTIU) 0x0b, DEFINST (IntOp ANDI) 0x0c, DEFINST (IntOp ORI) 0x0d,
    DEFINST (IntOp XORI) 0x0e, DEFINST (IntOp LUI) 0x0f, DEFINST BEQL 0x14, DEFINST BNEL 0x15,
    DEFINST BLEZL 0x16, DEFINST BGTZL 0x17, DEFINST LB 0x20, DEFINST LH 0x21, DEFINST LW 0x23,
    DEFINST LBU 0x24, DEFINST LHU 0x25, DEFINST LWC1 0x31, DEFINST LDC1 0x35, DEFINST LWL 0x22,
    DEFINST LWR 0x26, DEFINST SB 0x28, DEFINST SH 0x29, DEFINST SW 0x2b, DEFINST SWC1 0x39,
    DEFINST SDC1 0x3d, DEFINST SWL 0x2a, DEFINST SWR 0x2e, DEFINST LL 0x30, DEFINST SC 0x38]"

definition special_level :: "md_def list" where
  "special_level = [
    DEFINST (IntOp SLL) 0x00, DEFINST (IntOp SLLV) 0x04, DEFINST (IntOp SRL) 0x02,
    DEFINST (IntOp SRLV) 0x06, DEFINST (IntOp SRA) 0x03, DEFINST (IntOp SRAV) 0x07, DEFINST JR 0x08,
    DEFINST JALR 0x09, DEFINST (IntOp SYSCALL) 0x0c, DEFINST (IntOp BREAK) 0x0d, DEFINST (IntOp MFHI) 0x10,
    DEFINST (IntOp MTHI) 0x11, DEFINST (IntOp MFLO) 0x12, DEFINST (IntOp MTLO) 0x13, DEFINST SPLITMUL 0x16,
    DEFINST SPLITDIV 0x17, DEFINST (IntOp MULT) 0x18, DEFINST (IntOp MULTU) 0x19, DEFINST (IntOp DIV) 0x1a,
    DEFINST (IntOp DIVU) 0x1b, DEFINST (IntOp ADD) 0x20, DEFINST (IntOp ADDU) 0x21,
    DEFINST (IntOp SUB) 0x22, DEFINST (IntOp SUBU) 0x23, DEFINST (IntOp OP_AND) 0x24,
    DEFINST (IntOp OP_OR) 0x25, DEFINST (IntOp OP_XOR) 0x26, DEFINST (IntOp OP_NOR) 0x27,
    DEFINST (IntOp SLT) 0x2a, DEFINST (IntOp SLTU) 0x2b]"

definition regimm_level :: "md_def list" where
  "regimm_level = [
    DEFINST BLTZ 0x00, DEFINST BGEZ 0x01, DEFINST BLTZL 0x02, DEFINST BGEZL 0x03, DEFINST BLTZAL 0x10,
    DEFINST BGEZAL 0x11, DEFINST BLTZALL 0x12, DEFINST BGEZALL 0x13]"

definition cop1_level :: "md_def list" where
  "cop1_level = [
    DEFINST MFC1 0x00, DEFINST DMFC1 0x01, DEFINST CFC1 0x02, DEFINST MTC1 0x04, DEFINST DMTC1 0x05,
    DEFINST CTC1 0x06, DEFLINK FPBR_INST 0x08, DEFLINK FPSP_INST 0x10, DEFLINK FPDP_INST 0x11,
    DEFLINK FPW_INST 0x14]"

definition fpbr_level :: "md_def list" where
  "fpbr_level = [
    DEFINST BC1F 0x00, DEFINST BC1T 0x01, DEFINST BC1FL 0x02, DEFINST BC1TL 0x03]"

definition fpsp_level :: "md_def list" where
  "fpsp_level = [
    DEFINST (FpOp FADD Single) 0x00, DEFINST (FpOp FSUB Single) 0x01, DEFINST (FpOp FMUL Single) 0x02,
    DEFINST (FpOp FDIV Single) 0x03, DEFINST (FpOp FSQRT Single) 0x04, DEFINST (FpOp FABS Single) 0x05,
    DEFINST (FpOp FMOV Single) 0x06, DEFINST (FpOp FNEG Single) 0x07, DEFINST (FpOp ROUND_W Single) 0x0c,
    DEFINST (FpOp TRUNC_W Single) 0x0d, DEFINST (FpOp CEIL_W Single) 0x0e,
    DEFINST (FpOp FLOOR_W Single) 0x0f, DEFINST (FpOp CVT_D Single) 0x21, DEFINST (FpOp CVT_W Single) 0x24,
    DEFINST (FpOp C_EQ Single) 0x32, DEFINST (FpOp C_LT Single) 0x3c, DEFINST (FpOp C_LE Single) 0x3e]"

definition fpdp_level :: "md_def list" where
  "fpdp_level = [
    DEFINST (FpOp FADD Double) 0x00, DEFINST (FpOp FSUB Double) 0x01, DEFINST (FpOp FMUL Double) 0x02,
    DEFINST (FpOp FDIV Double) 0x03, DEFINST (FpOp FSQRT Double) 0x04, DEFINST (FpOp FABS Double) 0x05,
    DEFINST (FpOp FMOV Double) 0x06, DEFINST (FpOp FNEG Double) 0x07, DEFINST (FpOp ROUND_W Double) 0x0c,
    DEFINST (FpOp TRUNC_W Double) 0x0d, DEFINST (FpOp CEIL_W Double) 0x0e,
    DEFINST (FpOp FLOOR_W Double) 0x0f, DEFINST (FpOp CVT_S Double) 0x20, DEFINST (FpOp CVT_W Double) 0x24,
    DEFINST (FpOp C_EQ Double) 0x32, DEFINST (FpOp C_LT Double) 0x3c, DEFINST (FpOp C_LE Double) 0x3e]"

definition fpw_level :: "md_def list" where
  "fpw_level = [
    DEFINST (FpOp CVT_S Word) 0x20, DEFINST (FpOp CVT_D Word) 0x21]"

definition mips_def :: "md_def list" where
  "mips_def = first_level @
     CONNECT SPECIAL_INST # special_level @
     CONNECT REGIMM_INST # regimm_level @
     CONNECT COP1_INST # cop1_level @
     CONNECT FPBR_INST # fpbr_level @
     CONNECT FPSP_INST # fpsp_level @
     CONNECT FPDP_INST # fpdp_level @
     CONNECT FPW_INST # fpw_level"

section \<open>The decoder\<close>

text \<open>An entry of \<open>md_mask2op\<close>: an operation or a link; \<open>None\<close> is \<open>OP_NA\<close>, the zero the array starts with. The
  state of the initialisation holds the entries, the offsets of the levels, and the two counters.\<close>

datatype md_entry = EntOp md_opcode | EntLink md_link

record md_decoder =
  md_mask2op :: "(nat \<times> md_entry) list"
  md_opoffset :: "(md_link \<times> nat) list"
  dec_offset :: nat
  dec_max_offset :: nat

definition MD_MAX_MASK :: nat where "MD_MAX_MASK = 2048"

definition add_entry :: "nat \<Rightarrow> md_entry \<Rightarrow> md_decoder \<Rightarrow> md_decoder option" where
  "add_entry msk e d =
     (let i = msk + dec_offset d
      in if MD_MAX_MASK \<le> i then None
         else if map_of (md_mask2op d) i \<noteq> None then None
         else Some (d\<lparr>md_mask2op := (i, e) # md_mask2op d, dec_max_offset := max (dec_max_offset d) i\<rparr>))"

fun add_def :: "md_def \<Rightarrow> md_decoder \<Rightarrow> md_decoder option" where
  "add_def (DEFINST op msk) d = add_entry msk (EntOp op) d"
| "add_def (DEFLINK l msk) d = add_entry msk (EntLink l) d"
| "add_def (CONNECT l) d =
     Some (d\<lparr>dec_offset := dec_max_offset d + 1, md_opoffset := (l, dec_max_offset d + 1) # md_opoffset d\<rparr>)"

definition md_init_decoder :: "md_decoder option" where
  "md_init_decoder =
     do { d \<leftarrow> fold_opt add_def mips_def
                \<lparr>md_mask2op = [], md_opoffset = [], dec_offset = 0, dec_max_offset = 0\<rparr>;
          if MD_MAX_MASK \<le> dec_max_offset d then None else Some d }"

definition entry_at :: "nat \<Rightarrow> md_decoder \<Rightarrow> md_entry" where
  "entry_at i d = (case map_of (md_mask2op d) i of None \<Rightarrow> EntOp OP_NA | Some e \<Rightarrow> e)"

definition link_offset :: "md_link \<Rightarrow> md_decoder \<Rightarrow> nat" where
  "link_offset l d = (case map_of (md_opoffset d) l of None \<Rightarrow> 0 | Some k \<Rightarrow> k)"

text \<open>The \<open>while\<close> loop of \<open>MD_SET_OPCODE\<close>; four rounds are enough (\<open>decoder_total\<close>).\<close>

fun follow_links :: "nat \<Rightarrow> 32 word \<Rightarrow> md_decoder \<Rightarrow> md_entry \<Rightarrow> md_opcode option" where
  "follow_links n inst d (EntOp op) = Some op"
| "follow_links 0 inst d (EntLink l) = None"
| "follow_links (Suc n) inst d (EntLink l) =
     follow_links n inst d
       (entry_at (unat (drop_bit (md_opshift l) inst AND md_opmask l) + link_offset l d) d)"

definition MD_TOP_OP :: "32 word \<Rightarrow> nat" where "MD_TOP_OP inst = unat (drop_bit 26 inst AND 0x3F)"

definition MD_SET_OPCODE :: "32 word \<Rightarrow> md_opcode option" where
  "MD_SET_OPCODE inst =
     do { d \<leftarrow> md_init_decoder; follow_links 4 inst d (entry_at (MD_TOP_OP inst) d) }"

section \<open>The table and the levels it is built from\<close>

text \<open>The codes of a level (\<open>None\<close>: the first) with their entries, and the last one.\<close>

fun level_defs :: "md_link option \<Rightarrow> md_def list" where
  "level_defs None = first_level"
| "level_defs (Some SPECIAL_INST) = special_level"
| "level_defs (Some REGIMM_INST) = regimm_level"
| "level_defs (Some COP1_INST) = cop1_level"
| "level_defs (Some FPBR_INST) = fpbr_level"
| "level_defs (Some FPSP_INST) = fpsp_level"
| "level_defs (Some FPDP_INST) = fpdp_level"
| "level_defs (Some FPW_INST) = fpw_level"

lemmas level_simps = first_level_def special_level_def regimm_level_def cop1_level_def fpbr_level_def
  fpsp_level_def fpdp_level_def fpw_level_def

fun code_of :: "md_def \<Rightarrow> nat \<times> md_entry" where
  "code_of (DEFINST op k) = (k, EntOp op)"
| "code_of (DEFLINK l k) = (k, EntLink l)"
| "code_of (CONNECT l) = (0, EntLink l)"

fun is_connect :: "md_def \<Rightarrow> bool" where
  "is_connect (CONNECT l) = True"
| "is_connect _ = False"

definition shifted :: "nat \<Rightarrow> md_def list \<Rightarrow> (nat \<times> md_entry) list" where
  "shifted off ds = map (\<lambda>x. (fst (code_of x) + off, snd (code_of x))) ds"

definition last_of :: "md_def list \<Rightarrow> nat" where
  "last_of ds = foldr max (map (fst \<circ> code_of) ds) 0"

lemma last_code_Cons: "last_of (x # xs) = max (fst (code_of x)) (last_of xs)"
  by (simp add: last_of_def)

text \<open>The definitions of one level enter the table one after the other.\<close>

lemma add_level:
  assumes "list_all (\<lambda>x. \<not> is_connect x) ds" "distinct (map (fst \<circ> code_of) ds)"
    and "\<forall>x\<in>set ds. map_of (md_mask2op d) (fst (code_of x) + dec_offset d) = None"
    and "last_of ds + dec_offset d < MD_MAX_MASK" "ds = [] \<longrightarrow> dec_offset d \<le> dec_max_offset d"
  shows "fold_opt add_def ds d = Some (d\<lparr>md_mask2op := rev (shifted (dec_offset d) ds) @ md_mask2op d,
    dec_max_offset := max (dec_max_offset d) (last_of ds + dec_offset d)\<rparr>)"
  using assms
proof (induction ds arbitrary: d)
  case Nil
  then show ?case by (simp add: shifted_def last_of_def max_def)
next
  case (Cons x ds)
  let ?i = "fst (code_of x) + dec_offset d"
  let ?d = "d\<lparr>md_mask2op := (?i, snd (code_of x)) # md_mask2op d, dec_max_offset := max (dec_max_offset d) ?i\<rparr>"
  have "?i < MD_MAX_MASK" "map_of (md_mask2op d) ?i = None"
    using Cons.prems(3,4) by (auto simp: last_code_Cons)
  then have x: "add_def x d = Some ?d"
    using Cons.prems(1) by (cases x) (simp_all add: add_entry_def Let_def)
  show ?case
  proof (cases "ds = []")
    case True
    then show ?thesis using x by (simp add: shifted_def last_of_def)
  next
    case False
    have "fold_opt add_def ds ?d = Some (?d\<lparr>md_mask2op := rev (shifted (dec_offset ?d) ds) @ md_mask2op ?d,
      dec_max_offset := max (dec_max_offset ?d) (last_of ds + dec_offset ?d)\<rparr>)"
      using Cons.prems False by (intro Cons.IH) (auto simp: last_code_Cons image_iff)
    then show ?thesis using x by (simp add: shifted_def last_code_Cons max.assoc)
  qed
qed

definition keys_below :: "md_decoder \<Rightarrow> bool" where
  "keys_below d \<longleftrightarrow> dec_max_offset d \<le> dec_offset d \<and>
     (\<forall>i\<ge>dec_offset d. map_of (md_mask2op d) i = None)"

definition level_fits :: "nat \<Rightarrow> md_def list \<Rightarrow> bool" where
  "level_fits off ds \<longleftrightarrow> ds \<noteq> [] \<and> list_all (\<lambda>x. \<not> is_connect x) ds \<and> distinct (map (fst \<circ> code_of) ds) \<and>
     last_of ds + off < MD_MAX_MASK"

lemma level_step:
  assumes "level_fits (dec_offset d) ds" "keys_below d"
  shows "fold_opt add_def ds d = Some (d\<lparr>md_mask2op := rev (shifted (dec_offset d) ds) @ md_mask2op d,
    dec_max_offset := last_of ds + dec_offset d\<rparr>)"
  using add_level [of ds d] assms by (auto simp: level_fits_def keys_below_def)

lemma le_last_of: "x \<in> set ds \<Longrightarrow> fst (code_of x) \<le> last_of ds"
  by (induction ds) (auto simp: last_code_Cons)

definition dec_state :: "(nat \<times> md_entry) list \<Rightarrow> (md_link \<times> nat) list \<Rightarrow> nat \<Rightarrow> nat \<Rightarrow> md_decoder" where
  "dec_state t os off m = \<lparr>md_mask2op = t, md_opoffset = os, dec_offset = off, dec_max_offset = m\<rparr>"

lemma connect_step:
  assumes fits: "level_fits off ds" and k: "keys_below (dec_state t os off m)" and n: "n = last_of ds + off + 1"
  shows "fold_opt add_def (ds @ CONNECT l # rest) (dec_state t os off m) =
      fold_opt add_def rest (dec_state (rev (shifted off ds) @ t) ((l, n) # os) n (n - 1))"
    and "keys_below (dec_state (rev (shifted off ds) @ t) ((l, n) # os) n (n - 1))"
proof -
  have "fold_opt add_def ds (dec_state t os off m) = Some (dec_state (rev (shifted off ds) @ t) os off (last_of ds + off))"
    using level_step [of "dec_state t os off m" ds] fits k by (simp add: dec_state_def)
  then show "fold_opt add_def (ds @ CONNECT l # rest) (dec_state t os off m) =
      fold_opt add_def rest (dec_state (rev (shifted off ds) @ t) ((l, n) # os) n (n - 1))"
    using n by (simp add: fold_opt_append dec_state_def)
  have "map_of (rev (shifted off ds)) i = None" if "n \<le> i" for i
    using that n by (force simp: map_of_eq_None_iff shifted_def dest: le_last_of)
  moreover have "map_of t i = None" if "n \<le> i" for i
    using that n k by (simp add: keys_below_def dec_state_def)
  ultimately show "keys_below (dec_state (rev (shifted off ds) @ t) ((l, n) # os) n (n - 1))"
    by (simp add: keys_below_def dec_state_def map_add_def split: option.split)
qed

lemma level_lasts:
  "last_of first_level = 61" "last_of special_level = 43" "last_of regimm_level = 19" "last_of cop1_level = 20"
  "last_of fpbr_level = 3" "last_of fpsp_level = 62" "last_of fpdp_level = 62" "last_of fpw_level = 33"
  by (simp_all add: last_of_def level_simps)

lemma levels_fit:
  "level_fits 0 first_level" "level_fits 62 special_level" "level_fits 106 regimm_level" "level_fits 126 cop1_level"
  "level_fits 147 fpbr_level" "level_fits 151 fpsp_level" "level_fits 214 fpdp_level" "level_fits 277 fpw_level"
  by (simp_all add: level_fits_def level_lasts MD_MAX_MASK_def) (simp_all add: level_simps)

text \<open>The offset of every level.\<close>

fun level_offset :: "md_link option \<Rightarrow> nat" where
  "level_offset None = 0"
| "level_offset (Some SPECIAL_INST) = 62"
| "level_offset (Some REGIMM_INST) = 106"
| "level_offset (Some COP1_INST) = 126"
| "level_offset (Some FPBR_INST) = 147"
| "level_offset (Some FPSP_INST) = 151"
| "level_offset (Some FPDP_INST) = 214"
| "level_offset (Some FPW_INST) = 277"

definition all_links :: "md_link list" where
  "all_links = [SPECIAL_INST, REGIMM_INST, COP1_INST, FPBR_INST, FPSP_INST, FPDP_INST, FPW_INST]"

definition decoder :: md_decoder where
  "decoder = \<lparr>md_mask2op = concat (map (\<lambda>l. rev (shifted (level_offset l) (level_defs l))) (rev (None # map Some all_links))),
     md_opoffset = map (\<lambda>l. (l, level_offset (Some l))) (rev all_links), dec_offset = 277, dec_max_offset = 310\<rparr>"

lemma md_init_decoder_some: "md_init_decoder = Some decoder"
proof -
  have k0: "keys_below (dec_state [] [] 0 0)" by (simp add: keys_below_def dec_state_def)
  note s1 = connect_step [OF levels_fit(1) k0, of 62, unfolded level_lasts, simplified]
  note s2 = connect_step [OF levels_fit(2) s1(2), of 106, unfolded level_lasts, simplified]
  note s3 = connect_step [OF levels_fit(3) s2(2), of 126, unfolded level_lasts, simplified]
  note s4 = connect_step [OF levels_fit(4) s3(2), of 147, unfolded level_lasts, simplified]
  note s5 = connect_step [OF levels_fit(5) s4(2), of 151, unfolded level_lasts, simplified]
  note s6 = connect_step [OF levels_fit(6) s5(2), of 214, unfolded level_lasts, simplified]
  note s7 = connect_step [OF levels_fit(7) s6(2), of 277, unfolded level_lasts, simplified]
  have d0: "\<lparr>md_mask2op = [], md_opoffset = [], dec_offset = 0, dec_max_offset = 0\<rparr> = dec_state [] [] 0 0"
    by (simp add: dec_state_def)
  have last: "fold_opt add_def fpw_level (dec_state t os 277 276) =
      Some (dec_state (rev (shifted 277 fpw_level) @ t) os 277 310)" if "keys_below (dec_state t os 277 276)" for t os
    using level_step [of "dec_state t os 277 276" fpw_level] that levels_fit(8)
    by (simp add: dec_state_def level_lasts)
  show ?thesis
    unfolding md_init_decoder_def mips_def_def d0 s1(1) s2(1) s3(1) s4(1) s5(1) s6(1) s7(1) last [OF s7(2)]
    by (simp add: dec_state_def decoder_def all_links_def MD_MAX_MASK_def)
qed

lemma link_offset_decoder: "link_offset l decoder = level_offset (Some l)"
  by (cases l) (simp_all add: link_offset_def decoder_def all_links_def)

definition level_entry :: "md_link option \<Rightarrow> nat \<Rightarrow> md_entry" where
  "level_entry lev k = (case map_of (map code_of (level_defs lev)) k of None \<Rightarrow> EntOp OP_NA | Some e \<Rightarrow> e)"

definition last_code :: "md_link option \<Rightarrow> nat" where "last_code lev = last_of (level_defs lev)"

lemma last_code_simps:
  "last_code None = 61" "last_code (Some SPECIAL_INST) = 43" "last_code (Some REGIMM_INST) = 19"
  "last_code (Some COP1_INST) = 20" "last_code (Some FPBR_INST) = 3" "last_code (Some FPSP_INST) = 62"
  "last_code (Some FPDP_INST) = 62" "last_code (Some FPW_INST) = 33"
  by (simp_all add: last_code_def level_lasts)

text \<open>An index at most the last code behind the offset of a level is found in that level, no other.\<close>

lemma map_of_shifted:
  "map_of (rev (shifted off ds)) i = (if off \<le> i then map_of (rev (map code_of ds)) (i - off) else None)"
proof -
  have "map_of (shifted off xs) i = (if off \<le> i then map_of (map code_of xs) (i - off) else None)" for xs
    by (induction xs) (auto simp: shifted_def)
  from this [of "rev ds"] show ?thesis by (simp add: shifted_def rev_map)
qed

lemma distinct_codes: "map_of (rev (map code_of (level_defs lev))) = map_of (map code_of (level_defs lev))"
proof -
  have "distinct (map (fst \<circ> code_of) (level_defs lev))"
    using levels_fit by (cases lev rule: level_defs.cases) (simp_all add: level_fits_def)
  then have "distinct (map fst xs)" if "xs = map code_of (level_defs lev)" for xs using that by (simp add: comp_def)
  then have "map_of (rev xs) = map_of xs" if "xs = map code_of (level_defs lev)" for xs
    using that map_of_inject_set [of "rev xs" xs] by (simp only: rev_map [symmetric] distinct_rev set_rev)
  then show ?thesis by blast
qed

lemma beyond_last: "last_code lev < k \<Longrightarrow> map_of (map code_of (level_defs lev)) k = None"
  by (auto simp: map_of_eq_None_iff last_code_def dest: le_last_of)

definition level_list :: "md_link option list" where "level_list = rev (None # map Some all_links)"

fun lookup_levels :: "md_link option list \<Rightarrow> nat \<Rightarrow> md_entry option" where
  "lookup_levels [] i = None"
| "lookup_levels (l # ls) i =
     (case (if level_offset l \<le> i then map_of (map code_of (level_defs l)) (i - level_offset l) else None) of
        None \<Rightarrow> lookup_levels ls i | Some e \<Rightarrow> Some e)"

lemma decoder_lookup: "map_of (md_mask2op decoder) i = lookup_levels level_list i"
proof -
  have "map_of (concat (map (\<lambda>l. rev (shifted (level_offset l) (level_defs l))) ls)) i = lookup_levels ls i" for ls
    by (induction ls) (simp_all add: map_add_def map_of_shifted distinct_codes split: option.split)
  then show ?thesis by (simp only: decoder_def md_decoder.simps level_list_def)
qed

lemma table_levels:
  assumes "k \<le> last_code lev"
  shows "entry_at (level_offset lev + k) decoder = level_entry lev k"
  using assms
  by (cases lev rule: level_defs.cases)
    (simp_all add: entry_at_def level_entry_def decoder_lookup level_list_def all_links_def last_code_simps beyond_last
      del: level_defs.simps split: option.split)

text \<open>Every link of the table is one of the seven of mips.def, at its place.\<close>

lemma table_links:
  assumes "entry_at i decoder = EntLink l"
  shows "i = (case l of SPECIAL_INST \<Rightarrow> 0 | REGIMM_INST \<Rightarrow> 1 | COP1_INST \<Rightarrow> 17 | FPBR_INST \<Rightarrow> 134
    | FPSP_INST \<Rightarrow> 142 | FPDP_INST \<Rightarrow> 143 | FPW_INST \<Rightarrow> 146)"
proof -
  from assms have "(i, EntLink l) \<in> set (md_mask2op decoder)"
    by (auto simp: entry_at_def split: option.splits dest: map_of_SomeD)
  then show ?thesis
    by (auto simp: decoder_def all_links_def shifted_def level_simps)
qed

definition link_rank :: "md_link \<Rightarrow> nat" where
  "link_rank l = (if l \<in> {FPBR_INST, FPSP_INST, FPDP_INST, FPW_INST} then 1 else 2)"

text \<open>Every link leads to an operation or to a link of lower rank, whatever the selector.\<close>

lemma links_down:
  assumes "entry_at (k + link_offset l decoder) decoder = EntLink l'"
  shows "link_rank l' < link_rank l"
  using table_links [OF assms]
  by (cases l; cases l') (simp_all add: link_offset_decoder link_rank_def)

lemma follow_links_some:
  "(case e of EntOp _ \<Rightarrow> True | EntLink l \<Rightarrow> link_rank l \<le> n) \<Longrightarrow> \<exists>op. follow_links n inst decoder e = Some op"
proof (induction n inst decoder e rule: follow_links.induct)
  case (3 n inst l)
  let ?e = "entry_at (unat (drop_bit (md_opshift l) inst AND md_opmask l) + link_offset l decoder) decoder"
  have "case ?e of EntOp _ \<Rightarrow> True | EntLink l' \<Rightarrow> link_rank l' \<le> n"
    using 3(2) links_down by (fastforce split: md_entry.split)
  from 3(1) [OF this] show ?case by simp
qed (auto simp: link_rank_def split: if_splits)

section \<open>Properties\<close>

text \<open>C34. The decoder ends for every word: the table is built without a panic, the links of any instruction
  end in an operation after at most two of the four rounds, and fetching never fails for the sake of decoding.\<close>

theorem decoder_total: "\<exists>op. MD_SET_OPCODE inst = Some op"
proof -
  have "link_rank l \<le> 4" for l by (simp add: link_rank_def)
  then have "\<exists>op. follow_links 4 inst decoder (entry_at (MD_TOP_OP inst) decoder) = Some op"
    by (intro follow_links_some) (simp split: md_entry.splits)
  then show ?thesis by (simp add: MD_SET_OPCODE_def md_init_decoder_some)
qed

text \<open>What mips.def says of a word: the entry of each level with the selector as its code, \<open>OP_NA\<close> where a level
  has no such code; and that no selector on the way is beyond the last code of its level.\<close>

definition selector :: "md_link \<Rightarrow> 32 word \<Rightarrow> nat" where
  "selector l inst = unat (drop_bit (md_opshift l) inst AND md_opmask l)"

fun documented :: "nat \<Rightarrow> 32 word \<Rightarrow> md_entry \<Rightarrow> md_opcode option" where
  "documented n inst (EntOp op) = Some op"
| "documented 0 inst (EntLink l) = None"
| "documented (Suc n) inst (EntLink l) = documented n inst (level_entry (Some l) (selector l inst))"

fun selectors_known :: "nat \<Rightarrow> 32 word \<Rightarrow> md_entry \<Rightarrow> bool" where
  "selectors_known n inst (EntOp op) = True"
| "selectors_known 0 inst (EntLink l) = False"
| "selectors_known (Suc n) inst (EntLink l) \<longleftrightarrow>
     selector l inst \<le> last_code (Some l) \<and> selectors_known n inst (level_entry (Some l) (selector l inst))"

lemma numeral_rounds [simp]:
  "documented (numeral j) inst (EntLink l) = documented (pred_numeral j) inst (level_entry (Some l) (selector l inst))"
  "selectors_known (numeral j) inst (EntLink l) \<longleftrightarrow> selector l inst \<le> last_code (Some l) \<and>
     selectors_known (pred_numeral j) inst (level_entry (Some l) (selector l inst))"
  "follow_links (numeral j) inst d (EntLink l) = follow_links (pred_numeral j) inst d
     (entry_at (unat (drop_bit (md_opshift l) inst AND md_opmask l) + link_offset l d) d)"
  by (simp_all add: numeral_eq_Suc)

lemma follow_documented:
  "selectors_known n inst e \<Longrightarrow> follow_links n inst decoder e = documented n inst e"
proof (induction n inst e rule: documented.induct)
  case (3 n inst l)
  then show ?case
    using table_levels [of "selector l inst" "Some l"]
    by (simp add: selector_def [symmetric] link_offset_decoder add.commute)
qed simp_all

text \<open>C10. The decoder agrees with mips.def: a word whose selectors are not beyond the last code of their level
  gets the operation that the lists of the levels give it.\<close>

theorem decoder_documented:
  assumes "MD_TOP_OP inst \<le> last_code None" "selectors_known 4 inst (level_entry None (MD_TOP_OP inst))"
  shows "MD_SET_OPCODE inst = documented 4 inst (level_entry None (MD_TOP_OP inst))"
  using table_levels [OF assms(1)] follow_documented [OF assms(2)]
  by (simp add: MD_SET_OPCODE_def md_init_decoder_some)

theorem decoder_documented_witness:
  "MD_SET_OPCODE 0x8FBF0014 = Some LW \<and> MD_SET_OPCODE 0x46201006 = Some (FpOp FMOV Double)"
proof -
  have k: "MD_TOP_OP 0x8FBF0014 \<le> last_code None" "selectors_known 4 0x8FBF0014 (level_entry None (MD_TOP_OP 0x8FBF0014))"
    "MD_TOP_OP 0x46201006 \<le> last_code None" "selectors_known 4 0x46201006 (level_entry None (MD_TOP_OP 0x46201006))"
    by (simp_all add: MD_TOP_OP_def last_code_simps level_entry_def level_simps selector_def)
  have d: "documented 4 0x8FBF0014 (level_entry None (MD_TOP_OP 0x8FBF0014)) = Some LW"
    "documented 4 0x46201006 (level_entry None (MD_TOP_OP 0x46201006)) = Some (FpOp FMOV Double)"
    by (simp_all add: MD_TOP_OP_def last_code_simps level_entry_def level_simps selector_def)
  show ?thesis using decoder_documented [OF k(1,2)] decoder_documented [OF k(3,4)] d by simp
qed

text \<open>A code behind the last one of its level is not \<open>OP_NA\<close>: it is decoded by the table of the next level, so
  that three words mips.def has no operation for become a shift, a branch and a move.\<close>

theorem undefined_codes_alias:
  "MD_SET_OPCODE 0xF8000000 = Some (IntOp SLL) \<and> MD_SET_OPCODE 0x0000002C = Some BLTZ \<and>
   MD_SET_OPCODE 0x04140000 = Some MFC1"
proof -
  have "follow_links 4 0xF8000000 decoder (entry_at (MD_TOP_OP 0xF8000000) decoder) = Some (IntOp SLL)"
    "follow_links 4 0x0000002C decoder (entry_at (MD_TOP_OP 0x0000002C) decoder) = Some BLTZ"
    "follow_links 4 0x04140000 decoder (entry_at (MD_TOP_OP 0x04140000) decoder) = Some MFC1"
    by (simp_all add: MD_TOP_OP_def entry_at_def decoder_lookup level_list_def all_links_def link_offset_decoder level_simps)
  then show ?thesis by (simp add: MD_SET_OPCODE_def md_init_decoder_some)
qed

end
