(* ===== verification/Mips.thy ===== *)
theory Mips
  imports Opcodes Tracer
begin

unbundle bit_operations_syntax

text \<open>
  The instruction set of mips.def, as \<open>decode_stage\<close> runs it on the registers and the memory of the current
  level: the body \<open>OP_IMPL\<close> of every instruction, its dependences, and \<open>DECLARE_FAULT\<close>. The configuration is
  the one of the Makefile on a little-endian host: fast shifts, no \<open>SYSMODE_SUPPORT\<close>. The floating-point unit
  of the host and \<open>sys_syscall\<close> (syscall.c, calls of the host system) are parameters. \<open>None\<close> is a panic or an
  access outside an array.
\<close>

section \<open>Faults and results\<close>

text \<open>A fault ends the body of the instruction; on a wrong path it is dropped.\<close>

definition DECLARE_FAULT :: "md_fault_type \<Rightarrow> godson2_cpu \<Rightarrow> md_fault_type" where
  "DECLARE_FAULT f st = (if spec_level (pipe st) = 0 then f else md_fault_none)"

text \<open>What the instructions do that only compute: they set registers, declare a fault, or (a division the host
  cannot do) stop the simulator.\<close>

datatype outcome = Sets "reg_write list" | Fault md_fault_type | HostTrap

definition run_outcome :: "outcome \<Rightarrow> nat \<Rightarrow> godson2_cpu \<Rightarrow> (md_fault_type \<times> godson2_cpu) option" where
  "run_outcome oc rs st =
     (case oc of Sets ws \<Rightarrow> map_option (Pair md_fault_none) (perform_all ws rs st)
      | Fault f \<Rightarrow> Some (DECLARE_FAULT f st, st)
      | HostTrap \<Rightarrow> None)"

section \<open>Integer instructions\<close>

definition MAXINT_VAL :: int where "MAXINT_VAL = 0x7FFFFFFF"

definition OVER :: "32 word \<Rightarrow> 32 word \<Rightarrow> bool" where
  "OVER x y \<longleftrightarrow>
     (0 < sint x \<and> 0 < sint y \<and> MAXINT_VAL - sint x < sint y) \<or>
     (sint x < 0 \<and> sint y < 0 \<and> sint y < - MAXINT_VAL - sint x)"

definition UNDER :: "32 word \<Rightarrow> 32 word \<Rightarrow> bool" where
  "UNDER x y \<longleftrightarrow>
     (0 < sint x \<and> sint y < 0 \<and> MAXINT_VAL + sint y < sint x) \<or>
     (sint x < 0 \<and> 0 < sint y \<and> sint x < - MAXINT_VAL + sint y)"

definition bool_word :: "bool \<Rightarrow> 32 word" where "bool_word b = (if b then 1 else 0)"

text \<open>The loop of \<open>MULT\<close> and \<open>MULTU\<close>: one round shifts the 64 bits \<open>hi:lo\<close> and adds, if the bit of the first
  operand is set, the second with its carry.\<close>

definition mult_round :: "32 word \<Rightarrow> 32 word \<Rightarrow> nat \<Rightarrow> 32 word \<times> 32 word \<Rightarrow> 32 word \<times> 32 word" where
  "mult_round op1 op2 i hl =
     (let (hi, lo) = hl;
          hi = push_bit 1 hi + (drop_bit 31 lo AND 1);
          lo = push_bit 1 lo
      in if drop_bit (30 - i) op1 AND 1 = 1
         then (if 0xFFFFFFFF - lo < op2 then hi + 1 else hi, lo + op2)
         else (hi, lo))"

definition mult_loop :: "32 word \<Rightarrow> 32 word \<Rightarrow> 32 word \<times> 32 word" where
  "mult_loop op1 op2 =
     fold (mult_round op1 op2) [0..<31] (0, if op1 AND 0x80000000 \<noteq> 0 then op2 else 0)"

definition mult_signed :: "32 word \<Rightarrow> 32 word \<Rightarrow> 32 word \<times> 32 word" where
  "mult_signed a b =
     (let sign1 = (a AND 0x80000000 \<noteq> 0); sign2 = (b AND 0x80000000 \<noteq> 0);
          (hi, lo) = mult_loop (if sign1 then NOT a + 1 else a) (if sign2 then NOT b + 1 else b)
      in if sign1 \<noteq> sign2
         then (if NOT lo = 0xFFFFFFFF then NOT hi + 1 else NOT hi, NOT lo + 1)
         else (hi, lo))"

text \<open>\<open>word_quot\<close> and \<open>word_rem\<close> are the signed division of C, which rounds towards zero.\<close>

definition word_quot :: "32 word \<Rightarrow> 32 word \<Rightarrow> 32 word" where
  "word_quot a b = word_of_int (sgn (sint a) * sgn (sint b) * (\<bar>sint a\<bar> div \<bar>sint b\<bar>))"

definition word_rem :: "32 word \<Rightarrow> 32 word \<Rightarrow> 32 word" where
  "word_rem a b = word_of_int (sgn (sint a) * (\<bar>sint a\<bar> mod \<bar>sint b\<bar>))"

text \<open>Immediate operands.\<close>

fun imm_effect :: "int_op \<Rightarrow> 32 word \<Rightarrow> pipeline \<Rightarrow> outcome" where
  "imm_effect ADDI inst p =
     (if OVER (GPR (RS inst) p) (IMM inst) then Fault md_fault_overflow
      else Sets [W_GPR (RT inst) (GPR (RS inst) p + IMM inst)])"
| "imm_effect ADDIU inst p = Sets [W_GPR (RT inst) (GPR (RS inst) p + IMM inst)]"
| "imm_effect SLTI inst p = Sets [W_GPR (RT inst) (bool_word (GPR (RS inst) p <s IMM inst))]"
| "imm_effect SLTIU inst p = Sets [W_GPR (RT inst) (bool_word (GPR (RS inst) p < IMM inst))]"
| "imm_effect ANDI inst p = Sets [W_GPR (RT inst) (GPR (RS inst) p AND UIMM inst)]"
| "imm_effect ORI inst p = Sets [W_GPR (RT inst) (GPR (RS inst) p OR UIMM inst)]"
| "imm_effect XORI inst p = Sets [W_GPR (RT inst) (GPR (RS inst) p XOR UIMM inst)]"
| "imm_effect LUI inst p = Sets [W_GPR (RT inst) (push_bit 16 (UIMM inst))]"
| "imm_effect _ inst p = Sets []"

text \<open>Shifts.\<close>

fun shift_effect :: "int_op \<Rightarrow> 32 word \<Rightarrow> pipeline \<Rightarrow> outcome" where
  "shift_effect SLL inst p = Sets [W_GPR (RD inst) (push_bit (SHAMT inst) (GPR (RT inst) p))]"
| "shift_effect SLLV inst p =
     Sets [W_GPR (RD inst) (push_bit (unat (GPR (RS inst) p AND 0x1F)) (GPR (RT inst) p))]"
| "shift_effect SRL inst p = Sets [W_GPR (RD inst) (drop_bit (SHAMT inst) (GPR (RT inst) p))]"
| "shift_effect SRLV inst p =
     Sets [W_GPR (RD inst) (drop_bit (unat (GPR (RS inst) p AND 0x1F)) (GPR (RT inst) p))]"
| "shift_effect SRA inst p = Sets [W_GPR (RD inst) (signed_drop_bit (SHAMT inst) (GPR (RT inst) p))]"
| "shift_effect SRAV inst p =
     Sets [W_GPR (RD inst) (signed_drop_bit (unat (GPR (RS inst) p AND 0x1F)) (GPR (RT inst) p))]"
| "shift_effect _ inst p = Sets []"

text \<open>Moves to and from \<open>HI\<close> and \<open>LO\<close>.\<close>

fun hilo_effect :: "int_op \<Rightarrow> 32 word \<Rightarrow> pipeline \<Rightarrow> outcome" where
  "hilo_effect MFHI inst p = Sets [W_GPR (RD inst) (HI p)]"
| "hilo_effect MTHI inst p = Sets [W_HI (GPR (RS inst) p)]"
| "hilo_effect MFLO inst p = Sets [W_GPR (RD inst) (LO p)]"
| "hilo_effect MTLO inst p = Sets [W_LO (GPR (RS inst) p)]"
| "hilo_effect _ inst p = Sets []"

text \<open>Multiplication and division.\<close>

fun muldiv_effect :: "int_op \<Rightarrow> 32 word \<Rightarrow> pipeline \<Rightarrow> outcome" where
  "muldiv_effect MULT inst p =
     (let (h, l) = mult_signed (GPR (RS inst) p) (GPR (RT inst) p) in Sets [W_HI h, W_LO l])"
| "muldiv_effect MULTU inst p =
     (let (h, l) = mult_loop (GPR (RS inst) p) (GPR (RT inst) p) in Sets [W_HI h, W_LO l])"
| "muldiv_effect DIV inst p =
     (if GPR (RT inst) p = 0 then Fault md_fault_div0
      else if GPR (RS inst) p = 0x80000000 \<and> GPR (RT inst) p = 0xFFFFFFFF then HostTrap
      else Sets [W_LO (word_quot (GPR (RS inst) p) (GPR (RT inst) p)),
                 W_HI (word_rem (GPR (RS inst) p) (GPR (RT inst) p))])"
| "muldiv_effect DIVU inst p =
     (if GPR (RT inst) p = 0 then Fault md_fault_div0
      else Sets [W_LO (GPR (RS inst) p div GPR (RT inst) p), W_HI (GPR (RS inst) p mod GPR (RT inst) p)])"
| "muldiv_effect _ inst p = Sets []"

text \<open>Two registers.\<close>

fun reg_effect :: "int_op \<Rightarrow> 32 word \<Rightarrow> pipeline \<Rightarrow> outcome" where
  "reg_effect ADD inst p =
     (if OVER (GPR (RS inst) p) (GPR (RT inst) p) then Fault md_fault_overflow
      else Sets [W_GPR (RD inst) (GPR (RS inst) p + GPR (RT inst) p)])"
| "reg_effect ADDU inst p = Sets [W_GPR (RD inst) (GPR (RS inst) p + GPR (RT inst) p)]"
| "reg_effect SUB inst p =
     (if UNDER (GPR (RS inst) p) (GPR (RT inst) p) then Fault md_fault_overflow
      else Sets [W_GPR (RD inst) (GPR (RS inst) p - GPR (RT inst) p)])"
| "reg_effect SUBU inst p = Sets [W_GPR (RD inst) (GPR (RS inst) p - GPR (RT inst) p)]"
| "reg_effect OP_AND inst p = Sets [W_GPR (RD inst) (GPR (RS inst) p AND GPR (RT inst) p)]"
| "reg_effect OP_OR inst p = Sets [W_GPR (RD inst) (GPR (RS inst) p OR GPR (RT inst) p)]"
| "reg_effect OP_XOR inst p = Sets [W_GPR (RD inst) (GPR (RS inst) p XOR GPR (RT inst) p)]"
| "reg_effect OP_NOR inst p = Sets [W_GPR (RD inst) (NOT (GPR (RS inst) p OR GPR (RT inst) p))]"
| "reg_effect SLT inst p = Sets [W_GPR (RD inst) (bool_word (GPR (RS inst) p <s GPR (RT inst) p))]"
| "reg_effect SLTU inst p = Sets [W_GPR (RD inst) (bool_word (GPR (RS inst) p < GPR (RT inst) p))]"
| "reg_effect _ inst p = Sets []"

definition int_effect :: "int_op \<Rightarrow> 32 word \<Rightarrow> pipeline \<Rightarrow> outcome" where
  "int_effect i inst p =
     (if i \<in> {ADDI, ADDIU, SLTI, SLTIU, ANDI, ORI, XORI, LUI} then imm_effect i inst p
      else if i \<in> {SLL, SLLV, SRL, SRLV, SRA, SRAV} then shift_effect i inst p
      else if i \<in> {MFHI, MTHI, MFLO, MTLO} then hilo_effect i inst p
      else if i \<in> {MULT, MULTU, DIV, DIVU} then muldiv_effect i inst p
      else if i = BREAK then Fault md_fault_break
      else if i = SYSCALL then Sets [] else reg_effect i inst p)"

text \<open>Moves between the register files.\<close>

fun move_effect :: "md_opcode \<Rightarrow> 32 word \<Rightarrow> pipeline \<Rightarrow> outcome" where
  "move_effect MFC1 inst p = Sets [W_GPR (RT inst) (FPR_L (FS inst) p)]"
| "move_effect DMFC1 inst p =
     (if odd (RT inst) \<or> odd (FS inst) then Fault md_fault_alignment
      else Sets [W_GPR (RT inst) (FPR_L (FS inst) p), W_GPR (RT inst + 1) (FPR_L (FS inst + 1) p)])"
| "move_effect MTC1 inst p = Sets [W_FPR (FS inst) (GPR (RT inst) p)]"
| "move_effect DMTC1 inst p =
     (if odd (FS inst) \<or> odd (RT inst) then Fault md_fault_alignment
      else Sets [W_FPR (FS inst) (GPR (RT inst) p), W_FPR (FS inst + 1) (GPR (RT inst + 1) p)])"
| "move_effect _ inst p = Sets []"

section \<open>Floating-point instructions\<close>

text \<open>The host's arithmetic on the patterns of single (one word), double (two words) and integer values. The
  second operand of a unary operation is not used.\<close>

record fpu =
  fp_single :: "fp_op \<Rightarrow> 32 word \<Rightarrow> 32 word \<Rightarrow> 32 word"
  fp_double :: "fp_op \<Rightarrow> 32 word \<times> 32 word \<Rightarrow> 32 word \<times> 32 word \<Rightarrow> 32 word \<times> 32 word"
  single_to_int :: "fp_op \<Rightarrow> 32 word \<Rightarrow> 32 word"
  double_to_int :: "fp_op \<Rightarrow> 32 word \<times> 32 word \<Rightarrow> 32 word"
  single_to_double :: "32 word \<Rightarrow> 32 word \<times> 32 word"
  double_to_single :: "32 word \<times> 32 word \<Rightarrow> 32 word"
  int_to_single :: "32 word \<Rightarrow> 32 word"
  int_to_double :: "32 word \<Rightarrow> 32 word \<times> 32 word"
  single_compare :: "fp_op \<Rightarrow> 32 word \<Rightarrow> 32 word \<Rightarrow> bool"
  double_compare :: "fp_op \<Rightarrow> 32 word \<times> 32 word \<Rightarrow> 32 word \<times> 32 word \<Rightarrow> bool"

definition fp_binary :: "fp_op \<Rightarrow> bool" where "fp_binary f \<longleftrightarrow> f \<in> {FADD, FSUB, FMUL, FDIV}"
definition fp_compare :: "fp_op \<Rightarrow> bool" where "fp_compare f \<longleftrightarrow> f \<in> {C_EQ, C_LT, C_LE}"
definition fp_round :: "fp_op \<Rightarrow> bool" where "fp_round f \<longleftrightarrow> f \<in> {ROUND_W, TRUNC_W, CEIL_W, FLOOR_W, CVT_W}"

text \<open>Every instruction first requires even register numbers.\<close>

definition fp_unaligned :: "fp_op \<Rightarrow> 32 word \<Rightarrow> bool" where
  "fp_unaligned f inst \<longleftrightarrow> odd (FS inst) \<or> (\<not> fp_compare f \<and> odd (FD inst)) \<or>
     ((fp_compare f \<or> fp_binary f) \<and> odd (FT inst))"

definition fp_single_effect :: "fpu \<Rightarrow> fp_op \<Rightarrow> 32 word \<Rightarrow> pipeline \<Rightarrow> outcome" where
  "fp_single_effect F f inst p =
     (let x = FPR_L (FS inst) p; y = FPR_L (FT inst) p
      in if fp_compare f then Sets [W_FCC (bool_word (single_compare F f x y))]
         else if fp_round f then Sets [W_FPR (FD inst) (single_to_int F f x)]
         else if f = CVT_D then Sets [W_FPR_D (FD inst) (single_to_double F x)]
         else Sets [W_FPR (FD inst) (fp_single F f x y)])"

definition fp_double_effect :: "fpu \<Rightarrow> fp_op \<Rightarrow> 32 word \<Rightarrow> pipeline \<Rightarrow> outcome" where
  "fp_double_effect F f inst p =
     (let x = FPR_D (FS inst) p; y = FPR_D (FT inst) p
      in if fp_compare f then Sets [W_FCC (bool_word (double_compare F f x y))]
         else if fp_round f then Sets [W_FPR (FD inst) (double_to_int F f x)]
         else if f = CVT_S then Sets [W_FPR (FD inst) (double_to_single F x)]
         else Sets [W_FPR_D (FD inst) (fp_double F f x y)])"

definition fp_word_effect :: "fpu \<Rightarrow> fp_op \<Rightarrow> 32 word \<Rightarrow> pipeline \<Rightarrow> outcome" where
  "fp_word_effect F f inst p =
     (if f = CVT_S then Sets [W_FPR (FD inst) (int_to_single F (FPR_L (FS inst) p))]
      else Sets [W_FPR_D (FD inst) (int_to_double F (FPR_L (FS inst) p))])"

definition fp_effect :: "fpu \<Rightarrow> fp_op \<Rightarrow> fp_fmt \<Rightarrow> 32 word \<Rightarrow> pipeline \<Rightarrow> outcome" where
  "fp_effect F f fmt inst p =
     (if fp_unaligned f inst then Fault md_fault_alignment
      else case fmt of Single \<Rightarrow> fp_single_effect F f inst p | Double \<Rightarrow> fp_double_effect F f inst p
      | Word \<Rightarrow> fp_word_effect F f inst p)"

section \<open>Loads and stores\<close>

text \<open>An access gives the fault, the address it leaves in \<open>addr\<close>, and the value.\<close>

definition READ_VALUE ::
  "md_addr_t \<Rightarrow> nat \<Rightarrow> godson2_cpu \<Rightarrow> (md_fault_type \<times> 32 word \<times> godson2_cpu) option" where
  "READ_VALUE a n st = map_option (\<lambda>(f, bs, st). (f, bytes_word bs, st)) (READ_SPECMEM a n st)"

definition WRITE_VALUE ::
  "32 word \<Rightarrow> md_addr_t \<Rightarrow> nat \<Rightarrow> nat \<Rightarrow> godson2_cpu \<Rightarrow> (md_fault_type \<times> godson2_cpu) option" where
  "WRITE_VALUE v a n rs st = WRITE_SPECMEM a (take n (word_bytes v)) rs st"

definition OFS_ADDR :: "32 word \<Rightarrow> godson2_cpu \<Rightarrow> md_addr_t" where
  "OFS_ADDR inst st = GPR (BS inst) (pipe st) + OFS inst"

type_synonym mem_result = "(md_fault_type \<times> md_addr_t \<times> godson2_cpu) option"

definition load_into ::
  "md_addr_t \<Rightarrow> nat \<Rightarrow> (32 word \<Rightarrow> godson2_cpu \<Rightarrow> reg_write list) \<Rightarrow> nat \<Rightarrow> godson2_cpu \<Rightarrow> mem_result" where
  "load_into a n ws rs st =
     do { (f, v, st) \<leftarrow> READ_VALUE a n st;
          if f \<noteq> md_fault_none then Some (DECLARE_FAULT f st, a, st)
          else do { st \<leftarrow> perform_all (ws v st) rs st; Some (md_fault_none, a, st) } }"

definition store_from :: "32 word \<Rightarrow> md_addr_t \<Rightarrow> nat \<Rightarrow> nat \<Rightarrow> godson2_cpu \<Rightarrow> mem_result" where
  "store_from v a n rs st =
     do { (f, st) \<leftarrow> WRITE_VALUE v a n rs st;
          Some (if f \<noteq> md_fault_none then DECLARE_FAULT f st else md_fault_none, a, st) }"

definition sext_byte :: "32 word \<Rightarrow> 32 word" where "sext_byte w = scast (ucast w :: 8 word)"
definition sext_half :: "32 word \<Rightarrow> 32 word" where "sext_half w = scast (ucast w :: 16 word)"

text \<open>The unaligned accesses on a little-endian host: the masks, and the merge of register and memory word.\<close>

definition md_lr_masks :: "32 word list" where
  "md_lr_masks = [0xFFFFFFFF, 0x00FFFFFF, 0x0000FFFF, 0x000000FF, 0x00000000]"

definition WL_SIZE :: "md_addr_t \<Rightarrow> nat" where "WL_SIZE a = 4 - unat (a AND 3)"
definition WR_SIZE :: "md_addr_t \<Rightarrow> nat" where "WR_SIZE a = unat (a AND 3) + 1"
definition WORD_BASE :: "md_addr_t \<Rightarrow> md_addr_t" where "WORD_BASE a = a AND NOT 3"

definition LWL_merge :: "md_addr_t \<Rightarrow> 32 word \<Rightarrow> 32 word \<Rightarrow> 32 word" where
  "LWL_merge a rt w =
     (let m = md_lr_masks ! WR_SIZE a in (rt AND m) OR (push_bit (8 * (WL_SIZE a - 1)) w AND NOT m))"

definition LWR_merge :: "md_addr_t \<Rightarrow> 32 word \<Rightarrow> 32 word \<Rightarrow> 32 word" where
  "LWR_merge a rt w =
     (let m = md_lr_masks ! (4 - WL_SIZE a) in (rt AND NOT m) OR (drop_bit (8 * (WR_SIZE a - 1)) w AND m))"

definition SWL_merge :: "md_addr_t \<Rightarrow> 32 word \<Rightarrow> 32 word \<Rightarrow> 32 word" where
  "SWL_merge a rt w =
     (let m = md_lr_masks ! (4 - WR_SIZE a)
      in (signed_drop_bit (8 * (4 - WR_SIZE a)) rt AND m) OR (w AND NOT m))"

definition SWR_merge :: "md_addr_t \<Rightarrow> 32 word \<Rightarrow> 32 word \<Rightarrow> 32 word" where
  "SWR_merge a rt w =
     (let m = md_lr_masks ! WL_SIZE a in (push_bit (8 * (4 - WL_SIZE a)) rt AND NOT m) OR (w AND m))"

definition load_double :: "32 word \<Rightarrow> nat \<Rightarrow> godson2_cpu \<Rightarrow> mem_result" where
  "load_double inst rs st =
     (if odd (FT inst) then Some (DECLARE_FAULT md_fault_alignment st, 0, st)
      else do { (f, h, st) \<leftarrow> READ_VALUE (OFS_ADDR inst st) 4 st;
                if f \<noteq> md_fault_none then Some (DECLARE_FAULT f st, OFS_ADDR inst st, st)
                else load_into (OFS_ADDR inst st + 4) 4 (\<lambda>l _. [W_FPR (FT inst) h, W_FPR (FT inst + 1) l]) rs st })"

definition store_double :: "32 word \<Rightarrow> nat \<Rightarrow> godson2_cpu \<Rightarrow> mem_result" where
  "store_double inst rs st =
     (if odd (FT inst) then Some (DECLARE_FAULT md_fault_alignment st, 0, st)
      else do { (f, st) \<leftarrow> WRITE_VALUE (FPR_L (FT inst) (pipe st)) (OFS_ADDR inst st) 4 rs st;
                if f \<noteq> md_fault_none then Some (DECLARE_FAULT f st, OFS_ADDR inst st, st)
                else store_from (FPR_L (FT inst + 1) (pipe st)) (OFS_ADDR inst st + 4) 4 rs st })"

definition store_merged ::
  "(md_addr_t \<Rightarrow> 32 word \<Rightarrow> 32 word \<Rightarrow> 32 word) \<Rightarrow> 32 word \<Rightarrow> nat \<Rightarrow> godson2_cpu \<Rightarrow> mem_result" where
  "store_merged merge inst rs st =
     (let a = OFS_ADDR inst st
      in do { (f, w, st) \<leftarrow> READ_VALUE (WORD_BASE a) 4 st;
              if f \<noteq> md_fault_none then Some (DECLARE_FAULT f st, WORD_BASE a, st)
              else store_from (merge a (GPR (RT inst) (pipe st)) w) (WORD_BASE a) 4 rs st })"

text \<open>\<open>SC\<close> stores like \<open>SW\<close> and then sets its register.\<close>

definition store_conditional :: "32 word \<Rightarrow> nat \<Rightarrow> godson2_cpu \<Rightarrow> mem_result" where
  "store_conditional inst rs st =
     do { (f, st) \<leftarrow> WRITE_VALUE (GPR (RT inst) (pipe st)) (OFS_ADDR inst st) 4 rs st;
          if f \<noteq> md_fault_none then Some (DECLARE_FAULT f st, OFS_ADDR inst st, st)
          else let a = OFS_ADDR inst st
               in do { st \<leftarrow> SET_GPR (RT inst) 1 rs st; Some (md_fault_none, a, st) } }"

fun exec_mem :: "md_opcode \<Rightarrow> 32 word \<Rightarrow> nat \<Rightarrow> godson2_cpu \<Rightarrow> mem_result" where
  "exec_mem LB inst rs st = load_into (OFS_ADDR inst st) 1 (\<lambda>v _. [W_GPR (RT inst) (sext_byte v)]) rs st"
| "exec_mem LH inst rs st = load_into (OFS_ADDR inst st) 2 (\<lambda>v _. [W_GPR (RT inst) (sext_half v)]) rs st"
| "exec_mem LW inst rs st = load_into (OFS_ADDR inst st) 4 (\<lambda>v _. [W_GPR (RT inst) v]) rs st"
| "exec_mem LBU inst rs st = load_into (OFS_ADDR inst st) 1 (\<lambda>v _. [W_GPR (RT inst) v]) rs st"
| "exec_mem LHU inst rs st = load_into (OFS_ADDR inst st) 2 (\<lambda>v _. [W_GPR (RT inst) v]) rs st"
| "exec_mem LL inst rs st = load_into (OFS_ADDR inst st) 4 (\<lambda>v _. [W_GPR (RT inst) v]) rs st"
| "exec_mem LWC1 inst rs st = load_into (OFS_ADDR inst st) 4 (\<lambda>v _. [W_FPR (FT inst) v]) rs st"
| "exec_mem LDC1 inst rs st = load_double inst rs st"
| "exec_mem LWL inst rs st = (let a = OFS_ADDR inst st in
     load_into (WORD_BASE a) 4 (\<lambda>v st. [W_GPR (RT inst) (LWL_merge a (GPR (RT inst) (pipe st)) v)]) rs st)"
| "exec_mem LWR inst rs st = (let a = OFS_ADDR inst st in
     load_into (WORD_BASE a) 4 (\<lambda>v st. [W_GPR (RT inst) (LWR_merge a (GPR (RT inst) (pipe st)) v)]) rs st)"
| "exec_mem SB inst rs st = store_from (GPR (RT inst) (pipe st)) (OFS_ADDR inst st) 1 rs st"
| "exec_mem SH inst rs st = store_from (GPR (RT inst) (pipe st)) (OFS_ADDR inst st) 2 rs st"
| "exec_mem SW inst rs st = store_from (GPR (RT inst) (pipe st)) (OFS_ADDR inst st) 4 rs st"
| "exec_mem SWC1 inst rs st = store_from (FPR_L (FT inst) (pipe st)) (OFS_ADDR inst st) 4 rs st"
| "exec_mem SDC1 inst rs st = store_double inst rs st"
| "exec_mem SWL inst rs st = store_merged SWL_merge inst rs st"
| "exec_mem SWR inst rs st = store_merged SWR_merge inst rs st"
| "exec_mem SC inst rs st = store_conditional inst rs st"
| "exec_mem op inst rs st = map_option (\<lambda>(f, st). (f, 0, st)) (run_outcome (move_effect op inst (pipe st)) rs st)"

section \<open>Jumps and branches\<close>

definition upd_front :: "(front_end \<Rightarrow> front_end) \<Rightarrow> godson2_cpu \<Rightarrow> godson2_cpu" where
  "upd_front f = upd_pipe (\<lambda>p. p\<lparr>front := f (front p)\<rparr>)"

definition SET_TPC :: "md_addr_t \<Rightarrow> godson2_cpu \<Rightarrow> godson2_cpu" where
  "SET_TPC a = upd_front (\<lambda>r. r\<lparr>target_PC := a\<rparr>)"

definition set_jump :: "godson2_cpu \<Rightarrow> godson2_cpu" where
  "set_jump = upd_pipe (\<lambda>p. p\<lparr>is_jump := True\<rparr>)"

definition set_annulled :: "godson2_cpu \<Rightarrow> godson2_cpu" where
  "set_annulled = upd_front (\<lambda>r. r\<lparr>is_annulled := True\<rparr>)"

text \<open>The current PC is the one of the instruction.\<close>

definition CPC :: "nat \<Rightarrow> godson2_cpu \<Rightarrow> md_addr_t" where "CPC rs st = rs_PC (insts st rs)"

fun branch_cond :: "md_opcode \<Rightarrow> 32 word \<Rightarrow> pipeline \<Rightarrow> bool" where
  "branch_cond BEQ inst p = (GPR (RS inst) p = GPR (RT inst) p)"
| "branch_cond BEQL inst p = (GPR (RS inst) p = GPR (RT inst) p)"
| "branch_cond BNE inst p = (GPR (RS inst) p \<noteq> GPR (RT inst) p)"
| "branch_cond BNEL inst p = (GPR (RS inst) p \<noteq> GPR (RT inst) p)"
| "branch_cond BLEZ inst p = (sint (GPR (RS inst) p) \<le> 0)"
| "branch_cond BLEZL inst p = (sint (GPR (RS inst) p) \<le> 0)"
| "branch_cond BGTZ inst p = (0 < sint (GPR (RS inst) p))"
| "branch_cond BGTZL inst p = (0 < sint (GPR (RS inst) p))"
| "branch_cond BC1F inst p = (FCC p = 0)"
| "branch_cond BC1FL inst p = (FCC p = 0)"
| "branch_cond BC1T inst p = (FCC p \<noteq> 0)"
| "branch_cond BC1TL inst p = (FCC p \<noteq> 0)"
| "branch_cond op inst p =
     (if op \<in> {BLTZ, BLTZL, BLTZAL, BLTZALL} then sint (GPR (RS inst) p) < 0 else 0 \<le> sint (GPR (RS inst) p))"

definition links :: "md_opcode \<Rightarrow> bool" where "links op \<longleftrightarrow> op \<in> {BLTZAL, BGEZAL, BLTZALL, BGEZALL}"

definition exec_branch :: "md_opcode \<Rightarrow> 32 word \<Rightarrow> nat \<Rightarrow> godson2_cpu \<Rightarrow> (md_fault_type \<times> godson2_cpu) option" where
  "exec_branch op inst rs st =
     (let st = SET_TPC (CPC rs st + 4 + push_bit 2 (OFS inst)) st
      in do { st \<leftarrow> (if links op then SET_GPR 31 (CPC rs st + 8) rs st else Some st);
              Some (md_fault_none,
                if branch_cond op inst (pipe st) then set_jump st
                else if F_CTRL_LIKELY op then set_annulled st else st) })"

fun exec_ctrl :: "md_opcode \<Rightarrow> 32 word \<Rightarrow> nat \<Rightarrow> godson2_cpu \<Rightarrow> (md_fault_type \<times> godson2_cpu) option" where
  "exec_ctrl JUMP inst rs st =
     Some (md_fault_none, set_jump (SET_TPC ((CPC rs st AND 0xF0000000) OR push_bit 2 (TARG inst)) st))"
| "exec_ctrl JAL inst rs st =
     do { st \<leftarrow> SET_GPR 31 (CPC rs st + 8) rs (SET_TPC ((CPC rs st AND 0xF0000000) OR push_bit 2 (TARG inst)) st);
          Some (md_fault_none, set_jump st) }"
| "exec_ctrl JR inst rs st =
     (if GPR (RS inst) (pipe st) AND 3 \<noteq> 0 then Some (DECLARE_FAULT md_fault_alignment st, st)
      else Some (md_fault_none, set_jump (SET_TPC (GPR (RS inst) (pipe st)) st)))"
| "exec_ctrl JALR inst rs st =
     (if GPR (RS inst) (pipe st) AND 3 \<noteq> 0 then Some (DECLARE_FAULT md_fault_alignment st, st)
      else do { st \<leftarrow> SET_GPR (RD inst) (CPC rs st + 8) rs st;
                Some (md_fault_none, set_jump (SET_TPC (GPR (RS inst) (pipe st)) st)) })"
| "exec_ctrl op inst rs st = exec_branch op inst rs st"

section \<open>One instruction\<close>

text \<open>A system call on a wrong path is a panic. \<open>sys_syscall\<close> gets the instruction and the descriptor.\<close>

definition exec_inst ::
  "fpu \<Rightarrow> (32 word \<Rightarrow> nat \<Rightarrow> godson2_cpu \<Rightarrow> godson2_cpu option) \<Rightarrow> md_opcode \<Rightarrow> 32 word \<Rightarrow> nat \<Rightarrow> godson2_cpu \<Rightarrow> mem_result" where
  "exec_inst F sys_syscall op inst rs st =
     (let no_addr = map_option (\<lambda>(f, st). (f, 0, st))
      in case op of
        IntOp i \<Rightarrow>
          if i = SYSCALL
          then if spec_level (pipe st) \<noteq> 0 then None
               else map_option (\<lambda>st. (md_fault_none, 0, st)) (sys_syscall inst rs st)
          else no_addr (run_outcome (int_effect i inst (pipe st)) rs st)
      | FpOp f fmt \<Rightarrow> no_addr (run_outcome (fp_effect F f fmt inst (pipe st)) rs st)
      | SPLITMUL \<Rightarrow> Some (md_fault_none, 0, st)
      | SPLITDIV \<Rightarrow> Some (md_fault_none, 0, st)
      | OP_NA \<Rightarrow> Some (md_fault_none, 0, st)
      | _ \<Rightarrow> if F_CTRL op then no_addr (exec_ctrl op inst rs st) else exec_mem op inst rs st)"

section \<open>Dependences\<close>

text \<open>The names of the registers (godson2_cpu.h): the integer registers, the pairs of floating-point registers,
  and the three control registers; 0 is \<open>DNA\<close>.\<close>

definition DFPR :: "nat \<Rightarrow> nat" where "DFPR n = 2 * ((n + 32) div 2)"
definition DGPR_D :: "nat \<Rightarrow> nat" where "DGPR_D n = 2 * (n div 2)"
definition DFCC :: nat where "DFCC = 66"

text \<open>The output of an instruction; no definition lists a second one.\<close>

fun out_dep :: "md_opcode \<Rightarrow> 32 word \<Rightarrow> nat" where
  "out_dep (IntOp i) inst =
     (if i \<in> {SYSCALL, BREAK} then 0
      else if i \<in> {ADDI, ADDIU, SLTI, SLTIU, ANDI, ORI, XORI, LUI} then RT inst
      else if i = MTHI then DHI
      else if i \<in> {MTLO, MULT, MULTU, DIV, DIVU} then DLO
      else RD inst)"
| "out_dep (FpOp f fmt) inst = (if fp_compare f \<and> fmt \<noteq> Word then DFCC else DFPR (FD inst))"
| "out_dep op inst =
     (if op = JAL then 31 else if op = JALR then RD inst
      else if op \<in> {SPLITMUL, SPLITDIV} then DHI
      else if op \<in> {LB, LH, LW, LBU, LHU, LL, LWL, LWR, MFC1} then RT inst
      else if op = DMFC1 then DGPR_D (RT inst)
      else if op \<in> {LWC1, LDC1} then DFPR (FT inst)
      else if op \<in> {MTC1, DMTC1} then DFPR (FS inst) else 0)"

text \<open>The inputs, in their slots: the value of a store in the first, the base of an address in the second.\<close>

fun in_deps :: "md_opcode \<Rightarrow> 32 word \<Rightarrow> nat \<times> nat \<times> nat" where
  "in_deps (IntOp i) inst =
     (if i \<in> {SYSCALL, BREAK, LUI} then (0, 0, 0)
      else if i \<in> {ADDI, ADDIU, SLTI, SLTIU, ANDI, ORI, XORI, MTHI, MTLO} then (RS inst, 0, 0)
      else if i \<in> {SLL, SRL, SRA} then (RT inst, 0, 0)
      else if i = MFHI then (DHI, 0, 0) else if i = MFLO then (DLO, 0, 0)
      else if i \<in> {SLLV, SRLV, SRAV, MULT, MULTU, DIV, DIVU} then (RT inst, RS inst, 0)
      else (RS inst, RT inst, 0))"
| "in_deps (FpOp f fmt) inst = (DFPR (FS inst), if fp_binary f \<or> fp_compare f then DFPR (FT inst) else 0, 0)"
| "in_deps op inst =
     (if op \<in> {JUMP, JAL, CFC1, CTC1, OP_NA} then (0, 0, 0)
      else if op \<in> {BEQ, BNE, BEQL, BNEL} then (RS inst, RT inst, 0)
      else if op \<in> {BC1F, BC1T, BC1FL, BC1TL} then (DFCC, 0, 0)
      else if F_CTRL op then (RS inst, 0, 0)
      else if op \<in> {SPLITMUL, SPLITDIV} then (RT inst, RS inst, 0)
      else if op \<in> {MFC1, DMFC1} then (DFPR (FS inst), 0, 0)
      else if op = MTC1 then (RT inst, DFPR (FS inst), 0)
      else if op = DMTC1 then (DGPR_D (RT inst), 0, 0)
      else if op \<in> {LWC1, SWC1, SDC1} then (DFPR (FT inst), BS inst, 0)
      else if F_STORE op then (RT inst, BS inst, 0)
      else (0, BS inst, 0))"

end
