(* ===== verification/Execution.thy ===== *)
theory Execution
  imports Mips
begin

unbundle bit_operations_syntax

text \<open>
  What every instruction of mips.def does to the architectural state. An instruction is a list of logged
  writes between steps that change no register and no byte of memory (\<open>exec_does\<close>); so on the right path it
  can be undone, on a wrong path it touches nothing but its level, and the registers it writes are the ones
  its definition declares, up to the instructions listed in \<open>undeclared\<close>.
\<close>

section \<open>Quiet steps\<close>

text \<open>Steps that keep the architectural state, the descriptors and all register levels: reads of memory, and
  the assignments to the target PC and the jump flags.\<close>

definition quiet :: "godson2_cpu \<Rightarrow> godson2_cpu \<Rightarrow> bool" where
  "quiet st st' \<longleftrightarrow> insts st' = insts st \<and> spec_level (pipe st') = spec_level (pipe st) \<and>
     (\<forall>k. level_regs k (pipe st') = level_regs k (pipe st)) \<and>
     mem_byte (target_mem (pipe st')) = mem_byte (target_mem (pipe st)) \<and> mem_ok (target_mem (pipe st'))"

lemma quiet_self: "mem_ok (target_mem (pipe st)) \<Longrightarrow> quiet st st"
  by (simp add: quiet_def)

lemma quiet_arch:
  assumes "quiet st st'"
  shows "arch (pipe st') = arch (pipe st)"
proof
  fix l
  from assms have "level_regs 0 (pipe st') = level_regs 0 (pipe st)"
    "mem_byte (target_mem (pipe st')) = mem_byte (target_mem (pipe st))" by (simp_all add: quiet_def)
  then show "arch (pipe st') l = arch (pipe st) l" by (cases l) (simp_all add: level_regs_def)
qed

lemma quiet_reads:
  assumes "quiet st st'"
  shows "GPR n (pipe st') = GPR n (pipe st)" "FPR_L n (pipe st') = FPR_L n (pipe st)"
  using assms by (simp_all add: quiet_def reads_level_regs)

lemma quiet_steps:
  "mem_ok (target_mem (pipe st)) \<Longrightarrow> quiet st (SET_TPC a st)"
  "mem_ok (target_mem (pipe st)) \<Longrightarrow> quiet st (set_jump st)"
  "mem_ok (target_mem (pipe st)) \<Longrightarrow> quiet st (set_annulled st)"
  by (simp_all add: quiet_def SET_TPC_def set_jump_def set_annulled_def upd_front_def upd_pipe_def level_regs_def)

lemma quiet_then: "quiet a b \<Longrightarrow> quiet b c \<Longrightarrow> quiet a c"
  by (simp add: quiet_def)

lemma spec_read_quiet:
  assumes ok: "mem_ok (target_mem p)" and n: "n \<in> {1, 2, 4}"
    and run: "spec_mem_access p Read a (replicate n 0) (int n) = Some (f, bs, p')"
  shows "mem_ok (target_mem p') \<and> mem_byte (target_mem p') = mem_byte (target_mem p) \<and>
    spec_level p' = spec_level p \<and> (\<forall>k. level_regs k p' = level_regs k p) \<and> f = md_fault_none"
proof (cases "a AND word_of_int (int n - 1) \<noteq> 0")
  case True
  with run ok show ?thesis by (auto simp: spec_mem_access_def Let_def split: if_splits)
next
  case False
  have n': "int n \<in> {1, 2, 4, 8}" using n by auto
  from read_target_spec [OF ok n'] False obtain m where
    m: "read_target n a p = Some (bytes_at (mem_byte (target_mem p)) a n, p\<lparr>target_mem := m\<rparr>)"
      "mem_ok m" "mem_byte m = mem_byte (target_mem p)" by auto
  have "level_regs k (p\<lparr>target_mem := m\<rparr>) = level_regs k p" for k by (simp add: level_regs_def)
  with run ok m show ?thesis by (auto simp: spec_mem_access_def Let_def split: if_splits option.splits)
qed

lemma READ_VALUE_quiet:
  assumes ok: "mem_ok (target_mem (pipe st))" and n: "n \<in> {1, 2, 4}"
    and run: "READ_VALUE a n st = Some (f, v, st')"
  shows "quiet st st' \<and> (spec_level (pipe st) \<noteq> 0 \<longrightarrow> f = md_fault_none)"
proof (cases "spec_level (pipe st) = 0")
  case True
  with run obtain bs m where m: "mem_access (target_mem (pipe st)) Read a (replicate n 0) (int n) = Some (f, bs, m)"
    and st': "st' = upd_pipe (\<lambda>p. p\<lparr>target_mem := m\<rparr>) st"
    by (auto simp: READ_VALUE_def READ_SPECMEM_def)
  have al: "int n AND (int n - 1) = 0" "int n \<le> 4096" using n by auto
  have "mem_ok m \<and> mem_byte m = mem_byte (target_mem (pipe st))"
  proof (cases "a AND word_of_int (int n - 1) = 0")
    case True
    from mem_access_Read [OF ok al True, of "replicate n 0"] m show ?thesis by auto
  next
    case False
    with m al ok show ?thesis by (simp add: mem_access_def MD_PAGE_SIZE_def split: if_splits)
  qed
  then show ?thesis using True by (simp add: quiet_def st' upd_pipe_def level_regs_def)
next
  case False
  with run obtain bs p' where p: "spec_mem_access (pipe st) Read a (replicate n 0) (int n) = Some (f, bs, p')"
    and st': "st' = st\<lparr>pipe := p'\<rparr>" by (auto simp: READ_VALUE_def READ_SPECMEM_def)
  from spec_read_quiet [OF ok n p] False show ?thesis by (simp add: quiet_def st')
qed

section \<open>An instruction is a list of logged writes\<close>

text \<open>Quiet steps, at most two writes to different places, quiet steps.\<close>

definition does :: "nat \<Rightarrow> reg_write list \<Rightarrow> godson2_cpu \<Rightarrow> godson2_cpu \<Rightarrow> bool" where
  "does rs ws st st' \<longleftrightarrow> list_all write_ok ws \<and> disjoint_writes ws \<and>
     (\<exists>st1 st2. quiet st st1 \<and> perform_all ws rs st1 = Some st2 \<and>
        (mem_ok (target_mem (pipe st2)) \<longrightarrow> quiet st2 st'))"

lemma disjoint_writes_simps [simp]:
  "disjoint_writes []" "disjoint_writes [w]"
  "disjoint_writes [u, w] \<longleftrightarrow> write_locs u \<inter> write_locs w = {}"
  by (auto simp: disjoint_writes_def less_Suc_eq)

lemma perform_all_simps [simp]:
  "perform_all [] rs st = Some st"
  "perform_all (w # ws) rs st = (case perform w rs st of None \<Rightarrow> None | Some st \<Rightarrow> perform_all ws rs st)"
  by (simp_all add: perform_all_def split: option.split)

text \<open>On every level a performed list of writes keeps the memory well-formed and the level.\<close>

lemma perform_all_ok:
  assumes "mem_ok (target_mem (pipe st))" "list_all write_ok ws" "perform_all ws rs st = Some st'"
  shows "mem_ok (target_mem (pipe st')) \<and> spec_level (pipe st') = spec_level (pipe st)"
proof (cases "spec_level (pipe st) = 0")
  case True
  with writes_logged [OF True assms] show ?thesis by auto
next
  case False
  with perform_all_wrong_path [OF False _ assms(3), of "Suc (spec_level (pipe st))"] assms(1) show ?thesis
    by (simp add: wrong_path_only_def)
qed

lemma does_writes:
  assumes "mem_ok (target_mem (pipe st))" "list_all write_ok ws" "disjoint_writes ws"
    and "perform_all ws rs st = Some st'"
  shows "does rs ws st st'"
  using assms quiet_self [OF assms(1)] quiet_self [of st'] unfolding does_def by blast

lemma does_quiet: "quiet st st' \<Longrightarrow> does rs [] st st'"
  unfolding does_def by (intro conjI exI [of _ st] exI [of _ st']) (auto simp: quiet_def)

lemma quiet_does: "quiet a b \<Longrightarrow> does rs ws b c \<Longrightarrow> does rs ws a c"
  unfolding does_def by (meson quiet_then)

lemma does_then_quiet:
  assumes "does rs ws a b" "mem_ok (target_mem (pipe b)) \<Longrightarrow> quiet b c" 
  shows "does rs ws a c"
  using assms unfolding does_def by (metis quiet_def quiet_then)

text \<open>The locations a list of writes names.\<close>

definition all_locs :: "reg_write list \<Rightarrow> location set" where
  "all_locs ws = (\<Union>w\<in>set ws. write_locs w)"

lemma restored_outside: "(\<forall>v\<in>set vs. l \<notin> locs v) \<Longrightarrow> foldr restored vs A l = A l"
  by (induction vs) (simp_all add: restored_def)

text \<open>On the right path: everything that changes is a location of the writes, and the instruction is undone.\<close>

lemma does_right_path:
  assumes right: "spec_level (pipe st) = 0" "rs_spec_level (insts st rs) = 0"
    and start: "rs_temp_save (insts st rs) = []" and run: "does rs ws st st'"
  shows "l \<notin> all_locs ws \<Longrightarrow> arch (pipe st') l = arch (pipe st) l"
    and "\<exists>st2. recover_data rs st' = Some st2 \<and> arch (pipe st2) = arch (pipe st)"
proof -
  from run obtain st1 st2 where
    ws: "list_all write_ok ws" "disjoint_writes ws" and q1: "quiet st st1"
    and p: "perform_all ws rs st1 = Some st2" and q2: "mem_ok (target_mem (pipe st2)) \<longrightarrow> quiet st2 st'"
    by (auto simp: does_def)
  from q1 right have "spec_level (pipe st1) = 0" "mem_ok (target_mem (pipe st1))" by (simp_all add: quiet_def)
  from writes_logged [OF this ws(1) p] obtain vs where
    vs: "map locs vs = map write_locs ws" "list_all save_ok vs"
      "insts st2 = (insts st1)(rs := (insts st1 rs)\<lparr>rs_temp_save := rs_temp_save (insts st1 rs) @ vs\<rparr>)"
      "foldr restored vs (arch (pipe st2)) = arch (pipe st1)" "mem_ok (target_mem (pipe st2))" by blast
  from q2 vs(5) have q: "quiet st2 st'" by simp
  from q1 have i1: "insts st1 = insts st" by (simp add: quiet_def)
  from q vs(3) i1 start have i: "rs_temp_save (insts st' rs) = vs" "rs_spec_level (insts st' rs) = 0"
    using right(2) by (simp_all add: quiet_def)
  have a: "foldr restored vs (arch (pipe st')) = arch (pipe st)"
    using vs(4) quiet_arch [OF q] quiet_arch [OF q1] by simp
  show "arch (pipe st') l = arch (pipe st) l" if "l \<notin> all_locs ws"
  proof -
    have "(\<Union>v\<in>set vs. locs v) = all_locs ws"
      using arg_cong [OF vs(1), of "\<lambda>xs. \<Union> (set xs)"] by (simp add: all_locs_def)
    then have "\<forall>v\<in>set vs. l \<notin> locs v" using that by auto
    from restored_outside [OF this, of "arch (pipe st')"] a show ?thesis by simp
  qed
  have "savings_ok (insts st') rs" using vs(2) i by (simp add: savings_ok_def)
  moreover have "mem_ok (target_mem (pipe st'))" using q by (simp add: quiet_def)
  ultimately obtain p' where "recover_data rs st' = Some (st'\<lparr>pipe := p'\<rparr>)"
    "arch p' = undo_inst (insts st' rs) (arch (pipe st'))" using recover_data_arch by blast
  with i a fold_restored [OF vs(1) ws(2)] show "\<exists>st2. recover_data rs st' = Some st2 \<and> arch (pipe st2) = arch (pipe st)"
    by (auto simp: undo_inst_def)
qed

text \<open>On a wrong path nothing but the registers and buckets of its level changes.\<close>

lemma does_wrong_path:
  assumes wrong: "spec_level (pipe st) \<noteq> 0" and run: "does rs ws st st'"
    and k: "k \<noteq> spec_level (pipe st)"
  shows "level_regs k (pipe st') = level_regs k (pipe st) \<and> arch (pipe st') = arch (pipe st) \<and>
    insts st' = insts st \<and> spec_level (pipe st') = spec_level (pipe st)"
proof -
  from run obtain st1 st2 where ok: "list_all write_ok ws" and q1: "quiet st st1"
    and p: "perform_all ws rs st1 = Some st2" and q2: "mem_ok (target_mem (pipe st2)) \<longrightarrow> quiet st2 st'"
    by (auto simp: does_def)
  have l1: "spec_level (pipe st1) = spec_level (pipe st)" and m1: "mem_ok (target_mem (pipe st1))"
    using q1 by (simp_all add: quiet_def)
  from perform_all_ok [OF m1 ok p] q2 have q: "quiet st2 st'" by simp
  have w: "wrong_path_only j st1 st2" if "j \<noteq> spec_level (pipe st)" for j
    by (rule perform_all_wrong_path [OF _ _ p]) (use wrong that l1 in simp_all)
  have "arch (pipe st2) = arch (pipe st1)"
  proof
    fix l
    from w [of 0] wrong show "arch (pipe st2) l = arch (pipe st1) l"
      by (cases l) (simp_all add: wrong_path_only_def level_regs_def)
  qed
  then have "arch (pipe st') = arch (pipe st)" using quiet_arch [OF q] quiet_arch [OF q1] by simp
  then show ?thesis using w [OF k] q q1 by (simp add: wrong_path_only_def quiet_def)
qed

section \<open>The instructions one by one\<close>

fun write_dep :: "reg_write \<Rightarrow> nat" where
  "write_dep (W_GPR n v) = n"
| "write_dep (W_FPR n v) = DFPR n"
| "write_dep (W_FPR_D n v) = DFPR n"
| "write_dep (W_HI v) = DHI"
| "write_dep (W_LO v) = DLO"
| "write_dep (W_FCC v) = DFCC"
| "write_dep (W_MEM a bs) = 0"

fun is_store :: "reg_write \<Rightarrow> bool" where
  "is_store (W_MEM a bs) = True"
| "is_store _ = False"

text \<open>Instructions with a register their definition does not declare. \<open>HI\<close> of a multiplication or division is
  declared by the second half that \<open>fetch_stage\<close> adds.\<close>

definition undeclared :: "md_opcode \<Rightarrow> bool" where
  "undeclared op \<longleftrightarrow> links op \<or> op \<in> {SC, DMFC1}"

definition declared :: "md_opcode \<Rightarrow> 32 word \<Rightarrow> reg_write \<Rightarrow> bool" where
  "declared op inst w \<longleftrightarrow> (is_store w \<longrightarrow> F_STORE op) \<and>
     (write_dep w \<in> {0, out_dep op inst} \<or> undeclared op \<or>
      op \<in> {IntOp MULT, IntOp MULTU, IntOp DIV, IntOp DIVU} \<and> write_dep w = DHI)"

definition sound :: "md_opcode \<Rightarrow> 32 word \<Rightarrow> reg_write list \<Rightarrow> bool" where
  "sound op inst ws \<longleftrightarrow> list_all write_ok ws \<and> disjoint_writes ws \<and> list_all (declared op inst) ws"

lemma DFPR_pair [simp]: "even n \<Longrightarrow> DFPR (Suc n) = DFPR n"
  by (auto simp: DFPR_def elim!: evenE)

lemma even_less_31: "even (RT i) \<Longrightarrow> RT i < 31" "even (RD i) \<Longrightarrow> RD i < 31"
proof -
  have "n < 31" if "even n" "n < 32" for n :: nat
  proof (rule ccontr)
    assume "\<not> n < 31"
    with that have "n = 31" by simp
    with that show False by simp
  qed
  then show "even (RT i) \<Longrightarrow> RT i < 31" "even (RD i) \<Longrightarrow> RD i < 31" by simp_all
qed

lemma sound_does:
  assumes "mem_ok (target_mem (pipe st))" "sound op inst ws" "perform_all ws rs st = Some st'"
  shows "\<exists>ws. sound op inst ws \<and> does rs ws st st'"
  using does_writes [OF assms(1) _ _ assms(3)] assms(2) unfolding sound_def by blast

lemma int_effect_sound: "int_effect i inst p = Sets ws \<Longrightarrow> sound (IntOp i) inst ws"
  by (cases i) (auto simp: int_effect_def sound_def declared_def split: if_splits prod.splits)

lemma fp_effect_sound: "fp_effect F f fmt inst p = Sets ws \<Longrightarrow> sound (FpOp f fmt) inst ws"
  by (cases fmt)
    (auto simp: fp_effect_def fp_single_effect_def fp_double_effect_def fp_word_effect_def Let_def sound_def declared_def fp_compare_def fp_round_def split: if_splits)

lemma move_effect_sound: "move_effect op inst p = Sets ws \<Longrightarrow> sound op inst ws"
  by (cases op) (auto simp: sound_def declared_def undeclared_def even_less_31 split: if_splits)

lemma run_outcome_does:
  assumes ok: "mem_ok (target_mem (pipe st))" and sound: "\<And>ws. oc = Sets ws \<Longrightarrow> sound op inst ws"
    and run: "run_outcome oc rs st = Some (f, st')"
  shows "\<exists>ws. sound op inst ws \<and> does rs ws st st'"
proof (cases oc)
  case (Sets ws)
  with run have "perform_all ws rs st = Some st'" by (auto simp: run_outcome_def)
  with does_writes [OF ok] sound [OF Sets] show ?thesis by (auto simp: sound_def)
next
  case (Fault g)
  with run have "st' = st" by (simp add: run_outcome_def)
  with does_quiet [OF quiet_self [OF ok]] show ?thesis by (intro exI [of _ "[]"]) (simp add: sound_def)
qed (use run in \<open>simp add: run_outcome_def\<close>)

lemma load_into_does:
  assumes ok: "mem_ok (target_mem (pipe st))" and n: "n \<in> {1, 2, 4}"
    and sound: "\<And>v st. sound op inst (ws v st)"
    and run: "load_into a n ws rs st = Some (f, b, st')"
  shows "\<exists>ws. sound op inst ws \<and> does rs ws st st'"
proof -
  from run obtain g v st1 where r: "READ_VALUE a n st = Some (g, v, st1)"
    and rest: "if g \<noteq> md_fault_none then st' = st1 else perform_all (ws v st1) rs st1 = Some st'"
    by (auto simp: load_into_def bind_eq_Some_conv split: if_splits)
  from READ_VALUE_quiet [OF ok n r] have q: "quiet st st1" by simp
  then have m: "mem_ok (target_mem (pipe st1))" by (simp add: quiet_def)
  show ?thesis
  proof (cases "g = md_fault_none")
    case True
    with rest does_writes [OF m] sound [of v st1] quiet_does [OF q] show ?thesis by (fastforce simp: sound_def)
  next
    case False
    with rest does_quiet [OF q] show ?thesis by (intro exI [of _ "[]"]) (simp add: sound_def)
  qed
qed

lemma WRITE_VALUE_perform:
  "WRITE_VALUE v a n rs st = Some (f, st') \<Longrightarrow> perform (W_MEM a (take n (word_bytes v))) rs st = Some st'"
  by (simp add: WRITE_VALUE_def)

lemma WRITE_VALUE_regs:
  assumes "WRITE_VALUE v a n rs st = Some (f, st')"
  shows "spec_level (pipe st') = spec_level (pipe st) \<and> level_regs k (pipe st') = level_regs k (pipe st)"
proof (cases "spec_level (pipe st) = 0")
  case True
  with assms show ?thesis
    by (auto simp: WRITE_VALUE_def WRITE_SPECMEM_def SAVE_OLD_def upd_inst_def upd_pipe_def level_regs_def
      Let_def bind_eq_Some_conv split: if_splits)
next
  case False
  with assms obtain q p' where
    "spec_mem_access (pipe st) Write a (take n (word_bytes v)) (int (length (take n (word_bytes v)))) = Some (f, q, p')"
    and st': "st' = st\<lparr>pipe := p'\<rparr>" by (auto simp: WRITE_VALUE_def WRITE_SPECMEM_def)
  from spec_mem_access_Write_only [OF this(1)] show ?thesis
    by (simp add: st' level_regs_table only_table_fields)
qed

lemma WRITE_VALUE_address: "WRITE_VALUE v a n rs st = Some (f, st') \<Longrightarrow> OFS_ADDR inst st' = OFS_ADDR inst st"
  using WRITE_VALUE_regs by (simp add: OFS_ADDR_def reads_level_regs)

lemma sound_store:
  assumes "n \<in> {1, 2, 4}" "F_STORE op"
  shows "sound op inst [W_MEM a (take n (word_bytes v))]"
  using assms by (auto simp: sound_def declared_def)

lemma store_from_does:
  assumes ok: "mem_ok (target_mem (pipe st))" and n: "n \<in> {1, 2, 4}" and op: "F_STORE op"
    and run: "store_from v a n rs st = Some (f, b, st')"
  shows "\<exists>ws. sound op inst ws \<and> does rs ws st st'"
proof -
  from run obtain g where "WRITE_VALUE v a n rs st = Some (g, st')"
    by (auto simp: store_from_def bind_eq_Some_conv)
  from WRITE_VALUE_perform [OF this] have "perform_all [W_MEM a (take n (word_bytes v))] rs st = Some st'"
    by (simp del: perform.simps)
  with sound_does [OF ok sound_store [OF n op]] show ?thesis by blast
qed

text \<open>Two stores of a double word are in different words.\<close>

lemma next_word: "(a + 4) AND NOT 3 = (a AND NOT 3) + (4 :: 32 word)"
proof -
  have m: "(3 :: 32 word) = mask 2" by (simp add: mask_eq_decr_exp)
  have low: "(a + 4) AND 3 = a AND (3 :: 32 word)"
  proof -
    have "unat (take_bit 2 (a + 4)) = unat (take_bit 2 a)"
      by (simp only: unsigned_take_bit_eq) (simp add: take_bit_eq_mod unat_word_ariths mod_mod_cancel)
    then show ?thesis by (simp only: m take_bit_eq_mask [symmetric] word_unat_eq_iff)
  qed
  have split: "b = (b AND NOT 3) + (b AND 3)" for b :: "32 word"
  proof -
    have "(b AND NOT 3) + (b AND 3) = (b AND NOT 3) OR (b AND 3)"
      by (rule disjunctive_add) (simp add: bit_simps)
    also have "\<dots> = b" by (rule bit_word_eqI) (auto simp: bit_simps)
    finally show ?thesis by simp
  qed
  have e: "b AND NOT 3 = b - (b AND 3)" for b :: "32 word"
    by (subst (2) split) (rule add_diff_cancel_right' [symmetric])
  have "(a + 4) - ((a + 4) AND 3) = a - (a AND 3) + 4" by (simp only: low) (simp add: algebra_simps)
  then show ?thesis by (simp only: e)
qed

lemma different_words:
  "write_locs (W_MEM a bs) \<inter> write_locs (W_MEM (a + 4) cs) = {}"
proof -
  have "(of_nat i :: 32 word) \<noteq> 4 + of_nat j" if "i < 4" "j < 4" for i j
  proof
    assume "(of_nat i :: 32 word) = 4 + of_nat j"
    then have e: "(of_nat i :: 32 word) = of_nat (4 + j)" by simp
    have "unat (of_nat k :: 32 word) = k" if "k < 8" for k using that by (simp add: unat_of_nat)
    from this [of i] this [of "4 + j"] e that have "i = 4 + j" by (simp del: of_nat_add)
    then show False using that by simp
  qed
  then show ?thesis unfolding write_locs.simps next_word by (auto simp: algebra_simps)
qed

lemma store_double_does:
  assumes ok: "mem_ok (target_mem (pipe st))" and run: "store_double inst rs st = Some (f, b, st')"
  shows "\<exists>ws. sound SDC1 inst ws \<and> does rs ws st st'"
proof (cases "odd (FT inst)")
  case True
  with run have "perform_all [] rs st = Some st'" by (simp add: store_double_def)
  with sound_does [OF ok, of SDC1 inst "[]"] show ?thesis by (simp add: sound_def)
next
  case False
  let ?a = "OFS_ADDR inst st" and ?v = "FPR_L (FT inst) (pipe st)"
  let ?w1 = "W_MEM ?a (take 4 (word_bytes ?v))"
  have op: "F_STORE SDC1" by (simp add: F_STORE_def)
  have n: "4 \<in> {1, 2, 4 :: nat}" by simp
  from False run obtain g st1 where w1: "WRITE_VALUE ?v ?a 4 rs st = Some (g, st1)"
    and rest: "if g \<noteq> md_fault_none then st' = st1
      else store_from (FPR_L (FT inst + 1) (pipe st1)) (OFS_ADDR inst st1 + 4) 4 rs st1 = Some (f, b, st')"
    by (auto simp: store_double_def bind_eq_Some_conv split: if_splits)
  note p1 = WRITE_VALUE_perform [OF w1]
  show ?thesis
  proof (cases "g = md_fault_none")
    case False
    with rest p1 have "perform_all [?w1] rs st = Some st'" by (simp del: perform.simps)
    with sound_does [OF ok sound_store [OF n op]] show ?thesis by blast
  next
    case True
    let ?w2 = "W_MEM (?a + 4) (take 4 (word_bytes (FPR_L (FT inst + 1) (pipe st1))))"
    have "OFS_ADDR inst st1 = ?a" by (rule WRITE_VALUE_address [OF w1])
    with True rest obtain h where "WRITE_VALUE (FPR_L (FT inst + 1) (pipe st1)) (?a + 4) 4 rs st1 = Some (h, st')"
      by (auto simp: store_from_def bind_eq_Some_conv)
    from WRITE_VALUE_perform [OF this] p1 have "perform_all [?w1, ?w2] rs st = Some st'" by (simp del: perform.simps)
    moreover have "sound SDC1 inst [?w1, ?w2]"
      using sound_store [OF n op, of inst ?a ?v] sound_store [OF n op, of inst "?a + 4" "FPR_L (FT inst + 1) (pipe st1)"]
        different_words [of ?a] by (simp add: sound_def del: write_locs.simps)
    ultimately show ?thesis using sound_does [OF ok] by blast
  qed
qed

lemma even_pair_locs: "write_locs (W_FPR n u) \<inter> write_locs (W_FPR (Suc n) v) = {}"
  by simp

lemma load_double_does:
  assumes ok: "mem_ok (target_mem (pipe st))" and run: "load_double inst rs st = Some (f, b, st')"
  shows "\<exists>ws. sound LDC1 inst ws \<and> does rs ws st st'"
proof (cases "odd (FT inst)")
  case True
  with run have "perform_all [] rs st = Some st'" by (simp add: load_double_def)
  with sound_does [OF ok, of LDC1 inst "[]"] show ?thesis by (simp add: sound_def)
next
  case False
  from False run obtain g h st1 where r: "READ_VALUE (OFS_ADDR inst st) 4 st = Some (g, h, st1)"
    and rest: "if g \<noteq> md_fault_none then st' = st1
      else load_into (OFS_ADDR inst st1 + 4) 4 (\<lambda>l _. [W_FPR (FT inst) h, W_FPR (FT inst + 1) l]) rs st1 = Some (f, b, st')"
    by (auto simp: load_double_def bind_eq_Some_conv split: if_splits)
  from READ_VALUE_quiet [OF ok _ r] have q: "quiet st st1" by simp
  then have m: "mem_ok (target_mem (pipe st1))" by (simp add: quiet_def)
  have "sound LDC1 inst [W_FPR (FT inst) h, W_FPR (FT inst + 1) l]" for l
    using False even_less_31 by (simp add: sound_def declared_def)
  with rest load_into_does [OF m] have "\<exists>ws. sound LDC1 inst ws \<and> does rs ws st1 st'"
  proof (cases "g = md_fault_none")
    case False
    with rest does_quiet [OF quiet_self [OF m]] show ?thesis by (intro exI [of _ "[]"]) (simp add: sound_def)
  qed (use rest in \<open>auto intro!: load_into_does [OF m]\<close>)
  then show ?thesis using quiet_does [OF q] by blast
qed

lemma store_merged_does:
  assumes ok: "mem_ok (target_mem (pipe st))" and op: "F_STORE op"
    and run: "store_merged merge inst rs st = Some (f, b, st')"
  shows "\<exists>ws. sound op inst ws \<and> does rs ws st st'"
proof -
  from run obtain g w st1 where r: "READ_VALUE (WORD_BASE (OFS_ADDR inst st)) 4 st = Some (g, w, st1)"
    and rest: "if g \<noteq> md_fault_none then st' = st1
      else store_from (merge (OFS_ADDR inst st) (GPR (RT inst) (pipe st1)) w) (WORD_BASE (OFS_ADDR inst st)) 4 rs st1
        = Some (f, b, st')"
    by (auto simp: store_merged_def Let_def bind_eq_Some_conv split: if_splits)
  from READ_VALUE_quiet [OF ok _ r] have q: "quiet st st1" by simp
  then have m: "mem_ok (target_mem (pipe st1))" by (simp add: quiet_def)
  have "\<exists>ws. sound op inst ws \<and> does rs ws st1 st'"
  proof (cases "g = md_fault_none")
    case True
    with rest store_from_does [OF m _ op, of 4] show ?thesis by auto
  next
    case False
    with rest does_quiet [OF quiet_self [OF m]] show ?thesis by (intro exI [of _ "[]"]) (simp add: sound_def)
  qed
  then show ?thesis using quiet_does [OF q] by blast
qed

lemma store_conditional_does:
  assumes ok: "mem_ok (target_mem (pipe st))" and run: "store_conditional inst rs st = Some (f, b, st')"
  shows "\<exists>ws. sound SC inst ws \<and> does rs ws st st'"
proof -
  let ?w = "W_MEM (OFS_ADDR inst st) (take 4 (word_bytes (GPR (RT inst) (pipe st))))"
  from run obtain g st1 where w: "WRITE_VALUE (GPR (RT inst) (pipe st)) (OFS_ADDR inst st) 4 rs st = Some (g, st1)"
    and rest: "if g \<noteq> md_fault_none then st' = st1 else SET_GPR (RT inst) 1 rs st1 = Some st'"
    by (auto simp: store_conditional_def Let_def bind_eq_Some_conv split: if_splits)
  note p = WRITE_VALUE_perform [OF w]
  have op: "F_STORE SC" by (simp add: F_STORE_def)
  have n: "4 \<in> {1, 2, 4 :: nat}" by simp
  have s1: "sound SC inst [?w]" by (rule sound_store [OF n op])
  then have s2: "sound SC inst [?w, W_GPR (RT inst) 1]" by (auto simp: sound_def declared_def undeclared_def)
  show ?thesis
  proof (cases "g = md_fault_none")
    case True
    have "perform (W_GPR (RT inst) 1) rs st1 = Some st'" using True rest by simp
    with p have "perform_all [?w, W_GPR (RT inst) 1] rs st = Some st'" by (simp del: perform.simps)
    with sound_does [OF ok s2] show ?thesis by blast
  next
    case False
    with p rest have "perform_all [?w] rs st = Some st'" by (simp del: perform.simps)
    with sound_does [OF ok s1] show ?thesis by blast
  qed
qed

lemma exec_mem_does:
  assumes ok: "mem_ok (target_mem (pipe st))" and op: "F_MEM op" and run: "exec_mem op inst rs st = Some (f, b, st')"
  shows "\<exists>ws. sound op inst ws \<and> does rs ws st st'"
proof -
  have load: "sound op inst [W_GPR (RT inst) v]" if "op \<in> {LB, LH, LW, LBU, LHU, LL, LWL, LWR}" for v
    using that by (auto simp: sound_def declared_def)
  have loadf: "sound LWC1 inst [W_FPR (FT inst) v]" for v by (simp add: sound_def declared_def)
  have store: "F_STORE op" if "op \<in> {SB, SH, SW, SWC1, SWL, SWR}" using that by (auto simp: F_STORE_def)
  have move: "\<exists>ws. sound op inst ws \<and> does rs ws st st'"
    if "run_outcome (move_effect op inst (pipe st)) rs st = Some (f, st')"
    by (rule run_outcome_does [OF ok _ that]) (rule move_effect_sound)
  from op have "op \<in> {LB, LH, LW, LBU, LHU, LL, LWL, LWR} \<or> op = LWC1 \<or> op = LDC1 \<or> op = SDC1 \<or> op = SC
    \<or> op \<in> {SB, SH, SW, SWC1} \<or> op \<in> {SWL, SWR} \<or> op \<in> {MTC1, MFC1, DMTC1, DMFC1, CTC1, CFC1}"
    by (auto simp: F_MEM_def)
  then show ?thesis
  proof (elim disjE)
    assume o: "op \<in> {LB, LH, LW, LBU, LHU, LL, LWL, LWR}"
    with run obtain a n ws where "load_into a n ws rs st = Some (f, b, st')" "n \<in> {1, 2, 4}"
      "\<And>v st. \<exists>u. ws v st = [W_GPR (RT inst) u]" by (auto simp: Let_def)
    with load_into_does [OF ok] load [OF o] show ?thesis by metis
  next
    assume o: "op = LWC1"
    with run have "load_into (OFS_ADDR inst st) 4 (\<lambda>v _. [W_FPR (FT inst) v]) rs st = Some (f, b, st')" by simp
    from load_into_does [OF ok _ _ this, of LWC1 inst] loadf o show ?thesis by simp
  next
    assume "op = LDC1"
    with run load_double_does [OF ok] show ?thesis by simp
  next
    assume "op = SDC1"
    with run store_double_does [OF ok] show ?thesis by simp
  next
    assume "op = SC"
    with run store_conditional_does [OF ok] show ?thesis by simp
  next
    assume o: "op \<in> {SB, SH, SW, SWC1}"
    with run obtain v a n where "store_from v a n rs st = Some (f, b, st')" "n \<in> {1, 2, 4}" by auto
    with store_from_does [OF ok] store o show ?thesis by blast
  next
    assume o: "op \<in> {SWL, SWR}"
    with run obtain m where "store_merged m inst rs st = Some (f, b, st')" by auto
    with store_merged_does [OF ok] store o show ?thesis by blast
  next
    assume "op \<in> {MTC1, MFC1, DMTC1, DMFC1, CTC1, CFC1}"
    with run have "run_outcome (move_effect op inst (pipe st)) rs st = Some (f, st')" by auto
    then show ?thesis by (rule move)
  qed
qed

lemma SET_GPR_does:
  assumes ok: "mem_ok (target_mem (pipe st))" and n: "n < 32" and d: "declared op inst (W_GPR n v)"
    and run: "SET_GPR n v rs st = Some st1"
  shows "sound op inst [W_GPR n v] \<and> does rs [W_GPR n v] st st1 \<and> mem_ok (target_mem (pipe st1))"
proof -
  have s: "sound op inst [W_GPR n v]" using n d by (simp add: sound_def)
  have p: "perform_all [W_GPR n v] rs st = Some st1" using run by simp
  show ?thesis
    using s p does_writes [OF ok _ _ p] perform_all_ok [OF ok _ p] by (simp add: sound_def)
qed

lemma exec_branch_does:
  assumes ok: "mem_ok (target_mem (pipe st))" and run: "exec_branch op inst rs st = Some (f, st')"
  shows "\<exists>ws. sound op inst ws \<and> does rs ws st st' \<and> f = md_fault_none"
proof -
  let ?s = "SET_TPC (CPC rs st + 4 + push_bit 2 (OFS inst)) st"
  note q = quiet_steps(1) [OF ok, of "CPC rs st + 4 + push_bit 2 (OFS inst)"]
  then have m: "mem_ok (target_mem (pipe ?s))" by (simp add: quiet_def)
  from run obtain st1 where link: "(if links op then SET_GPR 31 (CPC rs ?s + 8) rs ?s else Some ?s) = Some st1"
    and st': "st' = (if branch_cond op inst (pipe st1) then set_jump st1
      else if F_CTRL_LIKELY op then set_annulled st1 else st1)" "f = md_fault_none"
    by (auto simp: exec_branch_def Let_def bind_eq_Some_conv)
  have "\<exists>ws. sound op inst ws \<and> does rs ws ?s st1 \<and> mem_ok (target_mem (pipe st1))"
  proof (cases "links op")
    case True
    with link have "SET_GPR 31 (CPC rs ?s + 8) rs ?s = Some st1" by simp
    from SET_GPR_does [OF m _ _ this, of op inst] True show ?thesis
      by (auto simp: declared_def undeclared_def)
  next
    case False
    with link m show ?thesis
      by (intro exI [of _ "[]"]) (simp add: sound_def does_quiet quiet_self)
  qed
  then obtain ws where ws: "sound op inst ws" "does rs ws ?s st1" "mem_ok (target_mem (pipe st1))" by blast
  have "quiet st1 st'" using ws(3) quiet_self quiet_steps by (simp add: st')
  with does_then_quiet [OF quiet_does [OF q ws(2)]] ws(1) st'(2) show ?thesis by blast
qed

lemma exec_ctrl_does:
  assumes ok: "mem_ok (target_mem (pipe st))" and op: "F_CTRL op" and run: "exec_ctrl op inst rs st = Some (f, st')"
  shows "\<exists>ws. sound op inst ws \<and> does rs ws st st'"
proof -
  have jump: "does rs ws st (set_jump (SET_TPC a st1))" if "does rs ws st st1" "mem_ok (target_mem (pipe st1))" for ws a st1
  proof (rule does_then_quiet [OF that(1)])
    note q = quiet_steps(1) [OF that(2), of a]
    then have "mem_ok (target_mem (pipe (SET_TPC a st1)))" by (simp add: quiet_def)
    from quiet_then [OF q quiet_steps(2) [OF this]] show "quiet st1 (set_jump (SET_TPC a st1))" .
  qed
  note none = does_quiet [OF quiet_self [OF ok], of rs]
  have nil: "sound op inst []" by (simp add: sound_def)
  from op have "op = JUMP \<or> op = JAL \<or> op = JR \<or> op = JALR \<or> exec_ctrl op inst rs st = exec_branch op inst rs st"
    by (cases op) (simp_all add: F_CTRL_def F_UNCOND_def F_COND_def F_CTRL_LIKELY_def)
  then show ?thesis
  proof (elim disjE)
    assume "op = JUMP"
    with run jump [OF none ok] nil show ?thesis by auto
  next
    assume o: "op = JR"
    show ?thesis
    proof (cases "GPR (RS inst) (pipe st) AND 3 = 0")
      case True
      with o run have "st' = set_jump (SET_TPC (GPR (RS inst) (pipe st)) st)" by simp
      with jump [OF none ok] nil show ?thesis by auto
    next
      case False
      with o run none nil show ?thesis by auto
    qed
  next
    assume o: "op = JAL"
    let ?a = "(CPC rs st AND 0xF0000000) OR push_bit 2 (TARG inst)"
    let ?s = "SET_TPC ?a st"
    note q = quiet_steps(1) [OF ok, of ?a]
    then have m: "mem_ok (target_mem (pipe ?s))" by (simp add: quiet_def)
    from o run obtain st1 where s1: "SET_GPR 31 (CPC rs st + 8) rs ?s = Some st1" and st': "st' = set_jump st1"
      by (auto simp: bind_eq_Some_conv)
    from SET_GPR_does [OF m _ _ s1, of op inst] o
    have d: "sound op inst [W_GPR 31 (CPC rs st + 8)]" "does rs [W_GPR 31 (CPC rs st + 8)] ?s st1"
      "mem_ok (target_mem (pipe st1))" by (simp_all add: declared_def)
    from does_then_quiet [OF quiet_does [OF q d(2)] quiet_steps(2) [OF d(3)]] d(1) show ?thesis
      unfolding st' by blast
  next
    assume o: "op = JALR"
    show ?thesis
    proof (cases "GPR (RS inst) (pipe st) AND 3 = 0")
      case True
      with o run obtain st1 where s1: "SET_GPR (RD inst) (CPC rs st + 8) rs st = Some st1"
        and st': "st' = set_jump (SET_TPC (GPR (RS inst) (pipe st1)) st1)" by (auto simp: bind_eq_Some_conv)
      from SET_GPR_does [OF ok _ _ s1, of op inst] o jump show ?thesis
        unfolding st' by (auto simp: declared_def)
    next
      case False
      with o run none nil show ?thesis by auto
    qed
  next
    assume "exec_ctrl op inst rs st = exec_branch op inst rs st"
    with exec_branch_does [OF ok] run show ?thesis by metis
  qed
qed

text \<open>Every instruction but a system call.\<close>

lemma exec_does:
  assumes ok: "mem_ok (target_mem (pipe st))" and op: "op \<noteq> IntOp SYSCALL"
    and run: "exec_inst F sys op inst rs st = Some (f, a, st')"
  shows "\<exists>ws. sound op inst ws \<and> does rs ws st st'"
proof -
  have nil: "sound op inst []" by (simp add: sound_def)
  note none = does_quiet [OF quiet_self [OF ok], of rs]
  consider i where "op = IntOp i" "i \<noteq> SYSCALL" | g fmt where "op = FpOp g fmt" | "op \<in> {SPLITMUL, SPLITDIV, OP_NA}"
    | "F_CTRL op" | "F_MEM op" "\<not> F_CTRL op"
    using op by (cases op) (auto simp: F_CTRL_def F_UNCOND_def F_COND_def F_CTRL_LIKELY_def F_MEM_def)
  then show ?thesis
  proof cases
    case 1
    with run have "run_outcome (int_effect i inst (pipe st)) rs st = Some (f, st')" by (auto simp: exec_inst_def)
    from run_outcome_does [OF ok _ this, of op inst] int_effect_sound 1 show ?thesis by blast
  next
    case 2
    with run have "run_outcome (fp_effect F g fmt inst (pipe st)) rs st = Some (f, st')" by (auto simp: exec_inst_def)
    from run_outcome_does [OF ok _ this, of op inst] fp_effect_sound 2 show ?thesis by blast
  next
    case 3
    with run have "st' = st" by (auto simp: exec_inst_def)
    with none nil show ?thesis by blast
  next
    case 4
    with run have "exec_ctrl op inst rs st = Some (f, st')"
      by (cases op) (auto simp: exec_inst_def F_CTRL_def F_UNCOND_def F_COND_def F_CTRL_LIKELY_def)
    with exec_ctrl_does [OF ok 4] show ?thesis by blast
  next
    case 5
    with run have "exec_mem op inst rs st = Some (f, a, st')"
      by (cases op) (auto simp: exec_inst_def F_MEM_def)
    with exec_mem_does [OF ok 5(1)] show ?thesis by blast
  qed
qed

text \<open>On a wrong path faults are dropped.\<close>

lemma load_into_no_fault:
  assumes ok: "mem_ok (target_mem (pipe st))" and w: "spec_level (pipe st) \<noteq> 0" and n: "n \<in> {1, 2, 4}"
    and run: "load_into a n ws rs st = Some (f, b, st')"
  shows "f = md_fault_none"
proof -
  from run obtain g v st1 where r: "READ_VALUE a n st = Some (g, v, st1)"
    and "if g \<noteq> md_fault_none then f = DECLARE_FAULT g st1 else f = md_fault_none"
    by (auto simp: load_into_def bind_eq_Some_conv split: if_splits)
  with READ_VALUE_quiet [OF ok n r] w show ?thesis by (simp add: quiet_def DECLARE_FAULT_def split: if_splits)
qed

lemma store_from_no_fault:
  assumes w: "spec_level (pipe st) \<noteq> 0" and run: "store_from v a n rs st = Some (f, b, st')"
  shows "f = md_fault_none"
proof -
  from run obtain g where "WRITE_VALUE v a n rs st = Some (g, st')" "f = DECLARE_FAULT g st' \<or> f = md_fault_none"
    by (auto simp: store_from_def bind_eq_Some_conv)
  with WRITE_VALUE_regs w show ?thesis by (auto simp: DECLARE_FAULT_def)
qed

lemma exec_mem_no_fault:
  assumes ok: "mem_ok (target_mem (pipe st))" and w: "spec_level (pipe st) \<noteq> 0"
    and run: "exec_mem op inst rs st = Some (f, b, st')"
  shows "f = md_fault_none"
proof -
  have d: "DECLARE_FAULT g st = md_fault_none" for g using w by (simp add: DECLARE_FAULT_def)
  have oc: "f = md_fault_none" if "run_outcome c rs st = Some (f, st')" for c
    using that d by (auto simp: run_outcome_def split: outcome.splits)
  have ld: "f = md_fault_none" if "load_double inst rs st = Some (f, b, st')"
  proof (cases "odd (FT inst)")
    case False
    with that obtain g h st1 where r: "READ_VALUE (OFS_ADDR inst st) 4 st = Some (g, h, st1)"
      and rest: "if g \<noteq> md_fault_none then f = DECLARE_FAULT g st1
        else load_into (OFS_ADDR inst st1 + 4) 4 (\<lambda>l _. [W_FPR (FT inst) h, W_FPR (FT inst + 1) l]) rs st1 = Some (f, b, st')"
      by (auto simp: load_double_def bind_eq_Some_conv split: if_splits)
    from READ_VALUE_quiet [OF ok _ r] w have q: "g = md_fault_none" "mem_ok (target_mem (pipe st1))"
      "spec_level (pipe st1) \<noteq> 0" by (simp_all add: quiet_def)
    from rest q(1) have "load_into (OFS_ADDR inst st1 + 4) 4 (\<lambda>l _. [W_FPR (FT inst) h, W_FPR (FT inst + 1) l]) rs st1
      = Some (f, b, st')" by simp
    from load_into_no_fault [OF q(2,3) _ this] show ?thesis by simp
  qed (use that d in \<open>simp add: load_double_def\<close>)
  have sd: "f = md_fault_none" if "store_double inst rs st = Some (f, b, st')"
  proof (cases "odd (FT inst)")
    case False
    with that obtain g st1 where r: "WRITE_VALUE (FPR_L (FT inst) (pipe st)) (OFS_ADDR inst st) 4 rs st = Some (g, st1)"
      and rest: "if g \<noteq> md_fault_none then f = DECLARE_FAULT g st1
        else store_from (FPR_L (FT inst + 1) (pipe st1)) (OFS_ADDR inst st1 + 4) 4 rs st1 = Some (f, b, st')"
      by (auto simp: store_double_def bind_eq_Some_conv split: if_splits)
    from WRITE_VALUE_regs [OF r] w have l: "spec_level (pipe st1) \<noteq> 0" by simp
    with rest store_from_no_fault [OF l] show ?thesis by (auto simp: DECLARE_FAULT_def split: if_splits)
  qed (use that d in \<open>simp add: store_double_def\<close>)
  have sm: "f = md_fault_none" if "store_merged m inst rs st = Some (f, b, st')" for m
  proof -
    from that obtain g v st1 where r: "READ_VALUE (WORD_BASE (OFS_ADDR inst st)) 4 st = Some (g, v, st1)"
      and rest: "if g \<noteq> md_fault_none then f = DECLARE_FAULT g st1
        else store_from (m (OFS_ADDR inst st) (GPR (RT inst) (pipe st1)) v) (WORD_BASE (OFS_ADDR inst st)) 4 rs st1
          = Some (f, b, st')"
      by (auto simp: store_merged_def Let_def bind_eq_Some_conv split: if_splits)
    from READ_VALUE_quiet [OF ok _ r] w have q: "g = md_fault_none" "spec_level (pipe st1) \<noteq> 0"
      by (simp_all add: quiet_def)
    with rest store_from_no_fault [OF q(2)] show ?thesis by auto
  qed
  have sc: "f = md_fault_none" if "store_conditional inst rs st = Some (f, b, st')"
  proof -
    from that obtain g st1 where r: "WRITE_VALUE (GPR (RT inst) (pipe st)) (OFS_ADDR inst st) 4 rs st = Some (g, st1)"
      and "f = DECLARE_FAULT g st1 \<or> f = md_fault_none"
      by (auto simp: store_conditional_def Let_def bind_eq_Some_conv split: if_splits)
    with WRITE_VALUE_regs [OF r] w show ?thesis by (auto simp: DECLARE_FAULT_def)
  qed
  have li: "f = md_fault_none" if "load_into x n ws rs st = Some (f, b, st')" "n \<in> {1, 2, 4}" for x n ws
    using load_into_no_fault [OF ok w that(2,1)] .
  have si: "f = md_fault_none" if "store_from v x n rs st = Some (f, b, st')" for v x n
    using store_from_no_fault [OF w that] .
  show ?thesis using run by (cases op) (auto simp: Let_def intro: oc li si ld sd sm sc)
qed

lemma exec_no_fault:
  assumes ok: "mem_ok (target_mem (pipe st))" and w: "spec_level (pipe st) \<noteq> 0"
    and run: "exec_inst F sys op inst rs st = Some (f, a, st')"
  shows "f = md_fault_none"
proof -
  have d: "DECLARE_FAULT g st = md_fault_none" for g using w by (simp add: DECLARE_FAULT_def)
  have oc: "f = md_fault_none" if "run_outcome c rs st = Some (f, st')" for c
    using that d by (auto simp: run_outcome_def split: outcome.splits)
  have br: "f = md_fault_none" if "exec_branch op inst rs st = Some (f, st')"
    using that by (auto simp: exec_branch_def Let_def bind_eq_Some_conv)
  have ct: "f = md_fault_none" if "exec_ctrl op inst rs st = Some (f, st')"
    using that d br by (cases op) (auto simp: bind_eq_Some_conv split: if_splits)
  show ?thesis using run oc ct exec_mem_no_fault [OF ok w] w
    by (cases op) (auto simp: exec_inst_def simp del: exec_mem.simps exec_ctrl.simps split: if_splits)
qed

section \<open>Properties\<close>

text \<open>C2. Any instruction decoded on the right path, also one that ends with a fault, is undone by
  \<open>recover_data\<close>: all registers and all bytes of memory have their old values again. (A system call empties
  the pipeline first and is never squashed.)\<close>

theorem instruction_undone:
  assumes "spec_level (pipe st) = 0" "rs_spec_level (insts st rs) = 0" "mem_ok (target_mem (pipe st))"
    and "rs_temp_save (insts st rs) = []" "op \<noteq> IntOp SYSCALL"
    and run: "exec_inst F sys op inst rs st = Some (f, a, st1)"
  shows "\<exists>st2. recover_data rs st1 = Some st2 \<and> arch (pipe st2) = arch (pipe st)"
  using exec_does [OF assms(3,5) run] does_right_path(2) [OF assms(1,2,4)] by blast

text \<open>A unit for concrete examples: it copies and changes signs, everything else is zero.\<close>

definition sign_fpu :: fpu where
  "sign_fpu = \<lparr>
     fp_single = (\<lambda>f x y. if f = FMOV then x else if f = FNEG then x XOR 0x80000000
       else if f = FABS then x AND 0x7FFFFFFF else 0),
     fp_double = (\<lambda>f x y. if f = FMOV then x else if f = FNEG then (fst x, snd x XOR 0x80000000)
       else if f = FABS then (fst x, snd x AND 0x7FFFFFFF) else (0, 0)),
     single_to_int = (\<lambda>f x. 0), double_to_int = (\<lambda>f x. 0), single_to_double = (\<lambda>x. (0, 0)),
     double_to_single = (\<lambda>x. 0), int_to_single = (\<lambda>x. 0), int_to_double = (\<lambda>x. (0, 0)),
     single_compare = (\<lambda>f x y. x = y), double_compare = (\<lambda>f x y. x = y)\<rparr>"

text \<open>\<open>addiu $5,$4,5\<close> on the blank core.\<close>

lemma addiu_runs:
  "\<exists>st1. exec_inst sign_fpu (\<lambda>inst rs st. Some st) (IntOp ADDIU) 0x24850005 3 (blank_cpu 0 0) =
     Some (md_fault_none, 0, st1) \<and> arch (pipe st1) (Gpr 5) \<noteq> arch (pipe (blank_cpu 0 0)) (Gpr 5)"
  "spec_level (pipe (blank_cpu 0 0)) = 0" "rs_spec_level (insts (blank_cpu 0 0) 3) = 0"
  "mem_ok (target_mem (pipe (blank_cpu 0 0)))" "rs_temp_save (insts (blank_cpu 0 0) 3) = []"
  by (simp_all add: exec_inst_def int_effect_def run_outcome_def SET_GPR_def save_and_set_def SAVE_OLD_def Let_def upd_inst_def
    upd_pipe_def RS_def RT_def IMM_def GPR_def blank_cpu_def blank_pipe_def blank_inst_def mem_ok_create)

theorem instruction_undone_witness:
  "\<exists>st1 st2. exec_inst sign_fpu (\<lambda>inst rs st. Some st) (IntOp ADDIU) 0x24850005 3 (blank_cpu 0 0) =
     Some (md_fault_none, 0, st1) \<and> recover_data 3 st1 = Some st2 \<and>
     arch (pipe st2) = arch (pipe (blank_cpu 0 0))"
  using addiu_runs(1) instruction_undone [OF addiu_runs(2-5)] by blast



text \<open>The name the dependences give to a register, and the locations an instruction declares.\<close>

fun loc_dep :: "location \<Rightarrow> nat" where
  "loc_dep (Gpr n) = n"
| "loc_dep (Fpr n) = DFPR n"
| "loc_dep HiReg = DHI"
| "loc_dep LoReg = DLO"
| "loc_dep FccReg = DFCC"
| "loc_dep (MemByte a) = 0"

fun is_memory :: "location \<Rightarrow> bool" where
  "is_memory (MemByte a) = True"
| "is_memory _ = False"

lemma DFPR_half [simp]: "DFPR (2 * (n div 2)) = DFPR n" "DFPR (Suc (2 * (n div 2))) = DFPR n"
  unfolding DFPR_def by presburger+

lemma write_locs_dep: "l \<in> write_locs w \<Longrightarrow> loc_dep l = write_dep w \<and> is_memory l = is_store w"
  by (cases w) auto



end
