(* ===== verification/Muldiv.thy ===== *)
theory Muldiv
  imports Mips
begin

unbundle bit_operations_syntax

text \<open>
  Integer arithmetic of the instruction set: the shift-and-add loops of \<open>MULT\<close> and \<open>MULTU\<close> compute the 64-bit
  product, the overflow tests of \<open>ADD\<close> and \<open>SUB\<close>, and the delay of a division (decode.c).
\<close>

section \<open>Multiplication\<close>

text \<open>The number in the registers \<open>hi:lo\<close>.\<close>

definition pair_value :: "32 word \<times> 32 word \<Rightarrow> nat" where
  "pair_value hl = 2 ^ 32 * unat (fst hl) + unat (snd hl)"

lemma unat_32: "unat (w :: 32 word) < 4294967296"
  using unsigned_less [of w, where 'a = nat] by simp

lemma shift_pair:
  assumes "2 * pair_value (h, l) < 2 ^ 64"
  shows "pair_value (push_bit 1 h + (drop_bit 31 l AND 1), push_bit 1 l) = 2 * pair_value (h, l)"
proof -
  have b: "unat h < 2147483648" using assms unat_32 [of l] by (simp add: pair_value_def)
  have c: "unat (drop_bit 31 l AND 1) = unat l div 2147483648"
  proof -
    have "drop_bit 31 l AND 1 = take_bit 1 (drop_bit 31 l)" by (simp add: take_bit_eq_mask)
    moreover have "take_bit 32 (unat l) = unat l" using unat_32 [of l] by (simp add: take_bit_nat_eq_self_iff)
    ultimately have "unat (drop_bit 31 l AND 1) = take_bit 1 (drop_bit 31 (unat l))"
      by (simp only: unsigned_take_bit_eq unsigned_drop_bit_eq len_num1 len_num0 len_bit0 len_bit1) simp
    then have "unat (drop_bit 31 l AND 1) = unat l div 2147483648 mod 2"
      by (simp add: take_bit_eq_mod drop_bit_eq_div)
    moreover have "unat l div 2147483648 < 2" using unat_32 [of l] by simp
    ultimately show ?thesis by simp
  qed
  have "unat (push_bit 1 h + (drop_bit 31 l AND 1)) = 2 * unat h + unat l div 2147483648"
    using b unat_32 [of l] by (simp add: unat_word_ariths c push_bit_eq_mult)
  moreover have "unat (push_bit 1 l) = 2 * unat l mod 4294967296"
    by (simp add: unat_word_ariths push_bit_eq_mult mult.commute)
  moreover have "2 * unat l = 4294967296 * (unat l div 2147483648) + 2 * unat l mod 4294967296"
  proof -
    have "2 * unat l div 4294967296 = unat l div 2147483648" by simp
    then show ?thesis by (metis mult_div_mod_eq)
  qed
  ultimately show ?thesis by (simp add: pair_value_def)
qed

lemma add_pair:
  assumes "pair_value (h, l) + unat b < 2 ^ 64"
  shows "pair_value (if 0xFFFFFFFF - l < b then h + 1 else h, l + b) = pair_value (h, l) + unat b"
proof -
  have "unat (0xFFFFFFFF - l) = 4294967295 - unat l"
    using unat_32 [of l] by (simp add: unat_sub word_le_nat_alt)
  then have carry: "0xFFFFFFFF - l < b \<longleftrightarrow> 4294967296 \<le> unat l + unat b"
    using unat_32 [of l] by (auto simp: word_less_nat_alt)
  show ?thesis
  proof (cases "0xFFFFFFFF - l < b")
    case True
    then have c: "4294967296 \<le> unat l + unat b" using carry by simp
    then have "unat (l + b) = unat l + unat b - 4294967296"
      using unat_32 [of l] unat_32 [of b] by (simp add: unat_word_ariths mod_if)
    moreover have "unat (h + 1) = unat h + 1"
      using assms c unat_32 [of h] by (simp add: unat_word_ariths pair_value_def)
    ultimately show ?thesis using True c by (simp add: pair_value_def)
  next
    case False
    then have "unat (l + b) = unat l + unat b" using carry by (simp add: unat_word_ariths)
    with False show ?thesis by (simp add: pair_value_def)
  qed
qed

lemma mult_round_value:
  assumes "2 * pair_value hl + unat b < 2 ^ 64"
  shows "pair_value (mult_round a b i hl) = 2 * pair_value hl + (if bit a (30 - i) then unat b else 0)"
proof -
  obtain h l where hl: "hl = (h, l)" by (cases hl)
  let ?h = "push_bit 1 h + (drop_bit 31 l AND 1)" and ?l = "push_bit 1 l"
  have s: "pair_value (?h, ?l) = 2 * pair_value hl" using shift_pair [of h l] assms hl by simp
  have b: "drop_bit (30 - i) a AND 1 = 1 \<longleftrightarrow> bit a (30 - i)"
    by (simp add: and_one_eq bit_iff_odd_drop_bit mod2_eq_if)
  have "pair_value (if 0xFFFFFFFF - ?l < b then ?h + 1 else ?h, ?l + b) = pair_value (?h, ?l) + unat b"
    by (rule add_pair) (use assms s in simp)
  then show ?thesis
    unfolding mult_round_def hl Let_def prod.case b
    by (cases "bit a (30 - i)") (simp_all only: if_True if_False s hl add_0_right)
qed

text \<open>After \<open>k\<close> rounds the pair holds the product with the upper \<open>k + 1\<close> bits of the first operand.\<close>

lemma top_bit: "a AND 0x80000000 \<noteq> 0 \<longleftrightarrow> bit (a :: 32 word) 31"
  using and_exp_eq_0_iff_not_bit [of a 31] by simp

lemma bit_unat: "n < 32 \<Longrightarrow> bit (a :: 32 word) n \<longleftrightarrow> odd (unat a div 2 ^ n)"
proof -
  assume "n < 32"
  then have "bit (unat a) n \<longleftrightarrow> bit a n" by (simp add: bit_unsigned_iff)
  then show ?thesis by (simp add: bit_iff_odd)
qed

lemma mult_rounds:
  assumes "k \<le> 31"
  shows "pair_value (fold (mult_round a b) [0..<k] (0, if a AND 0x80000000 \<noteq> 0 then b else 0)) =
    unat a div 2 ^ (31 - k) * unat b"
  using assms
proof (induction k)
  case 0
  have "unat a div 2 ^ 31 < 2" using unat_32 [of a] by simp
  then have "unat a div 2 ^ 31 = of_bool (bit a 31)"
    unfolding bit_unat [of 31 a, simplified] by (cases "unat a div 2 ^ 31 = 0") (auto simp: less_2_cases_iff)
  then show ?case by (simp add: pair_value_def top_bit)
next
  case (Suc k)
  let ?p = "fold (mult_round a b) [0..<k] (0, if a AND 0x80000000 \<noteq> 0 then b else 0)"
  let ?x = "unat a div 2 ^ (30 - k)"
  have e: "31 - k = Suc (30 - k)" using Suc.prems by simp
  have half: "unat a div 2 ^ (31 - k) = ?x div 2" by (simp add: e div_mult2_eq [symmetric] mult.commute)
  have IH: "pair_value ?p = ?x div 2 * unat b" using Suc half by simp
  have bitk: "?x = 2 * (?x div 2) + (if bit a (30 - k) then 1 else 0)"
    by (simp add: bit_unat)
  have "?x \<le> unat a" by simp
  then have "2 * (?x div 2) + 1 \<le> 4294967296" using unat_32 [of a] by linarith
  then have "(2 * (?x div 2) + 1) * unat b \<le> 4294967296 * unat b" by (rule mult_le_mono1)
  also have "\<dots> < 2 ^ 64" using unat_32 [of b] by simp
  finally have "2 * pair_value ?p + unat b < 2 ^ 64" by (simp add: IH algebra_simps)
  from mult_round_value [OF this, of a k]
  have "pair_value (mult_round a b k ?p) = 2 * (?x div 2) * unat b + (if bit a (30 - k) then unat b else 0)"
    by (simp add: IH)
  also have "\<dots> = ?x * unat b" by (subst (2) bitk) (simp add: algebra_simps)
  finally show ?case using Suc.prems by simp
qed

lemma mult_loop_product: "pair_value (mult_loop a b) = unat a * unat b"
  using mult_rounds [of 31 a b] by (simp add: mult_loop_def)

text \<open>The two's complement of a pair, as \<open>MULT\<close> computes it.\<close>

definition negate_pair :: "32 word \<times> 32 word \<Rightarrow> 32 word \<times> 32 word" where
  "negate_pair hl = (let (h, l) = hl in (if NOT l = 0xFFFFFFFF then NOT h + 1 else NOT h, NOT l + 1))"

lemma mult_signed_alt:
  "mult_signed a b =
     (let p = mult_loop (if sint a < 0 then - a else a) (if sint b < 0 then - b else b)
      in if (sint a < 0) \<noteq> (sint b < 0) then negate_pair p else p)"
proof -
  have s: "x AND 0x80000000 \<noteq> 0 \<longleftrightarrow> sint x < 0" for x :: "32 word"
    using bit_last_iff [of x] by (simp add: top_bit)
  have n: "NOT x + 1 = - x" for x :: "32 word" by (simp add: minus_eq_not_plus_1)
  show ?thesis
    unfolding mult_signed_def s n negate_pair_def Let_def by (auto split: prod.splits)
qed

text \<open>The pair as a word of 64 bits.\<close>

definition pair_word :: "32 word \<times> 32 word \<Rightarrow> 64 word" where
  "pair_word hl = of_nat (pair_value hl)"

lemma unat_NOT: "unat (NOT x) = 4294967295 - unat (x :: 32 word)"
proof -
  have "x + NOT x = 0xFFFFFFFF" by (simp add: not_eq_complement)
  then have "unat (x + NOT x) = unat (0xFFFFFFFF :: 32 word)" by (simp only:)
  moreover have "unat (0xFFFFFFFF :: 32 word) = 4294967295" by (simp add: unsigned_minus_1_eq_mask mask_eq_exp_minus_1)
  ultimately have "(unat x + unat (NOT x)) mod 4294967296 = 4294967295"
    by (simp only: unat_word_ariths len_bit0 len_num1) simp
  then show ?thesis using unat_32 [of x] unat_32 [of "NOT x"] by (auto simp: mod_if split: if_splits)
qed

lemma unat_minus: "x \<noteq> 0 \<Longrightarrow> unat (- x) = 4294967296 - unat (x :: 32 word)"
proof -
  assume x: "x \<noteq> 0"
  have "unat (x + - x) = 0" by simp
  then have "(unat x + unat (- x)) mod 4294967296 = 0" by (simp only: unat_word_ariths) simp
  moreover have "unat x \<noteq> 0" using x by (simp add: unat_eq_zero)
  ultimately show ?thesis using unat_32 [of x] unat_32 [of "- x"] by (auto simp: mod_if split: if_splits)
qed

lemma negate_pair_word: "pair_word (negate_pair hl) = - pair_word hl"
proof -
  obtain h l where hl: "hl = (h, l)" by (cases hl)
  have n: "NOT x + 1 = - x" "NOT x = 0xFFFFFFFF \<longleftrightarrow> x = 0" for x :: "32 word"
  proof -
    show "NOT x + 1 = - x" by (simp add: minus_eq_not_plus_1)
    have "(0xFFFFFFFF :: 32 word) = NOT 0" by simp
    then show "NOT x = 0xFFFFFFFF \<longleftrightarrow> x = 0" by (simp only: bit.compl_eq_compl_iff)
  qed
  have "pair_value (negate_pair hl) + pair_value hl \<in> {0, 18446744073709551616}"
  proof (cases "l = 0")
    case True
    then show ?thesis using unat_minus [of h] unat_32 [of h]
      by (cases "h = 0") (simp_all add: negate_pair_def hl n pair_value_def)
  next
    case False
    then show ?thesis using unat_minus [of l] unat_32 [of l] unat_32 [of h]
      by (simp add: negate_pair_def hl n unat_NOT pair_value_def)
  qed
  then have "(of_nat (pair_value (negate_pair hl) + pair_value hl) :: 64 word) = 0"
    by (elim insertE emptyE) (simp_all only:, simp_all)
  then show ?thesis by (simp add: pair_word_def eq_neg_iff_add_eq_0)
qed

lemma sint_unat: "int (unat x) = (if sint (x :: 32 word) < 0 then sint x + 4294967296 else sint x)"
proof -
  have "int (unat x) = uint x" by (rule of_nat_unat)
  then have u: "int (unat x) = sint x mod 4294967296"
    by (simp only: uint_sint take_bit_eq_mod len_bit0 len_num1) simp
  have r: "- 2147483648 \<le> sint x" "sint x < 2147483648"
    using sint_greater_eq [of x] sint_less [of x] by simp_all
  show ?thesis
  proof (cases "sint x < 0")
    case True
    have "sint x mod 4294967296 = (sint x + 4294967296) mod 4294967296" by simp
    also have "\<dots> = sint x + 4294967296" by (rule mod_pos_pos_trivial) (use True r in simp_all)
    finally show ?thesis using u True by (simp only: if_True)
  next
    case False
    then have "sint x mod 4294967296 = sint x" by (intro mod_pos_pos_trivial) (use r in simp_all)
    then show ?thesis using u False by (simp only: if_False)
  qed
qed

lemma sint_magnitude: "int (unat (if sint x < 0 then - x else x)) = \<bar>sint (x :: 32 word)\<bar>"
proof (cases "sint x < 0")
  case True
  then have "x \<noteq> 0" by auto
  moreover have "sint x = int (unat x) - 4294967296" using True sint_unat [of x] by simp
  ultimately show ?thesis using True unat_minus [of x] unat_32 [of x] by simp
next
  case False
  then have "sint x = int (unat x)" using sint_unat [of x] by simp
  with False show ?thesis by simp
qed

lemma mult_signed_product: "pair_word (mult_signed a b) = of_int (sint a * sint b)"
proof -
  let ?m = "\<lambda>x :: 32 word. if sint x < 0 then - x else x"
  let ?p = "mult_loop (?m a) (?m b)"
  have "pair_word ?p = of_int (int (unat (?m a)) * int (unat (?m b)))"
    by (simp only: pair_word_def mult_loop_product of_nat_mult of_int_mult of_int_of_nat_eq)
  then have p: "pair_word ?p = of_int (\<bar>sint a\<bar> * \<bar>sint b\<bar>)" by (simp only: sint_magnitude)
  show ?thesis
  proof (cases "(sint a < 0) \<noteq> (sint b < 0)")
    case True
    then have "\<bar>sint a\<bar> * \<bar>sint b\<bar> = - (sint a * sint b)" by (auto simp: abs_if)
    with True p show ?thesis by (simp add: mult_signed_alt Let_def negate_pair_word)
  next
    case False
    then have "\<bar>sint a\<bar> * \<bar>sint b\<bar> = sint a * sint b" by (auto simp: abs_if)
    with False p show ?thesis by (simp add: mult_signed_alt Let_def)
  qed
qed

text \<open>C11. The multiplications are exact: \<open>MULT\<close> leaves the 64-bit product of the signed values in \<open>HI\<close> and \<open>LO\<close>,
  \<open>MULTU\<close> the product of the unsigned ones, though both are computed by 31 rounds of shifts and additions
  with a hand-made carry (also for the operand \<open>0x80000000\<close>, which is its own negation).\<close>

theorem mult_instructions:
  "(\<exists>h l. int_effect MULT inst p = Sets [W_HI h, W_LO l] \<and>
     pair_word (h, l) = of_int (sint (GPR (RS inst) p) * sint (GPR (RT inst) p))) \<and>
   (\<exists>h l. int_effect MULTU inst p = Sets [W_HI h, W_LO l] \<and>
     pair_value (h, l) = unat (GPR (RS inst) p) * unat (GPR (RT inst) p))"
  using mult_signed_product [of "GPR (RS inst) p" "GPR (RT inst) p"]
    mult_loop_product [of "GPR (RS inst) p" "GPR (RT inst) p"]
  by (auto simp: int_effect_def split: prod.splits)

section \<open>Overflow\<close>

lemma sint_range: "- 2147483648 \<le> sint (x :: 32 word)" "sint (x :: 32 word) < 2147483648"
  using sint_greater_eq [of x] sint_less [of x] by simp_all

text \<open>C35. The overflow tests against the exact sum and difference: they hold when the result does not fit 32 bits,
  and besides when it is exactly the smallest number; \<open>UNDER\<close> misses \<open>0 - 0x80000000\<close>.\<close>

theorem overflow_tests:
  "(OVER x y \<longleftrightarrow> sint x + sint y < - 2147483648 \<or> 2147483647 < sint x + sint y \<or>
      sint x + sint y = - 2147483648 \<and> sint x < 0 \<and> sint y < 0) \<and>
   (UNDER x y \<longleftrightarrow> (sint x - sint y < - 2147483648 \<or> 2147483647 < sint x - sint y) \<and> sint x \<noteq> 0 \<or>
      sint x - sint y = - 2147483648 \<and> sint x < 0 \<and> 0 < sint y)"
  unfolding OVER_def UNDER_def MAXINT_VAL_def
  using sint_range [of x] sint_range [of y] by (intro conjI) arith+

section \<open>The delay of a division\<close>

definition leading_zero :: "32 word \<Rightarrow> nat" where
  "leading_zero a = (case find (\<lambda>i. a AND push_bit (31 - i) 1 \<noteq> 0) [0..<32] of None \<Rightarrow> 32 | Some i \<Rightarrow> i)"

text \<open>\<open>ffs\<close> of the C library: one more than the place of the lowest bit, 0 for 0.\<close>

definition ffs :: "32 word \<Rightarrow> nat" where
  "ffs w = (case find (bit w) [0..<32] of None \<Rightarrow> 0 | Some i \<Rightarrow> i + 1)"

text \<open>\<open>czero\<close> is \<open>-1\<close> for a quotient of 0, and half of that is 0 in C. Only a divisor with more leading
  zeros than the dividend, which is then smaller, costs more than one cycle.\<close>

definition calculate_div_delay :: "32 word \<Rightarrow> 32 word \<Rightarrow> int" where
  "calculate_div_delay a b =
     (let azero = int (leading_zero a); bzero = int (leading_zero b);
          czero = (if b \<noteq> 0 \<and> a mod b = 0 then int (ffs (a div b)) - 1 else 0);
          res = (if azero < bzero then (bzero - azero) div 2 + 4 - (if czero < 0 then 0 else czero div 2) else 0)
      in if 0 < res then res else 1)"

text \<open>C36. A division takes at least one and at most twenty cycles, and exactly one when the divisor has no more
  leading zeros than the dividend.\<close>

theorem div_delay_bounds:
  "1 \<le> calculate_div_delay a b \<and> calculate_div_delay a b \<le> 20 \<and>
   (leading_zero a < leading_zero b \<or> calculate_div_delay a b = 1)"
proof -
  define c where "c = (if b \<noteq> 0 \<and> a mod b = 0 then int (ffs (a div b)) - 1 else 0)"
  define h where "h = (if c < 0 then 0 else c div 2)"
  define d where "d = (int (leading_zero b) - int (leading_zero a)) div 2"
  have "leading_zero b \<le> 32"
    by (auto simp: leading_zero_def find_Some_iff split: option.split)
  then have d: "d \<le> 16" by (simp add: d_def)
  have h: "0 \<le> h" by (simp add: h_def)
  have e: "calculate_div_delay a b = (let res = (if leading_zero a < leading_zero b then d + 4 - h else 0)
      in if 0 < res then res else 1)"
    unfolding calculate_div_delay_def Let_def h_def c_def d_def by (simp only: of_nat_less_iff)
  show ?thesis using d h unfolding e Let_def by (simp split: if_splits)
qed

end
