(* ===== verification/Spec2Isabelle.thy ===== *)
theory Spec2Isabelle
  imports EventQueue Memory System Wavefront Producers Recovery Execution Muldiv
begin

text \<open>
  A verification development for \<^verbatim>\<open>sim-godson\<close>, a cycle simulator of a many-core processor with out-of-order
  MIPS cores, private L1 caches, a shared banked L2 with a directory, and a mesh network between the cores.

  The program. Everything in the simulator happens in an event queue (eventq.c). Each core
  (\<^verbatim>\<open>struct godson2_cpu\<close>) re-queues its own cycle, in which the stages of the pipeline run from commit to
  fetch, \<^verbatim>\<open>cache2mem\<close> (cache2mem.c) moves L1 misses, write-backs and coherence requests one step, the router
  (noc.c with the arbiter of noc_rr.c or noc_wf.c) moves packets one hop, and \<^verbatim>\<open>check_memq\<close> advances the
  memory. Delayed effects (the L2 probe, the L2 refill and write-back, the arrival of a flit, the return of
  a credit) are callbacks in the queue. The caches (cache.c) keep lines with MESI states; the home L2 of a
  line keeps a directory of the L1 caches that hold it and modifies them by intervention packets before it
  grants the line. An instruction is executed when it is decoded (decode.c with mips.def), on the right path
  with a log of what it overwrites, on a wrong path on a copy of the registers and a table of stores; the
  later stages only give it its time, and a misprediction or a flush undoes it.

  The theories of the memory system, in the order of the calls:
  \<^item> \<open>Prelude\<close>: partial transformers that keep an invariant or stay in a relation, circular scans, walks
    over sorted lists, counting;
  \<^item> \<open>Bitmap\<close> (bitmap.h), \<open>EventQueue\<close> (eventq.c, eventq.h), \<open>Memory\<close> (memory.c, memory.h);
  \<^item> \<open>Insts\<close>, \<open>Cpu\<close>: operation codes, instruction descriptors and the records of bpred.h, cache.h,
    godson2_cpu.h and noc.h, and the address macros;
  \<^item> \<open>MissQueue\<close>: free lists, the memory queue and its timing, entry states (cache2mem.c);
  \<^item> \<open>WayList\<close>: the pointer structure of a cache set and \<^verbatim>\<open>update_way_list\<close> (cache.c);
  \<^item> \<open>Cache\<close>: lookup, translation, replacement, refill, fast-forwarding accesses (cache.c);
  \<^item> \<open>Router\<close>, \<open>InputBuffer\<close>, \<open>Arbitration\<close>, \<open>Wavefront\<close>: the mesh router, its buffers as queues, the
    two arbiters (noc.c, noc_rr.c, noc_wf.c);
  \<^item> \<open>Coherence\<close>: the L1 interventions and the L2 with its directory (cache2mem.c);
  \<^item> \<open>Cache2mem\<close>: the cycle of the miss and write-back queues (\<^verbatim>\<open>cache2mem\<close>);
  \<^item> \<open>Credits\<close>, \<open>Directory\<close>: what a whole cycle keeps of the home credits, of time and of the directory;
  \<^item> \<open>Lsq\<close>: the load-store queue (lsq.c), where stores are forwarded and refill packets reach the L1;
  \<^item> \<open>System\<close>: the cycle of a core (\<^verbatim>\<open>cpu_execute\<close> of simulate.c), the functions the event queue calls
    back, and the interface of the event queue interpreted on them.

  The theories of the pipeline:
  \<^item> \<open>Bpred\<close>: the branch predictors (bpred.c);
  \<^item> \<open>Specmem\<close>, \<open>Tracer\<close>: the table of wrong-path stores, the logged accesses to registers and memory, and
    \<^verbatim>\<open>tracer_recover\<close> (decode.c, \<^verbatim>\<open>recover_data\<close> of commit.c);
  \<^item> \<open>Opcodes\<close>: instruction words, the list of mips.def and the decoder built from it (mips.c, mips.h);
  \<^item> \<open>Mips\<close>: the effect, the faults and the dependences of every instruction (mips.def);
  \<^item> \<open>Execution\<close>, \<open>Muldiv\<close>: what the instructions do to the state, and the arithmetic of multiplication,
    overflow tests and division delays;
  \<^item> \<open>Producers\<close>: the create vector, which names the producer of a register (decode.c);
  \<^item> \<open>Resources\<close>, \<open>Issue\<close>: functional units and the issue stage (resource.c, issue.c);
  \<^item> \<open>Backend\<close>: map, write-back, branch resolution and commit (map.c, writeback.c, commit.c);
  \<^item> \<open>Window\<close>, \<open>Recovery\<close>: the reorder and branch queues as windows of one sequence of instructions, and
    what branch recovery and a pipeline flush keep and restore.

  How state is modelled. Global variables and the array \<^verbatim>\<open>cpus\<close> are one record (\<open>sys\<close>), which extends
  the state of the event queue; the cores are a function from their number to a record. Arrays are
  functions from indices, block pointers are pairs of set and way, packets are values held by the one
  slot that points to them, a pointer to an instruction descriptor is its number. An index that may be -1
  is an option. Every failed assertion, panic and NULL dereference is \<open>None\<close>; a function that returns a
  flag returns it with the new state. Registers and words that the code masks and shifts are \<open>32 word\<close>;
  counters and credits, which the code tests for being negative, are integers. The build is the one of the
  Makefile on a little-endian host: MESI, no DVFS, round-robin arbiter, no system mode. The floating-point
  arithmetic of the host and the system calls are parameters of \<open>exec_inst\<close>.

  What the theorems show. The event queue keeps events in order and its service loop returns. Memory
  reads return what was written. Cache probes make the MESI transitions, and a replaced line is found
  again. Input buffers are first-in first-out queues, both
  arbiters grant matchings of inputs and free outputs, the round-robin one starves no input and X-Y
  routing approaches the destination with every hop. The memory queue loses no request and answers
  after the configured delays. A cycle of a core conserves the home credits, so the credit events pass
  their assertions and a delivered packet is always accepted. The directory never shows two owners of an
  exclusive line, a line is granted exclusively only to a sole holder, and the directory changes only
  after all copies have acknowledged. Loads wait for exactly the bytes no older store provides, stores
  forward exactly the bytes they are the nearest writer of, and a store whose line was taken away is not
  written. The cores run in lockstep and time never goes back.

  In the pipeline, the decoder ends for every word and agrees with mips.def for every word whose
  selectors it documents; an instruction on the right path is undone exactly by its log, one on a wrong path
  changes nothing but its own level and never faults, and every instruction changes only the registers it
  declares, up to the listed exceptions. Multiplications are exact, and the overflow tests are compared
  with exact arithmetic. A wrong-path load sees the last wrong-path store, and recovery releases exactly the
  stores of the squashed paths. The create vector names consecutive levels of producers and forgets a
  finished instruction. Branch recovery keeps exactly the instructions up to the branch or its delay slot,
  with all queues and counters in step, and a pipeline flush gives back the state before the oldest
  instruction. Every operation of the branch predictor keeps its tables, counters and stack in range.

  Loops. Loops over arrays are folds over index lists; circular scans are \<open>ring_scan\<close>, which looks at
  every slot once. The service loop of the event queue is a \<open>partial_function\<close>, with a theorem that it
  returns when the handlers queue nothing, and one about its first turns for the real handlers, which
  always queue the next cycle. The loop of the decoder has the fuel 4; \<open>decoder_total\<close> shows that no word
  needs more. Other loops with a bound of the code's own take it as fuel.

  Not modelled: the loops \<open>fetch_stage\<close> and \<open>decode_stage\<close> around the decoder and the instructions (so
  \<open>cpu_execute\<close> is defined for cores that run no program, which still serve memory and network), the timing
  models inherited from sim-alpha (bus, dram, mem, cache\_timing), the worm-hole router, host system calls
  and loading, the option and statistics packages, and the power and cacti estimators; the manifest gives
  the reason for each.
\<close>

end
